(* ===== verification/Prelude.thy ===== *)
theory Prelude
  imports Main "HOL-Library.Word"
begin

text \<open>
  Shared ground of the development: the fixed-width integer types of \<^verbatim>\<open>src/util.h\<close>, the outcome of a
  C function that may call \<^verbatim>\<open>fatal_error\<close> or not return at all, and the generic facts on words,
  lists and outcomes that the component theories use.
\<close>

unbundle bit_operations_syntax

section \<open>Integer types\<close>

type_synonym u8 = "8 word"
type_synonym u16 = "16 word"
type_synonym u32 = "32 word"
type_synonym u64 = "64 word"
type_synonym u128 = "128 word"

text \<open>A \<^verbatim>\<open>void *\<close> and a \<^verbatim>\<open>size_t\<close> are 64-bit values; \<^verbatim>\<open>NULL\<close> is 0.\<close>

type_synonym ptr = u64
type_synonym size_t = u64

abbreviation NULL :: ptr where "NULL \<equiv> 0"

section \<open>Outcomes\<close>

text \<open>
  A C function of the allocator either returns, or aborts the process through \<^verbatim>\<open>fatal_error(msg)\<close>,
  or (rejection sampling only) may loop for ever.
\<close>

datatype 'a outcome = Returned 'a | Aborted string | Diverged

fun bind_o :: "'a outcome \<Rightarrow> ('a \<Rightarrow> 'b outcome) \<Rightarrow> 'b outcome" where
  "bind_o (Returned x) f = f x"
| "bind_o (Aborted msg) f = Aborted msg"
| "bind_o Diverged f = Diverged"

definition join_o :: "'a outcome option \<Rightarrow> 'a outcome" where
  "join_o r = (case r of None \<Rightarrow> Diverged | Some x \<Rightarrow> x)"

named_theorems outcome_simps \<open>decompose a returned outcome\<close>
named_theorems outcome_steps \<open>name the parts of a returned tuple\<close>
named_theorems unat_simps \<open>move word arithmetic to natural numbers\<close>

lemma bind_o_Returned_iff [outcome_simps]:
  "bind_o m f = Returned y \<longleftrightarrow> (\<exists>x. m = Returned x \<and> f x = Returned y)"
  by (cases m) auto

text \<open>The same for continuations that take a pair or a triple apart.\<close>

lemma bind_o_pair [outcome_steps]:
  "bind_o m (\<lambda>(a, b). f a b) = Returned y \<longleftrightarrow> (\<exists>a b. m = Returned (a, b) \<and> f a b = Returned y)"
  by (cases m) auto

lemma bind_o_triple [outcome_steps]:
  "bind_o m (\<lambda>(a, b, c). f a b c) = Returned y \<longleftrightarrow> (\<exists>a b c. m = Returned (a, b, c) \<and> f a b c = Returned y)"
  by (cases m) auto

lemma bind_o_Aborted_iff [outcome_simps]:
  "bind_o m f = Aborted e \<longleftrightarrow> m = Aborted e \<or> (\<exists>x. m = Returned x \<and> f x = Aborted e)"
  by (cases m) auto

lemma join_o_simps [simp]: "join_o (Some r) = r" "join_o None = Diverged"
  by (simp_all add: join_o_def)

lemma join_o_Returned_iff [outcome_simps]: "join_o r = Returned x \<longleftrightarrow> r = Some (Returned x)"
  by (cases r) (auto simp: join_o_def)

lemma bind_o_assoc: "bind_o (bind_o m f) g = bind_o m (\<lambda>x. bind_o (f x) g)"
  by (cases m) auto

lemma bind_o_return [simp]: "bind_o m Returned = m"
  by (cases m) auto

text \<open>A call that neither aborts nor loops.\<close>

definition returns :: "'a outcome \<Rightarrow> bool" where
  "returns m \<longleftrightarrow> (\<exists>x. m = Returned x)"

lemma returns_simps [simp]: "returns (Returned x)" "\<not> returns (Aborted msg)" "\<not> returns Diverged"
  by (simp_all add: returns_def)

lemma returns_bind [intro]:
  "returns m \<Longrightarrow> (\<And>x. m = Returned x \<Longrightarrow> returns (f x)) \<Longrightarrow> returns (bind_o m f)"
  by (auto simp: returns_def)

text \<open>
  A condition on the result of a call, if there is one: partial correctness, with a rule for sequences of calls.
\<close>

definition all_o :: "('a \<Rightarrow> bool) \<Rightarrow> 'a outcome \<Rightarrow> bool" where
  "all_o P m \<longleftrightarrow> (\<forall>x. m = Returned x \<longrightarrow> P x)"

lemma all_o_simps [simp]: "all_o P (Returned x) \<longleftrightarrow> P x" "all_o P (Aborted msg)" "all_o P Diverged"
  by (simp_all add: all_o_def)

lemma all_oI: "(\<And>x. m = Returned x \<Longrightarrow> P x) \<Longrightarrow> all_o P m"
  by (simp add: all_o_def)

lemma all_oD: "all_o P m \<Longrightarrow> m = Returned x \<Longrightarrow> P x"
  by (simp add: all_o_def)

lemma all_o_bind: "all_o P m \<Longrightarrow> (\<And>x. P x \<Longrightarrow> all_o Q (f x)) \<Longrightarrow> all_o Q (bind_o m f)"
  by (cases m) simp_all

lemma all_o_mono: "all_o P m \<Longrightarrow> (\<And>x. P x \<Longrightarrow> Q x) \<Longrightarrow> all_o Q m"
  by (simp add: all_o_def)

lemma option_eqI: "(\<And>e. a = Some e \<longleftrightarrow> b = Some e) \<Longrightarrow> a = b"
  by (cases a) (metis option.distinct(1) option.exhaust)+

section \<open>Words as natural numbers\<close>

lemma unat_push_bit [unat_simps]:
  "unat (push_bit n (w :: 'a::len word)) = unat w * 2 ^ n mod 2 ^ LENGTH('a)"
  unfolding unsigned_push_bit_eq by (simp only: push_bit_eq_mult take_bit_eq_mod)

lemma unat_drop_bit [unat_simps]: "unat (drop_bit n (w :: 'a::len word)) = unat w div 2 ^ n"
  unfolding unat_drop_bit_eq by (simp only: drop_bit_eq_div)

lemma unat_ucast [unat_simps]:
  "unat (ucast (w :: 'a::len word) :: 'b::len word) = unat w mod 2 ^ LENGTH('b)"
  by (simp only: unsigned_ucast_eq take_bit_eq_mod)

lemma unat_lt_pow: "LENGTH('a::len) \<le> n \<Longrightarrow> unat (w :: 'a word) < 2 ^ n"
  using unsigned_less [of w, where ?'a = nat] by (meson less_le_trans one_le_numeral power_increasing)

lemma unat_ucast_up [simp]:
  "LENGTH('a::len) \<le> LENGTH('b::len) \<Longrightarrow> unat (ucast (w :: 'a word) :: 'b word) = unat w"
  by (simp add: unat_ucast unat_lt_pow)

lemma unat_ucast_small:
  "unat (w :: 'a::len word) < 2 ^ LENGTH('b) \<Longrightarrow> unat (ucast w :: 'b::len word) = unat w"
  by (simp add: unat_ucast)

lemma unat_and_mask [unat_simps]:
  "unat (w AND mask n :: 'a::len word) = unat w mod 2 ^ n"
  unfolding take_bit_eq_mask [symmetric] unsigned_take_bit_eq by (simp only: take_bit_eq_mod)

lemma word_and_not_mask: "(w :: 'a::len word) AND NOT (mask n) = push_bit n (drop_bit n w)"
  by (rule bit_eqI) (auto simp: bit_simps)

lemma unat_and_not_mask [unat_simps]:
  "unat (w AND NOT (mask n) :: 'a::len word) = unat w div 2 ^ n * 2 ^ n"
proof -
  have "unat w div 2 ^ n * 2 ^ n < 2 ^ LENGTH('a)"
    by (rule le_less_trans [OF _ unsigned_less [of w]]) (simp add: mult.commute)
  then show ?thesis
    by (simp only: word_and_not_mask unat_push_bit unat_drop_bit mod_less)
qed

lemma unat_mult_lt:
  "unat (a :: 'a::len word) * unat b < 2 ^ LENGTH('a) \<Longrightarrow> unat (a * b) = unat a * unat b"
  by (simp add: unat_word_ariths)

lemma unat_add_lt:
  "unat (a :: 'a::len word) + unat b < 2 ^ LENGTH('a) \<Longrightarrow> unat (a + b) = unat a + unat b"
  by (simp add: unat_word_ariths)

lemma unat_2p: "n < LENGTH('a) \<Longrightarrow> unat (2 ^ n :: 'a::len word) = 2 ^ n"
  using unat_push_bit [of n "1 :: 'a word"] by (simp add: push_bit_eq_mult)

lemma word_2p_minus_1: "(2 ^ n - 1 :: 'a::len word) = mask n"
  by (simp add: mask_eq_decr_exp)

end
