(* ===== verification/Util.thy ===== *)
theory Util
  imports Prelude
begin

text \<open>
  \<^verbatim>\<open>src/util.h\<close>: bit scans, rounding to an alignment, and the packed array of 4-bit values that stores
  memory tags. The compiler builtins are modelled on 64-bit words: \<^verbatim>\<open>__builtin_ffsll\<close> is one plus the
  index of the lowest set bit (0 for no set bit), \<^verbatim>\<open>__builtin_clzll\<close> counts the leading zeros (its
  value on 0, undefined in C, is 64 here; no caller passes 0).
\<close>

section \<open>Bit scans\<close>

abbreviation (input) U64_WIDTH :: nat where "U64_WIDTH \<equiv> 64"

definition builtin_ffsll :: "u64 \<Rightarrow> nat" where
  "builtin_ffsll x = (case List.find (bit x) [0..<64] of None \<Rightarrow> 0 | Some i \<Rightarrow> Suc i)"

definition builtin_clzll :: "u64 \<Rightarrow> nat" where
  "builtin_clzll x = length (takeWhile (\<lambda>i. \<not> bit x i) (rev [0..<64]))"

definition ffz64 :: "u64 \<Rightarrow> nat" where
  "ffz64 x = builtin_ffsll (NOT x)"

definition clz64 :: "u64 \<Rightarrow> nat" where
  "clz64 x = builtin_clzll x"

definition log2u64 :: "u64 \<Rightarrow> u64" where
  "log2u64 x = of_nat U64_WIDTH - of_nat (clz64 x) - 1"

definition align :: "size_t \<Rightarrow> size_t \<Rightarrow> size_t" where
  "align sz al = (let m = al - 1 in (sz + m) AND NOT m)"

section \<open>Packed arrays of 4-bit values\<close>

definition u4_arr_set :: "u8 list \<Rightarrow> nat \<Rightarrow> u8 \<Rightarrow> u8 list" where
  "u4_arr_set arr idx val =
     (let off = idx div 2; shift = (idx mod 2) * 4; mask = drop_bit shift (0xf0 :: u8)
      in arr[off := (arr ! off AND mask) OR push_bit shift val])"

definition u4_arr_get :: "u8 list \<Rightarrow> nat \<Rightarrow> u8" where
  "u4_arr_get arr idx =
     (let off = idx div 2; shift = (idx mod 2) * 4 in drop_bit shift (arr ! off) AND 0xf)"

section \<open>Facts\<close>

lemma find_upt_Some:
  "List.find P [0..<n] = Some i \<longleftrightarrow> i < n \<and> P i \<and> (\<forall>j<i. \<not> P j)"
  unfolding find_Some_iff by auto

lemma find_upt_None: "List.find P [0..<n] = None \<longleftrightarrow> (\<forall>i<n. \<not> P i)"
  by (auto simp: find_None_iff)

lemma ffz64_eq_0_iff: "ffz64 x = 0 \<longleftrightarrow> x = NOT 0"
proof -
  have "ffz64 x = 0 \<longleftrightarrow> (\<forall>i<64. bit x i)"
    by (auto simp: ffz64_def builtin_ffsll_def find_upt_None find_upt_Some bit_simps
        split: option.splits)
  also have "\<dots> \<longleftrightarrow> x = NOT 0"
    by (auto simp: bit_eq_iff bit_simps)
  finally show ?thesis .
qed

lemma ffz64_Suc_iff: "ffz64 x = Suc i \<longleftrightarrow> i < 64 \<and> \<not> bit x i \<and> (\<forall>j<i. bit x j)"
  by (auto simp: ffz64_def builtin_ffsll_def find_upt_None find_upt_Some bit_simps
      split: option.splits) (metis linorder_neqE_nat)

text \<open>The first zero bit is found exactly when the word is not all ones.\<close>

lemma ffz64_first_zero:
  assumes "x \<noteq> NOT 0"
  shows "0 < ffz64 x" "ffz64 x - 1 < 64" "\<not> bit x (ffz64 x - 1)" "j < ffz64 x - 1 \<Longrightarrow> bit x j"
proof -
  from assms obtain i where i: "ffz64 x = Suc i"
    using ffz64_eq_0_iff not0_implies_Suc by blast
  with ffz64_Suc_iff [of x i] show "0 < ffz64 x" "ffz64 x - 1 < 64" "\<not> bit x (ffz64 x - 1)"
    "j < ffz64 x - 1 \<Longrightarrow> bit x j"
    by auto
qed

lemma takeWhile_rev_upt:
  assumes "i < n" "P i" "\<forall>j. i < j \<and> j < n \<longrightarrow> \<not> P j"
  shows "length (takeWhile (\<lambda>i. \<not> P i) (rev [0..<n])) = n - Suc i"
proof -
  have "[0..<n] = [0..<i] @ i # [Suc i..<n]"
    using assms(1) by (metis le0 less_imp_le_nat upt_add_eq_append le_add_diff_inverse upt_conv_Cons)
  then have "rev [0..<n] = rev [Suc i..<n] @ i # rev [0..<i]"
    by simp
  moreover have "takeWhile (\<lambda>i. \<not> P i) (rev [Suc i..<n] @ i # rev [0..<i]) = rev [Suc i..<n]"
    using assms by (subst takeWhile_append2) auto
  ultimately show ?thesis
    by simp
qed

lemma bit_unat_top:
  fixes x :: "'a::len word"
  assumes "2 ^ k \<le> unat x" "unat x < 2 ^ Suc k"
  shows "k < LENGTH('a)" "bit x k" "\<forall>j. k < j \<and> j < LENGTH('a) \<longrightarrow> \<not> bit x j"
proof -
  have "(2::nat) ^ k < 2 ^ LENGTH('a)"
    using assms(1) unat_lt_pow [OF order_refl, of x] by (rule le_less_trans)
  then show "k < LENGTH('a)"
    by (metis power_less_imp_less_exp one_less_numeral_iff semiring_norm(76))
  have "unat x div 2 ^ k = 1"
    using assms by (intro div_nat_eqI) auto
  then have "bit (unat x) k"
    by (simp add: bit_iff_odd)
  then show "bit x k"
    by (simp add: bit_unsigned_iff)
  show "\<forall>j. k < j \<and> j < LENGTH('a) \<longrightarrow> \<not> bit x j"
  proof (intro allI impI)
    fix j assume j: "k < j \<and> j < LENGTH('a)"
    then have "(2::nat) ^ Suc k \<le> 2 ^ j" by (intro power_increasing) auto
    with assms(2) have "unat x div 2 ^ j = 0" by simp
    then have "\<not> bit (unat x) j"
      by (simp add: bit_iff_odd)
    with j show "\<not> bit x j"
      by (simp add: bit_unsigned_iff)
  qed
qed

lemma leading_zeros:
  fixes x :: "'a::len word"
  assumes "2 ^ k \<le> unat x" "unat x < 2 ^ Suc k"
  shows "length (takeWhile (\<lambda>i. \<not> bit x i) (rev [0..<LENGTH('a)])) = LENGTH('a) - Suc k"
  by (rule takeWhile_rev_upt) (use bit_unat_top [OF assms] in auto)

lemma ex_log2: "0 < (n::nat) \<Longrightarrow> \<exists>k. 2 ^ k \<le> n \<and> n < 2 ^ Suc k"
  using ex_power_ivl1 [of 2 n] by auto

text \<open>The usual test for a power of two.\<close>

lemma and_minus_1_eq_0_iff:
  fixes d :: "'a::len word"
  assumes "2 ^ k \<le> unat d" "unat d < 2 ^ Suc k"
  shows "d AND (d - 1) = 0 \<longleftrightarrow> unat d = 2 ^ k"
proof
  assume z: "d AND (d - 1) = 0"
  show "unat d = 2 ^ k"
  proof (rule ccontr)
    assume "unat d \<noteq> 2 ^ k"
    with assms have "2 ^ k \<le> unat (d - 1)" "unat (d - 1) < 2 ^ Suc k"
      by (auto simp: unat_minus_one simp flip: unat_gt_0)
    then have "bit (d AND (d - 1)) k"
      using bit_unat_top(2) [OF assms] bit_unat_top(2) by (simp add: bit_and_iff)
    with z show False by simp
  qed
next
  assume "unat d = 2 ^ k"
  moreover have "k < LENGTH('a)" by (rule bit_unat_top(1) [OF assms])
  ultimately have "d = 2 ^ k"
    by (simp add: word_unat_eq_iff unat_2p)
  then show "d AND (d - 1) = 0"
    using take_bit_push_bit [of k k "1 :: 'a word"]
    by (simp add: push_bit_eq_mult word_2p_minus_1 flip: take_bit_eq_mask)
qed

lemma clz64_eq:
  assumes "2 ^ k \<le> unat x" "unat x < 2 ^ Suc k"
  shows "clz64 x = 63 - k"
  using leading_zeros [OF assms] by (simp add: clz64_def builtin_clzll_def)

lemma log2u64_eq:
  assumes "2 ^ k \<le> unat x" "unat x < 2 ^ Suc k"
  shows "log2u64 x = of_nat k"
proof -
  from bit_unat_top(1) [OF assms] have "k \<le> 63" by simp
  then show ?thesis
    by (simp add: log2u64_def clz64_eq [OF assms] of_nat_diff)
qed

text \<open>
  Rounding up to a power of two, on natural numbers: \<open>align_nat n a\<close> is the least multiple of \<open>a\<close>
  that is at least \<open>n\<close>. The C code computes it modulo \<open>2 ^ 64\<close>.
\<close>

definition align_nat :: "nat \<Rightarrow> nat \<Rightarrow> nat" where
  "align_nat n a = (n + (a - 1)) div a * a"

lemma align_nat_dvd [simp]: "a dvd align_nat n a"
  by (simp add: align_nat_def)

lemma align_nat_bounds:
  assumes "0 < a"
  shows "n \<le> align_nat n a" "align_nat n a < n + a"
proof -
  have "n + (a - 1) = align_nat n a + (n + (a - 1)) mod a"
    by (simp add: align_nat_def div_mult_mod_eq)
  moreover have "(n + (a - 1)) mod a < a" using assms by simp
  ultimately show "n \<le> align_nat n a" "align_nat n a < n + a" using assms by arith+
qed

lemma align_nat_least:
  assumes "0 < a" "a dvd m" "n \<le> m"
  shows "align_nat n a \<le> m"
proof -
  from assms(2) obtain q where q: "m = q * a" by (auto simp: dvd_def mult.commute)
  have "n + (a - 1) < (q + 1) * a"
    using assms(1,3) q by (simp add: algebra_simps)
  then have "(n + (a - 1)) div a < q + 1"
    by (rule less_mult_imp_div_less)
  then show ?thesis unfolding align_nat_def q by (intro mult_le_mono1) simp
qed

lemma unat_align:
  assumes "k < 64"
  shows "unat (align sz (2 ^ k)) = (unat sz + (2 ^ k - 1)) mod 2 ^ 64 div 2 ^ k * 2 ^ k"
proof -
  have "unat (mask k :: u64) = 2 ^ k - 1"
    using assms by (simp add: mask_eq_decr_exp unat_minus_one unat_2p flip: unat_eq_zero)
  then show ?thesis
    by (simp add: align_def Let_def word_2p_minus_1 unat_and_not_mask unat_word_ariths)
qed

lemma unat_align_no_overflow:
  assumes "k < 64" "unat sz + (2 ^ k - 1) < 2 ^ 64"
  shows "unat (align sz (2 ^ k)) = align_nat (unat sz) (2 ^ k)"
  using assms by (simp add: unat_align align_nat_def)

lemma align_overflow:
  assumes "k < 64" "2 ^ 64 \<le> unat sz + (2 ^ k - 1)"
  shows "align sz (2 ^ k) = 0"
proof -
  have k: "(2::nat) ^ k \<le> 2 ^ 63"
    using assms(1) by (intro power_increasing) auto
  have sz: "unat sz < 2 ^ 64"
    by (rule unat_lt_pow) simp
  have "(unat sz + (2 ^ k - 1)) mod 2 ^ 64 = unat sz + (2 ^ k - 1) - 2 ^ 64"
    using assms(2) k sz by (subst le_mod_geq) auto
  also have "\<dots> < 2 ^ k"
    using sz zero_less_power [of "2::nat" k] by linarith
  finally show ?thesis
    using unat_align [OF assms(1), of sz] by (simp add: unat_eq_zero)
qed

section \<open>The packed array\<close>

lemma length_u4_arr_set [simp]: "length (u4_arr_set arr idx val) = length arr"
  by (simp add: u4_arr_set_def Let_def)

lemma bit_f: "bit (0xf :: u8) i \<longleftrightarrow> i < 4"
proof -
  have eq: "(0xf :: u8) = mask 4" by (simp add: mask_eq_decr_exp)
  show ?thesis unfolding eq by (auto simp: bit_mask_iff)
qed

lemma bit_f0: "bit (0xf0 :: u8) i \<longleftrightarrow> 4 \<le> i \<and> i < 8"
proof -
  have eq: "(0xf0 :: u8) = push_bit 4 (mask 4)" by (simp add: mask_eq_decr_exp push_bit_eq_mult)
  show ?thesis unfolding eq by (auto simp: bit_simps)
qed

lemma u4_value_bits: "unat (val :: u8) < 16 \<Longrightarrow> bit val i \<Longrightarrow> i < 4"
proof (rule ccontr)
  assume v: "unat val < 16" and b: "bit val i" and i: "\<not> i < 4"
  then have "unat val div 2 ^ i = 0"
    using power_increasing [of 4 i "2::nat"] by simp
  then have "\<not> bit (unat val) i" by (simp add: bit_iff_odd)
  with b show False by (auto simp: bit_unsigned_iff dest: bit_imp_le_length)
qed

lemma nibble_same:
  assumes "unat val < 16" "sh = 0 \<or> sh = 4"
  shows "drop_bit sh ((b AND drop_bit sh 0xf0) OR push_bit sh val) AND 0xf = (val :: u8)"
  using assms(2)
  by (intro bit_eqI) (auto simp: bit_and_iff bit_or_iff bit_drop_bit_eq bit_push_bit_iff bit_f bit_f0
      simp del: bit_numeral_word_iff dest: u4_value_bits [OF assms(1)])

lemma nibble_other:
  assumes "unat val < 16" "sh = 0 \<and> sh' = 4 \<or> sh = 4 \<and> sh' = 0"
  shows "drop_bit sh' ((b AND drop_bit sh 0xf0) OR push_bit sh val) AND 0xf
    = (drop_bit sh' b AND 0xf :: u8)"
  using assms(2)
  by (intro bit_eqI) (auto simp: bit_and_iff bit_or_iff bit_drop_bit_eq bit_push_bit_iff bit_f bit_f0
      simp del: bit_numeral_word_iff dest: u4_value_bits [OF assms(1)])

text \<open>Writing one 4-bit value and reading any index: only the written index changes.\<close>

lemma u4_arr_get_set:
  assumes "idx div 2 < length arr" "unat val < 16"
  shows "u4_arr_get (u4_arr_set arr idx val) j = (if j = idx then val else u4_arr_get arr j)"
proof (cases "j div 2 = idx div 2")
  case False
  then show ?thesis by (auto simp: u4_arr_get_def u4_arr_set_def Let_def)
next
  case same: True
  have sh: "idx mod 2 * 4 = 0 \<or> idx mod 2 * 4 = 4" by (simp add: mod2_eq_if)
  have other: "idx mod 2 * 4 = 0 \<and> j mod 2 * 4 = 4 \<or> idx mod 2 * 4 = 4 \<and> j mod 2 * 4 = 0"
    if "j \<noteq> idx"
    using same that by (metis div_mult_mod_eq mod2_eq_if mult_0 mult_1)
  show ?thesis
  proof (cases "j = idx")
    case True
    then show ?thesis
      using nibble_same [OF assms(2) sh] assms(1)
      by (simp only: u4_arr_get_def u4_arr_set_def Let_def nth_list_update_eq if_True refl)
  next
    case False
    then show ?thesis
      using nibble_other [OF assms(2) other [OF False]] assms(1) same
      by (simp only: u4_arr_get_def u4_arr_set_def Let_def nth_list_update_eq if_False)
  qed
qed

end
