(* ===== verification/Kernel.thy ===== *)
theory Kernel
  imports Prelude
begin

text \<open>
  The operating system as the allocator sees it, and the wrappers of \<^verbatim>\<open>src/memory.c\<close>.

  The kernel is code outside the repository, so it is a parameter: a record of functions that
  answer each call from the history of the calls made so far and the contents of memory. The
  \<open>world\<close> threaded through the allocator holds the contents of memory, \<^verbatim>\<open>errno\<close> and that history.
  Nothing is assumed of the answers here: the theorems that need a property of them (a mapping that
  is page aligned, say) state it as a hypothesis. The model is the build without protection keys
  (\<^verbatim>\<open>CONFIG_SEAL_METADATA=false\<close>), without ARM memory tagging and without mapping labels
  (\<^verbatim>\<open>CONFIG_LABEL_MEMORY=false\<close>), on Linux: \<^verbatim>\<open>memory_set_name\<close> then does nothing and is left out.
\<close>

section \<open>Calls and answers\<close>

datatype errno = ENOMEM | EINVAL | EINTR | ENOSYS | Eother int

datatype prot = PROT_NONE | PROT_READ | PROT_READ_WRITE

datatype syscall =
    Mmap size_t prot                        \<comment> \<open>anonymous, address chosen by the kernel\<close>
  | Mmap_fixed ptr size_t prot              \<comment> \<open>anonymous, \<^verbatim>\<open>MAP_FIXED\<close>\<close>
  | Munmap ptr size_t
  | Mprotect ptr size_t prot
  | Mremap ptr size_t size_t
  | Mremap_fixed ptr size_t ptr size_t      \<comment> \<open>old, old size, new, new size\<close>
  | Madvise_dontneed ptr size_t

datatype sysret = Sys_ok ptr | Sys_error errno

datatype getrandom_ret = Got_bytes "u8 list" | Getrandom_error errno

type_synonym memory = "ptr \<Rightarrow> u8"
type_synonym history = "(syscall \<times> sysret) list"

record kernel =
  k_syscall :: "history \<Rightarrow> memory \<Rightarrow> syscall \<Rightarrow> sysret \<times> memory"
  k_getrandom :: "nat \<Rightarrow> nat \<Rightarrow> getrandom_ret"  \<comment> \<open>how many calls before, bytes requested\<close>

record world =
  w_mem :: memory
  w_errno :: errno
  w_history :: history    \<comment> \<open>most recent call first\<close>
  w_seeds :: nat          \<comment> \<open>calls of \<^verbatim>\<open>getrandom\<close> so far\<close>

text \<open>A call updates memory, the history and, when it fails, \<^verbatim>\<open>errno\<close>.\<close>

definition sys :: "kernel \<Rightarrow> syscall \<Rightarrow> world \<Rightarrow> sysret \<times> world" where
  "sys os c w =
     (let (r, m) = k_syscall os (w_history w) (w_mem w) c;
          w' = w\<lparr>w_mem := m, w_history := (c, r) # w_history w\<rparr>
      in (r, case r of Sys_ok _ \<Rightarrow> w' | Sys_error e \<Rightarrow> w'\<lparr>w_errno := e\<rparr>))"

definition getrandom :: "kernel \<Rightarrow> nat \<Rightarrow> world \<Rightarrow> getrandom_ret \<times> world" where
  "getrandom os n w =
     (let r = k_getrandom os (w_seeds w) n; w' = w\<lparr>w_seeds := Suc (w_seeds w)\<rparr>
      in (r, case r of Got_bytes _ \<Rightarrow> w' | Getrandom_error e \<Rightarrow> w'\<lparr>w_errno := e\<rparr>))"

section \<open>The wrappers of memory.c\<close>

text \<open>
  Every wrapper reports failure (a null pointer, or \<open>True\<close>) only for \<^verbatim>\<open>ENOMEM\<close> and aborts the process
  on any other error.
\<close>

definition memory_map_prot :: "kernel \<Rightarrow> size_t \<Rightarrow> prot \<Rightarrow> world \<Rightarrow> (ptr \<times> world) outcome" where
  "memory_map_prot os sz prot w =
     (case sys os (Mmap sz prot) w of
        (Sys_error e, w') \<Rightarrow>
          if e \<noteq> ENOMEM then Aborted ''non-ENOMEM mmap failure'' else Returned (NULL, w')
      | (Sys_ok p, w') \<Rightarrow> Returned (p, w'))"

definition memory_map :: "kernel \<Rightarrow> size_t \<Rightarrow> world \<Rightarrow> (ptr \<times> world) outcome" where
  "memory_map os sz w = memory_map_prot os sz PROT_NONE w"

text \<open>The common shape of the wrappers that return \<^verbatim>\<open>bool\<close>: \<open>True\<close> is failure.\<close>

definition sys_bool :: "string \<Rightarrow> kernel \<Rightarrow> syscall \<Rightarrow> world \<Rightarrow> (bool \<times> world) outcome" where
  "sys_bool msg os c w =
     (case sys os c w of
        (Sys_error e, w') \<Rightarrow> if e \<noteq> ENOMEM then Aborted msg else Returned (True, w')
      | (Sys_ok _, w') \<Rightarrow> Returned (False, w'))"

definition memory_map_fixed_prot ::
    "kernel \<Rightarrow> ptr \<Rightarrow> size_t \<Rightarrow> prot \<Rightarrow> world \<Rightarrow> (bool \<times> world) outcome" where
  "memory_map_fixed_prot os p sz prot w =
     sys_bool ''non-ENOMEM MAP_FIXED mmap failure'' os (Mmap_fixed p sz prot) w"

definition memory_map_fixed :: "kernel \<Rightarrow> ptr \<Rightarrow> size_t \<Rightarrow> world \<Rightarrow> (bool \<times> world) outcome" where
  "memory_map_fixed os p sz w = memory_map_fixed_prot os p sz PROT_NONE w"

definition memory_unmap :: "kernel \<Rightarrow> ptr \<Rightarrow> size_t \<Rightarrow> world \<Rightarrow> (bool \<times> world) outcome" where
  "memory_unmap os p sz w = sys_bool ''non-ENOMEM munmap failure'' os (Munmap p sz) w"

definition memory_protect_prot ::
    "kernel \<Rightarrow> ptr \<Rightarrow> size_t \<Rightarrow> prot \<Rightarrow> world \<Rightarrow> (bool \<times> world) outcome" where
  "memory_protect_prot os p sz prot w =
     sys_bool ''non-ENOMEM mprotect failure'' os (Mprotect p sz prot) w"

definition memory_protect_ro :: "kernel \<Rightarrow> ptr \<Rightarrow> size_t \<Rightarrow> world \<Rightarrow> (bool \<times> world) outcome" where
  "memory_protect_ro os p sz w = memory_protect_prot os p sz PROT_READ w"

definition memory_protect_rw :: "kernel \<Rightarrow> ptr \<Rightarrow> size_t \<Rightarrow> world \<Rightarrow> (bool \<times> world) outcome" where
  "memory_protect_rw os p sz w = memory_protect_prot os p sz PROT_READ_WRITE w"

definition memory_protect_rw_metadata ::
    "kernel \<Rightarrow> ptr \<Rightarrow> size_t \<Rightarrow> world \<Rightarrow> (bool \<times> world) outcome" where
  "memory_protect_rw_metadata os p sz w = memory_protect_prot os p sz PROT_READ_WRITE w"

definition memory_remap :: "kernel \<Rightarrow> ptr \<Rightarrow> size_t \<Rightarrow> size_t \<Rightarrow> world \<Rightarrow> (bool \<times> world) outcome" where
  "memory_remap os old old_size new_size w =
     sys_bool ''non-ENOMEM mremap failure'' os (Mremap old old_size new_size) w"

definition memory_remap_fixed ::
    "kernel \<Rightarrow> ptr \<Rightarrow> size_t \<Rightarrow> ptr \<Rightarrow> size_t \<Rightarrow> world \<Rightarrow> (bool \<times> world) outcome" where
  "memory_remap_fixed os old old_size new new_size w =
     sys_bool ''non-ENOMEM MREMAP_FIXED mremap failure'' os (Mremap_fixed old old_size new new_size) w"

definition memory_purge :: "kernel \<Rightarrow> ptr \<Rightarrow> size_t \<Rightarrow> world \<Rightarrow> (bool \<times> world) outcome" where
  "memory_purge os p sz w =
     sys_bool ''non-ENOMEM MADV_DONTNEED madvise failure'' os (Madvise_dontneed p sz) w"

lemmas memory_wrapper_defs =
  memory_map_fixed_def memory_map_fixed_prot_def memory_unmap_def memory_protect_ro_def
  memory_protect_rw_def memory_protect_rw_metadata_def memory_protect_prot_def memory_remap_def
  memory_remap_fixed_def memory_purge_def

text \<open>A kernel whose calls fail for lack of memory only.\<close>

definition only_ENOMEM :: "kernel \<Rightarrow> bool" where
  "only_ENOMEM os \<longleftrightarrow> (\<forall>h m c e m'. k_syscall os h m c = (Sys_error e, m') \<longrightarrow> e = ENOMEM)"

lemma sys_bool_returns: "only_ENOMEM os \<Longrightarrow> returns (sys_bool msg os c w)"
  unfolding only_ENOMEM_def returns_def
  by (cases "k_syscall os (w_history w) (w_mem w) c"; cases "fst (k_syscall os (w_history w) (w_mem w) c)")
    (fastforce simp: sys_bool_def sys_def Let_def)+

lemma memory_wrapper_returns:
  assumes "only_ENOMEM os"
  shows "returns (memory_map_prot os n pr w)" "returns (memory_map os n w)" "returns (memory_map_fixed os p n w)"
    "returns (memory_map_fixed_prot os p n pr w)" "returns (memory_unmap os p n w)" "returns (memory_protect_ro os p n w)"
    "returns (memory_protect_rw os p n w)" "returns (memory_protect_rw_metadata os p n w)"
    "returns (memory_remap os p n n' w)" "returns (memory_remap_fixed os p n q n' w)" "returns (memory_purge os p n w)"
proof -
  show "returns (memory_map_prot os n pr w)" for n pr
    using assms unfolding only_ENOMEM_def returns_def
    by (cases "k_syscall os (w_history w) (w_mem w) (Mmap n pr)";
        cases "fst (k_syscall os (w_history w) (w_mem w) (Mmap n pr))")
      (fastforce simp: memory_map_prot_def sys_def Let_def)+
  then show "returns (memory_map os n w)" by (simp add: memory_map_def)
qed (use sys_bool_returns [OF assms] in \<open>simp_all add: memory_wrapper_defs\<close>)

section \<open>Bytes of memory\<close>

text \<open>\<^verbatim>\<open>memset\<close>, \<^verbatim>\<open>memcpy\<close> and little-endian 64-bit access.\<close>

definition mem_range :: "ptr \<Rightarrow> nat \<Rightarrow> ptr set" where
  "mem_range p n = (\<lambda>i. p + of_nat i) ` {..<n}"

definition memset :: "ptr \<Rightarrow> u8 \<Rightarrow> nat \<Rightarrow> memory \<Rightarrow> memory" where
  "memset p v n m = (\<lambda>a. if unat (a - p) < n then v else m a)"

definition memcpy :: "ptr \<Rightarrow> ptr \<Rightarrow> nat \<Rightarrow> memory \<Rightarrow> memory" where
  "memcpy dst src n m = (\<lambda>a. if unat (a - dst) < n then m (src + (a - dst)) else m a)"

definition read_u64 :: "memory \<Rightarrow> ptr \<Rightarrow> u64" where
  "read_u64 m p =
     ucast (m p) OR push_bit 8 (ucast (m (p + 1))) OR push_bit 16 (ucast (m (p + 2)))
     OR push_bit 24 (ucast (m (p + 3))) OR push_bit 32 (ucast (m (p + 4)))
     OR push_bit 40 (ucast (m (p + 5))) OR push_bit 48 (ucast (m (p + 6)))
     OR push_bit 56 (ucast (m (p + 7)))"

definition write_u64 :: "ptr \<Rightarrow> u64 \<Rightarrow> memory \<Rightarrow> memory" where
  "write_u64 p v m =
     (\<lambda>a. if unat (a - p) < 8 then ucast (drop_bit (8 * unat (a - p)) v) else m a)"

section \<open>The address space\<close>

text \<open>
  What Linux documents of the calls: replaying a history gives the pages that are mapped and with
  which protection. Lengths are rounded up to whole pages; a call that failed changed nothing.
\<close>

definition page_round :: "size_t \<Rightarrow> nat" where
  "page_round n = (unat n + 4095) div 4096 * 4096"

type_synonym vm = "ptr \<Rightarrow> prot option"

definition in_range :: "ptr \<Rightarrow> nat \<Rightarrow> ptr \<Rightarrow> bool" where
  "in_range p n a \<longleftrightarrow> unat (a - p) < n"

definition vm_apply :: "syscall \<Rightarrow> ptr \<Rightarrow> vm \<Rightarrow> vm" where
  "vm_apply c r v =
     (\<lambda>a. case c of
        Mmap n pr \<Rightarrow> if in_range r (page_round n) a then Some pr else v a
      | Mmap_fixed p n pr \<Rightarrow> if in_range p (page_round n) a then Some pr else v a
      | Munmap p n \<Rightarrow> if in_range p (page_round n) a then None else v a
      | Mprotect p n pr \<Rightarrow> if in_range p (page_round n) a then map_option (\<lambda>_. pr) (v a) else v a
      | Mremap p old new \<Rightarrow>
          if in_range p (page_round new) a then v p
          else if in_range p (page_round old) a then None else v a
      | Mremap_fixed p old q new \<Rightarrow>
          if in_range q (page_round new) a then v p
          else if in_range p (page_round old) a then None else v a
      | Madvise_dontneed p n \<Rightarrow> v a)"

primrec vm_view :: "history \<Rightarrow> vm" where
  "vm_view [] = Map.empty"
| "vm_view (cr # h) =
     (case cr of (c, Sys_ok r) \<Rightarrow> vm_apply c r (vm_view h) | (c, Sys_error e) \<Rightarrow> vm_view h)"

text \<open>
  \<^verbatim>\<open>mmap(2)\<close> without \<^verbatim>\<open>MAP_FIXED\<close>: a successful call returns a page-aligned, non-null range that does not
  wrap and overlaps no existing mapping.
\<close>

definition fresh_mmap :: "kernel \<Rightarrow> world \<Rightarrow> size_t \<Rightarrow> bool" where
  "fresh_mmap os w n \<longleftrightarrow>
     (\<forall>pr a m. k_syscall os (w_history w) (w_mem w) (Mmap n pr) = (Sys_ok a, m) \<longrightarrow>
        4096 dvd unat a \<and> a \<noteq> 0 \<and> unat a + page_round n < 2 ^ 64 \<and>
        (\<forall>x. in_range a (page_round n) x \<longrightarrow> vm_view (w_history w) x = None))"

lemma page_round_dvd [simp]: "4096 dvd page_round n"
  by (simp add: page_round_def)

lemma round_up_ge: "(n::nat) \<le> (n + 4095) div 4096 * 4096"
proof -
  have "(n + 4095) div 4096 * 4096 + (n + 4095) mod 4096 = n + 4095" by (rule div_mult_mod_eq)
  moreover have "(n + 4095) mod 4096 < 4096" by (rule mod_less_divisor) simp
  ultimately show ?thesis by linarith
qed

lemma page_round_ge: "unat n \<le> page_round n"
  unfolding page_round_def by (rule round_up_ge)

lemma page_round_aligned: "4096 dvd unat n \<Longrightarrow> page_round n = unat n"
proof -
  assume "4096 dvd unat n"
  then obtain k where k: "unat n = 4096 * k" by blast
  have "(4096 * k + 4095) div 4096 = k" by (intro div_nat_eqI) simp_all
  then show ?thesis unfolding page_round_def k by simp
qed

lemma vm_view_ok [simp]: "vm_view ((c, Sys_ok r) # h) = vm_apply c r (vm_view h)"
  and vm_view_error [simp]: "vm_view ((c, Sys_error e) # h) = vm_view h"
  by simp_all

declare vm_view.simps(2) [simp del]

lemma w_history_sys: "sys os c w = (r, w') \<Longrightarrow> w_history w' = (c, r) # w_history w"
  by (auto simp: sys_def Let_def split: prod.splits sysret.splits)

text \<open>The effect of a wrapper on the address space.\<close>

lemma sys_bool_view:
  assumes "sys_bool msg os c w = Returned (failed, w')"
  shows "if failed then vm_view (w_history w') = vm_view (w_history w)
    else \<exists>r. vm_view (w_history w') = vm_apply c r (vm_view (w_history w))"
  using assms
  by (auto simp: sys_bool_def w_history_sys split: prod.splits sysret.splits if_splits)

lemma memory_map_view:
  assumes "memory_map os n w = Returned (p, w')" "p \<noteq> NULL"
  shows "vm_view (w_history w') = vm_apply (Mmap n PROT_NONE) p (vm_view (w_history w)) \<and>
    (\<exists>m. k_syscall os (w_history w) (w_mem w) (Mmap n PROT_NONE) = (Sys_ok p, m))"
  using assms
  by (auto simp: memory_map_def memory_map_prot_def sys_def Let_def
      split: prod.splits sysret.splits if_splits)

section \<open>A simple kernel\<close>

text \<open>
  A kernel that hands out mappings one after the other above everything mapped so far, grants every
  other request and seeds with zero bytes. Statements about an arbitrary kernel are instantiated
  with it.
\<close>

definition range_top :: "ptr \<Rightarrow> size_t \<Rightarrow> nat" where
  "range_top p n = (if unat p + page_round n < 2 ^ 64 then unat p + page_round n else 2 ^ 64)"

definition call_top :: "syscall \<Rightarrow> ptr \<Rightarrow> nat" where
  "call_top c r =
     (case c of
        Mmap n pr \<Rightarrow> range_top r n
      | Mmap_fixed p n pr \<Rightarrow> range_top p n
      | Mremap p old new \<Rightarrow> range_top p new
      | Mremap_fixed p old q new \<Rightarrow> range_top q new
      | _ \<Rightarrow> 0)"

primrec vm_top :: "history \<Rightarrow> nat" where
  "vm_top [] = 0x100000000000"
| "vm_top (cr # h) =
     (case cr of (c, Sys_ok r) \<Rightarrow> max (call_top c r) (vm_top h) | (c, Sys_error e) \<Rightarrow> vm_top h)"

definition bump_kernel :: kernel where
  "bump_kernel =
     \<lparr>k_syscall = (\<lambda>h m c.
        (case c of
           Mmap n pr \<Rightarrow>
             let a = (vm_top h + 4095) div 4096 * 4096
             in if a + page_round n < 2 ^ 64 then Sys_ok (of_nat a) else Sys_error ENOMEM
         | _ \<Rightarrow> Sys_ok 0, m)),
      k_getrandom = (\<lambda>calls n. Got_bytes (replicate n 0))\<rparr>"

definition start_world :: world where
  "start_world = \<lparr>w_mem = (\<lambda>_. 0), w_errno = ENOMEM, w_history = [], w_seeds = 0\<rparr>"

lemma in_range_top: "in_range p (page_round n) a \<Longrightarrow> unat a < range_top p n"
proof -
  assume "in_range p (page_round n) a"
  moreover have "unat a < 2 ^ 64" by (rule unat_lt_pow) simp
  moreover have "unat a \<le> unat p + unat (a - p)"
    using unat_word_ariths(1) [of p "a - p"] by simp
  ultimately show ?thesis by (auto simp: in_range_def range_top_def)
qed

lemma vm_view_below_top: "vm_view h a \<noteq> None \<Longrightarrow> unat a < vm_top h"
proof (induction h arbitrary: a)
  case (Cons cr h)
  have *: "vm_view h a \<noteq> None \<Longrightarrow> unat a < max k (vm_top h)" for k
    using Cons.IH [of a] by auto
  show ?case
    using Cons.prems Cons.IH [of a]
    by (auto simp: vm_view.simps vm_apply_def call_top_def less_max_iff_disj
        split: prod.splits sysret.splits syscall.splits if_splits dest!: in_range_top)
qed simp

lemma vm_top_pos: "0 < vm_top h"
  by (induction h) (auto split: prod.splits sysret.splits)

lemma fresh_mmap_bump: "fresh_mmap bump_kernel w n"
  unfolding fresh_mmap_def
proof (intro allI impI)
  fix pr a m
  assume call: "k_syscall bump_kernel (w_history w) (w_mem w) (Mmap n pr) = (Sys_ok a, m)"
  define top where "top = (vm_top (w_history w) + 4095) div 4096 * 4096"
  have a: "a = of_nat top" and room: "top + page_round n < 2 ^ 64"
    using call by (auto simp: bump_kernel_def Let_def top_def split: if_splits)
  have ua: "unat a = top" using room by (simp add: a unat_of_nat)
  have ge: "vm_top (w_history w) \<le> top" unfolding top_def by (rule round_up_ge)
  have "vm_view (w_history w) x = None" if "in_range a (page_round n) x" for x
  proof (rule ccontr)
    assume "vm_view (w_history w) x \<noteq> None"
    then have x: "unat x < top" using vm_view_below_top [of "w_history w" x] ge by linarith
    have "unat (x - a) = unat x + 2 ^ 64 - top"
      using x ua by (simp add: unat_sub_if')
    with that room show False by (simp add: in_range_def)
  qed
  moreover have "4096 dvd top" by (simp add: top_def)
  moreover have "0 < top" using vm_top_pos [of "w_history w"] ge by linarith
  ultimately show "4096 dvd unat a \<and> a \<noteq> 0 \<and> unat a + page_round n < 2 ^ 64 \<and>
      (\<forall>x. in_range a (page_round n) x \<longrightarrow> vm_view (w_history w) x = None)"
    using ua room by auto
qed

lemma bump_only_ENOMEM: "only_ENOMEM bump_kernel"
  by (auto simp: only_ENOMEM_def bump_kernel_def Let_def split: syscall.splits if_splits)

end
