(* ===== verification/Config.thy ===== *)
theory Config
  imports Prelude
begin

text \<open>
  The build configuration. The macros that the build passes to the compiler are the fields of a
  record, so that one model covers every build; \<open>config_valid\<close> is the conjunction of the
  \<^verbatim>\<open>static_assert\<close>s of \<^verbatim>\<open>src/h_malloc.c\<close>, and \<open>default_config\<close> and \<open>light_config\<close> are the two
  configurations that the repository ships. The constants that the source derives from the macros
  follow.
\<close>

section \<open>Macros\<close>

record config =
  ZERO_ON_FREE :: bool
  WRITE_AFTER_FREE_CHECK :: bool
  SLOT_RANDOMIZE :: bool
  SLAB_CANARY :: bool
  SLAB_QUARANTINE_RANDOM_LENGTH :: nat
  SLAB_QUARANTINE_QUEUE_LENGTH :: nat
  CONFIG_EXTENDED_SIZE_CLASSES :: bool
  CONFIG_LARGE_SIZE_CLASSES :: bool
  GUARD_SLABS_INTERVAL :: nat
  GUARD_SIZE_DIVISOR :: nat
  REGION_QUARANTINE_RANDOM_LENGTH :: nat
  REGION_QUARANTINE_QUEUE_LENGTH :: nat
  REGION_QUARANTINE_SKIP_THRESHOLD :: nat
  FREE_SLABS_QUARANTINE_RANDOM_LENGTH :: nat
  CONFIG_CLASS_REGION_SIZE :: nat
  N_ARENA :: nat
  CONFIG_STATS :: bool

abbreviation (input) PAGE_SHIFT :: nat where "PAGE_SHIFT \<equiv> 12"
abbreviation (input) PAGE_SIZE :: size_t where "PAGE_SIZE \<equiv> 4096"

definition MREMAP_MOVE_THRESHOLD :: size_t where
  "MREMAP_MOVE_THRESHOLD = 32 * 1024 * 1024"

definition config_valid :: "config \<Rightarrow> bool" where
  "config_valid cfg \<longleftrightarrow>
     (WRITE_AFTER_FREE_CHECK cfg \<longrightarrow> ZERO_ON_FREE cfg) \<and>
     SLAB_QUARANTINE_RANDOM_LENGTH cfg \<le> 65536 \<and>
     SLAB_QUARANTINE_QUEUE_LENGTH cfg \<le> 65536 \<and>
     REGION_QUARANTINE_RANDOM_LENGTH cfg \<le> 65536 \<and>
     REGION_QUARANTINE_QUEUE_LENGTH cfg \<le> 65536 \<and>
     FREE_SLABS_QUARANTINE_RANDOM_LENGTH cfg < 65535 \<and>
     1 \<le> GUARD_SLABS_INTERVAL cfg \<and>
     1 \<le> GUARD_SIZE_DIVISOR cfg \<and>
     33554432 \<le> CONFIG_CLASS_REGION_SIZE cfg \<and> CONFIG_CLASS_REGION_SIZE cfg \<le> 1099511627776 \<and>
     REGION_QUARANTINE_SKIP_THRESHOLD cfg \<le> unat MREMAP_MOVE_THRESHOLD \<and>
     1 \<le> N_ARENA cfg \<and> N_ARENA cfg \<le> 256 \<and>
     128 \<le> CONFIG_CLASS_REGION_SIZE cfg div 4096 div 24"

definition default_config :: config where
  "default_config =
     \<lparr>ZERO_ON_FREE = True, WRITE_AFTER_FREE_CHECK = True, SLOT_RANDOMIZE = True, SLAB_CANARY = True,
      SLAB_QUARANTINE_RANDOM_LENGTH = 1, SLAB_QUARANTINE_QUEUE_LENGTH = 1,
      CONFIG_EXTENDED_SIZE_CLASSES = True, CONFIG_LARGE_SIZE_CLASSES = True,
      GUARD_SLABS_INTERVAL = 1, GUARD_SIZE_DIVISOR = 2,
      REGION_QUARANTINE_RANDOM_LENGTH = 256, REGION_QUARANTINE_QUEUE_LENGTH = 1024,
      REGION_QUARANTINE_SKIP_THRESHOLD = 33554432, FREE_SLABS_QUARANTINE_RANDOM_LENGTH = 32,
      CONFIG_CLASS_REGION_SIZE = 34359738368, N_ARENA = 4, CONFIG_STATS = False\<rparr>"

definition light_config :: config where
  "light_config = default_config
     \<lparr>WRITE_AFTER_FREE_CHECK := False, SLOT_RANDOMIZE := False,
      SLAB_QUARANTINE_RANDOM_LENGTH := 0, SLAB_QUARANTINE_QUEUE_LENGTH := 0,
      GUARD_SLABS_INTERVAL := 8\<rparr>"

section \<open>Derived constants\<close>

definition SLAB_QUARANTINE :: "config \<Rightarrow> bool" where
  "SLAB_QUARANTINE cfg \<longleftrightarrow> SLAB_QUARANTINE_RANDOM_LENGTH cfg > 0 \<or> SLAB_QUARANTINE_QUEUE_LENGTH cfg > 0"

definition REGION_QUARANTINE :: "config \<Rightarrow> bool" where
  "REGION_QUARANTINE cfg \<longleftrightarrow>
     REGION_QUARANTINE_RANDOM_LENGTH cfg > 0 \<or> REGION_QUARANTINE_QUEUE_LENGTH cfg > 0"

definition canary_size :: "config \<Rightarrow> size_t" where
  "canary_size cfg = (if SLAB_CANARY cfg then 8 else 0)"

definition min_align :: size_t where
  "min_align = 16"

definition MIN_SLAB_SIZE_CLASS_SHIFT :: nat where
  "MIN_SLAB_SIZE_CLASS_SHIFT = 4"

definition max_slab_size_class :: "config \<Rightarrow> size_t" where
  "max_slab_size_class cfg = (if CONFIG_EXTENDED_SIZE_CLASSES cfg then 131072 else 16384)"

definition MAX_SLAB_SIZE_CLASS_SHIFT :: "config \<Rightarrow> nat" where
  "MAX_SLAB_SIZE_CLASS_SHIFT cfg = (if CONFIG_EXTENDED_SIZE_CLASSES cfg then 17 else 14)"

definition max_empty_slabs_total :: "config \<Rightarrow> size_t" where
  "max_empty_slabs_total cfg =
     (if CONFIG_EXTENDED_SIZE_CLASSES cfg then max_slab_size_class cfg else max_slab_size_class cfg * 4)"

definition min_extended_size_class :: size_t where
  "min_extended_size_class = 20480"

definition CLASS_REGION_SIZE :: "config \<Rightarrow> size_t" where
  "CLASS_REGION_SIZE cfg = of_nat (CONFIG_CLASS_REGION_SIZE cfg)"

definition REAL_CLASS_REGION_SIZE :: "config \<Rightarrow> size_t" where
  "REAL_CLASS_REGION_SIZE cfg = CLASS_REGION_SIZE cfg * 2"

lemma default_config_valid: "config_valid default_config"
  by (simp add: config_valid_def default_config_def MREMAP_MOVE_THRESHOLD_def)

lemma light_config_valid: "config_valid light_config"
  by (simp add: config_valid_def light_config_def default_config_def MREMAP_MOVE_THRESHOLD_def)

lemma unat_CLASS_REGION_SIZE:
  "config_valid cfg \<Longrightarrow> unat (CLASS_REGION_SIZE cfg) = CONFIG_CLASS_REGION_SIZE cfg"
  by (simp add: config_valid_def CLASS_REGION_SIZE_def unat_of_nat)

lemma unat_REAL_CLASS_REGION_SIZE:
  assumes "config_valid cfg"
  shows "unat (REAL_CLASS_REGION_SIZE cfg) = 2 * CONFIG_CLASS_REGION_SIZE cfg"
proof -
  have "CONFIG_CLASS_REGION_SIZE cfg \<le> 1099511627776" using assms by (simp add: config_valid_def)
  then show ?thesis
    using unat_CLASS_REGION_SIZE [OF assms]
    by (simp add: REAL_CLASS_REGION_SIZE_def unat_word_ariths)
qed

end
