(* ===== verification/Pages.thy ===== *)
theory Pages
  imports Util Kernel Config
begin

text \<open>
  \<^verbatim>\<open>src/pages.c\<close> and \<^verbatim>\<open>src/pages.h\<close>: page-granular allocation with guard regions on both sides, built
  on the wrappers of \<^verbatim>\<open>memory.c\<close>, and the page hash of the region table.
\<close>

section \<open>Operations\<close>

definition page_align :: "size_t \<Rightarrow> size_t" where
  "page_align sz = align sz PAGE_SIZE"

definition hash_page :: "ptr \<Rightarrow> size_t" where
  "hash_page p =
     (let u = drop_bit PAGE_SHIFT p;
          sum = u;
          sum = push_bit 7 sum - sum + drop_bit 16 u;
          sum = push_bit 7 sum - sum + drop_bit 32 u;
          sum = push_bit 7 sum - sum + drop_bit 48 u
      in sum)"

text \<open>\<^verbatim>\<open>__builtin_add_overflow\<close>: whether the sum wraps, and the wrapped sum.\<close>

definition builtin_add_overflow :: "size_t \<Rightarrow> size_t \<Rightarrow> bool \<times> size_t" where
  "builtin_add_overflow a b = (a + b < a, a + b)"

definition add_guards :: "size_t \<Rightarrow> size_t \<Rightarrow> bool \<times> size_t" where
  "add_guards sz guard_size =
     (let (o1, total_size) = builtin_add_overflow sz guard_size
      in if o1 then (True, total_size) else builtin_add_overflow total_size guard_size)"

definition set_errno :: "errno \<Rightarrow> world \<Rightarrow> world" where
  "set_errno e w = w\<lparr>w_errno := e\<rparr>"

definition allocate_pages ::
    "kernel \<Rightarrow> size_t \<Rightarrow> size_t \<Rightarrow> bool \<Rightarrow> world \<Rightarrow> (ptr \<times> world) outcome" where
  "allocate_pages os usable_size guard_size unprotect w =
     (let (overflow, real_size) = add_guards usable_size guard_size in
      if overflow then Returned (NULL, set_errno ENOMEM w)
      else
        bind_o (memory_map os real_size w) (\<lambda>(real, w).
          if real = NULL then Returned (NULL, w)
          else
            let usable = real + guard_size in
            bind_o (if unprotect then memory_protect_rw os usable usable_size w
                    else Returned (False, w)) (\<lambda>(failed, w).
              if failed then
                bind_o (memory_unmap os real real_size w) (\<lambda>(_, w). Returned (NULL, w))
              else Returned (usable, w))))"

definition allocate_pages_aligned ::
    "kernel \<Rightarrow> size_t \<Rightarrow> size_t \<Rightarrow> size_t \<Rightarrow> world \<Rightarrow> (ptr \<times> world) outcome" where
  "allocate_pages_aligned os usable_size alignment guard_size w =
     (let usable_size = page_align usable_size in
      if usable_size = 0 then Returned (NULL, set_errno ENOMEM w)
      else
        let (overflow, alloc_size) = builtin_add_overflow usable_size (alignment - PAGE_SIZE) in
        if overflow then Returned (NULL, set_errno ENOMEM w)
        else
          let (overflow, real_alloc_size) = add_guards alloc_size guard_size in
          if overflow then Returned (NULL, set_errno ENOMEM w)
          else
            bind_o (memory_map os real_alloc_size w) (\<lambda>(real, w).
              if real = NULL then Returned (NULL, w)
              else
                let usable = real + guard_size;
                    lead_size = align usable alignment - usable;
                    trail_size = alloc_size - lead_size - usable_size;
                    base = usable + lead_size in
                bind_o (memory_protect_rw os base usable_size w) (\<lambda>(failed, w).
                  if failed then
                    bind_o (memory_unmap os real real_alloc_size w) (\<lambda>(_, w). Returned (NULL, w))
                  else
                    bind_o (if lead_size \<noteq> 0 then memory_unmap os real lead_size w
                            else Returned (False, w)) (\<lambda>(failed, w).
                      if failed then
                        bind_o (memory_unmap os real real_alloc_size w) (\<lambda>(_, w). Returned (NULL, w))
                      else
                        bind_o (if trail_size \<noteq> 0
                                then memory_unmap os (base + usable_size + guard_size) trail_size w
                                else Returned (False, w)) (\<lambda>(failed, w).
                          if failed then
                            bind_o (memory_unmap os real real_alloc_size w)
                              (\<lambda>(_, w). Returned (NULL, w))
                          else Returned (base, w))))))"

definition deallocate_pages ::
    "kernel \<Rightarrow> ptr \<Rightarrow> size_t \<Rightarrow> size_t \<Rightarrow> world \<Rightarrow> world outcome" where
  "deallocate_pages os usable usable_size guard_size w =
     bind_o (memory_unmap os (usable - guard_size) (usable_size + guard_size * 2) w) (\<lambda>(failed, w).
       if failed then
         bind_o (memory_purge os usable usable_size w) (\<lambda>(failed, w).
           if failed then Returned (w\<lparr>w_mem := memset usable 0 (unat usable_size) (w_mem w)\<rparr>)
           else Returned w)
       else Returned w)"

section \<open>Sizes\<close>

lemma page_align_nat:
  "unat (page_align sz) = (unat sz + 4095) mod 2 ^ 64 div 4096 * 4096"
  using unat_align [of 12 sz] by (simp add: page_align_def)

lemma page_align_no_overflow:
  assumes "unat sz + 4095 < 2 ^ 64"
  shows "unat (page_align sz) = page_round sz"
  using assms by (simp add: page_align_nat page_round_def)

lemma page_align_nonzero:
  assumes "page_align sz \<noteq> 0"
  shows "unat (page_align sz) = page_round sz" "unat sz + 4095 < 2 ^ 64"
proof -
  have "\<not> 2 ^ 64 \<le> unat sz + (2 ^ 12 - 1)"
    using assms align_overflow [of 12 sz] by (auto simp: page_align_def)
  then show "unat (page_align sz) = page_round sz" "unat sz + 4095 < 2 ^ 64"
    by (simp_all add: page_align_no_overflow)
qed

lemma page_align_dvd [simp]: "4096 dvd unat (page_align sz)"
  by (simp add: page_align_nat)

lemma builtin_add_overflow_iff:
  "builtin_add_overflow a b = (False, t) \<longleftrightarrow> unat a + unat b < 2 ^ 64 \<and> t = a + b"
  using no_olen_add_nat [of a b] by (auto simp: builtin_add_overflow_def not_less)

lemma add_guards_iff:
  "add_guards sz g = (False, t) \<longleftrightarrow> unat sz + 2 * unat g < 2 ^ 64 \<and> t = sz + g * 2"
proof (cases "unat sz + unat g < 2 ^ 64")
  case True
  then have first: "builtin_add_overflow sz g = (False, sz + g)" and sum: "unat (sz + g) = unat sz + unat g"
    by (simp_all add: builtin_add_overflow_iff unat_add_lt)
  have "add_guards sz g = builtin_add_overflow (sz + g) g" by (simp add: add_guards_def first)
  then have "add_guards sz g = (False, t) \<longleftrightarrow> unat sz + unat g + unat g < 2 ^ 64 \<and> t = sz + g + g"
    by (simp only: builtin_add_overflow_iff sum)
  moreover have "unat sz + unat g + unat g = unat sz + 2 * unat g" "sz + g + g = sz + g * 2" by simp_all
  ultimately show ?thesis by (simp only:)
next
  case False
  then have "fst (builtin_add_overflow sz g)"
    using builtin_add_overflow_iff [of sz g "sz + g"] by (simp add: builtin_add_overflow_def)
  with False show ?thesis by (auto simp: add_guards_def split: prod.splits)
qed

lemma add_guards_nat:
  fixes sz g :: size_t
  assumes "unat sz + 2 * unat g < 2 ^ 64"
  shows "unat (sz + g * 2) = unat sz + 2 * unat g"
proof -
  have "unat (g * 2) = 2 * unat g" using assms by (subst unat_mult_lt) auto
  then show ?thesis using assms by (subst unat_add_lt) auto
qed

lemma page_round_le: "page_round n \<le> 2 ^ 64"
proof -
  have "unat n < 2 ^ 64" by (rule unat_lt_pow) simp
  then have "(unat n + 4095) div 4096 \<le> (2 ^ 64 + 4095) div 4096"
    by (intro div_le_mono add_right_mono less_imp_le)
  also have "\<dots> = 2 ^ 52" by simp
  finally have "(unat n + 4095) div 4096 * 4096 \<le> 2 ^ 52 * 4096" by (rule mult_le_mono1)
  then show ?thesis unfolding page_round_def by simp
qed

lemma page_round_guards:
  assumes "unat sz + 2 * unat g < 2 ^ 64" "4096 dvd unat g"
  shows "page_round (sz + g * 2) = page_round sz + 2 * unat g"
proof -
  obtain k where k: "unat g = 4096 * k" using assms(2) by blast
  have "unat (sz + g * 2) + 4095 = unat sz + 4095 + 4096 * (2 * k)"
    using add_guards_nat [OF assms(1)] k by simp
  then show ?thesis
    by (simp only: page_round_def div_mult_self2 k) simp
qed

lemma page_round_guards_le:
  fixes sz g :: size_t
  assumes "unat sz + 2 * unat g < 2 ^ 64" "4096 dvd unat g"
  shows "page_round sz + 2 * unat g \<le> 2 ^ 64"
  using page_round_guards [OF assms] page_round_le [of "sz + g * 2"] by simp

section \<open>Address ranges\<close>

text \<open>A range inside a larger range, when neither wraps.\<close>

lemma unat_diff_shift:
  fixes a p d :: ptr
  assumes "unat (a - (p + d)) + unat d < 2 ^ 64"
  shows "unat (a - p) = unat (a - (p + d)) + unat d"
proof -
  have "a - p = a - (p + d) + d" by simp
  then show ?thesis using assms unat_add_lt [of "a - (p + d)" d] by simp
qed

lemma in_range_shift:
  assumes "in_range (p + d) n a" "n + unat d \<le> m" "n + unat d \<le> 2 ^ 64"
  shows "in_range p m a"
proof -
  have "unat (a - (p + d)) + unat d < 2 ^ 64" using assms(1,3) unfolding in_range_def by linarith
  from unat_diff_shift [OF this] assms(1,2) show ?thesis unfolding in_range_def by linarith
qed

text \<open>Ranges as intervals of offsets from a base.\<close>

lemma in_range_offset:
  assumes "unat d + n \<le> 2 ^ 64"
  shows "in_range (p + d) n a \<longleftrightarrow> unat d \<le> unat (a - p) \<and> unat (a - p) < unat d + n"
proof -
  have "unat (a - (p + d)) =
      (if unat d \<le> unat (a - p) then unat (a - p) - unat d else unat (a - p) + 2 ^ 64 - unat d)"
    unfolding diff_diff_eq [symmetric] using unat_sub_if' [of "a - p" d] by simp
  then show ?thesis unfolding in_range_def using assms unsigned_less [of "a - p"] by (auto split: if_splits)
qed

text \<open>
  The usable pages are readable and writable, \<open>guard_size\<close> bytes on each side are mapped without
  access, and everything else is as before.
\<close>

definition guarded :: "ptr \<Rightarrow> nat \<Rightarrow> size_t \<Rightarrow> vm \<Rightarrow> vm" where
  "guarded p n guard_size v =
     (\<lambda>a. if in_range p n a then Some PROT_READ_WRITE
          else if in_range (p - guard_size) (n + 2 * unat guard_size) a then Some PROT_NONE
          else v a)"

lemma allocate_pages_cases:
  assumes "allocate_pages os us g True w = Returned (p, w')" "p \<noteq> NULL"
  obtains real w1 where "unat us + 2 * unat g < 2 ^ 64" "p = real + g" "real \<noteq> NULL"
    "memory_map os (us + g * 2) w = Returned (real, w1)"
    "memory_protect_rw os p us w1 = Returned (False, w')"
proof -
  obtain ov t where ag: "add_guards us g = (ov, t)" by (cases "add_guards us g")
  have "\<not> ov" using assms ag by (auto simp: allocate_pages_def)
  with ag add_guards_iff [of us g t] have "unat us + 2 * unat g < 2 ^ 64" "t = us + g * 2" by auto
  with assms ag \<open>\<not> ov\<close> show ?thesis
    by (auto simp: allocate_pages_def outcome_simps Let_def split: if_splits intro!: that)
qed

lemma allocate_pages_view:
  assumes "allocate_pages os us g True w = Returned (p, w')" "p \<noteq> NULL" "4096 dvd unat g"
  shows "vm_view (w_history w') = guarded p (page_round us) g (vm_view (w_history w))"
proof -
  from assms(1,2) obtain real w1 where
    ov: "unat us + 2 * unat g < 2 ^ 64" and p: "p = real + g" and nz: "real \<noteq> NULL"
    and map: "memory_map os (us + g * 2) w = Returned (real, w1)"
    and prot: "memory_protect_rw os p us w1 = Returned (False, w')"
    by (rule allocate_pages_cases)
  have v1: "vm_view (w_history w1) = vm_apply (Mmap (us + g * 2) PROT_NONE) real (vm_view (w_history w))"
    using memory_map_view [OF map nz] by blast
  obtain r where v2: "vm_view (w_history w') = vm_apply (Mprotect p us PROT_READ_WRITE) r (vm_view (w_history w1))"
    using prot sys_bool_view by (fastforce simp: memory_wrapper_defs)
  have "page_round us + 2 * unat g \<le> 2 ^ 64"
    using page_round_guards_le [OF ov assms(3)] .
  then have "in_range p (page_round us) a \<Longrightarrow> in_range real (page_round us + 2 * unat g) a" for a
    unfolding p using in_range_shift [of real g "page_round us" a "page_round us + 2 * unat g"] by simp
  then show ?thesis
    unfolding v2 v1
    by (auto simp: vm_apply_def guarded_def page_round_guards [OF ov assms(3)] p)
qed

lemma allocate_pages_fresh:
  assumes "allocate_pages os us g True w = Returned (p, w')" "p \<noteq> NULL" "fresh_mmap os w (us + g * 2)"
  shows "unat us + 2 * unat g < 2 ^ 64" "p - g \<noteq> NULL" "unat (p - g) + page_round (us + g * 2) < 2 ^ 64"
    and "in_range (p - g) (page_round (us + g * 2)) x \<Longrightarrow> vm_view (w_history w) x = None"
    and "4096 dvd unat g \<Longrightarrow> 4096 dvd unat p"
proof -
  from assms(1,2) obtain real w1 where c: "unat us + 2 * unat g < 2 ^ 64" "p = real + g" "real \<noteq> NULL"
    "memory_map os (us + g * 2) w = Returned (real, w1)" by (rule allocate_pages_cases)
  show "unat us + 2 * unat g < 2 ^ 64" "p - g \<noteq> NULL" using c by simp_all
  show "unat (p - g) + page_round (us + g * 2) < 2 ^ 64"
    "in_range (p - g) (page_round (us + g * 2)) x \<Longrightarrow> vm_view (w_history w) x = None"
    using memory_map_view [OF c(4,3)] assms(3) c(2) by (auto simp: fresh_mmap_def)
  have "4096 dvd unat real" using memory_map_view [OF c(4,3)] assms(3) by (auto simp: fresh_mmap_def)
  then show "4096 dvd unat g \<Longrightarrow> 4096 dvd unat p" unfolding c(2) by (simp add: unat_word_ariths dvd_mod)
qed

section \<open>Aligned allocation\<close>

lemma allocate_pages_aligned_cases:
  assumes "allocate_pages_aligned os us alignment g w = Returned (p, w')" "p \<noteq> NULL"
  obtains real usz total lead trail w1 w2 w3 where
    "usz = page_align us" "usz \<noteq> 0"
    "unat usz + unat (alignment - PAGE_SIZE) < 2 ^ 64"
    "unat (usz + (alignment - PAGE_SIZE)) + 2 * unat g < 2 ^ 64"
    "total = usz + (alignment - PAGE_SIZE) + g * 2"
    "memory_map os total w = Returned (real, w1)" "real \<noteq> NULL"
    "lead = align (real + g) alignment - (real + g)" "trail = alignment - PAGE_SIZE - lead"
    "p = real + g + lead"
    "memory_protect_rw os p usz w1 = Returned (False, w2)"
    "(if lead \<noteq> 0 then memory_unmap os real lead w2 else Returned (False, w2)) = Returned (False, w3)"
    "(if trail \<noteq> 0 then memory_unmap os (p + usz + g) trail w3 else Returned (False, w3))
       = Returned (False, w')"
proof -
  define usz where "usz = page_align us"
  have nz: "usz \<noteq> 0" using assms by (auto simp: allocate_pages_aligned_def usz_def)
  obtain ov als where ba: "builtin_add_overflow usz (alignment - PAGE_SIZE) = (ov, als)"
    by (cases "builtin_add_overflow usz (alignment - PAGE_SIZE)")
  have ov: "\<not> ov" using assms nz ba by (auto simp: allocate_pages_aligned_def usz_def)
  then have als: "unat usz + unat (alignment - PAGE_SIZE) < 2 ^ 64" "als = usz + (alignment - PAGE_SIZE)"
    using ba builtin_add_overflow_iff [of usz "alignment - PAGE_SIZE" als] by auto
  obtain ov2 total where ag: "add_guards als g = (ov2, total)" by (cases "add_guards als g")
  have ov2: "\<not> ov2" using assms nz ba ov ag by (auto simp: allocate_pages_aligned_def usz_def)
  then have total: "unat als + 2 * unat g < 2 ^ 64" "total = als + g * 2"
    using ag add_guards_iff [of als g total] by auto
  from assms nz ba ov ag ov2 obtain real w1 where
    map: "memory_map os total w = Returned (real, w1)" and real: "real \<noteq> NULL"
    by (auto simp: allocate_pages_aligned_def outcome_simps simp flip: usz_def split: if_splits)
  define lead where "lead = align (real + g) alignment - (real + g)"
  define trail where "trail = als - lead - usz"
  define base where "base = real + g + lead"
  from assms nz ba ov ag ov2 map real
  have rest: "bind_o (memory_protect_rw os base usz w1) (\<lambda>(failed, w).
      if failed then bind_o (memory_unmap os real total w) (\<lambda>(_, w). Returned (NULL, w))
      else bind_o (if lead \<noteq> 0 then memory_unmap os real lead w else Returned (False, w)) (\<lambda>(failed, w).
        if failed then bind_o (memory_unmap os real total w) (\<lambda>(_, w). Returned (NULL, w))
        else bind_o (if trail \<noteq> 0 then memory_unmap os (base + usz + g) trail w else Returned (False, w))
          (\<lambda>(failed, w).
            if failed then bind_o (memory_unmap os real total w) (\<lambda>(_, w). Returned (NULL, w))
            else Returned (base, w)))) = Returned (p, w')"
    unfolding base_def trail_def lead_def
    by (simp add: allocate_pages_aligned_def Let_def flip: usz_def)
  have "trail = alignment - PAGE_SIZE - lead" by (simp add: trail_def als)
  with that [OF usz_def nz als(1) _ _ map real lead_def] rest als total assms(2)
  show ?thesis
    by (auto simp: outcome_simps base_def simp del: if_split_asm split: if_splits)
qed

text \<open>Where the aligned block lies in the mapping, as natural numbers.\<close>

lemma aligned_layout:
  fixes real g usz alignment :: u64
  assumes k: "alignment = 2 ^ k" "12 \<le> k" "k < 64"
    and pages: "4096 dvd unat real" "4096 dvd unat g" "4096 \<le> unat usz"
    and room: "unat real + (unat usz + (2 ^ k - 4096) + 2 * unat g) < 2 ^ 64"
  defines "lead \<equiv> align (real + g) alignment - (real + g)"
  shows "unat lead \<le> 2 ^ k - 4096" "4096 dvd unat lead" "2 ^ k dvd unat (real + g + lead)"
    and "unat (real + g + lead) = unat real + unat g + unat lead"
    and "unat (alignment - PAGE_SIZE - lead) = 2 ^ k - 4096 - unat lead"
proof -
  have le: "4096 \<le> (2::nat) ^ k" using power_increasing [of 12 k "2::nat"] k(2) by simp
  have d: "4096 dvd (2::nat) ^ k" using le_imp_power_dvd [of 12 k "2::nat"] k(2) by simp
  have rg: "unat (real + g) = unat real + unat g" using room le by (subst unat_add_lt) auto
  define top where "top = align_nat (unat real + unat g) (2 ^ k)"
  have bounds: "unat real + unat g \<le> top" "top < unat real + unat g + 2 ^ k"
    using align_nat_bounds [of "2 ^ k" "unat real + unat g"] by (simp_all add: top_def)
  have "unat (align (real + g) alignment) = top"
    using unat_align_no_overflow [OF k(3), of "real + g"] rg room le pages(3)
    by (simp add: k(1) top_def)
  then have lead: "unat lead = top - (unat real + unat g)"
    using bounds(1) rg by (simp add: lead_def unat_sub_if')
  have top4: "4096 dvd top" using d dvd_trans align_nat_dvd unfolding top_def by blast
  show l4: "4096 dvd unat lead" unfolding lead using top4 pages by (intro dvd_diff_nat dvd_add)
  have "unat lead < 2 ^ k" using lead bounds by linarith
  then show lle: "unat lead \<le> 2 ^ k - 4096"
  proof -
    obtain m where m: "(2::nat) ^ k = 4096 * m" using d by blast
    obtain l where l: "unat lead = 4096 * l" using l4 by blast
    have "l < m" using \<open>unat lead < 2 ^ k\<close> unfolding m l by simp
    then show ?thesis unfolding m l by simp
  qed
  show sum: "unat (real + g + lead) = unat real + unat g + unat lead"
    using room lle le by (subst unat_add_lt) (auto simp: rg)
  show "2 ^ k dvd unat (real + g + lead)"
    unfolding sum lead using bounds(1) by (simp add: top_def)
  have ua: "unat alignment = 2 ^ k" unfolding k(1) using k(3) by (simp add: unat_2p)
  then have "unat (alignment - PAGE_SIZE) = 2 ^ k - 4096" using le by (simp add: unat_sub_if')
  then show "unat (alignment - PAGE_SIZE - lead) = 2 ^ k - 4096 - unat lead"
    using lle by (simp add: unat_sub_if')
qed

text \<open>The sizes of the pieces, when the mapping is page aligned and does not wrap.\<close>

lemma aligned_sizes:
  fixes real g usz alignment :: u64
  assumes k: "alignment = 2 ^ k" "12 \<le> k" "k < 64" and g: "4096 dvd unat g"
    and u: "4096 dvd unat usz" "usz \<noteq> 0"
    and o1: "unat usz + unat (alignment - PAGE_SIZE) < 2 ^ 64"
    and o2: "unat (usz + (alignment - PAGE_SIZE)) + 2 * unat g < 2 ^ 64"
    and real: "4096 dvd unat real" "unat real + page_round (usz + (alignment - PAGE_SIZE) + g * 2) < 2 ^ 64"
  defines "lead \<equiv> align (real + g) alignment - (real + g)"
  defines "trail \<equiv> alignment - PAGE_SIZE - lead"
  defines "whole \<equiv> usz + (alignment - PAGE_SIZE) + g * 2"
  shows "4096 dvd unat lead" "4096 dvd unat trail" "4096 dvd unat whole" "2 ^ k dvd unat (real + g + lead)"
    and "unat lead + unat usz + 2 * unat g + unat trail = unat whole" "unat real + unat whole < 2 ^ 64"
    and "unat (g + lead) = unat g + unat lead" "unat (g + lead + usz + g) = unat lead + unat g + unat usz + unat g"
proof -
  have le: "4096 \<le> (2::nat) ^ k" using power_increasing [of 12 k "2::nat"] k(2) by simp
  have d: "4096 dvd (2::nat) ^ k" using le_imp_power_dvd [of 12 k "2::nat"] k(2) by simp
  have ua: "unat (alignment - PAGE_SIZE) = 2 ^ k - 4096" using le k by (simp add: unat_sub_if' unat_2p)
  have u4: "4096 \<le> unat usz" using u by (intro dvd_imp_le) (auto simp: unat_gt_0)
  have ut: "unat whole = unat usz + (2 ^ k - 4096) + 2 * unat g"
    using whole_def add_guards_nat [OF o2] unat_add_lt [of usz "alignment - PAGE_SIZE"] o1 ua by simp
  show t4: "4096 dvd unat whole" unfolding ut using u d g by (intro dvd_add dvd_diff_nat dvd_mult) auto
  show rt: "unat real + unat whole < 2 ^ 64" using real(2) page_round_aligned [OF t4] by (simp add: whole_def)
  have room: "unat real + (unat usz + (2 ^ k - 4096) + 2 * unat g) < 2 ^ 64" using rt ut by simp
  note layout = aligned_layout [OF k real(1) g u4 room, folded lead_def, folded trail_def]
  show "4096 dvd unat lead" "2 ^ k dvd unat (real + g + lead)" by (rule layout)+
  show "4096 dvd unat trail" unfolding layout(5) using d layout(2) by (intro dvd_diff_nat) auto
  show sum: "unat lead + unat usz + 2 * unat g + unat trail = unat whole" using layout(1,5) ut by linarith
  have lt: "unat whole < 2 ^ 64" by (rule unat_lt_pow) simp
  show gl: "unat (g + lead) = unat g + unat lead" using lt sum by (intro unat_add_lt) simp
  have "unat (g + lead + usz) = unat g + unat lead + unat usz"
    using lt sum gl unat_add_lt [of "g + lead" usz] by simp
  then show "unat (g + lead + usz + g) = unat lead + unat g + unat usz + unat g"
    using lt sum unat_add_lt [of "g + lead + usz" g] by simp
qed

text \<open>
  The four calls of an aligned allocation, seen as offsets \<open>x\<close> from the start of the mapping.
\<close>

lemma aligned_view:
  assumes "lead + n + 2 * g + trail < (2::nat) ^ 64"
    and "\<And>a. in_range real (lead + n + 2 * g + trail) a \<Longrightarrow> v a = None"
    and v': "\<And>a. v' a = (let x = unat (a - real) in
        if lead + g + n + g \<le> x \<and> x < lead + g + n + g + trail then None
        else if x < lead then None
        else if lead + g \<le> x \<and> x < lead + g + n then Some PROT_READ_WRITE
        else if x < lead + n + 2 * g + trail then Some PROT_NONE
        else v a)"
    and "unat gw = g" "unat lw = lead" "unat real + (lead + n + 2 * g + trail) < 2 ^ 64"
  shows "v' = guarded (real + gw + lw) n gw v"
proof
  fix a
  have s1: "unat (gw + lw) = lead + g" using assms(1,4,5) by (subst unat_add_lt) auto
  have 1: "in_range (real + gw + lw) n a \<longleftrightarrow> lead + g \<le> unat (a - real) \<and> unat (a - real) < lead + g + n"
    unfolding add.assoc [of real] using in_range_offset [of "gw + lw" n real a] s1 assms(1) by simp
  have "real + gw + lw - gw = real + lw" by simp
  then have 2: "in_range (real + gw + lw - gw) (n + 2 * g) a \<longleftrightarrow>
      lead \<le> unat (a - real) \<and> unat (a - real) < lead + (n + 2 * g)"
    using in_range_offset [of lw "n + 2 * g" real a] assms(1,5) by simp
  show "v' a = guarded (real + gw + lw) n gw v a"
    using assms(2) [of a, unfolded in_range_def] unfolding v' guarded_def assms(4) 1 2 Let_def by auto
qed

lemma cond_unmap_view:
  assumes "(if n \<noteq> 0 then memory_unmap os q n w else Returned (False, w)) = Returned (False, w')"
    and "4096 dvd unat n"
  shows "vm_view (w_history w') a = (if in_range q (unat n) a then None else vm_view (w_history w) a)"
proof (cases "n = 0")
  case True
  with assms(1) show ?thesis by (simp add: in_range_def)
next
  case False
  with assms(1) sys_bool_view obtain r where
    "vm_view (w_history w') = vm_apply (Munmap q n) r (vm_view (w_history w))"
    by (fastforce simp: memory_wrapper_defs)
  then show ?thesis by (simp add: vm_apply_def page_round_aligned [OF assms(2)])
qed

lemma allocate_pages_aligned_view:
  assumes "allocate_pages_aligned os us alignment g w = Returned (p, w')" "p \<noteq> NULL"
    and k: "alignment = 2 ^ k" "12 \<le> k" "k < 64" and g: "4096 dvd unat g"
    and fresh: "\<And>n. fresh_mmap os w n"
  shows "2 ^ k dvd unat p"
    and "vm_view (w_history w') = guarded p (page_round us) g (vm_view (w_history w))"
    and "unat us + 2 * unat g < 2 ^ 64" "p - g \<noteq> NULL" "unat (p - g) + (page_round us + 2 * unat g) < 2 ^ 64"
    and "in_range (p - g) (page_round us + 2 * unat g) x \<Longrightarrow> vm_view (w_history w) x = None"
proof -
  from assms(1,2) obtain real usz total lead trail w1 w2 w3 where
    usz: "usz = page_align us" "usz \<noteq> 0"
    and o1: "unat usz + unat (alignment - PAGE_SIZE) < 2 ^ 64"
    and o2: "unat (usz + (alignment - PAGE_SIZE)) + 2 * unat g < 2 ^ 64"
    and total: "total = usz + (alignment - PAGE_SIZE) + g * 2"
    and map: "memory_map os total w = Returned (real, w1)" "real \<noteq> NULL"
    and lead: "lead = align (real + g) alignment - (real + g)"
    and trail: "trail = alignment - PAGE_SIZE - lead"
    and p: "p = real + g + lead"
    and prot: "memory_protect_rw os p usz w1 = Returned (False, w2)"
    and um1: "(if lead \<noteq> 0 then memory_unmap os real lead w2 else Returned (False, w2)) = Returned (False, w3)"
    and um2: "(if trail \<noteq> 0 then memory_unmap os (p + usz + g) trail w3 else Returned (False, w3))
       = Returned (False, w')"
    by (rule allocate_pages_aligned_cases)
  have usn: "unat usz = page_round us" using usz page_align_nonzero(1) by simp
  have u4: "4096 dvd unat usz" using usn by simp
  have real: "4096 dvd unat real" "unat real + page_round total < 2 ^ 64"
    "\<And>a. in_range real (page_round total) a \<Longrightarrow> vm_view (w_history w) a = None"
    using memory_map_view [OF map] fresh [of total] by (auto simp: fresh_mmap_def)
  note sizes = aligned_sizes [OF k g u4 usz(2) o1 o2 real(1) real(2) [unfolded total], folded lead, folded total trail]
  note l4 = sizes(1) and tr4 = sizes(2) and t4 = sizes(3) and sum = sizes(5) and room = sizes(6) and gl = sizes(7) and glu = sizes(8)
  note real = real [unfolded page_round_aligned [OF t4]]
  show "2 ^ k dvd unat p" using sizes(4) p by simp
  obtain r where v2: "vm_view (w_history w2) = vm_apply (Mprotect p usz PROT_READ_WRITE) r (vm_view (w_history w1))"
    using prot sys_bool_view by (fastforce simp: memory_wrapper_defs)
  have v1: "vm_view (w_history w1) = vm_apply (Mmap total PROT_NONE) real (vm_view (w_history w))"
    using memory_map_view [OF map] by blast
  have lt: "unat total < 2 ^ 64" by (rule unat_lt_pow) simp
  have r1: "in_range p (unat usz) a \<longleftrightarrow>
      unat lead + unat g \<le> unat (a - real) \<and> unat (a - real) < unat lead + unat g + unat usz" for a
    using in_range_offset [of "g + lead" "unat usz" real a] gl lt sum by (simp add: p ac_simps)
  have peq: "p + usz + g = real + (g + lead + usz + g)" by (simp add: p add.assoc)
  have r2: "in_range (p + usz + g) (unat trail) a \<longleftrightarrow>
      unat lead + unat g + unat usz + unat g \<le> unat (a - real) \<and>
      unat (a - real) < unat lead + unat g + unat usz + unat g + unat trail" for a
    unfolding peq using in_range_offset [of "g + lead + usz + g" "unat trail" real a] glu lt sum by simp
  have pr: "page_round usz = unat usz" "page_round total = unat total"
    using u4 t4 by (simp_all add: page_round_aligned)
  show "unat us + 2 * unat g < 2 ^ 64" using page_round_ge [of us] usn sum lt by linarith
  have pg: "p - g = real + lead" by (simp add: p)
  have up: "unat (p - g) = unat real + unat lead" unfolding pg using real(2) sum by (intro unat_add_lt) simp
  show "unat (p - g) + (page_round us + 2 * unat g) < 2 ^ 64" unfolding up usn [symmetric] using real(2) sum by linarith
  note up
  moreover have "0 < unat real" using map(2) by (simp add: unat_gt_0)
  ultimately show "p - g \<noteq> NULL" by (metis add_gr_0 less_irrefl unat_0)
  show "in_range (p - g) (page_round us + 2 * unat g) x \<Longrightarrow> vm_view (w_history w) x = None"
    unfolding pg usn [symmetric]
    using in_range_offset [of lead "unat usz + 2 * unat g" real x] sum lt real(3) [of x] by (simp add: in_range_def [of real])
  show "vm_view (w_history w') = guarded p (page_round us) g (vm_view (w_history w))"
    unfolding p usn [symmetric]
  proof (rule aligned_view [of "unat lead" "unat usz" "unat g" "unat trail" real])
    fix a
    show "vm_view (w_history w') a = (let x = unat (a - real) in
        if unat lead + unat g + unat usz + unat g \<le> x \<and> x < unat lead + unat g + unat usz + unat g + unat trail then None
        else if x < unat lead then None
        else if unat lead + unat g \<le> x \<and> x < unat lead + unat g + unat usz then Some PROT_READ_WRITE
        else if x < unat lead + unat usz + 2 * unat g + unat trail then Some PROT_NONE
        else vm_view (w_history w) a)"
      unfolding cond_unmap_view [OF um2 tr4] cond_unmap_view [OF um1 l4] v2 v1 r2 Let_def sum
      using lt sum by (auto simp: vm_apply_def pr r1 in_range_def [of real])
  qed (use lt sum real room in auto)
qed

section \<open>Properties\<close>

text \<open>
  C36. Guard regions: a successful \<^verbatim>\<open>allocate_pages\<close> did not overflow, makes exactly the pages of the
  requested size readable and writable, keeps \<^verbatim>\<open>guard_size\<close> inaccessible bytes on each side of them
  and changes no other mapping.
\<close>

theorem allocate_pages_guarded:
  assumes "allocate_pages os usable_size guard_size True w = Returned (p, w')" "p \<noteq> NULL"
    and "4096 dvd unat guard_size"
  shows "unat usable_size + 2 * unat guard_size < 2 ^ 64 \<and>
    vm_view (w_history w') =
      guarded p (page_round usable_size) guard_size (vm_view (w_history w))"
  using assms allocate_pages_view [OF assms] by (auto elim: allocate_pages_cases)

theorem allocate_pages_guarded_witness:
  "\<exists>w'. allocate_pages bump_kernel 4096 8192 True start_world = Returned (0x100000002000, w') \<and>
     vm_view (w_history w') = guarded 0x100000002000 4096 8192 Map.empty"
proof -
  let ?w = "start_world\<lparr>w_history := [(Mprotect 0x100000002000 4096 PROT_READ_WRITE, Sys_ok 0),
    (Mmap 20480 PROT_NONE, Sys_ok 0x100000000000)]\<rparr>"
  have run: "allocate_pages bump_kernel 4096 8192 True start_world = Returned (0x100000002000, ?w)"
    by (simp add: allocate_pages_def add_guards_def builtin_add_overflow_def memory_map_def
        memory_map_prot_def memory_wrapper_defs sys_bool_def sys_def bump_kernel_def start_world_def
        page_round_def)
  from allocate_pages_guarded [OF this] run show ?thesis
    by (simp add: page_round_def start_world_def)
qed

text \<open>
  Aligned guard regions: for an alignment of at least a page, a successful
  \<^verbatim>\<open>allocate_pages_aligned\<close> returns a multiple of the alignment, and after it has given back the
  leading and trailing pages the address space is as for \<^verbatim>\<open>allocate_pages\<close>: exactly the requested
  pages accessible, \<^verbatim>\<open>guard_size\<close> inaccessible bytes on each side, everything else as before. The
  kernel is only assumed to map fresh, page-aligned ranges.
\<close>

lemma allocate_pages_aligned_guarded:
  assumes "allocate_pages_aligned os usable_size alignment guard_size w = Returned (p, w')" "p \<noteq> NULL"
    and "alignment = 2 ^ k" "12 \<le> k" "k < 64" "4096 dvd unat guard_size"
    and "\<And>n. fresh_mmap os w n"
  shows "unat alignment dvd unat p \<and>
    vm_view (w_history w') =
      guarded p (page_round usable_size) guard_size (vm_view (w_history w))"
  using allocate_pages_aligned_view [OF assms] assms(3,5) by (simp add: unat_2p)

end
