(* ===== verification/Size_Classes.thy ===== *)
theory Size_Classes
  imports Pages
begin

text \<open>
  Size classes of \<^verbatim>\<open>src/h_malloc.c\<close>: the tables, the arithmetic that maps a request to its class
  without searching the table, the search for an aligned class, and the size classes of large
  allocations.
\<close>

section \<open>Tables\<close>

definition size_classes :: "config \<Rightarrow> u32 list" where
  "size_classes cfg =
     [0,
      16, 32, 48, 64, 80, 96, 112, 128,
      160, 192, 224, 256,
      320, 384, 448, 512,
      640, 768, 896, 1024,
      1280, 1536, 1792, 2048,
      2560, 3072, 3584, 4096,
      5120, 6144, 7168, 8192,
      10240, 12288, 14336, 16384] @
     (if CONFIG_EXTENDED_SIZE_CLASSES cfg then
        [20480, 24576, 28672, 32768,
         40960, 49152, 57344, 65536,
         81920, 98304, 114688, 131072]
      else [])"

definition size_class_slots :: "config \<Rightarrow> u16 list" where
  "size_class_slots cfg =
     [256,
      256, 128, 85, 64, 51, 42, 36, 64,
      51, 64, 54, 64,
      64, 64, 64, 64,
      64, 64, 64, 64,
      16, 16, 16, 16,
      8, 8, 8, 8,
      8, 8, 8, 8,
      6, 5, 4, 4] @
     (if CONFIG_EXTENDED_SIZE_CLASSES cfg then
        [1, 1, 1, 1,
         1, 1, 1, 1,
         1, 1, 1, 1]
      else [])"

definition get_slots :: "config \<Rightarrow> nat \<Rightarrow> size_t" where
  "get_slots cfg class' = ucast (size_class_slots cfg ! class')"

definition N_SIZE_CLASSES :: "config \<Rightarrow> nat" where
  "N_SIZE_CLASSES cfg = length (size_classes cfg)"

section \<open>Lookup\<close>

record size_info =
  si_size :: size_t
  si_class :: size_t

definition get_size_info :: "size_t \<Rightarrow> size_info" where
  "get_size_info sz =
     (if sz = 0 then \<lparr>si_size = 0, si_class = 0\<rparr>
      else if sz \<le> 128 then \<lparr>si_size = align sz 16, si_class = drop_bit 4 (sz - 1) + 1\<rparr>
      else
        let initial_spacing_multiplier = 5;
            special_small_sizes = 5;
            spacing_class_shift = log2u64 (sz - 1) - 2;
            spacing_class = push_bit (unat spacing_class_shift) 1;
            real_size = align sz spacing_class;
            spacing_class_index = drop_bit (unat spacing_class_shift) real_size - initial_spacing_multiplier;
            index = (spacing_class_shift - 4) * 4 + special_small_sizes + spacing_class_index
        in \<lparr>si_size = real_size, si_class = index\<rparr>)"

text \<open>The loop of \<^verbatim>\<open>get_size_info_align\<close> over the classes from \<open>class'\<close> on.\<close>

function size_info_align_loop :: "config \<Rightarrow> size_t \<Rightarrow> size_t \<Rightarrow> nat \<Rightarrow> size_info outcome" where
  "size_info_align_loop cfg sz alignment class' =
     (if class' < N_SIZE_CLASSES cfg then
        let real_size = ucast (size_classes cfg ! class') :: size_t in
        if sz \<le> real_size \<and> real_size AND (alignment - 1) = 0
        then Returned \<lparr>si_size = real_size, si_class = of_nat class'\<rparr>
        else size_info_align_loop cfg sz alignment (class' + 1)
      else Aborted ''invalid size for slabs'')"
  by pat_completeness auto
termination
  by (relation "measure (\<lambda>(cfg, sz, alignment, class'). N_SIZE_CLASSES cfg - class')") auto

declare size_info_align_loop.simps [simp del]

definition get_size_info_align :: "config \<Rightarrow> size_t \<Rightarrow> size_t \<Rightarrow> size_info outcome" where
  "get_size_info_align cfg sz alignment =
     (let start = unat (si_class (get_size_info sz));
          start = (if start = 0 then 1 else start)
      in size_info_align_loop cfg sz alignment start)"

definition get_slab_size :: "size_t \<Rightarrow> size_t \<Rightarrow> size_t" where
  "get_slab_size slots sz = page_align (slots * sz)"

definition get_large_size_class :: "config \<Rightarrow> size_t \<Rightarrow> size_t" where
  "get_large_size_class cfg sz =
     (if CONFIG_LARGE_SIZE_CLASSES cfg then si_size (get_size_info (max sz PAGE_SIZE))
      else page_align sz)"

definition adjust_size_for_canary :: "config \<Rightarrow> size_t \<Rightarrow> size_t" where
  "adjust_size_for_canary cfg sz =
     (if 0 < sz \<and> sz \<le> max_slab_size_class cfg then sz + canary_size cfg else sz)"

section \<open>The spacing classes\<close>

text \<open>
  Above 128 the classes of a spacing \<open>2 ^ s\<close> are \<open>q * 2 ^ s\<close> for \<open>q\<close> from 5 to 8. Every size lies
  just below exactly one of them.
\<close>

lemma log2u64_pred:
  assumes "2 ^ (s + 2) < unat sz" "unat sz \<le> 2 ^ (s + 3)" "s + 2 < 64"
  shows "log2u64 (sz - 1) = of_nat (s + 2)"
proof -
  have "sz \<noteq> 0" using assms(1) by auto
  then have "unat (sz - 1) = unat sz - 1" by (simp add: unat_minus_one)
  then show ?thesis
    using log2u64_eq [of "s + 2" "sz - 1"] assms by (simp add: numeral_3_eq_3)
qed

lemma spacing_exists:
  assumes "128 < (n::nat)"
  obtains s q where "5 \<le> s" "5 \<le> q" "q \<le> 8" "(q - 1) * 2 ^ s < n" "n \<le> q * 2 ^ s"
proof -
  obtain k where k: "2 ^ k \<le> n - 1" "n - 1 < 2 ^ Suc k" using ex_log2 [of "n - 1"] assms by auto
  have "7 \<le> k"
  proof (rule ccontr)
    assume "\<not> 7 \<le> k"
    then have "(2::nat) ^ Suc k \<le> 2 ^ 7" by (intro power_increasing) auto
    with k(2) assms show False by simp
  qed
  then obtain s where s: "k = s + 2" "5 \<le> s" by (intro that [of "k - 2"]) auto
  define q where "q = (n + (2 ^ s - 1)) div 2 ^ s"
  have eq: "q * 2 ^ s = align_nat n (2 ^ s)" by (simp add: q_def align_nat_def)
  then have b: "n \<le> q * 2 ^ s" "q * 2 ^ s < n + 2 ^ s"
    using align_nat_bounds [of "2 ^ s" n] by simp_all
  have "4 * 2 ^ s < n" "n \<le> 8 * 2 ^ s" using k assms by (auto simp: s(1) power_add)
  then have "4 * 2 ^ s < q * 2 ^ s" "q * 2 ^ s < 9 * 2 ^ s" using b by linarith+
  then have q: "5 \<le> q" "q \<le> 8" by simp_all
  moreover have "(q - 1) * 2 ^ s < n"
  proof -
    have "(q - 1) * 2 ^ s = q * 2 ^ s - 2 ^ s" "2 ^ s \<le> q * 2 ^ s"
      using q by (simp_all add: diff_mult_distrib)
    then show ?thesis using b by linarith
  qed
  ultimately show ?thesis using that [OF s(2)] b by blast
qed

text \<open>
  What the arithmetic of \<^verbatim>\<open>get_size_info\<close> computes for a size above 128. Only the very last class,
  \<open>8 * 2 ^ 61\<close>, does not fit 64 bits; there the size wraps to 0.
\<close>

lemma get_size_info_spacing:
  assumes q: "5 \<le> q" "q \<le> 8" and sz: "(q - 1) * 2 ^ s < unat sz" "unat sz \<le> q * 2 ^ s" and s: "5 \<le> s"
  shows "unat (si_size (get_size_info sz)) = q * 2 ^ s mod 2 ^ 64"
    and "q * 2 ^ s < 2 ^ 64 \<Longrightarrow> unat (si_class (get_size_info sz)) = (s - 4) * 4 + q"
proof -
  have 4: "4 * 2 ^ s \<le> (q - 1) * 2 ^ s" "q * 2 ^ s \<le> 8 * 2 ^ s"
    using q by (simp_all add: mult_le_mono1)
  have s64: "s + 2 < 64"
  proof (rule ccontr)
    assume "\<not> s + 2 < 64"
    then have "(2::nat) ^ 64 \<le> 2 ^ (s + 2)" by (intro power_increasing) auto
    also have "\<dots> = 4 * 2 ^ s" by (simp add: power_add)
    also have "\<dots> < unat sz" using 4(1) sz(1) by linarith
    finally show False using unat_lt_pow [of 64 sz] by simp
  qed
  have "32 \<le> (2::nat) ^ s" using power_increasing [of 5 s "2::nat"] s by simp
  then have big: "128 < unat sz" using 4 sz by linarith
  have big': "sz \<noteq> 0" "\<not> sz \<le> 128" using big by (auto simp: word_le_nat_alt)
  have "4 * 2 ^ s < unat sz" "unat sz \<le> 8 * 2 ^ s" using 4 sz by linarith+
  then have "2 ^ (s + 2) < unat sz" "unat sz \<le> 2 ^ (s + 3)" by (simp_all add: power_add)
  then have sh: "log2u64 (sz - 1) - 2 = of_nat s" using log2u64_pred s64 by simp
  have us: "unat (of_nat s :: u64) = s" using s64 by (simp add: unat_of_nat)
  have sp: "push_bit s 1 = (2 ^ s :: u64)" by (simp add: push_bit_eq_mult)
  have div: "(unat sz + (2 ^ s - 1)) div 2 ^ s = q"
    using sz q by (intro div_nat_eqI) (auto simp: diff_mult_distrib mult.commute)
  note info = get_size_info_def [of sz] big' sh us sp Let_def
  have size: "unat (align sz (2 ^ s)) = q * 2 ^ s mod 2 ^ 64"
  proof (cases "unat sz + (2 ^ s - 1) < 2 ^ 64")
    case True
    then have "unat (align sz (2 ^ s)) = q * 2 ^ s"
      using unat_align [of s sz] s64 div by simp
    then show ?thesis using unat_lt_pow [of 64 "align sz (2 ^ s)"] by simp
  next
    case False
    then have "align sz (2 ^ s) = 0" using align_overflow [of s sz] s64 by simp
    moreover have "q * 2 ^ s mod 2 ^ 64 = 0"
    proof -
      have "q * 2 ^ s \<le> 2 ^ (s + 3)" using q by (simp add: power_add)
      also have "\<dots> \<le> 2 ^ 64" using s64 by (intro power_increasing) auto
      finally have "q * 2 ^ s \<le> 2 ^ 64" .
      moreover have "2 ^ 64 \<le> q * 2 ^ s"
      proof (rule ccontr)
        assume small: "\<not> 2 ^ 64 \<le> q * 2 ^ s"
        have "2 ^ s dvd (2::nat) ^ 64" using s64 by (intro le_imp_power_dvd) auto
        then obtain m where m: "(2::nat) ^ 64 = 2 ^ s * m" by blast
        from small have "q * 2 ^ s < m * 2 ^ s" unfolding m by (simp add: mult.commute)
        then have "q < m" by simp
        then have "Suc q * 2 ^ s \<le> m * 2 ^ s" by (intro mult_le_mono1) simp
        then have "q * 2 ^ s + 2 ^ s \<le> 2 ^ 64" unfolding m by (simp add: mult.commute)
        with False sz zero_less_power [of "2::nat" s] show False by linarith
      qed
      ultimately show ?thesis by simp
    qed
    ultimately show ?thesis by simp
  qed
  show "unat (si_size (get_size_info sz)) = q * 2 ^ s mod 2 ^ 64"
    using size by (simp add: info)
  show "unat (si_class (get_size_info sz)) = (s - 4) * 4 + q" if "q * 2 ^ s < 2 ^ 64"
  proof -
    have "unat (drop_bit s (align sz (2 ^ s))) = q"
      using size that by (simp add: unat_drop_bit)
    then have dq: "drop_bit s (align sz (2 ^ s)) = of_nat q"
      using q by (simp add: word_unat_eq_iff unat_of_nat)
    have "(of_nat s - 4) * 4 + 5 + (of_nat q - 5) = (of_nat ((s - 4) * 4 + q) :: u64)"
      using s q by (simp add: of_nat_diff)
    then have "si_class (get_size_info sz) = of_nat ((s - 4) * 4 + q)"
      by (simp add: info dq)
    moreover have "(s - 4) * 4 + q < 2 ^ 64" using s64 q by simp
    ultimately show ?thesis by (simp only: unat_of_nat) simp
  qed
qed

lemma get_size_info_small:
  assumes "0 < unat sz" "unat sz \<le> 128"
  shows "unat (si_size (get_size_info sz)) = align_nat (unat sz) 16"
    and "unat (si_class (get_size_info sz)) = (unat sz - 1) div 16 + 1"
proof -
  have sz: "sz \<noteq> 0" "sz \<le> 128" using assms by (auto simp: word_le_nat_alt)
  have "unat (align sz (2 ^ 4)) = align_nat (unat sz) (2 ^ 4)"
    using assms by (intro unat_align_no_overflow) auto
  then show "unat (si_size (get_size_info sz)) = align_nat (unat sz) 16"
    using sz by (simp add: get_size_info_def)
  have "unat (drop_bit 4 (sz - 1)) = (unat sz - 1) div 16"
    using sz by (simp add: unat_drop_bit unat_minus_one)
  moreover have "(unat sz - 1) div 16 < 2 ^ 32" using assms by (intro le_less_trans [OF div_le_dividend]) simp
  ultimately show "unat (si_class (get_size_info sz)) = (unat sz - 1) div 16 + 1"
    using sz by (subst get_size_info_def) (simp add: unat_word_ariths)
qed

section \<open>The arithmetic agrees with the table\<close>

text \<open>\<open>class_size\<close> reads the table as natural numbers.\<close>

definition class_size :: "config \<Rightarrow> nat \<Rightarrow> nat" where
  "class_size cfg i = unat (size_classes cfg ! i)"

lemma N_SIZE_CLASSES_eq: "N_SIZE_CLASSES cfg = (if CONFIG_EXTENDED_SIZE_CLASSES cfg then 49 else 37)"
  by (simp add: N_SIZE_CLASSES_def size_classes_def)

lemma upto_cases: "(n::nat) < Suc m \<longleftrightarrow> n = m \<or> n < m"
  by auto

lemma class_size_small: "1 \<le> i \<Longrightarrow> i \<le> 8 \<Longrightarrow> class_size cfg i = 16 * i"
proof -
  assume "1 \<le> i" "i \<le> 8"
  then have "i \<in> {1, 2, 3, 4, 5, 6, 7, 8}" by auto
  then show ?thesis by (auto simp: class_size_def size_classes_def)
qed

lemma class_size_spacing:
  assumes "5 \<le> s" "s \<le> (if CONFIG_EXTENDED_SIZE_CLASSES cfg then 14 else 11)" "4 \<le> q" "q \<le> 8"
  shows "class_size cfg ((s - 4) * 4 + q) = q * 2 ^ s"
proof -
  have s: "s = 5 \<or> s = 6 \<or> s = 7 \<or> s = 8 \<or> s = 9 \<or> s = 10 \<or> s = 11 \<or>
    CONFIG_EXTENDED_SIZE_CLASSES cfg \<and> (s = 12 \<or> s = 13 \<or> s = 14)"
    using assms(1,2) by (cases "CONFIG_EXTENDED_SIZE_CLASSES cfg") (simp_all, presburger+)
  have q: "q = 4 \<or> q = 5 \<or> q = 6 \<or> q = 7 \<or> q = 8" using assms(3,4) by auto
  show ?thesis
    using s q by (elim disjE conjE) (simp_all add: class_size_def size_classes_def)
qed

text \<open>Requests up to the largest slab class: in the table, large enough, and the next class down is too small.\<close>

lemma get_size_info_table:
  assumes "0 < unat sz" "sz \<le> max_slab_size_class cfg"
  defines "c \<equiv> unat (si_class (get_size_info sz))"
  shows "1 \<le> c" "c < N_SIZE_CLASSES cfg" "unat (si_size (get_size_info sz)) = class_size cfg c"
    and "unat sz \<le> class_size cfg c" "class_size cfg (c - 1) < unat sz"
proof -
  have "1 \<le> c \<and> c < N_SIZE_CLASSES cfg \<and> unat (si_size (get_size_info sz)) = class_size cfg c
    \<and> unat sz \<le> class_size cfg c \<and> class_size cfg (c - 1) < unat sz"
  proof (cases "unat sz \<le> 128")
    case True
    note small = get_size_info_small [OF assms(1) True]
    define i where "i = (unat sz - 1) div 16"
    have i: "16 * i < unat sz" "unat sz \<le> 16 * (i + 1)" "i < 8"
      using assms(1) True unfolding i_def by presburger+
    have "c = i + 1" using small(2) by (simp add: c_def i_def)
    moreover have "align_nat (unat sz) 16 = 16 * (i + 1)"
    proof -
      have "(unat sz + 15) div 16 = i + 1" using i by (intro div_nat_eqI) auto
      then show ?thesis by (simp add: align_nat_def)
    qed
    moreover have "class_size cfg i = 16 * i"
      using i(3) class_size_small [of i cfg]
      by (cases "i = 0") (simp_all add: class_size_def size_classes_def)
    moreover have "class_size cfg (i + 1) = 16 * (i + 1)"
      using i(3) by (intro class_size_small) auto
    ultimately show ?thesis using small(1) i by (simp add: N_SIZE_CLASSES_eq)
  next
    case False
    then obtain s q where q: "5 \<le> q" "q \<le> 8" and s: "5 \<le> s"
      and sz: "(q - 1) * 2 ^ s < unat sz" "unat sz \<le> q * 2 ^ s"
      using spacing_exists [of "unat sz"] by (metis not_le)
    have le: "unat sz \<le> (if CONFIG_EXTENDED_SIZE_CLASSES cfg then 2 ^ 17 else 2 ^ 14)"
      using assms(2) by (auto simp: word_le_nat_alt max_slab_size_class_def split: if_splits)
    have s': "s \<le> (if CONFIG_EXTENDED_SIZE_CLASSES cfg then 14 else 11)"
    proof (rule ccontr)
      let ?m = "if CONFIG_EXTENDED_SIZE_CLASSES cfg then 14 else 11 :: nat"
      assume "\<not> s \<le> ?m"
      then have "(2::nat) ^ Suc ?m \<le> 2 ^ s" by (intro power_increasing) auto
      moreover have "4 * 2 ^ s \<le> (q - 1) * 2 ^ s" using q by (intro mult_le_mono1) auto
      ultimately have "4 * (2::nat) ^ Suc ?m < unat sz" using sz(1) by linarith
      then show False using le by (auto split: if_splits)
    qed
    have tab: "class_size cfg ((s - 4) * 4 + q) = q * 2 ^ s"
      and tab': "class_size cfg ((s - 4) * 4 + (q - 1)) = (q - 1) * 2 ^ s"
      using class_size_spacing [OF s s', of q] class_size_spacing [OF s s', of "q - 1"] q by auto
    have "q * 2 ^ s < 2 ^ 64"
    proof -
      have "q * 2 ^ s \<le> 8 * 2 ^ 14"
        using q s' by (intro mult_le_mono power_increasing) (auto split: if_splits)
      then show ?thesis by simp
    qed
    note info = get_size_info_spacing [OF q sz s] this
    have "(s - 4) * 4 + q < N_SIZE_CLASSES cfg"
      using s s' q by (auto simp: N_SIZE_CLASSES_eq split: if_splits)
    moreover have "(s - 4) * 4 + q - 1 = (s - 4) * 4 + (q - 1)" using q by simp
    ultimately show ?thesis using info tab tab' sz q by (simp add: c_def)
  qed
  then show "1 \<le> c" "c < N_SIZE_CLASSES cfg" "unat (si_size (get_size_info sz)) = class_size cfg c"
    "unat sz \<le> class_size cfg c" "class_size cfg (c - 1) < unat sz" by blast+
qed

section \<open>Monotone table, idempotence, waste\<close>

lemma sorted_sizes: "sorted_wrt (<) (map unat (size_classes cfg))"
  by (simp add: size_classes_def)

lemma class_size_mono:
  assumes "i < j" "j < N_SIZE_CLASSES cfg"
  shows "class_size cfg i < class_size cfg j"
  using sorted_wrt_nth_less [OF sorted_sizes assms(1), of cfg] assms
  by (simp add: class_size_def N_SIZE_CLASSES_def)

lemma class_size_le_iff:
  assumes "i < N_SIZE_CLASSES cfg" "j < N_SIZE_CLASSES cfg"
  shows "class_size cfg i \<le> class_size cfg j \<longleftrightarrow> i \<le> j"
  using class_size_mono [of i j cfg] class_size_mono [of j i cfg] assms
  by (cases i j rule: linorder_cases) auto

lemma class_size_max:
  assumes "i < N_SIZE_CLASSES cfg"
  shows "class_size cfg i \<le> unat (max_slab_size_class cfg)"
proof -
  have "class_size cfg (N_SIZE_CLASSES cfg - 1) = unat (max_slab_size_class cfg)"
    by (simp add: N_SIZE_CLASSES_eq class_size_def size_classes_def max_slab_size_class_def)
  then show ?thesis
    using class_size_le_iff [of i cfg "N_SIZE_CLASSES cfg - 1"] assms by auto
qed

text \<open>The class found is the least one that fits.\<close>

lemma get_size_info_least:
  assumes "0 < unat sz" "sz \<le> max_slab_size_class cfg" "j < N_SIZE_CLASSES cfg" "unat sz \<le> class_size cfg j"
  shows "unat (si_class (get_size_info sz)) \<le> j"
proof (rule ccontr)
  let ?c = "unat (si_class (get_size_info sz))"
  assume "\<not> ?c \<le> j"
  then have "class_size cfg j \<le> class_size cfg (?c - 1)"
    using get_size_info_table [OF assms(1,2)] assms(3) by (subst class_size_le_iff) auto
  with get_size_info_table(5) [OF assms(1,2)] assms(4) show False by simp
qed

lemma get_size_info_class_size:
  assumes "1 \<le> i" "i < N_SIZE_CLASSES cfg" "unat sz = class_size cfg i"
  shows "get_size_info sz = \<lparr>si_size = sz, si_class = of_nat i\<rparr>"
proof -
  have pos: "0 < unat sz" using class_size_mono [of 0 i cfg] assms by simp
  have le: "sz \<le> max_slab_size_class cfg"
    using class_size_max [OF assms(2)] assms(3) by (simp add: word_le_nat_alt)
  note t = get_size_info_table [OF pos le]
  let ?c = "unat (si_class (get_size_info sz))"
  have "?c \<le> i" using get_size_info_least [OF pos le assms(2)] assms(3) by simp
  moreover have "i \<le> ?c" using t(2,4) assms class_size_le_iff [of i cfg ?c] by simp
  ultimately have c: "?c = i" by simp
  then have "si_class (get_size_info sz) = of_nat i" "si_size (get_size_info sz) = sz"
    using t(3) assms(3) by (auto simp: word_unat_eq_iff unat_of_nat simp flip: c)
  then show ?thesis by simp
qed

text \<open>At most a quarter of the request (and at most 15 bytes of a small one) is wasted.\<close>

lemma get_size_info_waste:
  assumes "0 < unat sz" "si_size (get_size_info sz) \<noteq> 0"
  shows "unat sz \<le> unat (si_size (get_size_info sz))"
    and "unat (si_size (get_size_info sz)) - unat sz < max 16 ((unat sz + 3) div 4)"
proof -
  have "unat sz \<le> unat (si_size (get_size_info sz)) \<and>
    unat (si_size (get_size_info sz)) - unat sz < max 16 ((unat sz + 3) div 4)"
  proof (cases "unat sz \<le> 128")
    case True
    then show ?thesis
      using get_size_info_small(1) [OF assms(1)] align_nat_bounds [of 16 "unat sz"] by simp
  next
    case False
    then obtain s q where q: "5 \<le> q" "q \<le> 8" and s: "5 \<le> s"
      and sz: "(q - 1) * 2 ^ s < unat sz" "unat sz \<le> q * 2 ^ s"
      using spacing_exists [of "unat sz"] by (metis not_le)
    have size: "unat (si_size (get_size_info sz)) = q * 2 ^ s mod 2 ^ 64"
      using get_size_info_spacing(1) [OF q sz s] .
    moreover have "q * 2 ^ s < 2 ^ 64"
    proof (rule ccontr)
      assume "\<not> q * 2 ^ s < 2 ^ 64"
      moreover have "q * 2 ^ s \<le> 2 ^ 64"
      proof -
        have *: "(q - 1) * 2 ^ s < 2 ^ 64" using sz(1) unat_lt_pow [of 64 sz] by simp
        have "s < 62"
        proof (rule ccontr)
          assume "\<not> s < 62"
          then have "(2::nat) ^ 62 \<le> 2 ^ s" by (intro power_increasing) auto
          moreover have "4 * 2 ^ s \<le> (q - 1) * 2 ^ s" using q by (intro mult_le_mono1) auto
          ultimately have "4 * 2 ^ 62 < (2::nat) ^ 64" using * by linarith
          then show False by simp
        qed
        then have "q * 2 ^ s \<le> 8 * 2 ^ 61" using q by (intro mult_le_mono power_increasing) auto
        then show ?thesis by simp
      qed
      ultimately have "q * 2 ^ s mod 2 ^ 64 = 0" by simp
      with size assms(2) show False by (simp add: unat_eq_zero)
    qed
    ultimately have eq: "unat (si_size (get_size_info sz)) = q * 2 ^ s" by simp
    have "4 * 2 ^ s \<le> (q - 1) * 2 ^ s" using q by (intro mult_le_mono1) auto
    moreover have "q * 2 ^ s = (q - 1) * 2 ^ s + 2 ^ s" using q by (simp add: diff_mult_distrib)
    ultimately show ?thesis using sz unfolding eq by linarith
  qed
  then show "unat sz \<le> unat (si_size (get_size_info sz))"
    "unat (si_size (get_size_info sz)) - unat sz < max 16 ((unat sz + 3) div 4)" by blast+
qed

section \<open>Aligned classes\<close>

lemma and_alignment_iff: "(x :: size_t) AND (2 ^ k - 1) = 0 \<longleftrightarrow> 2 ^ k dvd unat x"
  by (simp add: word_2p_minus_1 word_unat_eq_iff unat_and_mask dvd_eq_mod_eq_0)

text \<open>A class serves a request with an alignment when it is large enough and a multiple of it.\<close>

definition serves :: "config \<Rightarrow> size_t \<Rightarrow> nat \<Rightarrow> nat \<Rightarrow> bool" where
  "serves cfg sz k j \<longleftrightarrow> j < N_SIZE_CLASSES cfg \<and> unat sz \<le> class_size cfg j \<and> 2 ^ k dvd class_size cfg j"

lemma size_info_align_loop_finds:
  assumes "serves cfg sz k j" "i \<le> j"
  shows "\<exists>j'. i \<le> j' \<and> serves cfg sz k j' \<and> (\<forall>m. i \<le> m \<and> m < j' \<longrightarrow> \<not> serves cfg sz k m) \<and>
    size_info_align_loop cfg sz (2 ^ k) i =
      Returned \<lparr>si_size = of_nat (class_size cfg j'), si_class = of_nat j'\<rparr>"
  using assms(2)
proof (induction "j - i" arbitrary: i rule: less_induct)
  case less
  have N: "i < N_SIZE_CLASSES cfg" using assms(1) less.prems by (simp add: serves_def)
  let ?r = "ucast (size_classes cfg ! i) :: size_t"
  have ur: "unat ?r = class_size cfg i" by (simp add: class_size_def)
  have r: "?r = of_nat (class_size cfg i)" unfolding ur [symmetric] by simp
  have test: "sz \<le> ?r \<and> ?r AND (2 ^ k - 1) = 0 \<longleftrightarrow> serves cfg sz k i"
    unfolding and_alignment_iff ur using N ur by (simp add: serves_def word_le_nat_alt)
  show ?case
  proof (cases "serves cfg sz k i")
    case True
    then have "size_info_align_loop cfg sz (2 ^ k) i =
        Returned \<lparr>si_size = of_nat (class_size cfg i), si_class = of_nat i\<rparr>"
      using test N r by (subst size_info_align_loop.simps) (simp only: Let_def if_True simp_thms)
    with True show ?thesis by (intro exI [of _ i]) auto
  next
    case False
    then have "i \<noteq> j" using assms(1) by auto
    with less.prems have "Suc i \<le> j" by simp
    moreover have "size_info_align_loop cfg sz (2 ^ k) i = size_info_align_loop cfg sz (2 ^ k) (Suc i)"
      using test N False by (subst size_info_align_loop.simps) (simp only: Let_def if_True if_False Suc_eq_plus1 simp_thms)
    ultimately obtain j' where j': "Suc i \<le> j'" "serves cfg sz k j'"
      "\<forall>m. Suc i \<le> m \<and> m < j' \<longrightarrow> \<not> serves cfg sz k m"
      "size_info_align_loop cfg sz (2 ^ k) i =
         Returned \<lparr>si_size = of_nat (class_size cfg j'), si_class = of_nat j'\<rparr>"
      using less.hyps [of "Suc i"] \<open>Suc i \<le> j\<close> by (metis Suc_le_eq diff_less_mono2 lessI)
    have "\<not> serves cfg sz k m" if "i \<le> m" "m < j'" for m
      using that False j'(3) by (cases "m = i") auto
    with j' show ?thesis by (intro exI [of _ j']) auto
  qed
qed

lemma last_class_serves:
  assumes "sz \<le> max_slab_size_class cfg" "k \<le> 12"
  shows "serves cfg sz k (N_SIZE_CLASSES cfg - 1)"
proof -
  have c: "class_size cfg (N_SIZE_CLASSES cfg - 1) = unat (max_slab_size_class cfg)"
    by (simp add: N_SIZE_CLASSES_eq class_size_def size_classes_def max_slab_size_class_def)
  have "(2::nat) ^ k dvd 2 ^ 12" using assms(2) by (rule le_imp_power_dvd)
  moreover have "(2::nat) ^ 12 dvd unat (max_slab_size_class cfg)"
    by (simp add: max_slab_size_class_def)
  ultimately have "2 ^ k dvd unat (max_slab_size_class cfg)" by (rule dvd_trans)
  then show ?thesis
    using assms(1) c by (simp add: serves_def N_SIZE_CLASSES_eq word_le_nat_alt)
qed

lemma get_size_info_align_finds:
  assumes "sz \<le> max_slab_size_class cfg" "k \<le> 12"
  shows "\<exists>j. 1 \<le> j \<and> serves cfg sz k j \<and> (\<forall>m. 1 \<le> m \<and> m < j \<longrightarrow> \<not> serves cfg sz k m) \<and>
    get_size_info_align cfg sz (2 ^ k) =
      Returned \<lparr>si_size = of_nat (class_size cfg j), si_class = of_nat j\<rparr>"
proof -
  let ?c = "unat (si_class (get_size_info sz))"
  let ?i = "if ?c = 0 then 1 else ?c"
  have start: "?i \<le> N_SIZE_CLASSES cfg - 1"
  proof (cases "sz = 0")
      case True
    then show ?thesis by (simp add: get_size_info_def N_SIZE_CLASSES_eq)
  next
    case False
    then show ?thesis
      using get_size_info_table(2) [of sz cfg] assms(1)
      by (cases "CONFIG_EXTENDED_SIZE_CLASSES cfg") (auto simp: unat_gt_0 N_SIZE_CLASSES_eq)
  qed
  have below: "\<not> serves cfg sz k m" if m: "1 \<le> m" "m < ?i" for m
  proof -
    from m have pos: "0 < unat sz" by (auto simp: get_size_info_def unat_gt_0 split: if_splits)
    show "\<not> serves cfg sz k m"
      using get_size_info_least [OF pos assms(1), of m] m by (auto simp: serves_def split: if_splits)
  qed
  obtain j where "?i \<le> j" "serves cfg sz k j" "\<forall>m. ?i \<le> m \<and> m < j \<longrightarrow> \<not> serves cfg sz k m"
    "size_info_align_loop cfg sz (2 ^ k) ?i =
       Returned \<lparr>si_size = of_nat (class_size cfg j), si_class = of_nat j\<rparr>"
    using size_info_align_loop_finds [OF last_class_serves [OF assms] start] by blast
  moreover from this have "1 \<le> j" by (auto split: if_splits)
  moreover have "get_size_info_align cfg sz (2 ^ k) = size_info_align_loop cfg sz (2 ^ k) ?i"
    by (simp add: get_size_info_align_def Let_def)
  ultimately show ?thesis using below by (intro exI [of _ j]) (metis not_less)
qed

section \<open>Large sizes\<close>

lemma size_info_zero_iff:
  assumes "128 < unat sz"
  shows "si_size (get_size_info sz) = 0 \<longleftrightarrow> 7 * 2 ^ 61 < unat sz"
proof -
  obtain s q where q: "5 \<le> q" "q \<le> 8" and s: "5 \<le> s"
    and sz: "(q - 1) * 2 ^ s < unat sz" "unat sz \<le> q * 2 ^ s"
    using spacing_exists [OF assms] .
  have lt: "unat sz < 2 ^ 64" by (rule unat_lt_pow) simp
  have q4: "4 * 2 ^ s \<le> (q - 1) * 2 ^ s" using q by (intro mult_le_mono1) auto
  have s62: "s < 62"
  proof (rule ccontr)
    assume "\<not> s < 62"
    then have "(2::nat) ^ 62 \<le> 2 ^ s" by (intro power_increasing) auto
    then have "4 * 2 ^ 62 < (2::nat) ^ 64" using q4 sz(1) lt by linarith
    then show False by simp
  qed
  have size: "unat (si_size (get_size_info sz)) = q * 2 ^ s mod 2 ^ 64"
    using get_size_info_spacing(1) [OF q sz s] .
  show ?thesis
  proof (cases "s = 61 \<and> q = 8")
    case True
    then show ?thesis using size sz by (simp add: word_unat_eq_iff)
  next
    case False
    have "q * 2 ^ s \<le> 7 * 2 ^ 61"
    proof (cases "s = 61")
      case True
      then show ?thesis using False q by simp
    next
      case False
      then have "q * 2 ^ s \<le> 8 * 2 ^ 60" using q s62 by (intro mult_le_mono power_increasing) auto
      then show ?thesis by simp
    qed
    moreover have "0 < q * 2 ^ s" using q by simp
    ultimately have "unat (si_size (get_size_info sz)) \<noteq> 0" "unat sz \<le> 7 * 2 ^ 61"
      using size sz by simp_all
    then show ?thesis by (simp add: unat_eq_zero)
  qed
qed

lemma size_info_page_multiple:
  assumes "16384 < unat sz"
  shows "4096 dvd unat (si_size (get_size_info sz))"
proof -
  have "128 < unat sz" using assms by simp
  then obtain s q where q: "5 \<le> q" "q \<le> 8" and s: "5 \<le> s"
    and sz: "(q - 1) * 2 ^ s < unat sz" "unat sz \<le> q * 2 ^ s"
    by (rule spacing_exists)
  have "12 \<le> s"
  proof (rule ccontr)
    assume "\<not> 12 \<le> s"
    then have "q * 2 ^ s \<le> 8 * 2 ^ 11" using q by (intro mult_le_mono power_increasing) auto
    with sz(2) assms show False by simp
  qed
  then have "(2::nat) ^ 12 dvd 2 ^ s" by (rule le_imp_power_dvd)
  then have "4096 dvd q * 2 ^ s" by simp
  then show ?thesis
    unfolding get_size_info_spacing(1) [OF q sz s] by (simp add: dvd_mod)
qed

lemma large_class:
  assumes "get_large_size_class cfg sz \<noteq> 0"
  shows "unat sz \<le> unat (get_large_size_class cfg sz)"
    and "16384 < unat sz \<Longrightarrow> 4096 dvd unat (get_large_size_class cfg sz)"
proof -
  let ?m = "max sz PAGE_SIZE"
  have m: "unat sz \<le> unat ?m" "0 < unat ?m" by (auto simp: max_def word_le_nat_alt)
  have "unat sz \<le> page_round sz" by (rule page_round_ge)
  then show "unat sz \<le> unat (get_large_size_class cfg sz)"
    using assms get_size_info_waste(1) [OF m(2)] m(1) page_align_nonzero [of sz]
    by (cases "CONFIG_LARGE_SIZE_CLASSES cfg") (auto simp: get_large_size_class_def)
  show "4096 dvd unat (get_large_size_class cfg sz)" if "16384 < unat sz"
    using size_info_page_multiple [of ?m] that m(1) by (simp add: get_large_size_class_def)
qed

section \<open>Slab geometry\<close>

text \<open>
  The shape of the slabs of each class, read off the tables: the size is a positive multiple of 16,
  a slab is a whole number of pages that holds exactly \<open>slots\<close> objects with less than one object
  left over, and there are never more than 256 slots.
\<close>

definition slot_size :: "config \<Rightarrow> nat \<Rightarrow> nat" where
  "slot_size cfg i = (if class_size cfg i = 0 then 16 else class_size cfg i)"

definition geometry :: "nat \<Rightarrow> nat \<Rightarrow> nat \<Rightarrow> bool" where
  "geometry sz slots slab \<longleftrightarrow>
     16 \<le> sz \<and> 16 dvd sz \<and> sz \<le> 131072 \<and> 1 \<le> slots \<and> slots \<le> 256 \<and>
     4096 dvd slab \<and> slab \<le> 131072 \<and> slots * sz \<le> slab \<and> slab < (slots + 1) * sz \<and>
     (slots = 256 \<longrightarrow> slab = slots * sz)"

lemma table_geometry:
  "list_all2 (\<lambda>sz n. let s = (if sz = 0 then 16 else unat sz); k = unat n
       in geometry s k ((k * s + 4095) div 4096 * 4096))
     (size_classes cfg) (size_class_slots cfg)"
  by (simp add: size_classes_def size_class_slots_def geometry_def)

lemma class_geometry:
  assumes "i < N_SIZE_CLASSES cfg"
  shows "geometry (slot_size cfg i) (unat (get_slots cfg i))
    (unat (get_slab_size (get_slots cfg i) (of_nat (slot_size cfg i))))"
    and "unat (of_nat (slot_size cfg i) :: size_t) = slot_size cfg i"
proof -
  let ?s = "slot_size cfg i" and ?k = "unat (get_slots cfg i)"
  have k: "?k = unat (size_class_slots cfg ! i)" by (simp add: get_slots_def)
  have g: "geometry ?s ?k ((?k * ?s + 4095) div 4096 * 4096)"
    using list_all2_nthD [OF table_geometry, of i cfg] assms
    by (simp add: N_SIZE_CLASSES_def slot_size_def class_size_def k unat_eq_zero Let_def split: if_splits)
  then show s: "unat (of_nat ?s :: size_t) = ?s" by (simp add: geometry_def unat_of_nat)
  have "?k * ?s \<le> 256 * 131072" using g by (intro mult_le_mono) (auto simp: geometry_def)
  then have "unat (get_slots cfg i * of_nat ?s) = ?k * ?s" "?k * ?s + 4095 < 2 ^ 64"
    using unat_mult_lt [of "get_slots cfg i" "of_nat ?s :: size_t"] s by simp_all
  then have "unat (get_slab_size (get_slots cfg i) (of_nat ?s)) = (?k * ?s + 4095) div 4096 * 4096"
    using page_align_no_overflow [of "get_slots cfg i * of_nat ?s"]
    by (simp add: get_slab_size_def page_round_def)
  with g show "geometry ?s ?k (unat (get_slab_size (get_slots cfg i) (of_nat ?s)))" by simp
qed

text \<open>Any offset into a slab is in one of the first 256 slots.\<close>

lemma geometry_slot_bound:
  assumes "geometry sz slots slab" "off < slab"
  shows "off div sz \<le> slots" "off div sz < 256"
    and "off div sz = slots \<longleftrightarrow> slots * sz \<le> off"
proof -
  have "0 < sz" using assms(1) by (simp add: geometry_def)
  have "off < (slots + 1) * sz" using assms by (auto simp: geometry_def)
  then have "off div sz < slots + 1" by (rule less_mult_imp_div_less)
  then show le: "off div sz \<le> slots" by simp
  with assms \<open>0 < sz\<close> show eq: "off div sz = slots \<longleftrightarrow> slots * sz \<le> off"
    by (metis div_le_mono div_mult_self_is_m div_times_less_eq_dividend le_antisym nat_mult_le_cancel_disj)
  show "off div sz < 256"
    using assms le eq by (cases "slots = 256") (auto simp: geometry_def)
qed

section \<open>Properties\<close>

text \<open>
  C31. The class arithmetic of \<^verbatim>\<open>get_size_info\<close> agrees with the table \<^verbatim>\<open>size_classes\<close>: for every
  request of at least one byte and at most \<^verbatim>\<open>max_slab_size_class\<close> the class is a valid nonzero index,
  the size returned is the table's entry, and the class is the least one that holds the request.
\<close>

theorem get_size_info_correct:
  assumes "0 < unat sz" "sz \<le> max_slab_size_class cfg"
  shows "unat (si_class (get_size_info sz)) \<in> {1..<N_SIZE_CLASSES cfg}
    \<and> unat (si_size (get_size_info sz)) = class_size cfg (unat (si_class (get_size_info sz)))
    \<and> unat sz \<le> unat (si_size (get_size_info sz))
    \<and> (\<forall>j < N_SIZE_CLASSES cfg. unat sz \<le> class_size cfg j \<longrightarrow>
         unat (si_class (get_size_info sz)) \<le> j)"
  using get_size_info_table [OF assms] get_size_info_least [OF assms] by auto

theorem get_size_info_correct_witness:
  "unat (si_size (get_size_info 1000)) = 1024 \<and> unat (si_class (get_size_info 1000)) = 20 \<and>
   class_size default_config 19 < 1000"
proof -
  have info: "get_size_info 1000 = \<lparr>si_size = 1024, si_class = 20\<rparr>" by code_simp
  have "0 < unat (1000 :: size_t)" "1000 \<le> max_slab_size_class default_config"
    by (simp_all add: max_slab_size_class_def default_config_def)
  note ok = get_size_info_correct [OF this]
  moreover have "19 < N_SIZE_CLASSES default_config" by (simp add: N_SIZE_CLASSES_eq default_config_def)
  then have "1000 \<le> class_size default_config 19 \<longrightarrow> 20 \<le> (19::nat)"
    using ok unfolding info by (elim conjE allE [of _ 19]) simp
  ultimately show ?thesis by (simp add: info)
qed

text \<open>
  Internal fragmentation is bounded: whenever \<^verbatim>\<open>get_size_info\<close> does not overflow, for slab and
  large sizes alike, it rounds up and wastes less than 16 bytes or less than a quarter of the
  request, rounded up.
\<close>

lemma get_size_info_waste_bound:
  assumes "0 < unat sz" "si_size (get_size_info sz) \<noteq> 0"
  shows "unat sz \<le> unat (si_size (get_size_info sz)) \<and>
    unat (si_size (get_size_info sz)) < unat sz + max 16 ((unat sz + 3) div 4)"
  using get_size_info_waste [OF assms] by linarith

text \<open>
  C30. \<^verbatim>\<open>get_size_info_align\<close> never reaches its \<^verbatim>\<open>fatal_error\<close> for the alignments its callers pass (powers
  of two up to a page) and slab sizes: it returns the least nonzero class that holds the request and
  is a multiple of the alignment, and a request of exactly the returned size gets the same class, so
  that allocating with it and freeing with it agree.
\<close>

theorem get_size_info_align_correct:
  assumes "sz \<le> max_slab_size_class cfg" "k \<le> 12"
  shows "\<exists>info. get_size_info_align cfg sz (2 ^ k) = Returned info
    \<and> get_size_info (si_size info) = info
    \<and> unat (si_class info) \<in> {1..<N_SIZE_CLASSES cfg}
    \<and> unat (si_size info) = class_size cfg (unat (si_class info))
    \<and> unat sz \<le> unat (si_size info) \<and> 2 ^ k dvd unat (si_size info)
    \<and> (\<forall>m \<in> {1..<unat (si_class info)}. unat sz \<le> class_size cfg m \<longrightarrow> \<not> 2 ^ k dvd class_size cfg m)"
proof -
  obtain j where j: "1 \<le> j" "serves cfg sz k j" "\<forall>m. 1 \<le> m \<and> m < j \<longrightarrow> \<not> serves cfg sz k m"
    and ret: "get_size_info_align cfg sz (2 ^ k) =
      Returned \<lparr>si_size = of_nat (class_size cfg j), si_class = of_nat j\<rparr>"
    using get_size_info_align_finds [OF assms] by blast
  have N: "j < N_SIZE_CLASSES cfg" using j(2) by (simp add: serves_def)
  have "class_size cfg j < 2 ^ 64" "j < 2 ^ 64"
    using class_size_max [OF N] N
    by (auto simp: max_slab_size_class_def N_SIZE_CLASSES_eq split: if_splits)
  then have u: "unat (of_nat (class_size cfg j) :: size_t) = class_size cfg j"
    "unat (of_nat j :: size_t) = j" by (simp_all add: unat_of_nat)
  have "\<not> 2 ^ k dvd class_size cfg m" if "1 \<le> m" "m < j" "unat sz \<le> class_size cfg m" for m
    using j(3) that N by (auto simp: serves_def)
  with ret j N u get_size_info_class_size [OF j(1) N u(1)] show ?thesis
    by (intro exI [of _ "\<lparr>si_size = of_nat (class_size cfg j), si_class = of_nat j\<rparr>"])
      (auto simp: serves_def)
qed

theorem get_size_info_align_correct_witness:
  "\<exists>info. get_size_info_align default_config 5000 4096 = Returned info
    \<and> 4096 dvd unat (si_size info) \<and> 5000 \<le> unat (si_size info)"
proof -
  have "5000 \<le> max_slab_size_class default_config"
    by (simp add: max_slab_size_class_def default_config_def)
  from get_size_info_align_correct [OF this, of 12] show ?thesis by auto
qed

text \<open>
  \<^verbatim>\<open>get_large_size_class\<close> returns 0 exactly on overflow (so that its callers report \<^verbatim>\<open>ENOMEM\<close>), and
  otherwise a size that holds the request; for sizes beyond 16 KiB it is a whole number of pages.
\<close>

lemma get_large_size_class_correct:
  assumes "0 < unat sz"
  shows "(get_large_size_class cfg sz = 0 \<longleftrightarrow>
      (if CONFIG_LARGE_SIZE_CLASSES cfg then 7 * 2 ^ 61 else 2 ^ 64 - 4096) < unat sz)
    \<and> (get_large_size_class cfg sz \<noteq> 0 \<longrightarrow>
        unat sz \<le> unat (get_large_size_class cfg sz) \<and>
        (16384 < unat sz \<longrightarrow> 4096 dvd unat (get_large_size_class cfg sz)))"
proof -
  have "get_large_size_class cfg sz = 0 \<longleftrightarrow>
      (if CONFIG_LARGE_SIZE_CLASSES cfg then 7 * 2 ^ 61 else 2 ^ 64 - 4096) < unat sz"
  proof (cases "CONFIG_LARGE_SIZE_CLASSES cfg")
    case True
    have "unat (max sz PAGE_SIZE) = max (unat sz) 4096" by (auto simp: max_def word_le_nat_alt)
    then show ?thesis
      using True size_info_zero_iff [of "max sz PAGE_SIZE"] by (simp add: get_large_size_class_def less_max_iff_disj)
  next
    case False
    have "page_align sz = 0 \<longleftrightarrow> 2 ^ 64 - 4096 < unat sz"
    proof (cases "unat sz + 4095 < 2 ^ 64")
      case True
      then have "unat sz \<le> unat (page_align sz)" using page_align_no_overflow page_round_ge by metis
      with True assms show ?thesis by auto
    next
      case False
      then have "page_align sz = 0" using page_align_nonzero(2) by blast
      with False show ?thesis by simp
    qed
    with False show ?thesis by (simp add: get_large_size_class_def)
  qed
  with large_class [of cfg sz] show ?thesis by blast
qed

text \<open>
  C32. Slab geometry: in every class a slab is a whole number of pages, holds its slots exactly with
  less than one slot left over, and every byte offset into it falls into a slot number below 256,
  so that no lookup indexes outside the four words of a slab's bitmaps.
\<close>

theorem slab_geometry:
  assumes "i < N_SIZE_CLASSES cfg"
    and "slab = unat (get_slab_size (get_slots cfg i) (of_nat (slot_size cfg i)))"
  shows "4096 dvd slab \<and> unat (get_slots cfg i) * slot_size cfg i \<le> slab
    \<and> slab < (unat (get_slots cfg i) + 1) * slot_size cfg i \<and> 16 dvd slot_size cfg i
    \<and> (\<forall>off < slab. off div slot_size cfg i < 256)"
  using class_geometry(1) [OF assms(1)] geometry_slot_bound(2) [OF class_geometry(1) [OF assms(1)]]
  unfolding assms(2) geometry_def by blast

theorem slab_geometry_witness:
  "4096 dvd unat (get_slab_size (get_slots default_config 3) (of_nat (slot_size default_config 3)))"
  using slab_geometry [of 3 default_config] by (simp add: N_SIZE_CLASSES_eq)

end
