(* ===== verification/Chacha.thy ===== *)
theory Chacha
  imports Prelude
begin

text \<open>
  \<^verbatim>\<open>src/chacha.c\<close>: the ChaCha8 stream cipher that generates the allocator's random bytes. The
  context is the list of its sixteen 32-bit words (\<^verbatim>\<open>x->input\<close>); words 12 and 13 are the block
  counter. The theorems describe the key stream by block number (any cut of the stream at a block
  boundary, the 64-bit counter with its carry between the two words), show that the round function
  loses no information, and check the cipher against the published ChaCha8 key stream.
\<close>

section \<open>Words and bytes\<close>

definition U8TO32_LITTLE :: "u8 list \<Rightarrow> u32" where
  "U8TO32_LITTLE p =
     ucast (p ! 0) OR push_bit 8 (ucast (p ! 1)) OR push_bit 16 (ucast (p ! 2))
     OR push_bit 24 (ucast (p ! 3))"

definition U32TO8_LITTLE :: "u32 \<Rightarrow> u8 list" where
  "U32TO8_LITTLE v = [ucast v, ucast (drop_bit 8 v), ucast (drop_bit 16 v), ucast (drop_bit 24 v)]"

definition ROTL32 :: "u32 \<Rightarrow> nat \<Rightarrow> u32" where
  "ROTL32 v n = push_bit n v OR drop_bit (32 - n) v"

section \<open>Key and nonce\<close>

type_synonym chacha_ctx = "u32 list"

abbreviation (input) CHACHA_KEY_SIZE :: nat where "CHACHA_KEY_SIZE \<equiv> 32"
abbreviation (input) CHACHA_IV_SIZE :: nat where "CHACHA_IV_SIZE \<equiv> 8"

definition sigma :: "u8 list" where
  "sigma = [0x65, 0x78, 0x70, 0x61, 0x6e, 0x64, 0x20, 0x33, 0x32, 0x2d, 0x62, 0x79, 0x74, 0x65,
            0x20, 0x6b]"  \<comment> \<open>\<^verbatim>\<open>expand 32-byte k\<close>\<close>

definition chacha_keysetup :: "chacha_ctx \<Rightarrow> u8 list \<Rightarrow> chacha_ctx" where
  "chacha_keysetup x k =
     x[0 := U8TO32_LITTLE (drop 0 sigma), 1 := U8TO32_LITTLE (drop 4 sigma),
       2 := U8TO32_LITTLE (drop 8 sigma), 3 := U8TO32_LITTLE (drop 12 sigma),
       4 := U8TO32_LITTLE (drop 0 k), 5 := U8TO32_LITTLE (drop 4 k),
       6 := U8TO32_LITTLE (drop 8 k), 7 := U8TO32_LITTLE (drop 12 k),
       8 := U8TO32_LITTLE (drop 16 k), 9 := U8TO32_LITTLE (drop 20 k),
       10 := U8TO32_LITTLE (drop 24 k), 11 := U8TO32_LITTLE (drop 28 k)]"

definition chacha_ivsetup :: "chacha_ctx \<Rightarrow> u8 list \<Rightarrow> chacha_ctx" where
  "chacha_ivsetup x iv =
     x[12 := 0, 13 := 0, 14 := U8TO32_LITTLE (drop 0 iv), 15 := U8TO32_LITTLE (drop 4 iv)]"

section \<open>Rounds\<close>

definition QUARTERROUND :: "u32 \<Rightarrow> u32 \<Rightarrow> u32 \<Rightarrow> u32 \<Rightarrow> u32 \<times> u32 \<times> u32 \<times> u32" where
  "QUARTERROUND a b c d =
     (let a = a + b; d = ROTL32 (d XOR a) 16;
          c = c + d; b = ROTL32 (b XOR c) 12;
          a = a + b; d = ROTL32 (d XOR a) 8;
          c = c + d; b = ROTL32 (b XOR c) 7
      in (a, b, c, d))"

text \<open>The macro applied to four of the sixteen variables \<^verbatim>\<open>x0\<close> to \<^verbatim>\<open>x15\<close>.\<close>

definition quarterround_at :: "nat \<Rightarrow> nat \<Rightarrow> nat \<Rightarrow> nat \<Rightarrow> u32 list \<Rightarrow> u32 list" where
  "quarterround_at ia ib ic id' xs =
     (let (a, b, c, d) = QUARTERROUND (xs ! ia) (xs ! ib) (xs ! ic) (xs ! id')
      in xs[ia := a, ib := b, ic := c, id' := d])"

definition double_round :: "u32 list \<Rightarrow> u32 list" where
  "double_round xs =
     quarterround_at 3 4 9 14 (quarterround_at 2 7 8 13 (quarterround_at 1 6 11 12
       (quarterround_at 0 5 10 15 (quarterround_at 3 7 11 15 (quarterround_at 2 6 10 14
         (quarterround_at 1 5 9 13 (quarterround_at 0 4 8 12 xs)))))))"

abbreviation (input) rounds :: nat where "rounds \<equiv> 8"

text \<open>The loop \<^verbatim>\<open>for (i = rounds; i > 0; i -= 2)\<close>.\<close>

fun round_loop :: "nat \<Rightarrow> u32 list \<Rightarrow> u32 list" where
  "round_loop i xs = (if i > 0 then round_loop (i - 2) (double_round xs) else xs)"

declare round_loop.simps [simp del]

section \<open>Key stream\<close>

text \<open>One pass of the outer loop: the 64 bytes of the block, and the context with its counter
  advanced.\<close>

definition chacha_block :: "chacha_ctx \<Rightarrow> u8 list" where
  "chacha_block j = concat (map U32TO8_LITTLE (map2 (+) (round_loop rounds j) j))"

definition chacha_next :: "chacha_ctx \<Rightarrow> chacha_ctx" where
  "chacha_next j =
     (let j12 = j ! 12 + 1
      in if j12 = 0 then j[12 := j12, 13 := j ! 13 + 1] else j[12 := j12])"

text \<open>
  The outer loop: whole blocks while more than 64 bytes are wanted; the last block is cut to the
  bytes wanted. The result is the updated context and the bytes written.
\<close>

function keystream_loop :: "chacha_ctx \<Rightarrow> nat \<Rightarrow> chacha_ctx \<times> u8 list" where
  "keystream_loop j bytes =
     (if bytes \<le> 64 then (chacha_next j, take bytes (chacha_block j))
      else let (j', out) = keystream_loop (chacha_next j) (bytes - 64) in (j', chacha_block j @ out))"
  by pat_completeness auto
termination
  by (relation "measure (\<lambda>(j, bytes). bytes)") auto

declare keystream_loop.simps [simp del]

definition chacha_keystream_bytes :: "chacha_ctx \<Rightarrow> nat \<Rightarrow> chacha_ctx \<times> u8 list" where
  "chacha_keystream_bytes x bytes = (if bytes = 0 then (x, []) else keystream_loop x bytes)"

section \<open>Byte order\<close>

lemma U32TO8_roundtrip: "U8TO32_LITTLE (U32TO8_LITTLE v) = v"
proof (rule bit_eqI)
  fix n assume "possible_bit TYPE(u32) n"
  then consider "n < 8" | "8 \<le> n" "n < 16" | "16 \<le> n" "n < 24" | "24 \<le> n" "n < 32"
    by fastforce
  then show "bit (U8TO32_LITTLE (U32TO8_LITTLE v)) n = bit v n"
    by cases (auto simp: U8TO32_LITTLE_def U32TO8_LITTLE_def bit_simps)
qed

lemma length_U32TO8 [simp]: "length (U32TO8_LITTLE v) = 4"
  by (simp add: U32TO8_LITTLE_def)

lemma concat_length4: "\<forall>xs \<in> set xss. length xs = 4 \<Longrightarrow> length (concat xss) = 4 * length xss"
  by (induction xss) auto

lemma length_chacha_keysetup [simp]: "length (chacha_keysetup x k) = length x"
  by (simp add: chacha_keysetup_def)

lemma length_chacha_ivsetup [simp]: "length (chacha_ivsetup x iv) = length x"
  by (simp add: chacha_ivsetup_def)

lemma length_quarterround_at [simp]: "length (quarterround_at a b c d xs) = length xs"
  by (simp add: quarterround_at_def split: prod.splits)

lemma length_double_round [simp]: "length (double_round xs) = length xs"
  by (simp add: double_round_def)

lemma length_round_loop [simp]: "length (round_loop i xs) = length xs"
  by (induction i xs rule: round_loop.induct) (subst round_loop.simps, simp)

lemma length_chacha_next [simp]: "length (chacha_next j) = length j"
  by (simp add: chacha_next_def Let_def)

lemma length_chacha_block: "length j = 16 \<Longrightarrow> length (chacha_block j) = 64"
  by (simp add: chacha_block_def concat_length4)

section \<open>The block counter\<close>

text \<open>Words 12 and 13 as one 64-bit counter.\<close>

definition block_counter :: "chacha_ctx \<Rightarrow> nat" where
  "block_counter j = unat (j ! 12) + 2 ^ 32 * unat (j ! 13)"

definition set_counter :: "nat \<Rightarrow> chacha_ctx \<Rightarrow> chacha_ctx" where
  "set_counter n j = j[12 := of_nat n, 13 := of_nat (n div 2 ^ 32)]"

lemma length_set_counter [simp]: "length (set_counter n j) = length j"
  by (simp add: set_counter_def)

lemma set_counter_idem [simp]: "set_counter m (set_counter n j) = set_counter m j"
  by (simp add: set_counter_def list_update_swap)

lemma block_counter_set: "length j = 16 \<Longrightarrow> block_counter (set_counter n j) = n mod 2 ^ 64"
proof -
  have "n mod 2 ^ 32 + 2 ^ 32 * (n div 2 ^ 32 mod 2 ^ 32) = n mod (2 ^ 32 * 2 ^ 32)"
    by (simp only: mod_mult2_eq)
  then show "length j = 16 \<Longrightarrow> block_counter (set_counter n j) = n mod 2 ^ 64"
    by (simp add: block_counter_def set_counter_def unat_of_nat)
qed

lemma block_counter_low: "(of_nat (block_counter j) :: u32) = j ! 12"
proof -
  have "unat (of_nat (block_counter j) :: u32) = block_counter j mod 2 ^ 32"
    by (simp only: unat_of_nat) simp
  also have "\<dots> = unat (j ! 12)"
    using unat_lt_pow [of 32 "j ! 12"] by (simp add: block_counter_def)
  finally show ?thesis by (simp only: word_unat_eq_iff)
qed

lemma block_counter_high: "block_counter j div 2 ^ 32 = unat (j ! 13)"
  using unat_lt_pow [of 32 "j ! 12"] by (simp add: block_counter_def)

lemma set_counter_self: "set_counter (block_counter j) j = j"
  unfolding set_counter_def block_counter_low block_counter_high by simp

lemma chacha_next_eq:
  assumes "length j = 16"
  shows "chacha_next j = set_counter (block_counter j + 1) j"
proof -
  have low: "(of_nat (block_counter j + 1) :: u32) = j ! 12 + 1"
    unfolding of_nat_add block_counter_low by simp
  have lt: "unat (j ! 12) < 2 ^ 32" by (rule unat_lt_pow) simp
  have zero: "j ! 12 + 1 = 0 \<longleftrightarrow> unat (j ! 12) + 1 = 2 ^ 32"
    using lt unfolding word_unat_eq_iff unat_word_ariths by (auto dest!: dvd_imp_le)
  have "(block_counter j + 1) div 2 ^ 32 =
      (if unat (j ! 12) + 1 = 2 ^ 32 then unat (j ! 13) + 1 else unat (j ! 13))"
    using lt unfolding block_counter_def by (auto simp: div_add_self1)
  with low zero show ?thesis
    unfolding chacha_next_def set_counter_def low
    by (simp add: Let_def add.commute list_update_swap [of 12 13])
qed

lemma set_counter_cong:
  assumes "m mod 2 ^ 64 = n mod 2 ^ 64"
  shows "set_counter m j = set_counter n j"
proof -
  have split: "k mod 2 ^ 64 = 2 ^ 32 * (k div 2 ^ 32 mod 2 ^ 32) + k mod 2 ^ 32" for k :: nat
    using mod_mult2_eq [of k "2 ^ 32" "2 ^ 32"] by simp
  have "m mod 2 ^ 64 mod 2 ^ 32 = n mod 2 ^ 64 mod 2 ^ 32"
    and "m mod 2 ^ 64 div 2 ^ 32 = n mod 2 ^ 64 div 2 ^ 32"
    by (simp_all only: assms)
  then have "m mod 2 ^ 32 = n mod 2 ^ 32" "m div 2 ^ 32 mod 2 ^ 32 = n div 2 ^ 32 mod 2 ^ 32"
    unfolding split by simp_all
  then have "(of_nat m :: u32) = of_nat n" "(of_nat (m div 2 ^ 32) :: u32) = of_nat (n div 2 ^ 32)"
    by (simp_all only: word_unat_eq_iff unat_of_nat) simp_all
  then show ?thesis by (simp add: set_counter_def)
qed

lemma chacha_next_power:
  assumes "length j = 16"
  shows "(chacha_next ^^ n) j = set_counter (block_counter j + n) j"
proof (induction n)
  case 0
  then show ?case by (simp add: set_counter_self)
next
  case (Suc n)
  have "set_counter ((block_counter j + n) mod 2 ^ 64 + 1) j = set_counter (block_counter j + Suc n) j"
    by (rule set_counter_cong) (simp add: mod_simps)
  with Suc assms show ?case
    by (simp add: chacha_next_eq block_counter_set)
qed

section \<open>The key stream by block number\<close>

definition blocks_of :: "nat \<Rightarrow> nat" where
  "blocks_of bytes = (bytes + 63) div 64"

lemma keystream_loop_blocks:
  assumes "length j = 16" "0 < bytes"
  shows "keystream_loop j bytes =
    ((chacha_next ^^ blocks_of bytes) j,
     take bytes (concat (map (\<lambda>i. chacha_block ((chacha_next ^^ i) j)) [0..<blocks_of bytes])))"
  using assms
proof (induction j bytes rule: keystream_loop.induct)
  case (1 j bytes)
  show ?case
  proof (cases "bytes \<le> 64")
    case True
    with 1 have "blocks_of bytes = 1" by (auto simp: blocks_of_def)
    with True show ?thesis by (simp add: keystream_loop.simps [of j bytes])
  next
    case False
    then have b: "blocks_of bytes = Suc (blocks_of (bytes - 64))"
      by (simp add: blocks_of_def)
    let ?f = "\<lambda>i. chacha_block ((chacha_next ^^ i) j)"
    have "map ?f [0..<blocks_of bytes] =
        chacha_block j # map (\<lambda>i. chacha_block ((chacha_next ^^ i) (chacha_next j))) [0..<blocks_of (bytes - 64)]"
      unfolding b by (simp add: upt_conv_Cons map_Suc_upt [symmetric] funpow_Suc_right
          del: upt_Suc funpow.simps(2))
    with False 1 b show ?thesis
      by (simp add: keystream_loop.simps [of j bytes] length_chacha_block funpow_swap1)
  qed
qed

lemma nth_concat_blocks:
  assumes "\<And>i. length (f i) = k" "p < n * k" "0 < k"
  shows "concat (map f [0..<n]) ! p = f (p div k) ! (p mod k)"
  using assms(2)
proof (induction n)
  case 0
  then show ?case by simp
next
  case (Suc n)
  have len: "length (concat (map f [0..<n])) = n * k"
    using assms(1) by (induction n) auto
  show ?case
  proof (cases "p < n * k")
    case True
    with Suc len show ?thesis by (simp add: nth_append)
  next
    case False
    with Suc.prems have "p div k = n"
      by (intro div_nat_eqI) (auto simp: mult.commute)
    moreover from this have "p mod k = p - n * k" by (simp add: minus_div_mult_eq_mod [symmetric])
    ultimately show ?thesis using False len by (simp add: nth_append)
  qed
qed

lemma length_concat_blocks: "(\<And>i. length (f i) = k) \<Longrightarrow> length (concat (map f [0..<n])) = n * k"
  by (induction n) auto

lemma blocks_of_enough: "bytes \<le> blocks_of bytes * 64"
  by (simp add: blocks_of_def)

lemma keystream_by_block:
  assumes "length x = 16"
  shows "length (snd (chacha_keystream_bytes x bytes)) = bytes
    \<and> (\<forall>p < bytes. snd (chacha_keystream_bytes x bytes) ! p =
           chacha_block (set_counter (block_counter x + p div 64) x) ! (p mod 64))
    \<and> fst (chacha_keystream_bytes x bytes) = set_counter (block_counter x + blocks_of bytes) x"
proof (cases "bytes = 0")
  case True
  then show ?thesis
    by (simp add: chacha_keystream_bytes_def blocks_of_def set_counter_self)
next
  case False
  let ?f = "\<lambda>i. chacha_block (set_counter (block_counter x + i) x)"
  have ks: "chacha_keystream_bytes x bytes =
      (set_counter (block_counter x + blocks_of bytes) x, take bytes (concat (map ?f [0..<blocks_of bytes])))"
    using False assms by (simp add: chacha_keystream_bytes_def keystream_loop_blocks chacha_next_power)
  have len: "length (?f i) = 64" for i using assms by (simp add: length_chacha_block)
  show ?thesis
    using blocks_of_enough [of bytes] length_concat_blocks [of ?f 64 "blocks_of bytes", OF len]
      nth_concat_blocks [of ?f 64 _ "blocks_of bytes", OF len]
    by (simp add: ks)
qed

text \<open>
  C29. The key stream is random access: for a 16-word context, \<^verbatim>\<open>chacha_keystream_bytes\<close> writes
  exactly the bytes asked for, byte \<open>p\<close> is byte \<open>p mod 64\<close> of the block whose number is the 64-bit
  counter plus \<open>p div 64\<close>, and the counter left behind is the old one plus the number of blocks
  started; the key and the nonce words do not change.
\<close>

theorem chacha_keystream_by_block:
  assumes "length x = 16"
  shows "length (snd (chacha_keystream_bytes x bytes)) = bytes
    \<and> (\<forall>p < bytes. snd (chacha_keystream_bytes x bytes) ! p =
           chacha_block (set_counter (block_counter x + p div 64) x) ! (p mod 64))
    \<and> fst (chacha_keystream_bytes x bytes) = set_counter (block_counter x + blocks_of bytes) x"
  using assms by (rule keystream_by_block)

theorem chacha_keystream_by_block_witness:
  "length (replicate 16 (0::u32)) = 16 \<and>
   snd (chacha_keystream_bytes (replicate 16 0) 100) ! 70 =
     chacha_block (set_counter 1 (replicate 16 0)) ! 6"
proof -
  have "length (replicate 16 (0::u32)) = 16" by simp
  from chacha_keystream_by_block [OF this, of 100] show ?thesis
    by (simp add: block_counter_def)
qed

section \<open>No information is lost in the rounds\<close>

lemma ROTL32_inverse: "0 < n \<Longrightarrow> n < 32 \<Longrightarrow> ROTL32 (ROTL32 v n) (32 - n) = v"
  by (rule bit_eqI) (auto simp: ROTL32_def bit_simps)

lemma ROTL32_inject: "0 < n \<Longrightarrow> n < 32 \<Longrightarrow> ROTL32 v n = ROTL32 w n \<longleftrightarrow> v = w"
  by (metis ROTL32_inverse)

lemma xor_right_cancel: "(a :: u32) XOR c = b XOR c \<longleftrightarrow> a = b"
  by (metis xor.assoc xor.right_neutral xor_self_eq)

lemma QUARTERROUND_inject:
  "QUARTERROUND a b c d = QUARTERROUND a' b' c' d' \<Longrightarrow> a = a' \<and> b = b' \<and> c = c' \<and> d = d'"
  unfolding QUARTERROUND_def Let_def prod.inject
  by (auto simp: ROTL32_inject xor_right_cancel)

lemma quarterround_at_inject:
  assumes "quarterround_at a b c d xs = quarterround_at a b c d ys" "length xs = length ys"
    and "distinct [a, b, c, d]" "{a, b, c, d} \<subseteq> {..<length xs}"
  shows "xs = ys"
proof (rule nth_equalityI)
  fix i assume "i < length xs"
  let ?X = "QUARTERROUND (xs ! a) (xs ! b) (xs ! c) (xs ! d)"
  let ?Y = "QUARTERROUND (ys ! a) (ys ! b) (ys ! c) (ys ! d)"
  have nth: "quarterround_at a b c d zs ! k =
      (let (p, q, r, s) = QUARTERROUND (zs ! a) (zs ! b) (zs ! c) (zs ! d)
       in if k = d then s else if k = c then r else if k = b then q else if k = a then p else zs ! k)"
    if "length zs = length xs" for zs k
    using that assms(3,4) by (auto simp: quarterround_at_def nth_list_update split: prod.splits)
  obtain p q r s where X: "?X = (p, q, r, s)" by (rule prod_cases4)
  obtain p' q' r' s' where Y: "?Y = (p', q', r', s')" by (rule prod_cases4)
  have "p = p'" "q = q'" "r = r'" "s = s'"
    using nth [OF refl, of a] nth [of ys a] nth [OF refl, of b] nth [of ys b]
      nth [OF refl, of c] nth [of ys c] nth [OF refl, of d] nth [of ys d] assms(1-3) X Y by auto
  with X Y have "?X = ?Y" by simp
  then have "xs ! a = ys ! a \<and> xs ! b = ys ! b \<and> xs ! c = ys ! c \<and> xs ! d = ys ! d"
    by (rule QUARTERROUND_inject)
  moreover have "xs ! i = ys ! i" if "i \<notin> {a, b, c, d}"
    using nth [OF refl, of i] nth [of ys i] assms(1,2) that by (auto split: prod.splits)
  ultimately show "xs ! i = ys ! i" by auto
qed (use assms in simp)

lemma quarterround_at_eq_iff:
  assumes "length xs = 16" "length ys = 16" "distinct [a, b, c, d]" "a < 16" "b < 16" "c < 16" "d < 16"
  shows "quarterround_at a b c d xs = quarterround_at a b c d ys \<longleftrightarrow> xs = ys"
  using quarterround_at_inject [of a b c d xs ys] assms by auto

lemma double_round_inject:
  assumes "double_round xs = double_round ys" "length xs = 16" "length ys = 16"
  shows "xs = ys"
  using assms unfolding double_round_def
  by (simp add: quarterround_at_eq_iff)

lemma round_loop_inject:
  "round_loop i xs = round_loop i ys \<Longrightarrow> length xs = 16 \<Longrightarrow> length ys = 16 \<Longrightarrow> xs = ys"
proof (induction i xs arbitrary: ys rule: round_loop.induct)
  case (1 i xs)
  show ?case
  proof (cases "i > 0")
    case True
    with 1 have "double_round xs = double_round ys"
      by (simp add: round_loop.simps [of i])
    with 1 show ?thesis by (auto dest: double_round_inject)
  next
    case False
    with 1 show ?thesis by (simp add: round_loop.simps [of i])
  qed
qed

text \<open>
  The eight rounds are a permutation of the 16-word states: distinct states stay distinct, so
  the rounds lose no entropy of the key.
\<close>

lemma chacha_rounds_inj: "inj_on (round_loop rounds) {xs. length xs = 16}"
  by (rule inj_onI) (auto dest: round_loop_inject)

lemma chacha8_zero_block:
  "chacha_block (chacha_ivsetup (chacha_keysetup (replicate 16 0) (replicate 32 0)) (replicate 8 0)) =
   [0x3e, 0x00, 0xef, 0x2f, 0x89, 0x5f, 0x40, 0xd6, 0x7f, 0x5b, 0xb8, 0xe8, 0x1f, 0x09, 0xa5, 0xa1,
    0x2c, 0x84, 0x0e, 0xc3, 0xce, 0x9a, 0x7f, 0x3b, 0x18, 0x1b, 0xe1, 0x88, 0xef, 0x71, 0x1a, 0x1e,
    0x98, 0x4c, 0xe1, 0x72, 0xb9, 0x21, 0x6f, 0x41, 0x9f, 0x44, 0x53, 0x67, 0x45, 0x6d, 0x56, 0x19,
    0x31, 0x4a, 0x42, 0xa3, 0xda, 0x86, 0xb0, 0x01, 0x38, 0x7b, 0xfd, 0xb8, 0x0e, 0x0c, 0xfe, 0x42]"
  by code_simp

text \<open>
  A test vector: with the all-zero key and nonce, the first block of the key stream is the
  published ChaCha8 test vector.
\<close>

lemma chacha8_known_answer:
  "snd (chacha_keystream_bytes
      (chacha_ivsetup (chacha_keysetup (replicate 16 0) (replicate 32 0)) (replicate 8 0)) 64) =
   [0x3e, 0x00, 0xef, 0x2f, 0x89, 0x5f, 0x40, 0xd6, 0x7f, 0x5b, 0xb8, 0xe8, 0x1f, 0x09, 0xa5, 0xa1,
    0x2c, 0x84, 0x0e, 0xc3, 0xce, 0x9a, 0x7f, 0x3b, 0x18, 0x1b, 0xe1, 0x88, 0xef, 0x71, 0x1a, 0x1e,
    0x98, 0x4c, 0xe1, 0x72, 0xb9, 0x21, 0x6f, 0x41, 0x9f, 0x44, 0x53, 0x67, 0x45, 0x6d, 0x56, 0x19,
    0x31, 0x4a, 0x42, 0xa3, 0xda, 0x86, 0xb0, 0x01, 0x38, 0x7b, 0xfd, 0xb8, 0x0e, 0x0c, 0xfe, 0x42]"
  by (simp add: chacha_keystream_bytes_def keystream_loop.simps chacha8_zero_block)

end
