(* ===== verification/Random_State.thy ===== *)
theory Random_State
  imports Kernel Chacha
begin

text \<open>
  \<^verbatim>\<open>src/random.c\<close>: the per-class random number generator. A state is a ChaCha8 context, a 256-byte
  cache of its key stream with the index of the next unused byte, and a count of the bytes produced
  since the last seed. Bounded integers come from Lemire's multiplication method with rejection.
  Seeding calls the kernel's \<^verbatim>\<open>getrandom\<close>, which may be interrupted for ever, and rejection may in
  principle go on for ever: both loops are partial functions whose non-termination is the outcome
  \<open>Diverged\<close>. The sizes of requests are natural numbers: the conversion of a \<^verbatim>\<open>size_t\<close> to the 32 bits
  of \<^verbatim>\<open>chacha_keystream_bytes\<close> loses nothing below 4 GiB, and no caller asks for more than 256 bytes.

  The theorems: every operation keeps the state well formed; a bounded draw is below its bound, and
  each value is produced by exactly the same number of accepted draws (no bias); a draw whose bound
  divides the range never repeats. Where seeds come from and what is handed out between two of them is
  the subject of the theory \<open>Random_Correct\<close>.
\<close>

section \<open>State\<close>

abbreviation (input) RANDOM_CACHE_SIZE :: nat where "RANDOM_CACHE_SIZE \<equiv> 256"
abbreviation (input) RANDOM_RESEED_SIZE :: nat where "RANDOM_RESEED_SIZE \<equiv> 256 * 1024"

record random_state =
  rs_index :: nat
  rs_reseed :: nat
  rs_ctx :: chacha_ctx
  rs_cache :: "u8 list"

text \<open>The loop of \<^verbatim>\<open>get_random_seed\<close>: \<open>buf\<close> holds the bytes received so far.\<close>

partial_function (option) get_random_seed_loop ::
    "kernel \<Rightarrow> u8 list \<Rightarrow> nat \<Rightarrow> world \<Rightarrow> ((u8 list \<times> world) outcome) option" where
  "get_random_seed_loop os buf size' w =
     (if size' \<noteq> 0 then
        (case getrandom os size' w of
           (Getrandom_error e, w') \<Rightarrow>
             if e = EINTR then get_random_seed_loop os buf size' w'
             else Some (Aborted ''getrandom failed'')
         | (Got_bytes r, w') \<Rightarrow>
             if r = [] then Some (Aborted ''getrandom failed'')
             else get_random_seed_loop os (buf @ r) (size' - length r) w')
      else Some (Returned (buf, w)))"

definition get_random_seed :: "kernel \<Rightarrow> nat \<Rightarrow> world \<Rightarrow> (u8 list \<times> world) outcome" where
  "get_random_seed os size' w = join_o (get_random_seed_loop os [] size' w)"

definition random_state_init ::
    "kernel \<Rightarrow> random_state \<Rightarrow> world \<Rightarrow> (random_state \<times> world) outcome" where
  "random_state_init os state w =
     bind_o (get_random_seed os (CHACHA_KEY_SIZE + CHACHA_IV_SIZE) w) (\<lambda>(rnd, w).
       Returned (state\<lparr>rs_ctx := chacha_ivsetup (chacha_keysetup (rs_ctx state) rnd)
                                   (drop CHACHA_KEY_SIZE rnd),
                       rs_index := RANDOM_CACHE_SIZE, rs_reseed := 0\<rparr>, w))"

definition refill :: "kernel \<Rightarrow> random_state \<Rightarrow> world \<Rightarrow> (random_state \<times> world) outcome" where
  "refill os state w =
     bind_o (if RANDOM_RESEED_SIZE \<le> rs_reseed state then random_state_init os state w
             else Returned (state, w)) (\<lambda>(state, w).
       let (ctx, cache) = chacha_keystream_bytes (rs_ctx state) RANDOM_CACHE_SIZE
       in Returned (state\<lparr>rs_ctx := ctx, rs_cache := cache, rs_index := 0,
                          rs_reseed := rs_reseed state + RANDOM_CACHE_SIZE\<rparr>, w))"

section \<open>Bytes\<close>

text \<open>
  The copying loop. With nothing left to copy from the cache it would make no progress; the refill
  before it rules that out (\<open>rs_index \<le> 256\<close> throughout).
\<close>

function get_random_bytes_loop ::
    "kernel \<Rightarrow> random_state \<Rightarrow> u8 list \<Rightarrow> nat \<Rightarrow> world \<Rightarrow> (u8 list \<times> random_state \<times> world) outcome" where
  "get_random_bytes_loop os state buf size' w =
     (if size' \<noteq> 0 then
        bind_o (if rs_index state = RANDOM_CACHE_SIZE then refill os state w else Returned (state, w))
          (\<lambda>(state, w).
             let remaining = RANDOM_CACHE_SIZE - rs_index state;
                 copy_size = min size' remaining;
                 buf = buf @ take copy_size (drop (rs_index state) (rs_cache state));
                 state = state\<lparr>rs_index := rs_index state + copy_size\<rparr>
             in if copy_size = 0 then Diverged
                else get_random_bytes_loop os state buf (size' - copy_size) w)
      else Returned (buf, state, w))"
  by pat_completeness auto
termination
  by (relation "measure (\<lambda>(os, state, buf, size', w). size')") auto

declare get_random_bytes_loop.simps [simp del]

definition get_random_bytes ::
    "kernel \<Rightarrow> random_state \<Rightarrow> nat \<Rightarrow> world \<Rightarrow> (u8 list \<times> random_state \<times> world) outcome" where
  "get_random_bytes os state size' w =
     (if RANDOM_CACHE_SIZE div 2 < size' then
        let (ctx, buf) = chacha_keystream_bytes (rs_ctx state) size'
        in Returned (buf, state\<lparr>rs_ctx := ctx\<rparr>, w)
      else get_random_bytes_loop os state [] size' w)"

definition random_state_init_from_random_state ::
    "kernel \<Rightarrow> random_state \<Rightarrow> random_state \<Rightarrow> world \<Rightarrow> (random_state \<times> random_state \<times> world) outcome" where
  "random_state_init_from_random_state os state source w =
     bind_o (get_random_bytes os source (CHACHA_KEY_SIZE + CHACHA_IV_SIZE) w) (\<lambda>(rnd, source, w).
       Returned (state\<lparr>rs_ctx := chacha_ivsetup (chacha_keysetup (rs_ctx state) rnd)
                                   (drop CHACHA_KEY_SIZE rnd),
                       rs_index := RANDOM_CACHE_SIZE, rs_reseed := 0\<rparr>, source, w))"

section \<open>Integers\<close>

text \<open>\<^verbatim>\<open>memcpy(&value, ...)\<close> on a little-endian machine.\<close>

primrec le_word :: "u8 list \<Rightarrow> 'a::len word" where
  "le_word [] = 0"
| "le_word (b # bs) = ucast b OR push_bit 8 (le_word bs)"

text \<open>The common body of \<^verbatim>\<open>get_random_u16\<close>, \<^verbatim>\<open>get_random_u32\<close> and \<^verbatim>\<open>get_random_u64\<close>.\<close>

definition get_random_word ::
    "nat \<Rightarrow> kernel \<Rightarrow> random_state \<Rightarrow> world \<Rightarrow> ('a::len word \<times> random_state \<times> world) outcome" where
  "get_random_word n os state w =
     (let remaining = RANDOM_CACHE_SIZE - rs_index state in
      bind_o (if remaining < n then refill os state w else Returned (state, w)) (\<lambda>(state, w).
        let val = le_word (take n (drop (rs_index state) (rs_cache state)))
        in Returned (val, state\<lparr>rs_index := rs_index state + n\<rparr>, w)))"

definition get_random_u16 :: "kernel \<Rightarrow> random_state \<Rightarrow> world \<Rightarrow> (u16 \<times> random_state \<times> world) outcome" where
  "get_random_u16 = get_random_word 2"

definition get_random_u32 :: "kernel \<Rightarrow> random_state \<Rightarrow> world \<Rightarrow> (u32 \<times> random_state \<times> world) outcome" where
  "get_random_u32 = get_random_word 4"

definition get_random_u64 :: "kernel \<Rightarrow> random_state \<Rightarrow> world \<Rightarrow> (u64 \<times> random_state \<times> world) outcome" where
  "get_random_u64 = get_random_word 8"

section \<open>Bounded integers\<close>

text \<open>
  The loop and the body that the three \<^verbatim>\<open>_uniform\<close> functions share, for an \<open>'a\<close>-bit value and a
  product of twice that width \<open>'b\<close>.
\<close>

partial_function (option) uniform_loop ::
    "('s \<Rightarrow> ('a::len word \<times> 's) outcome) \<Rightarrow> 'a word \<Rightarrow> 'a word \<Rightarrow> 'b::len word \<Rightarrow> 'a word \<Rightarrow> 's \<Rightarrow>
     (('b word \<times> 's) outcome) option" where
  "uniform_loop draw bound threshold multiresult leftover s =
     (if leftover < threshold then
        (case draw s of
           Returned (random, s') \<Rightarrow>
             uniform_loop draw bound threshold (ucast random * ucast bound)
               (ucast (ucast random * ucast bound :: 'b word)) s'
         | Aborted msg \<Rightarrow> Some (Aborted msg)
         | Diverged \<Rightarrow> None)
      else Some (Returned (multiresult, s)))"

definition uniform ::
    "'b::len itself \<Rightarrow> ('s \<Rightarrow> ('a::len word \<times> 's) outcome) \<Rightarrow> 'a word \<Rightarrow> 's \<Rightarrow> ('a word \<times> 's) outcome" where
  "uniform T draw bound s =
     bind_o (draw s) (\<lambda>(random, s).
       let multiresult = ucast random * ucast bound :: 'b word;
           leftover = ucast multiresult :: 'a word
       in bind_o
            (if leftover < bound then
               let threshold = - bound mod bound
               in join_o (uniform_loop draw bound threshold multiresult leftover s)
             else Returned (multiresult, s))
            (\<lambda>(multiresult, s). Returned (ucast (drop_bit LENGTH('a) multiresult), s)))"

definition get_random_u16_uniform ::
    "kernel \<Rightarrow> random_state \<Rightarrow> u16 \<Rightarrow> world \<Rightarrow> (u16 \<times> random_state \<times> world) outcome" where
  "get_random_u16_uniform os state bound w =
     uniform TYPE(32) (\<lambda>(state, w). get_random_u16 os state w) bound (state, w)"

definition get_random_u32_uniform ::
    "kernel \<Rightarrow> random_state \<Rightarrow> u32 \<Rightarrow> world \<Rightarrow> (u32 \<times> random_state \<times> world) outcome" where
  "get_random_u32_uniform os state bound w =
     uniform TYPE(64) (\<lambda>(state, w). get_random_u32 os state w) bound (state, w)"

definition get_random_u64_uniform ::
    "kernel \<Rightarrow> random_state \<Rightarrow> u64 \<Rightarrow> world \<Rightarrow> (u64 \<times> random_state \<times> world) outcome" where
  "get_random_u64_uniform os state bound w =
     uniform TYPE(128) (\<lambda>(state, w). get_random_u64 os state w) bound (state, w)"

section \<open>Counting the accepted draws, on natural numbers\<close>

lemma card_multiples:
  fixes A b q :: nat
  assumes "0 < b"
  shows "card {x. A \<le> x * b \<and> x * b < A + q * b} = q"
proof -
  define c where "c = (A + (b - 1)) div b"
  have ge: "A \<le> x * b \<longleftrightarrow> c \<le> x" for x
  proof -
    have "c \<le> x \<longleftrightarrow> (A + (b - 1)) div b < Suc x" by (simp add: c_def less_Suc_eq_le)
    also have "\<dots> \<longleftrightarrow> A + (b - 1) < Suc x * b" using assms by (rule div_less_iff_less_mult)
    also have "\<dots> \<longleftrightarrow> A \<le> x * b" unfolding mult_Suc using assms by linarith
    finally show ?thesis by blast
  qed
  have lt: "x * b < A + q * b \<longleftrightarrow> x < c + q" for x
  proof (cases "q \<le> x")
    case True
    then obtain d where x: "x = q + d" using le_Suc_ex by blast
    have "x * b < A + q * b \<longleftrightarrow> \<not> A \<le> d * b"
      unfolding x distrib_right by linarith
    with x show ?thesis by (auto simp: ge)
  next
    case False
    then have "x * b < q * b" using assms by simp
    with False show ?thesis by (auto intro: trans_less_add2)
  qed
  have "{x. A \<le> x * b \<and> x * b < A + q * b} = {c..<c + q}"
    unfolding ge lt by auto
  then show ?thesis by simp
qed

text \<open>
  Lemire's method on \<open>L\<close>-bit draws: a draw \<open>x\<close> is accepted when the low half of \<open>x * b\<close> is at least
  \<open>2 ^ L mod b\<close>, and its value is the high half. Each value has \<open>2 ^ L div b\<close> accepted draws.
\<close>

lemma lemire_count:
  fixes b v L :: nat
  assumes "0 < b" "v < b"
  shows "card {x. x < 2 ^ L \<and> 2 ^ L mod b \<le> x * b mod 2 ^ L \<and> x * b div 2 ^ L = v} = 2 ^ L div b"
proof -
  have eq: "2 ^ L div b * b + 2 ^ L mod b = 2 ^ L" by (rule div_mult_mod_eq)
  have "x < 2 ^ L \<and> 2 ^ L mod b \<le> x * b mod 2 ^ L \<and> x * b div 2 ^ L = v \<longleftrightarrow>
      v * 2 ^ L + 2 ^ L mod b \<le> x * b \<and> x * b < v * 2 ^ L + 2 ^ L mod b + 2 ^ L div b * b"
    (is "?l \<longleftrightarrow> ?r") for x
  proof
    assume ?l
    then have "x * b = v * 2 ^ L + x * b mod 2 ^ L" by (metis div_mult_mod_eq)
    moreover have "x * b mod 2 ^ L < 2 ^ L" by simp
    ultimately show ?r using \<open>?l\<close> eq by linarith
  next
    assume ?r
    then have lo: "v * 2 ^ L + 2 ^ L mod b \<le> x * b" and hi: "x * b < v * 2 ^ L + 2 ^ L"
      using eq by linarith+
    have "x * b div 2 ^ L = v"
      using lo hi by (intro div_nat_eqI) (auto simp: mult.commute)
    moreover from this have "x * b mod 2 ^ L = x * b - v * 2 ^ L"
      by (metis minus_div_mult_eq_mod)
    moreover have "x < 2 ^ L"
    proof -
      have "x * b < Suc v * 2 ^ L" using hi by simp
      also have "\<dots> \<le> 2 ^ L * b" using mult_le_mono1 [of "Suc v" b "2 ^ L"] assms(2) by (simp add: mult.commute)
      finally show ?thesis by simp
    qed
    ultimately show ?l using lo by auto
  qed
  then show ?thesis
    using card_multiples [OF assms(1), of "v * 2 ^ L + 2 ^ L mod b" "2 ^ L div b"] by simp
qed

section \<open>Rejection sampling over any source of draws\<close>

text \<open>One draw: its value, or \<open>None\<close> when the code rejects it.\<close>

definition lemire_draw :: "'b::len itself \<Rightarrow> 'a::len word \<Rightarrow> 'a word \<Rightarrow> 'a word option" where
  "lemire_draw T bound random =
     (let multiresult = ucast random * ucast bound :: 'b word; leftover = ucast multiresult :: 'a word
      in if leftover < bound \<and> leftover < - bound mod bound then None
         else Some (ucast (drop_bit LENGTH('a) multiresult)))"

lemma unat_threshold:
  fixes bound :: "'a::len word"
  assumes "bound \<noteq> 0"
  shows "unat (- bound mod bound) = 2 ^ LENGTH('a) mod unat bound"
proof -
  have "unat (- bound) = 2 ^ LENGTH('a) - unat bound"
    using assms unat_sub_if' [of 0 bound] by (simp add: unat_eq_zero)
  moreover have "unat bound \<le> 2 ^ LENGTH('a)" using unsigned_less [of bound] by (rule less_imp_le)
  ultimately show ?thesis
    by (simp add: unat_mod le_mod_geq [symmetric])
qed

locale sampler =
  fixes T :: "'b::len itself" and draw :: "'s \<Rightarrow> ('a::len word \<times> 's) outcome"
  assumes width: "LENGTH('b) = 2 * LENGTH('a)"
begin

lemma unat_product: "unat (ucast (x :: 'a word) * ucast (y :: 'a word) :: 'b word) = unat x * unat y"
proof (subst unat_mult_lt)
  have "unat x * unat y < 2 ^ LENGTH('a) * 2 ^ LENGTH('a)"
    by (rule mult_strict_mono) auto
  then show "unat (ucast x :: 'b word) * unat (ucast y :: 'b word) < 2 ^ LENGTH('b)"
    by (simp add: width mult_2 power_add)
qed (simp_all add: width)

lemma unat_high:
  "unat (ucast (drop_bit LENGTH('a) (ucast (x :: 'a word) * ucast (y :: 'a word) :: 'b word)) :: 'a word)
    = unat x * unat y div 2 ^ LENGTH('a)"
proof -
  have "unat x * unat y < 2 ^ LENGTH('a) * 2 ^ LENGTH('a)"
    by (rule mult_strict_mono) auto
  then have "unat x * unat y div 2 ^ LENGTH('a) < 2 ^ LENGTH('a)"
    by (rule less_mult_imp_div_less)
  then show ?thesis by (simp add: unat_ucast unat_drop_bit unat_product)
qed

lemma lemire_draw_Some_iff:
  assumes "bound \<noteq> 0"
  shows "lemire_draw T bound x = Some v \<longleftrightarrow>
    2 ^ LENGTH('a) mod unat bound \<le> unat x * unat bound mod 2 ^ LENGTH('a)
    \<and> unat x * unat bound div 2 ^ LENGTH('a) = unat (v :: 'a word)"
proof -
  have "0 < unat bound" using assms by (simp add: unat_gt_0)
  then have "2 ^ LENGTH('a) mod unat bound < unat bound" by (rule mod_less_divisor)
  then show ?thesis
    using unat_threshold [OF assms] unat_high [of x bound]
    by (auto simp: lemire_draw_def Let_def word_less_nat_alt unat_ucast unat_product
        word_unat_eq_iff)
qed

text \<open>No bias: every value below the bound has the same number of accepted draws.\<close>

lemma accepted_draws:
  assumes "(v :: 'a word) < bound"
  shows "card {x :: 'a word. lemire_draw T bound x = Some v} = 2 ^ LENGTH('a) div unat bound"
proof -
  let ?L = "LENGTH('a)"
  let ?S = "{n. n < 2 ^ ?L \<and> 2 ^ ?L mod unat bound \<le> n * unat bound mod 2 ^ ?L
              \<and> n * unat bound div 2 ^ ?L = unat v}"
  from assms have b: "bound \<noteq> 0" "unat v < unat bound" by (auto simp: word_less_nat_alt)
  have "unat ` {x :: 'a word. lemire_draw T bound x = Some v} = ?S"
  proof (intro equalityI subsetI)
    fix n assume "n \<in> ?S"
    then have "n = unat (of_nat n :: 'a word)" "lemire_draw T bound (of_nat n) = Some v"
      by (auto simp: lemire_draw_Some_iff [OF b(1)] unat_of_nat)
    then show "n \<in> unat ` {x :: 'a word. lemire_draw T bound x = Some v}" by blast
  qed (auto simp: lemire_draw_Some_iff [OF b(1)])
  moreover have "inj_on unat {x :: 'a word. lemire_draw T bound x = Some v}"
    by (rule inj_onI) (simp add: word_unat_eq_iff)
  ultimately have "card {x :: 'a word. lemire_draw T bound x = Some v} = card ?S"
    by (metis card_image)
  also have "\<dots> = 2 ^ ?L div unat bound"
    using lemire_count [of "unat bound" "unat v" ?L] b(2) by simp
  finally show ?thesis .
qed

lemma accepted_less:
  assumes "lemire_draw T bound x = Some (v :: 'a word)" "bound \<noteq> 0"
  shows "v < bound"
proof -
  from assms have "unat v = unat x * unat bound div 2 ^ LENGTH('a)"
    by (simp add: lemire_draw_Some_iff)
  also have "\<dots> < unat bound"
    using assms(2)
    by (intro less_mult_imp_div_less) (simp add: mult.commute unat_gt_0)
  finally show ?thesis by (simp add: word_less_nat_alt)
qed

text \<open>The code of the \<^verbatim>\<open>_uniform\<close> functions is rejection sampling with \<open>lemire_draw\<close>.\<close>

lemma uniform_unfold:
  "uniform T draw bound s =
     bind_o (draw s) (\<lambda>(random, s').
       case lemire_draw T bound random of
         Some v \<Rightarrow> Returned (v, s')
       | None \<Rightarrow> uniform T draw bound s')"
proof (cases "draw s")
  case (Returned r)
  obtain x s1 where r: "r = (x, s1)" by (cases r)
  let ?m = "\<lambda>x :: 'a word. ucast x * ucast bound :: 'b word"
  let ?l = "\<lambda>x. ucast (?m x) :: 'a word"
  let ?t = "- bound mod bound"
  show ?thesis
  proof (cases "?l x < bound \<and> ?l x < ?t")
    case False
    then show ?thesis
      using Returned r by (auto simp: uniform_def lemire_draw_def Let_def uniform_loop.simps)
  next
    case True
    then have "bound \<noteq> 0" by auto
    then have "?t < bound"
      by (simp add: word_less_nat_alt unat_threshold unat_gt_0)
    then have loop: "uniform_loop draw bound ?t (?m y) (?l y) s2 = Some (Returned (?m y, s2))"
      if "\<not> ?l y < bound" for y :: "'a word" and s2
      using that by (subst uniform_loop.simps) (auto dest: less_trans)
    have "uniform T draw bound s =
        bind_o (join_o (uniform_loop draw bound ?t (?m x) (?l x) s1))
          (\<lambda>(m, s). Returned (ucast (drop_bit LENGTH('a) m), s))"
      using True Returned r by (simp add: uniform_def Let_def)
    also have "\<dots> = uniform T draw bound s1"
      using True loop
      by (subst uniform_loop.simps) (cases "draw s1"; auto simp: uniform_def Let_def)
    finally show ?thesis
      using True Returned r by (simp add: lemire_draw_def Let_def)
  qed
qed (simp_all add: uniform_def)

text \<open>
  What a draw keeps, a bounded draw keeps; and the value it returns comes from an accepted draw.
\<close>

lemma uniform_loop_returns:
  assumes "uniform_loop draw bound t (ucast (x :: 'a word) * ucast bound :: 'b word)
      (ucast (ucast x * ucast bound :: 'b word)) s = Some (Returned (m, s'))"
    and "P s" and "\<And>s x s'. P s \<Longrightarrow> draw s = Returned (x, s') \<Longrightarrow> P s'"
  shows "P s' \<and> (\<exists>x :: 'a word. m = ucast x * ucast bound \<and> \<not> (ucast m :: 'a word) < t)"
proof -
  define Q where "Q = (\<lambda>draw' bound' t' (m0 :: 'b word) (l0 :: 'a word) s0 r.
    draw' = draw \<longrightarrow> bound' = bound \<longrightarrow> t' = t \<longrightarrow> (\<exists>x :: 'a word. m0 = ucast x * ucast bound) \<longrightarrow>
      l0 = ucast m0 \<longrightarrow> P s0 \<longrightarrow> r = Returned (m, s') \<longrightarrow>
      P s' \<and> (\<exists>x :: 'a word. m = ucast x * ucast bound \<and> \<not> (ucast m :: 'a word) < t))"
  have "Q draw bound t (ucast x * ucast bound) (ucast (ucast x * ucast bound :: 'b word)) s (Returned (m, s'))"
  proof (rule uniform_loop.raw_induct [OF _ assms(1)])
    fix f draw' bound' t' m0 l0 s0 r
    assume IH: "\<And>draw' bound' t' m0 l0 s0 r. f draw' bound' t' m0 l0 s0 = Some r \<Longrightarrow> Q draw' bound' t' m0 l0 s0 r"
      and body: "(if l0 < t' then
        (case draw' s0 of
           Returned (random, s') \<Rightarrow>
             f draw' bound' t' (ucast random * ucast bound')
               (ucast (ucast random * ucast bound' :: 'b word)) s'
         | Aborted msg \<Rightarrow> Some (Aborted msg)
         | Diverged \<Rightarrow> None)
      else Some (Returned (m0, s0))) = Some r"
    show "Q draw' bound' t' m0 l0 s0 r"
    proof (cases "l0 < t'")
      case False
      with body show ?thesis by (auto simp: Q_def)
    next
      case True
      with body IH show ?thesis
        by (fastforce simp: Q_def split: outcome.splits dest: assms(3))
    qed
  qed
  with assms(2) show ?thesis unfolding Q_def by blast
qed

lemma uniform_returns:
  assumes "uniform T draw bound s = Returned (v, s')"
    and "P s" and "\<And>s x s'. P s \<Longrightarrow> draw s = Returned (x, s') \<Longrightarrow> P s'"
  shows "P s' \<and> (\<exists>x. lemire_draw T bound x = Some v)"
proof -
  from assms(1) obtain x s1 where d: "draw s = Returned (x, s1)"
    by (auto simp: uniform_def outcome_simps)
  let ?m = "ucast x * ucast bound :: 'b word"
  have P1: "P s1" using assms(2,3) d by blast
  show ?thesis
  proof (cases "(ucast ?m :: 'a word) < bound")
    case False
    with assms(1) d P1 show ?thesis
      by (auto simp: uniform_def Let_def lemire_draw_def intro!: exI [of _ x])
  next
    case True
    with assms(1) d obtain m where
      loop: "uniform_loop draw bound (- bound mod bound) ?m (ucast ?m) s1 = Some (Returned (m, s'))"
      and v: "v = ucast (drop_bit LENGTH('a) m)"
      by (auto simp: uniform_def Let_def outcome_simps)
    have "P s' \<and> (\<exists>y :: 'a word. m = ucast y * ucast bound \<and> \<not> (ucast m :: 'a word) < - bound mod bound)"
      using loop P1 assms(3) by (rule uniform_loop_returns)
    then obtain y :: "'a word"
      where "P s'" "m = ucast y * ucast bound" "\<not> (ucast m :: 'a word) < - bound mod bound"
      by blast
    with v show ?thesis by (auto simp: lemire_draw_def Let_def intro!: exI [of _ y])
  qed
qed

lemma uniform_less:
  assumes "uniform T draw bound s = Returned (v, s')" "bound \<noteq> 0"
  shows "v < bound"
  using uniform_returns [OF assms(1), of "\<lambda>_. True"] accepted_less assms(2) by blast

text \<open>A bound that divides the range is met by the first draw.\<close>

lemma uniform_one_draw:
  assumes "draw s = Returned (x, s')" "unat bound dvd 2 ^ LENGTH('a)"
  shows "\<exists>v. uniform T draw bound s = Returned (v, s')"
proof -
  have "bound \<noteq> 0" using assms(2) by (auto simp: dvd_def)
  then have "- bound mod bound = 0"
    using assms(2) by (simp add: word_unat_eq_iff unat_threshold)
  then have "\<exists>v. lemire_draw T bound x = Some v" by (simp add: lemire_draw_def Let_def)
  with assms(1) show ?thesis by (subst uniform_unfold) auto
qed

text \<open>The loop ends as soon as one of the draws is accepted.\<close>

lemma uniform_terminates:
  assumes "\<And>i. i \<le> n \<Longrightarrow> draw (st i) = Returned (xs i, st (Suc i))"
    and "lemire_draw T bound (xs n) = Some v"
  shows "\<exists>i v. i \<le> n \<and> uniform T draw bound (st 0) = Returned (v, st (Suc i))"
  using assms
proof (induction n arbitrary: st xs)
  case 0
  then show ?case by (subst uniform_unfold) auto
next
  case (Suc n)
  show ?case
  proof (cases "lemire_draw T bound (xs 0)")
    case None
    have "\<exists>i v. i \<le> n \<and> uniform T draw bound (st (Suc 0)) = Returned (v, st (Suc (Suc i)))"
      using Suc.prems Suc.IH [of "\<lambda>i. st (Suc i)" "\<lambda>i. xs (Suc i)"] by simp
    then obtain i v where "i \<le> n" "uniform T draw bound (st (Suc 0)) = Returned (v, st (Suc (Suc i)))"
      by blast
    moreover have "uniform T draw bound (st 0) = uniform T draw bound (st (Suc 0))"
      using None Suc.prems(1) [of 0] by (subst uniform_unfold) simp
    ultimately show ?thesis by (intro exI [of _ "Suc i"]) auto
  next
    case (Some v)
    with Suc.prems(1) [of 0] have "uniform T draw bound (st 0) = Returned (v, st (Suc 0))"
      by (subst uniform_unfold) simp
    then show ?thesis by blast
  qed
qed

end

interpretation u16_sampler: sampler "TYPE(32)" "\<lambda>(state, w). get_random_u16 os state w" for os
  by unfold_locales simp

interpretation u32_sampler: sampler "TYPE(64)" "\<lambda>(state, w). get_random_u32 os state w" for os
  by unfold_locales simp

interpretation u64_sampler: sampler "TYPE(128)" "\<lambda>(state, w). get_random_u64 os state w" for os
  by unfold_locales simp

section \<open>Well-formed states\<close>

text \<open>
  The invariant of a generator: a 16-word context, a 256-byte cache with an index into it, and a
  count of produced bytes that never passes the reseed limit.
\<close>

definition random_state_ok :: "random_state \<Rightarrow> bool" where
  "random_state_ok state \<longleftrightarrow>
     length (rs_ctx state) = 16 \<and> length (rs_cache state) = 256 \<and> rs_index state \<le> 256 \<and>
     256 dvd rs_reseed state \<and> rs_reseed state \<le> RANDOM_RESEED_SIZE"

text \<open>The generator touches neither memory nor mappings.\<close>

definition same_memory :: "world \<Rightarrow> world \<Rightarrow> bool" where
  "same_memory w w' \<longleftrightarrow> w_mem w' = w_mem w \<and> w_history w' = w_history w"

lemma same_memory_refl [simp]: "same_memory w w"
  by (simp add: same_memory_def)

lemma same_memory_trans [trans]: "same_memory w w' \<Longrightarrow> same_memory w' w'' \<Longrightarrow> same_memory w w''"
  by (simp add: same_memory_def)

lemma same_memory_getrandom: "getrandom os n w = (r, w') \<Longrightarrow> same_memory w w'"
  by (auto simp: getrandom_def same_memory_def Let_def split: getrandom_ret.splits)

lemma get_random_seed_loop_same:
  assumes "get_random_seed_loop os buf n w = Some (Returned (buf', w'))"
  shows "same_memory w w'"
proof -
  have "Returned (buf', w') = Returned (b, v) \<longrightarrow> same_memory w v" for b v
    by (rule get_random_seed_loop.raw_induct
        [where P = "\<lambda>os buf n w r. r = Returned (b, v) \<longrightarrow> same_memory w v", OF _ assms])
      (fastforce split: if_splits prod.splits getrandom_ret.splits
        dest: same_memory_getrandom intro: same_memory_trans)
  then show ?thesis by blast
qed

lemma get_random_seed_same: "get_random_seed os n w = Returned (buf, w') \<Longrightarrow> same_memory w w'"
  by (auto simp: get_random_seed_def outcome_simps dest: get_random_seed_loop_same)

lemma random_state_init_ok:
  assumes "random_state_init os state w = Returned (state', w')"
    and "length (rs_ctx state) = 16" "length (rs_cache state) = 256"
  shows "random_state_ok state' \<and> same_memory w w'"
  using assms
  by (auto simp: random_state_init_def random_state_ok_def outcome_simps dest: get_random_seed_same)

lemma refill_ok:
  assumes "refill os state w = Returned (state', w')" "random_state_ok state"
  shows "random_state_ok state' \<and> same_memory w w' \<and> rs_index state' = 0"
proof -
  from assms(1) obtain st1 w1 where
    init: "(if RANDOM_RESEED_SIZE \<le> rs_reseed state then random_state_init os state w
           else Returned (state, w)) = Returned (st1, w1)"
    by (auto simp: refill_def outcome_simps)
  have st1: "random_state_ok st1 \<and> same_memory w w1 \<and> rs_reseed st1 < RANDOM_RESEED_SIZE"
  proof (cases "RANDOM_RESEED_SIZE \<le> rs_reseed state")
    case True
    with init assms(2) show ?thesis
      using random_state_init_ok [of os state w st1 w1]
      by (auto simp: random_state_ok_def random_state_init_def outcome_simps)
  next
    case False
    with init assms(2) show ?thesis by auto
  qed
  then have "256 dvd rs_reseed st1" by (simp add: random_state_ok_def)
  with st1 have "rs_reseed st1 + 256 \<le> RANDOM_RESEED_SIZE" by (auto elim!: dvdE)
  with assms(1) init st1 show ?thesis
    using keystream_by_block [of "rs_ctx st1" 256]
    by (auto simp: refill_def random_state_ok_def split: prod.splits)
qed

lemma get_random_word_ok:
  assumes "get_random_word n os state w = Returned (v, state', w')" "random_state_ok state" "n \<le> 256"
  shows "random_state_ok state' \<and> same_memory w w'"
proof (cases "RANDOM_CACHE_SIZE - rs_index state < n")
  case True
  with assms(1) obtain st1 w1 where "refill os state w = Returned (st1, w1)"
    "state' = st1\<lparr>rs_index := rs_index st1 + n\<rparr>" "w' = w1"
    by (auto simp: get_random_word_def outcome_simps Let_def)
  with refill_ok [of os state w st1 w1] assms(2,3) show ?thesis
    by (auto simp: random_state_ok_def)
next
  case False
  with assms show ?thesis by (auto simp: get_random_word_def random_state_ok_def Let_def)
qed

lemma get_random_u64_ok:
  "get_random_u64 os state w = Returned (v, state', w') \<Longrightarrow> random_state_ok state \<Longrightarrow>
   random_state_ok state' \<and> same_memory w w'"
  unfolding get_random_u64_def by (rule get_random_word_ok) auto

text \<open>The property every draw keeps, as the invariant of the sampling loop.\<close>

definition rng_from :: "world \<Rightarrow> random_state \<times> world \<Rightarrow> bool" where
  "rng_from w0 s \<longleftrightarrow> random_state_ok (fst s) \<and> same_memory w0 (snd s)"

lemma rng_from_start: "random_state_ok state \<Longrightarrow> rng_from w (state, w)"
  by (simp add: rng_from_def)

lemma rng_from_step:
  "n \<le> 256 \<Longrightarrow> rng_from w0 s \<Longrightarrow> (case s of (state, w) \<Rightarrow> get_random_word n os state w) = Returned (x, s') \<Longrightarrow>
   rng_from w0 s'"
  by (cases s; cases s') (auto simp: rng_from_def dest: get_random_word_ok intro: same_memory_trans)

lemma get_random_u16_uniform_ok:
  assumes "get_random_u16_uniform os state bound w = Returned (v, state', w')" "random_state_ok state"
  shows "random_state_ok state' \<and> same_memory w w' \<and> (bound \<noteq> 0 \<longrightarrow> v < bound)"
proof -
  note ret = assms(1) [unfolded get_random_u16_uniform_def]
  have "rng_from w (state', w') \<and> (\<exists>x. lemire_draw TYPE(32) bound x = Some v)"
    using ret rng_from_start [OF assms(2)]
    by (rule u16_sampler.uniform_returns)
      (unfold get_random_u16_def, rule rng_from_step [of 2], simp_all)
  with u16_sampler.uniform_less [OF ret] show ?thesis by (simp add: rng_from_def)
qed

lemma get_random_u32_uniform_ok:
  assumes "get_random_u32_uniform os state bound w = Returned (v, state', w')" "random_state_ok state"
  shows "random_state_ok state' \<and> same_memory w w' \<and> (bound \<noteq> 0 \<longrightarrow> v < bound)"
proof -
  note ret = assms(1) [unfolded get_random_u32_uniform_def]
  have "rng_from w (state', w') \<and> (\<exists>x. lemire_draw TYPE(64) bound x = Some v)"
    using ret rng_from_start [OF assms(2)]
    by (rule u32_sampler.uniform_returns)
      (unfold get_random_u32_def, rule rng_from_step [of 4], simp_all)
  with u32_sampler.uniform_less [OF ret] show ?thesis by (simp add: rng_from_def)
qed

lemma get_random_u64_uniform_ok:
  assumes "get_random_u64_uniform os state bound w = Returned (v, state', w')" "random_state_ok state"
  shows "random_state_ok state' \<and> same_memory w w' \<and> (bound \<noteq> 0 \<longrightarrow> v < bound)"
proof -
  note ret = assms(1) [unfolded get_random_u64_uniform_def]
  have "rng_from w (state', w') \<and> (\<exists>x. lemire_draw TYPE(128) bound x = Some v)"
    using ret rng_from_start [OF assms(2)]
    by (rule u64_sampler.uniform_returns)
      (unfold get_random_u64_def, rule rng_from_step [of 8], simp_all)
  with u64_sampler.uniform_less [OF ret] show ?thesis by (simp add: rng_from_def)
qed

lemma get_random_bytes_loop_ok:
  "get_random_bytes_loop os state buf n w = Returned (buf', state', w') \<Longrightarrow> random_state_ok state \<Longrightarrow>
   random_state_ok state' \<and> same_memory w w' \<and> length buf' = length buf + n"
proof (induction n arbitrary: state buf w rule: less_induct)
  case (less n)
  show ?case
  proof (cases "n = 0")
    case True
    with less.prems(1) have "buf' = buf \<and> state' = state \<and> w' = w"
      using get_random_bytes_loop.simps [of os state buf 0 w] by simp
    with True less.prems(2) show ?thesis by simp
  next
    case False
    with less.prems(1) obtain st1 w1 where
      re: "(if rs_index state = RANDOM_CACHE_SIZE then refill os state w else Returned (state, w))
         = Returned (st1, w1)"
      by (subst (asm) get_random_bytes_loop.simps) (auto simp: outcome_simps)
    have st1: "random_state_ok st1 \<and> same_memory w w1 \<and> rs_index st1 < 256"
      using re less.prems(2) refill_ok [of os state w st1 w1]
      by (auto simp: random_state_ok_def split: if_splits)
    define k where "k = min n (256 - rs_index st1)"
    define st2 where "st2 = st1\<lparr>rs_index := rs_index st1 + k\<rparr>"
    define buf2 where "buf2 = buf @ take k (drop (rs_index st1) (rs_cache st1))"
    have k: "0 < k" "k \<le> n" using False st1 by (auto simp: k_def)
    have ok2: "random_state_ok st2" using st1 by (auto simp: st2_def k_def random_state_ok_def)
    have len2: "length buf2 = length buf + k"
      using st1 by (auto simp: buf2_def k_def random_state_ok_def)
    have "get_random_bytes_loop os st2 buf2 (n - k) w1 = Returned (buf', state', w')"
      using less.prems(1) False re k(1) [unfolded k_def, THEN less_imp_neq, symmetric]
      by (subst (asm) get_random_bytes_loop.simps)
        (simp add: k_def st2_def buf2_def Let_def split: if_splits)
    with k ok2 have "random_state_ok state' \<and> same_memory w1 w' \<and> length buf' = length buf2 + (n - k)"
      by (intro less.IH) simp_all
    with st1 len2 k show ?thesis by (auto intro: same_memory_trans)
  qed
qed

lemma get_random_bytes_ok:
  assumes "get_random_bytes os state n w = Returned (buf, state', w')" "random_state_ok state"
  shows "random_state_ok state' \<and> same_memory w w' \<and> length buf = n"
proof (cases "RANDOM_CACHE_SIZE div 2 < n")
  case True
  with assms show ?thesis
    using keystream_by_block [of "rs_ctx state" n]
    by (auto simp: get_random_bytes_def random_state_ok_def split: prod.splits)
next
  case False
  with assms show ?thesis
    using get_random_bytes_loop_ok [of os state "[]" n w buf state' w']
    by (simp add: get_random_bytes_def)
qed

lemma random_state_init_from_random_state_ok:
  assumes "random_state_init_from_random_state os state source w = Returned (state', source', w')"
    and "length (rs_ctx state) = 16" "length (rs_cache state) = 256" "random_state_ok source"
  shows "random_state_ok state' \<and> random_state_ok source' \<and> same_memory w w'"
  using assms
  by (auto simp: random_state_init_from_random_state_def outcome_simps random_state_ok_def
      dest!: get_random_bytes_ok)

section \<open>Properties\<close>

definition blank_random_state :: random_state where
  "blank_random_state = \<lparr>rs_index = 0, rs_reseed = 0, rs_ctx = replicate 16 0, rs_cache = replicate 256 0\<rparr>"

lemma get_random_seed_bump:
  "get_random_seed bump_kernel 40 start_world = Returned (replicate 40 0, start_world\<lparr>w_seeds := 1\<rparr>)"
  by (simp add: get_random_seed_def get_random_seed_loop.simps getrandom_def bump_kernel_def
      start_world_def)

text \<open>
  C27. Bounded random numbers are unbiased. The code of each \<^verbatim>\<open>get_random_*_uniform\<close>, for 16, 32 and 64 bits, is
  rejection sampling: draw, accept or reject, and start again from the state after the draw. And every value below the
  bound is the result of exactly the same number \<open>2^w div bound\<close> of accepted \<open>w\<close>-bit draws.
\<close>

theorem random_uniform_unbiased:
  "(get_random_u16_uniform os state b w =
      bind_o (get_random_u16 os state w) (\<lambda>(x, state', w').
        case lemire_draw TYPE(32) b x of
          Some v \<Rightarrow> Returned (v, state', w') | None \<Rightarrow> get_random_u16_uniform os state' b w'))
   \<and> (get_random_u32_uniform os state c w =
      bind_o (get_random_u32 os state w) (\<lambda>(x, state', w').
        case lemire_draw TYPE(64) c x of
          Some v \<Rightarrow> Returned (v, state', w') | None \<Rightarrow> get_random_u32_uniform os state' c w'))
   \<and> (get_random_u64_uniform os state d w =
      bind_o (get_random_u64 os state w) (\<lambda>(x, state', w').
        case lemire_draw TYPE(128) d x of
          Some v \<Rightarrow> Returned (v, state', w') | None \<Rightarrow> get_random_u64_uniform os state' d w'))
   \<and> (\<forall>v < b. card {x. lemire_draw TYPE(32) b x = Some v} = 2 ^ 16 div unat b)
   \<and> (\<forall>v < c. card {x. lemire_draw TYPE(64) c x = Some v} = 2 ^ 32 div unat c)
   \<and> (\<forall>v < d. card {x. lemire_draw TYPE(128) d x = Some v} = 2 ^ 64 div unat d)"
proof (intro conjI allI impI)
  fix v assume "v < b"
  from u16_sampler.accepted_draws [OF this]
  show "card {x. lemire_draw TYPE(32) b x = Some v} = 2 ^ 16 div unat b" by simp
next
  fix v assume "v < c"
  from u32_sampler.accepted_draws [OF this]
  show "card {x. lemire_draw TYPE(64) c x = Some v} = 2 ^ 32 div unat c" by simp
next
  fix v assume "v < d"
  from u64_sampler.accepted_draws [OF this]
  show "card {x. lemire_draw TYPE(128) d x = Some v} = 2 ^ 64 div unat d" by simp
next
  show "get_random_u16_uniform os state b w =
      bind_o (get_random_u16 os state w) (\<lambda>(x, state', w').
        case lemire_draw TYPE(32) b x of
          Some v \<Rightarrow> Returned (v, state', w') | None \<Rightarrow> get_random_u16_uniform os state' b w')"
    unfolding get_random_u16_uniform_def
    by (subst u16_sampler.uniform_unfold) (cases "get_random_u16 os state w"; auto)
next
  show "get_random_u32_uniform os state c w =
      bind_o (get_random_u32 os state w) (\<lambda>(x, state', w').
        case lemire_draw TYPE(64) c x of
          Some v \<Rightarrow> Returned (v, state', w') | None \<Rightarrow> get_random_u32_uniform os state' c w')"
    unfolding get_random_u32_uniform_def
    by (subst u32_sampler.uniform_unfold) (cases "get_random_u32 os state w"; auto)
next
  show "get_random_u64_uniform os state d w =
      bind_o (get_random_u64 os state w) (\<lambda>(x, state', w').
        case lemire_draw TYPE(128) d x of
          Some v \<Rightarrow> Returned (v, state', w') | None \<Rightarrow> get_random_u64_uniform os state' d w')"
    unfolding get_random_u64_uniform_def
    by (subst u64_sampler.uniform_unfold) (cases "get_random_u64 os state w"; auto)
qed

theorem random_uniform_unbiased_witness:
  "card {x. lemire_draw TYPE(32) (48 :: u16) x = Some 7} = 1365 \<and> card {x. lemire_draw TYPE(64) (48 :: u32) x = Some 7} = 89478485 \<and>
   card {x. lemire_draw TYPE(128) (3 :: u64) x = Some 2} = 6148914691236517205"
proof -
  note unbiased = random_uniform_unbiased [of bump_kernel blank_random_state 48 start_world 48 3,
      THEN conjunct2, THEN conjunct2, THEN conjunct2]
  from unbiased [THEN conjunct1, rule_format, of 7] unbiased [THEN conjunct2, THEN conjunct1, rule_format, of 7]
    unbiased [THEN conjunct2, THEN conjunct2, rule_format, of 2]
  show ?thesis by simp
qed

text \<open>
  A bounded draw from a well-formed generator is below its (nonzero) bound, leaves the generator
  well formed and touches neither memory nor mappings; and it returns as soon as one of the draws
  is accepted, which for a bound that divides the range is the first.
\<close>

lemma get_random_u16_uniform_correct:
  assumes "random_state_ok state" "bound \<noteq> 0"
  shows "(\<forall>v state' w'. get_random_u16_uniform os state bound w = Returned (v, state', w') \<longrightarrow>
           v < bound \<and> random_state_ok state' \<and> same_memory w w')
    \<and> (\<forall>n st xs v. st 0 = (state, w) \<longrightarrow>
         (\<forall>i \<le> n. get_random_u16 os (fst (st i)) (snd (st i)) = Returned (xs i, st (Suc i))) \<longrightarrow>
         (lemire_draw TYPE(32) bound (xs n) = Some v \<or> unat bound dvd 2 ^ 16) \<longrightarrow>
         (\<exists>i v. i \<le> n \<and> get_random_u16_uniform os state bound w = Returned (v, st (Suc i))))"
proof (intro conjI allI impI)
  fix v state' w'
  assume "get_random_u16_uniform os state bound w = Returned (v, state', w')"
  from get_random_u16_uniform_ok [OF this assms(1)] assms(2)
  show "v < bound" "random_state_ok state'" "same_memory w w'" by auto
next
  fix n :: nat and st :: "nat \<Rightarrow> random_state \<times> world" and xs :: "nat \<Rightarrow> u16" and v :: u16
  assume st: "st 0 = (state, w)"
    and draws: "\<forall>i \<le> n. get_random_u16 os (fst (st i)) (snd (st i)) = Returned (xs i, st (Suc i))"
    and acc: "lemire_draw TYPE(32) bound (xs n) = Some v \<or> unat bound dvd 2 ^ 16"
  have draws': "(case st i of (state, w) \<Rightarrow> get_random_u16 os state w) = Returned (xs i, st (Suc i))"
    if "i \<le> n" for i using draws that by (simp add: case_prod_unfold)
  from acc show "\<exists>i v. i \<le> n \<and> get_random_u16_uniform os state bound w = Returned (v, st (Suc i))"
  proof
    assume "lemire_draw TYPE(32) bound (xs n) = Some v"
    with draws' u16_sampler.uniform_terminates [of n os st xs bound v] show ?thesis
      unfolding get_random_u16_uniform_def st [symmetric] by blast
  next
    assume "unat bound dvd 2 ^ 16"
    with draws' [of 0] u16_sampler.uniform_one_draw [of os "st 0" "xs 0" "st (Suc 0)" bound]
    show ?thesis unfolding get_random_u16_uniform_def st [symmetric] by auto
  qed
qed

end
