(* ===== verification/Libdivide.thy ===== *)
theory Libdivide
  imports Util
begin

text \<open>
  The part of \<^verbatim>\<open>src/third_party/libdivide.h\<close> the allocator calls: \<^verbatim>\<open>libdivide_u32_gen\<close>,
  \<^verbatim>\<open>libdivide_u32_do\<close> (slot index inside a slab) and their 64-bit forms (slab index inside a class
  region). A divider is precomputed once from the divisor; a division is then one high
  multiplication and shifts. The theorems show that both widths compute the exact quotient for
  every nonzero divisor and every numerator. The double-width divisions follow the C branch for the
  32-bit case and the x86-64 \<^verbatim>\<open>div\<close> instruction for the 64-bit case.
\<close>

section \<open>Definitions\<close>

abbreviation (input) LIBDIVIDE_32_SHIFT_MASK :: u8 where "LIBDIVIDE_32_SHIFT_MASK \<equiv> 0x1F"
abbreviation (input) LIBDIVIDE_64_SHIFT_MASK :: u8 where "LIBDIVIDE_64_SHIFT_MASK \<equiv> 0x3F"
abbreviation (input) LIBDIVIDE_ADD_MARKER :: u8 where "LIBDIVIDE_ADD_MARKER \<equiv> 0x40"

record libdivide_u32_t =
  magic32 :: u32
  more32 :: u8

record libdivide_u64_t =
  magic64 :: u64
  more64 :: u8

definition libdivide_mullhi_u32 :: "u32 \<Rightarrow> u32 \<Rightarrow> u32" where
  "libdivide_mullhi_u32 x y =
     (let xl = ucast x :: u64; yl = ucast y; rl = xl * yl in ucast (drop_bit 32 rl))"

definition libdivide_mullhi_u64 :: "u64 \<Rightarrow> u64 \<Rightarrow> u64" where
  "libdivide_mullhi_u64 x y =
     (let xl = ucast x :: u128; yl = ucast y; rl = xl * yl in ucast (drop_bit 64 rl))"

definition libdivide_count_leading_zeros32 :: "u32 \<Rightarrow> nat" where
  "libdivide_count_leading_zeros32 v = length (takeWhile (\<lambda>i. \<not> bit v i) (rev [0..<32]))"

definition libdivide_count_leading_zeros64 :: "u64 \<Rightarrow> nat" where
  "libdivide_count_leading_zeros64 v = builtin_clzll v"

text \<open>The quotient and the remainder of the two-word numerator.\<close>

definition libdivide_64_div_32_to_32 :: "u32 \<Rightarrow> u32 \<Rightarrow> u32 \<Rightarrow> u32 \<times> u32" where
  "libdivide_64_div_32_to_32 u1 u0 v =
     (let n = push_bit 32 (ucast u1 :: u64) OR ucast u0;
          result = ucast (n div ucast v) :: u32;
          r = ucast (n - ucast result * ucast v)
      in (result, r))"

definition libdivide_128_div_64_to_64 :: "u64 \<Rightarrow> u64 \<Rightarrow> u64 \<Rightarrow> u64 \<times> u64" where
  "libdivide_128_div_64_to_64 numhi numlo den =
     (let n = push_bit 64 (ucast numhi :: u128) OR ucast numlo
      in (ucast (n div ucast den), ucast (n mod ucast den)))"

definition libdivide_internal_u32_gen :: "u32 \<Rightarrow> bool \<Rightarrow> libdivide_u32_t outcome" where
  "libdivide_internal_u32_gen d branchfree =
     (if d = 0 then Aborted ''divider must be != 0''
      else
        let floor_log_2_d = 31 - libdivide_count_leading_zeros32 d in
        if d AND (d - 1) = 0 then
          Returned \<lparr>magic32 = 0, more32 = of_nat floor_log_2_d - (if branchfree then 1 else 0)\<rparr>
        else
          let (proposed_m, rem) = libdivide_64_div_32_to_32 (push_bit floor_log_2_d 1) 0 d;
              e = d - rem
          in if \<not> branchfree \<and> e < push_bit floor_log_2_d 1
             then Returned \<lparr>magic32 = 1 + proposed_m, more32 = of_nat floor_log_2_d\<rparr>
             else
               let proposed_m = proposed_m + proposed_m;
                   twice_rem = rem + rem;
                   proposed_m = (if d \<le> twice_rem \<or> twice_rem < rem then proposed_m + 1 else proposed_m)
               in Returned \<lparr>magic32 = 1 + proposed_m,
                            more32 = of_nat floor_log_2_d OR LIBDIVIDE_ADD_MARKER\<rparr>)"

definition libdivide_u32_gen :: "u32 \<Rightarrow> libdivide_u32_t outcome" where
  "libdivide_u32_gen d = libdivide_internal_u32_gen d False"

definition libdivide_u32_do_raw :: "u32 \<Rightarrow> u32 \<Rightarrow> u8 \<Rightarrow> u32" where
  "libdivide_u32_do_raw numer magic more8 =
     (if magic = 0 then drop_bit (unat more8) numer
      else
        let q = libdivide_mullhi_u32 numer magic in
        if more8 AND LIBDIVIDE_ADD_MARKER \<noteq> 0
        then let t = drop_bit 1 (numer - q) + q
             in drop_bit (unat (more8 AND LIBDIVIDE_32_SHIFT_MASK)) t
        else drop_bit (unat more8) q)"

definition libdivide_u32_do :: "u32 \<Rightarrow> libdivide_u32_t \<Rightarrow> u32" where
  "libdivide_u32_do numer denom = libdivide_u32_do_raw numer (magic32 denom) (more32 denom)"

definition libdivide_internal_u64_gen :: "u64 \<Rightarrow> bool \<Rightarrow> libdivide_u64_t outcome" where
  "libdivide_internal_u64_gen d branchfree =
     (if d = 0 then Aborted ''divider must be != 0''
      else
        let floor_log_2_d = 63 - libdivide_count_leading_zeros64 d in
        if d AND (d - 1) = 0 then
          Returned \<lparr>magic64 = 0, more64 = of_nat floor_log_2_d - (if branchfree then 1 else 0)\<rparr>
        else
          let (proposed_m, rem) = libdivide_128_div_64_to_64 (push_bit floor_log_2_d 1) 0 d;
              e = d - rem
          in if \<not> branchfree \<and> e < push_bit floor_log_2_d 1
             then Returned \<lparr>magic64 = 1 + proposed_m, more64 = of_nat floor_log_2_d\<rparr>
             else
               let proposed_m = proposed_m + proposed_m;
                   twice_rem = rem + rem;
                   proposed_m = (if d \<le> twice_rem \<or> twice_rem < rem then proposed_m + 1 else proposed_m)
               in Returned \<lparr>magic64 = 1 + proposed_m,
                            more64 = of_nat floor_log_2_d OR LIBDIVIDE_ADD_MARKER\<rparr>)"

definition libdivide_u64_gen :: "u64 \<Rightarrow> libdivide_u64_t outcome" where
  "libdivide_u64_gen d = libdivide_internal_u64_gen d False"

definition libdivide_u64_do_raw :: "u64 \<Rightarrow> u64 \<Rightarrow> u8 \<Rightarrow> u64" where
  "libdivide_u64_do_raw numer magic more8 =
     (if magic = 0 then drop_bit (unat more8) numer
      else
        let q = libdivide_mullhi_u64 numer magic in
        if more8 AND LIBDIVIDE_ADD_MARKER \<noteq> 0
        then let t = drop_bit 1 (numer - q) + q
             in drop_bit (unat (more8 AND LIBDIVIDE_64_SHIFT_MASK)) t
        else drop_bit (unat more8) q)"

definition libdivide_u64_do :: "u64 \<Rightarrow> libdivide_u64_t \<Rightarrow> u64" where
  "libdivide_u64_do numer denom = libdivide_u64_do_raw numer (magic64 denom) (more64 denom)"

section \<open>Division by multiplication, on natural numbers\<close>

text \<open>
  The arithmetic core: if \<open>m * d\<close> exceeds \<open>2 ^ k\<close> by so little that the excess times the
  numerator stays below \<open>2 ^ k\<close>, then multiplying by \<open>m\<close> and dropping \<open>k\<close> bits divides by \<open>d\<close>.
\<close>

lemma magic_division:
  fixes n m d k e :: nat
  assumes d: "0 < d" and m: "m * d = 2 ^ k + e" and e: "n * e < 2 ^ k"
  shows "n * m div 2 ^ k = n div d"
proof (rule div_nat_eqI)
  have nm: "n * m * d = n * 2 ^ k + n * e"
    by (simp only: mult.assoc m distrib_left)
  have "(n div d * 2 ^ k) * d \<le> n * 2 ^ k"
    using times_div_less_eq_dividend [of d n] by (simp add: algebra_simps)
  also have "\<dots> \<le> (n * m) * d" using nm by simp
  finally show "2 ^ k * (n div d) \<le> n * m" using d by (simp add: mult.commute)
  have "n * m * d < (n + 1) * 2 ^ k"
    using nm e by (simp add: algebra_simps)
  also have "\<dots> \<le> (Suc (n div d) * d) * 2 ^ k"
    using dividend_less_div_times [OF d, of n] by (intro mult_le_mono1) (simp add: algebra_simps)
  finally have "(n * m) * d < (2 ^ k * Suc (n div d)) * d" by (simp add: algebra_simps)
  then show "n * m < 2 ^ k * Suc (n div d)" using d by simp
qed

text \<open>The two magic numbers of \<open>d\<close> (not a power of two) for \<open>N\<close>-bit numerators.\<close>

lemma magic_bound:
  fixes d l N :: nat
  assumes "2 ^ l < d" "d < 2 ^ N"
  shows "2 ^ (N + l) div d + 1 < 2 ^ N"
proof (rule ccontr)
  assume "\<not> ?thesis"
  then have "(2 ^ N - 1) * d \<le> 2 ^ (N + l) div d * d"
    by (intro mult_le_mono1) linarith
  also have "\<dots> \<le> 2 ^ (N + l)" by simp
  also have "\<dots> \<le> 2 ^ N * (d - 1)"
    using assms(1) by (simp add: power_add)
  finally have "2 ^ N * d - d \<le> 2 ^ N * d - 2 ^ N"
    by (simp add: diff_mult_distrib diff_mult_distrib2)
  moreover have "2 ^ N \<le> 2 ^ N * d" "d \<le> 2 ^ N * d" using assms(1) by auto
  ultimately show False using assms(2) by linarith
qed

lemma round_up_mult: "0 < (d::nat) \<Longrightarrow> (a div d + 1) * d = a + (d - a mod d)"
  using div_mult_mod_eq [of a d] mod_less_divisor [of d a]
  unfolding distrib_right by linarith

lemma magic_small:
  fixes d l N n :: nat
  assumes "2 ^ l < d" "n < 2 ^ N" "d - 2 ^ (N + l) mod d < 2 ^ l"
  shows "n * (2 ^ (N + l) div d + 1) div 2 ^ (N + l) = n div d"
proof (rule magic_division [where e = "d - 2 ^ (N + l) mod d"])
  show "(2 ^ (N + l) div d + 1) * d = 2 ^ (N + l) + (d - 2 ^ (N + l) mod d)"
    using assms(1) by (intro round_up_mult) simp
  have "n * (d - 2 ^ (N + l) mod d) < 2 ^ N * 2 ^ l"
    by (rule mult_strict_mono) (use assms in auto)
  then show "n * (d - 2 ^ (N + l) mod d) < 2 ^ (N + l)"
    by (simp only: power_add [symmetric])
qed (use assms in auto)

lemma magic_large:
  fixes d l N n :: nat
  assumes "0 < d" "d < 2 ^ (l + 1)" "n < 2 ^ N"
  shows "n * (2 ^ (N + (l + 1)) div d + 1) div 2 ^ (N + (l + 1)) = n div d"
proof (rule magic_division [where e = "d - 2 ^ (N + (l + 1)) mod d"])
  show "(2 ^ (N + (l + 1)) div d + 1) * d = 2 ^ (N + (l + 1)) + (d - 2 ^ (N + (l + 1)) mod d)"
    using assms(1) by (rule round_up_mult)
  show "n * (d - 2 ^ (N + (l + 1)) mod d) < 2 ^ (N + (l + 1))"
    unfolding power_add [of 2 N] by (rule mult_strict_mono) (use assms in auto)
qed (use assms in auto)

lemma double_quotient:
  fixes a d :: nat
  assumes "0 < d"
  shows "2 * a div d = 2 * (a div d) + (if d \<le> 2 * (a mod d) then 1 else 0)"
proof (cases "d \<le> 2 * (a mod d)")
  case True
  have "2 * a div d = Suc (2 * (a div d))"
  proof (rule div_nat_eqI)
    show "d * Suc (2 * (a div d)) \<le> 2 * a"
      using True mult_div_mod_eq [of d a] unfolding mult_Suc_right mult.left_commute [of d 2]
      by linarith
    show "2 * a < d * Suc (Suc (2 * (a div d)))"
      using mod_less_divisor [OF assms, of a] mult_div_mod_eq [of d a]
      unfolding mult_Suc_right mult.left_commute [of d 2] by linarith
  qed
  with True show ?thesis by simp
next
  case False
  have "2 * a div d = 2 * (a div d)"
  proof (rule div_nat_eqI)
    show "d * (2 * (a div d)) \<le> 2 * a"
      using mult_div_mod_eq [of d a] unfolding mult.left_commute [of d 2] by linarith
    show "2 * a < d * Suc (2 * (a div d))"
      using False mult_div_mod_eq [of d a]
      unfolding mult_Suc_right mult.left_commute [of d 2] by linarith
  qed
  with False show ?thesis by simp
qed

lemma averaging_shift: "(q::nat) \<le> n \<Longrightarrow> (n - q) div 2 + q = (n + q) div 2"
  by arith

lemma divide_small:
  fixes d l N n :: nat
  assumes "2 ^ l < d" "n < 2 ^ N" "d - 2 ^ (N + l) mod d < 2 ^ l"
  shows "n * (2 ^ (N + l) div d + 1) div 2 ^ N div 2 ^ l = n div d"
  using magic_small [OF assms] by (simp add: div_mult2_eq power_add)

lemma divide_large:
  fixes d l N n m q :: nat
  assumes "0 < d" "d < 2 ^ (l + 1)" "n < 2 ^ N" "q \<le> n"
    and m: "2 ^ N + m = 2 ^ (N + (l + 1)) div d + 1" and q: "q = n * m div 2 ^ N"
  shows "((n - q) div 2 + q) div 2 ^ l = n div d"
proof -
  have pow: "(2::nat) ^ (N + (l + 1)) = 2 ^ N * (2 * 2 ^ l)"
    by (simp add: power_add)
  have "n * (2 ^ N + m) div 2 ^ N = n + q"
    by (simp add: q distrib_left div_mult_self3 [of "2 ^ N" n "n * m"])
  moreover have "n * (2 ^ N + m) div 2 ^ N div 2 div 2 ^ l = n div d"
    using magic_large [OF assms(1-3)] unfolding m pow by (simp only: div_mult2_eq)
  ultimately show ?thesis
    by (simp add: averaging_shift [OF \<open>q \<le> n\<close>])
qed

lemma large_magic_ge: "0 < (d::nat) \<Longrightarrow> d \<le> 2 ^ (l + 1) \<Longrightarrow> 2 ^ N \<le> 2 ^ (N + (l + 1)) div d"
  by (simp add: less_eq_div_iff_mult_less_eq power_add)

section \<open>The word operations in natural numbers\<close>

lemma unat_mullhi_u32: "unat (libdivide_mullhi_u32 x y) = unat x * unat y div 2 ^ 32"
proof -
  have "unat x * unat y < 2 ^ 32 * 2 ^ 32"
    by (intro mult_strict_mono unat_lt_pow) auto
  then have p: "unat x * unat y < 2 ^ 64" by simp
  then have "unat x * unat y div 2 ^ 32 < 2 ^ 32"
    by (intro less_mult_imp_div_less) simp
  moreover have "unat ((ucast x :: u64) * ucast y) = unat x * unat y"
    using p by (subst unat_mult_lt) simp_all
  ultimately show ?thesis
    by (simp add: libdivide_mullhi_u32_def Let_def unat_ucast unat_drop_bit)
qed

lemma unat_mullhi_u64: "unat (libdivide_mullhi_u64 x y) = unat x * unat y div 2 ^ 64"
proof -
  have "unat x * unat y < 2 ^ 64 * 2 ^ 64"
    by (intro mult_strict_mono unat_lt_pow) auto
  then have p: "unat x * unat y < 2 ^ 128" by simp
  then have "unat x * unat y div 2 ^ 64 < 2 ^ 64"
    by (intro less_mult_imp_div_less) simp
  moreover have "unat ((ucast x :: u128) * ucast y) = unat x * unat y"
    using p by (subst unat_mult_lt) simp_all
  ultimately show ?thesis
    by (simp add: libdivide_mullhi_u64_def Let_def unat_ucast unat_drop_bit)
qed

lemma mullhi_le: "(n::nat) * m div 2 ^ N \<le> n" if "m < 2 ^ N"
proof -
  have "n * m div 2 ^ N \<le> n * 2 ^ N div 2 ^ N"
    using that by (intro div_le_mono mult_le_mono2) simp
  then show ?thesis by simp
qed

text \<open>What \<^verbatim>\<open>libdivide_u32_do\<close> computes on each of its three paths.\<close>

lemma u32_do_shift:
  "magic32 dn = 0 \<Longrightarrow> unat (libdivide_u32_do n dn) = unat n div 2 ^ unat (more32 dn)"
  by (simp add: libdivide_u32_do_def libdivide_u32_do_raw_def unat_drop_bit)

lemma u32_do_small:
  "magic32 dn \<noteq> 0 \<Longrightarrow> more32 dn AND LIBDIVIDE_ADD_MARKER = 0 \<Longrightarrow>
   unat (libdivide_u32_do n dn) = unat n * unat (magic32 dn) div 2 ^ 32 div 2 ^ unat (more32 dn)"
  by (simp add: libdivide_u32_do_def libdivide_u32_do_raw_def Let_def unat_drop_bit unat_mullhi_u32)

lemma u32_do_large:
  assumes "magic32 dn \<noteq> 0" "more32 dn AND LIBDIVIDE_ADD_MARKER \<noteq> 0"
    and q: "q = unat n * unat (magic32 dn) div 2 ^ 32"
  shows "q \<le> unat n" "unat (libdivide_u32_do n dn) =
    ((unat n - q) div 2 + q) div 2 ^ unat (more32 dn AND LIBDIVIDE_32_SHIFT_MASK)"
proof -
  show q_le: "q \<le> unat n"
    unfolding q by (rule mullhi_le) (rule unat_lt_pow, simp)
  let ?q = "libdivide_mullhi_u32 n (magic32 dn)"
  have uq: "unat ?q = q" by (simp add: unat_mullhi_u32 q)
  with q_le have "unat (n - ?q) = unat n - q"
    by (simp add: unat_sub word_le_nat_alt)
  moreover have "(unat n - q) div 2 + q < 2 ^ 32"
    using q_le unat_lt_pow [of 32 n] by simp
  ultimately have "unat (drop_bit 1 (n - ?q) + ?q) = (unat n - q) div 2 + q"
    by (subst unat_add_lt) (simp_all add: unat_drop_bit uq)
  with assms(1,2) show "unat (libdivide_u32_do n dn) =
      ((unat n - q) div 2 + q) div 2 ^ unat (more32 dn AND LIBDIVIDE_32_SHIFT_MASK)"
    by (simp add: libdivide_u32_do_def libdivide_u32_do_raw_def Let_def unat_drop_bit)
qed

lemma u64_do_shift:
  "magic64 dn = 0 \<Longrightarrow> unat (libdivide_u64_do n dn) = unat n div 2 ^ unat (more64 dn)"
  by (simp add: libdivide_u64_do_def libdivide_u64_do_raw_def unat_drop_bit)

lemma u64_do_small:
  "magic64 dn \<noteq> 0 \<Longrightarrow> more64 dn AND LIBDIVIDE_ADD_MARKER = 0 \<Longrightarrow>
   unat (libdivide_u64_do n dn) = unat n * unat (magic64 dn) div 2 ^ 64 div 2 ^ unat (more64 dn)"
  by (simp add: libdivide_u64_do_def libdivide_u64_do_raw_def Let_def unat_drop_bit unat_mullhi_u64)

lemma u64_do_large:
  assumes "magic64 dn \<noteq> 0" "more64 dn AND LIBDIVIDE_ADD_MARKER \<noteq> 0"
    and q: "q = unat n * unat (magic64 dn) div 2 ^ 64"
  shows "q \<le> unat n" "unat (libdivide_u64_do n dn) =
    ((unat n - q) div 2 + q) div 2 ^ unat (more64 dn AND LIBDIVIDE_64_SHIFT_MASK)"
proof -
  show q_le: "q \<le> unat n"
    unfolding q by (rule mullhi_le) (rule unat_lt_pow, simp)
  let ?q = "libdivide_mullhi_u64 n (magic64 dn)"
  have uq: "unat ?q = q" by (simp add: unat_mullhi_u64 q)
  with q_le have "unat (n - ?q) = unat n - q"
    by (simp add: unat_sub word_le_nat_alt)
  moreover have "(unat n - q) div 2 + q < 2 ^ 64"
    using q_le unat_lt_pow [of 64 n] by simp
  ultimately have "unat (drop_bit 1 (n - ?q) + ?q) = (unat n - q) div 2 + q"
    by (subst unat_add_lt) (simp_all add: unat_drop_bit uq)
  with assms(1,2) show "unat (libdivide_u64_do n dn) =
      ((unat n - q) div 2 + q) div 2 ^ unat (more64 dn AND LIBDIVIDE_64_SHIFT_MASK)"
    by (simp add: libdivide_u64_do_def libdivide_u64_do_raw_def Let_def unat_drop_bit)
qed

text \<open>The encoding of the shift and of the add marker in the \<^verbatim>\<open>more\<close> byte.\<close>

lemma bit_0x40: "bit (0x40 :: u8) i \<longleftrightarrow> i = 6"
proof -
  have eq: "(0x40 :: u8) = 2 ^ 6" by simp
  show ?thesis unfolding eq by (simp only: bit_exp_iff) auto
qed

lemma more_plain:
  assumes "l < 64"
  shows "unat (of_nat l :: u8) = l" "(of_nat l :: u8) AND LIBDIVIDE_ADD_MARKER = 0"
proof -
  show u: "unat (of_nat l :: u8) = l" using assms by (simp add: unat_of_nat)
  have "\<not> bit (of_nat l :: u8) 6"
  proof
    assume "bit (of_nat l :: u8) 6"
    then have "bit (unat (of_nat l :: u8)) 6" by (simp only: bit_unsigned_iff) simp
    then have "odd (l div 2 ^ 6)" unfolding u by (simp add: bit_iff_odd)
    with assms show False by simp
  qed
  then show "(of_nat l :: u8) AND LIBDIVIDE_ADD_MARKER = 0"
    by (intro bit_eqI) (auto simp: bit_and_iff bit_0x40 simp del: bit_numeral_word_iff)
qed

lemma more_marked:
  assumes "l < 2 ^ k" "k \<le> 6"
  shows "(of_nat l OR LIBDIVIDE_ADD_MARKER :: u8) AND LIBDIVIDE_ADD_MARKER \<noteq> 0"
    and "unat ((of_nat l OR LIBDIVIDE_ADD_MARKER :: u8) AND mask k) = l"
proof -
  have "bit ((of_nat l OR LIBDIVIDE_ADD_MARKER :: u8) AND LIBDIVIDE_ADD_MARKER) 6"
    by (simp add: bit_and_iff bit_or_iff bit_0x40 del: bit_numeral_word_iff)
  then show "(of_nat l OR LIBDIVIDE_ADD_MARKER :: u8) AND LIBDIVIDE_ADD_MARKER \<noteq> 0"
    by (metis bit_0_eq bot_apply bot_bool_def)
  have "(of_nat l OR LIBDIVIDE_ADD_MARKER :: u8) AND mask k = of_nat l AND mask k"
    using assms(2) by (intro bit_eqI)
      (auto simp: bit_and_iff bit_or_iff bit_mask_iff bit_0x40 simp del: bit_numeral_word_iff)
  moreover have "(2::nat) ^ k \<le> 2 ^ 6" using assms(2) by (intro power_increasing) auto
  ultimately show "unat ((of_nat l OR LIBDIVIDE_ADD_MARKER :: u8) AND mask k) = l"
    using assms(1) by (simp add: unat_and_mask unat_of_nat)
qed

section \<open>A divider of any width\<close>

text \<open>
  What the 32-bit and the 64-bit code have in common: the three shapes of divider the generator
  makes and the three paths of the division. The quotient is exact for every width that provides
  these laws.
\<close>

locale divider =
  fixes gen :: "'a::len word \<Rightarrow> 'd outcome"
    and mk :: "'a word \<Rightarrow> u8 \<Rightarrow> 'd"
    and do_div :: "'a word \<Rightarrow> 'd \<Rightarrow> 'a word"
    and k :: nat
  assumes width: "LENGTH('a) \<le> 2 ^ k" "k \<le> 6"
    and do_shift: "unat (do_div n (mk 0 more8)) = unat n div 2 ^ unat more8"
    and do_small: "m \<noteq> 0 \<Longrightarrow> more8 AND LIBDIVIDE_ADD_MARKER = 0 \<Longrightarrow>
      unat (do_div n (mk m more8)) = unat n * unat m div 2 ^ LENGTH('a) div 2 ^ unat more8"
    and do_large: "m \<noteq> 0 \<Longrightarrow> more8 AND LIBDIVIDE_ADD_MARKER \<noteq> 0 \<Longrightarrow>
      unat (do_div n (mk m more8)) =
        ((unat n - unat n * unat m div 2 ^ LENGTH('a)) div 2 + unat n * unat m div 2 ^ LENGTH('a))
          div 2 ^ unat (more8 AND mask k)"
    and gen_shift: "unat d = 2 ^ l \<Longrightarrow> gen d = Returned (mk 0 (of_nat l))"
    and gen_small: "2 ^ l < unat d \<Longrightarrow> unat d < 2 ^ Suc l \<Longrightarrow>
      unat d - 2 ^ (LENGTH('a) + l) mod unat d < 2 ^ l \<Longrightarrow>
      gen d = Returned (mk (1 + of_nat (2 ^ (LENGTH('a) + l) div unat d)) (of_nat l))"
    and gen_large: "2 ^ l < unat d \<Longrightarrow> unat d < 2 ^ Suc l \<Longrightarrow>
      \<not> unat d - 2 ^ (LENGTH('a) + l) mod unat d < 2 ^ l \<Longrightarrow>
      gen d = Returned (mk (1 + of_nat (2 ^ (LENGTH('a) + (l + 1)) div unat d))
        (of_nat l OR LIBDIVIDE_ADD_MARKER))"
begin

lemma shift_fits:
  fixes d :: "'a word"
  assumes "2 ^ l \<le> unat d" "unat d < 2 ^ Suc l"
  shows "l < 2 ^ k" "l < 64"
proof -
  show "l < 2 ^ k" using bit_unat_top(1) [OF assms] width(1) by simp
  also have "(2::nat) ^ k \<le> 2 ^ 6" using width(2) by (intro power_increasing) auto
  finally show "l < 64" by simp
qed

lemma quotient_shift:
  assumes "unat d = 2 ^ l"
  shows "do_div n (mk 0 (of_nat l)) = n div d"
  using assms more_plain(1) [OF shift_fits(2) [of l d]]
  by (simp add: word_unat_eq_iff do_shift unat_div)

lemma quotient_small:
  fixes d :: "'a word" and l :: nat
  defines "m \<equiv> 1 + of_nat (2 ^ (LENGTH('a) + l) div unat d) :: 'a word"
  assumes l: "2 ^ l < unat d" "unat d < 2 ^ Suc l"
    and e: "unat d - 2 ^ (LENGTH('a) + l) mod unat d < 2 ^ l"
  shows "do_div n (mk m (of_nat l)) = n div d"
proof -
  have um: "unat m = 2 ^ (LENGTH('a) + l) div unat d + 1"
    using magic_bound [OF l(1) unsigned_less] by (simp add: m_def unat_word_ariths unat_of_nat)
  then have "m \<noteq> 0" by (metis add_is_0 one_neq_zero unat_0)
  moreover have "l < 64" using shift_fits(2) [of l d] l by simp
  ultimately have "unat (do_div n (mk m (of_nat l))) =
      unat n * (2 ^ (LENGTH('a) + l) div unat d + 1) div 2 ^ LENGTH('a) div 2 ^ l"
    using do_small more_plain um by simp
  also have "\<dots> = unat n div unat d"
    by (rule divide_small [OF l(1) unsigned_less e])
  finally show ?thesis by (simp add: word_unat_eq_iff unat_div)
qed

lemma quotient_large:
  fixes d :: "'a word" and l :: nat
  defines "m \<equiv> 1 + of_nat (2 ^ (LENGTH('a) + (l + 1)) div unat d) :: 'a word"
  assumes l: "2 ^ l < unat d" "unat d < 2 ^ Suc l"
  shows "do_div n (mk m (of_nat l OR LIBDIVIDE_ADD_MARKER)) = n div d"
proof -
  let ?N = "LENGTH('a)"
  let ?M = "2 ^ (?N + (l + 1)) div unat d + 1"
  have d0: "0 < unat d" using l(1) by (rule le_less_trans [OF zero_le])
  have ge: "2 ^ ?N \<le> 2 ^ (?N + (l + 1)) div unat d"
    using large_magic_ge [OF d0, of l ?N] l(2) by simp
  have "unat d < 2 ^ Suc ?N" by (rule unat_lt_pow) simp
  from magic_bound [OF l(1) this] have lt: "?M < 2 ^ ?N + 2 ^ ?N" by simp
  have "unat m = ?M mod 2 ^ ?N"
    by (simp add: m_def unat_word_ariths unat_of_nat mod_simps)
  also have "\<dots> = ?M - 2 ^ ?N"
    using ge lt by (subst le_mod_geq) auto
  finally have um: "2 ^ ?N + unat m = ?M" using ge by simp
  have m0: "m \<noteq> 0" using um ge by auto
  have lk: "l < 2 ^ k" using shift_fits(1) [of l d] l by simp
  let ?q = "unat n * unat m div 2 ^ ?N"
  have "unat (do_div n (mk m (of_nat l OR LIBDIVIDE_ADD_MARKER))) = ((unat n - ?q) div 2 + ?q) div 2 ^ l"
    using do_large [OF m0 more_marked(1) [OF lk width(2)]] more_marked(2) [OF lk width(2)] by simp
  also have "\<dots> = unat n div unat d"
    by (rule divide_large [OF d0 _ unsigned_less mullhi_le um refl]) (use l(2) in auto)
  finally show ?thesis by (simp add: word_unat_eq_iff unat_div)
qed

theorem exact_quotient:
  fixes d :: "'a word"
  assumes "d \<noteq> 0"
  shows "\<exists>dn. gen d = Returned dn \<and> (\<forall>n. do_div n dn = n div d)"
proof -
  from assms have "0 < unat d" by (simp add: unat_gt_0)
  then obtain l where l: "2 ^ l \<le> unat d" "unat d < 2 ^ Suc l" using ex_log2 by blast
  consider "unat d = 2 ^ l" | "2 ^ l < unat d" using l(1) by linarith
  then show ?thesis
  proof cases
    case 1
    then show ?thesis using gen_shift quotient_shift by blast
  next
    case 2
    then show ?thesis
      using gen_small [OF 2 l(2)] gen_large [OF 2 l(2)] quotient_small [OF 2 l(2)]
        quotient_large [OF 2 l(2)]
      by blast
  qed
qed

end

section \<open>The generated dividers\<close>

lemma unat_div_step_32:
  assumes "l < 32" "2 ^ l < unat d"
  shows "libdivide_64_div_32_to_32 (push_bit l 1) 0 d =
    (of_nat (2 ^ (32 + l) div unat d), of_nat (2 ^ (32 + l) mod unat d))"
proof -
  let ?n = "push_bit 32 (ucast (push_bit l (1::u32)) :: u64)"
  have "(2::nat) ^ l < 2 ^ 32" using assms(1) by (intro power_strict_increasing) auto
  then have n: "unat ?n = 2 ^ (32 + l)"
    using assms(1) by (simp add: unat_push_bit power_add unat_2p push_bit_eq_mult [of l])
  have d: "unat d < 2 ^ 32" by (rule unat_lt_pow) simp
  have q: "2 ^ (32 + l) div unat d < 2 ^ 32" using magic_bound [OF assms(2) d] by simp
  have "0 < unat d" using assms(2) by (rule le_less_trans [OF zero_le])
  then have r: "2 ^ (32 + l) mod unat d < 2 ^ 32"
    using d by (rule less_trans [OF mod_less_divisor])
  let ?q = "ucast (?n div ucast d) :: u32"
  have uq: "unat ?q = 2 ^ (32 + l) div unat d"
    using q n by (simp add: unat_ucast_small unat_div)
  have "(2::nat) ^ (32 + l) < 2 ^ 64" using assms(1) by (intro power_strict_increasing) auto
  then have "2 ^ (32 + l) div unat d * unat d < 2 ^ 64"
    by (rule le_less_trans [OF div_times_less_eq_dividend])
  then have m: "unat (ucast ?q * ucast d :: u64) = 2 ^ (32 + l) div unat d * unat d"
    using uq by (subst unat_mult_lt) simp_all
  then have "unat (?n - ucast ?q * ucast d) = 2 ^ (32 + l) mod unat d"
    using n by (subst unat_sub) (simp_all add: word_le_nat_alt minus_div_mult_eq_mod)
  with r have ur: "unat (ucast (?n - ucast ?q * ucast d) :: u32) = 2 ^ (32 + l) mod unat d"
    by (simp add: unat_ucast)
  show ?thesis
    using uq ur q r
    by (simp add: libdivide_64_div_32_to_32_def Let_def word_unat_eq_iff unat_of_nat)
qed


lemma unat_div_step_64:
  assumes "l < 64" "2 ^ l < unat d"
  shows "libdivide_128_div_64_to_64 (push_bit l 1) 0 d =
    (of_nat (2 ^ (64 + l) div unat d), of_nat (2 ^ (64 + l) mod unat d))"
proof -
  let ?n = "push_bit 64 (ucast (push_bit l (1::u64)) :: u128)"
  have "(2::nat) ^ l < 2 ^ 64" using assms(1) by (intro power_strict_increasing) auto
  then have n: "unat ?n = 2 ^ (64 + l)"
    using assms(1) by (simp add: unat_push_bit power_add unat_2p push_bit_eq_mult [of l])
  have d: "unat d < 2 ^ 64" by (rule unat_lt_pow) simp
  have q: "2 ^ (64 + l) div unat d < 2 ^ 64" using magic_bound [OF assms(2) d] by simp
  have "0 < unat d" using assms(2) by (rule le_less_trans [OF zero_le])
  then have r: "2 ^ (64 + l) mod unat d < 2 ^ 64"
    using d by (rule less_trans [OF mod_less_divisor])
  have "unat (ucast (?n div ucast d) :: u64) = 2 ^ (64 + l) div unat d"
    using q n by (simp add: unat_ucast_small unat_div)
  moreover have "unat (ucast (?n mod ucast d) :: u64) = 2 ^ (64 + l) mod unat d"
    using r n by (simp add: unat_ucast_small unat_mod)
  ultimately show ?thesis
    using q r by (simp add: libdivide_128_div_64_to_64_def Let_def word_unat_eq_iff unat_of_nat)
qed

lemma remainder_test:
  fixes d r :: "'a::len word"
  assumes "r < d"
  shows "d \<le> 2 * r \<or> 2 * r < r \<longleftrightarrow> unat d \<le> 2 * unat r"
proof (cases "2 * unat r < 2 ^ LENGTH('a)")
  case True
  then have "unat (2 * r) = 2 * unat r"
    using unat_add_lt [of r r] by (simp only: mult_2)
  then show ?thesis by (auto simp: word_le_nat_alt word_less_nat_alt)
next
  case False
  then have "unat (2 * r) = 2 * unat r - 2 ^ LENGTH('a)"
    using unat_plus_if' [of r r] by (simp only: mult_2 if_False)
  moreover have "unat r < 2 ^ LENGTH('a)" "unat d < 2 ^ LENGTH('a)" by (rule unsigned_less)+
  ultimately have "2 * r < r" "unat d \<le> 2 * unat r"
    using False by (simp_all only: word_less_nat_alt)
  then show ?thesis by blast
qed

lemma error_test:
  fixes d r :: "'a::len word"
  assumes "r < d" "l < LENGTH('a)"
  shows "d - r < 2 ^ l \<longleftrightarrow> unat d - unat r < 2 ^ l"
  using assms by (simp add: word_less_nat_alt unat_sub word_le_nat_alt unat_2p)

lemma u32_gen_shift:
  assumes "unat d = 2 ^ l"
  shows "libdivide_u32_gen d = Returned \<lparr>magic32 = 0, more32 = of_nat l\<rparr>"
proof -
  have "l < 32" using bit_unat_top(1) [of l d] assms by simp
  moreover have "d \<noteq> 0" using assms by (metis power_not_zero unat_0 zero_neq_numeral)
  ultimately show ?thesis
    using assms and_minus_1_eq_0_iff [of l d] leading_zeros [of l d]
    by (simp add: libdivide_u32_gen_def libdivide_internal_u32_gen_def Let_def
        libdivide_count_leading_zeros32_def)
qed

lemma u32_gen_tests:
  assumes l: "2 ^ l < unat d" "unat d < 2 ^ Suc l"
  defines "r \<equiv> of_nat (2 ^ (32 + l) mod unat d) :: u32"
  shows "d - r < 2 ^ l \<longleftrightarrow> unat d - 2 ^ (32 + l) mod unat d < 2 ^ l"
    and "d \<le> 2 * r \<or> 2 * r < r \<longleftrightarrow> unat d \<le> 2 * (2 ^ (32 + l) mod unat d)"
proof -
  have "0 < unat d" using l(1) by (rule le_less_trans [OF zero_le])
  then have lt: "2 ^ (32 + l) mod unat d < unat d" by (rule mod_less_divisor)
  moreover have "unat d < 2 ^ 32" by (rule unat_lt_pow) simp
  ultimately have ur: "unat r = 2 ^ (32 + l) mod unat d" by (simp add: r_def unat_of_nat)
  then have "r < d" using lt by (simp add: word_less_nat_alt)
  then show "d - r < 2 ^ l \<longleftrightarrow> unat d - 2 ^ (32 + l) mod unat d < 2 ^ l"
    and "d \<le> 2 * r \<or> 2 * r < r \<longleftrightarrow> unat d \<le> 2 * (2 ^ (32 + l) mod unat d)"
    using error_test [of r d l] remainder_test [of r d] bit_unat_top(1) [of l d] l ur by auto
qed

lemma u32_gen_cases:
  assumes l: "2 ^ l < unat d" "unat d < 2 ^ Suc l"
  shows "libdivide_u32_gen d = Returned
      (if unat d - 2 ^ (32 + l) mod unat d < 2 ^ l
       then \<lparr>magic32 = 1 + of_nat (2 ^ (32 + l) div unat d), more32 = of_nat l\<rparr>
       else \<lparr>magic32 = 1 + of_nat (2 ^ (32 + (l + 1)) div unat d),
              more32 = of_nat l OR LIBDIVIDE_ADD_MARKER\<rparr>)"
proof -
  have l32: "l < 32" using bit_unat_top(1) [of l d] l by simp
  have d0: "d \<noteq> 0" using l(1) by (metis not_less_zero unat_0)
  have "2 * (2::nat) ^ (32 + l) = 2 ^ (32 + (l + 1))" by (simp add: power_add)
  then have dq: "(2::nat) ^ (32 + (l + 1)) div unat d =
      2 * (2 ^ (32 + l) div unat d) + (if unat d \<le> 2 * (2 ^ (32 + l) mod unat d) then 1 else 0)"
    using double_quotient [of "unat d" "2 ^ (32 + l)"] d0 by (simp add: unat_gt_0)
  show ?thesis
    unfolding dq
    using l d0 l32 and_minus_1_eq_0_iff [of l d] leading_zeros [of l d] unat_div_step_32 [OF l32 l(1)]
      u32_gen_tests [OF l]
    by (cases "unat d \<le> 2 * (2 ^ (32 + l) mod unat d)"; simp add: libdivide_u32_gen_def libdivide_internal_u32_gen_def Let_def
        libdivide_count_leading_zeros32_def)
qed

interpretation u32: divider libdivide_u32_gen "\<lambda>m s. \<lparr>magic32 = m, more32 = s\<rparr>" libdivide_u32_do 5
proof (unfold_locales, goal_cases)
  case (3 n more8)
  show ?case by (simp add: u32_do_shift)
next
  case (4 m more8 n)
  then show ?case by (simp add: u32_do_small)
next
  case (5 m more8 n)
  then show ?case using u32_do_large(2) [OF _ _ refl, of "\<lparr>magic32 = m, more32 = more8\<rparr>" n]
    by (simp add: mask_eq_decr_exp)
next
  case (6 d l)
  then show ?case by (rule u32_gen_shift)
next
  case (7 l d)
  then show ?case by (simp add: u32_gen_cases)
next
  case (8 l d)
  then show ?case by (simp add: u32_gen_cases)
qed simp_all

lemma u64_gen_shift:
  assumes "unat d = 2 ^ l"
  shows "libdivide_u64_gen d = Returned \<lparr>magic64 = 0, more64 = of_nat l\<rparr>"
proof -
  have "l < 64" using bit_unat_top(1) [of l d] assms by simp
  moreover have "d \<noteq> 0" using assms by (metis power_not_zero unat_0 zero_neq_numeral)
  ultimately show ?thesis
    using assms and_minus_1_eq_0_iff [of l d] leading_zeros [of l d]
    by (simp add: libdivide_u64_gen_def libdivide_internal_u64_gen_def Let_def
        libdivide_count_leading_zeros64_def builtin_clzll_def)
qed

lemma u64_gen_tests:
  assumes l: "2 ^ l < unat d" "unat d < 2 ^ Suc l"
  defines "r \<equiv> of_nat (2 ^ (64 + l) mod unat d) :: u64"
  shows "d - r < 2 ^ l \<longleftrightarrow> unat d - 2 ^ (64 + l) mod unat d < 2 ^ l"
    and "d \<le> 2 * r \<or> 2 * r < r \<longleftrightarrow> unat d \<le> 2 * (2 ^ (64 + l) mod unat d)"
proof -
  have "0 < unat d" using l(1) by (rule le_less_trans [OF zero_le])
  then have lt: "2 ^ (64 + l) mod unat d < unat d" by (rule mod_less_divisor)
  moreover have "unat d < 2 ^ 64" by (rule unat_lt_pow) simp
  ultimately have ur: "unat r = 2 ^ (64 + l) mod unat d" by (simp add: r_def unat_of_nat)
  then have "r < d" using lt by (simp add: word_less_nat_alt)
  then show "d - r < 2 ^ l \<longleftrightarrow> unat d - 2 ^ (64 + l) mod unat d < 2 ^ l"
    and "d \<le> 2 * r \<or> 2 * r < r \<longleftrightarrow> unat d \<le> 2 * (2 ^ (64 + l) mod unat d)"
    using error_test [of r d l] remainder_test [of r d] bit_unat_top(1) [of l d] l ur by auto
qed

lemma u64_gen_cases:
  assumes l: "2 ^ l < unat d" "unat d < 2 ^ Suc l"
  shows "libdivide_u64_gen d = Returned
      (if unat d - 2 ^ (64 + l) mod unat d < 2 ^ l
       then \<lparr>magic64 = 1 + of_nat (2 ^ (64 + l) div unat d), more64 = of_nat l\<rparr>
       else \<lparr>magic64 = 1 + of_nat (2 ^ (64 + (l + 1)) div unat d),
              more64 = of_nat l OR LIBDIVIDE_ADD_MARKER\<rparr>)"
proof -
  have l64: "l < 64" using bit_unat_top(1) [of l d] l by simp
  have d0: "d \<noteq> 0" using l(1) by (metis not_less_zero unat_0)
  have "2 * (2::nat) ^ (64 + l) = 2 ^ (64 + (l + 1))" by (simp add: power_add)
  then have dq: "(2::nat) ^ (64 + (l + 1)) div unat d =
      2 * (2 ^ (64 + l) div unat d) + (if unat d \<le> 2 * (2 ^ (64 + l) mod unat d) then 1 else 0)"
    using double_quotient [of "unat d" "2 ^ (64 + l)"] d0 by (simp add: unat_gt_0)
  show ?thesis
    unfolding dq
    using l d0 l64 and_minus_1_eq_0_iff [of l d] leading_zeros [of l d] unat_div_step_64 [OF l64 l(1)]
      u64_gen_tests [OF l]
    by (cases "unat d \<le> 2 * (2 ^ (64 + l) mod unat d)"; simp add: libdivide_u64_gen_def libdivide_internal_u64_gen_def Let_def
        libdivide_count_leading_zeros64_def builtin_clzll_def)
qed

interpretation u64: divider libdivide_u64_gen "\<lambda>m s. \<lparr>magic64 = m, more64 = s\<rparr>" libdivide_u64_do 6
proof (unfold_locales, goal_cases)
  case (3 n more8)
  show ?case by (simp add: u64_do_shift)
next
  case (4 m more8 n)
  then show ?case by (simp add: u64_do_small)
next
  case (5 m more8 n)
  then show ?case using u64_do_large(2) [OF _ _ refl, of "\<lparr>magic64 = m, more64 = more8\<rparr>" n]
    by (simp add: mask_eq_decr_exp)
next
  case (6 d l)
  then show ?case by (rule u64_gen_shift)
next
  case (7 l d)
  then show ?case by (simp add: u64_gen_cases)
next
  case (8 l d)
  then show ?case by (simp add: u64_gen_cases)
qed simp_all

section \<open>Exact division\<close>

text \<open>
  C26. The 64-bit divider that \<^verbatim>\<open>init_slow_path\<close> makes for each slab size is exact: generation succeeds
  for every nonzero divisor, and \<^verbatim>\<open>libdivide_u64_do\<close> with the generated magic number is integer
  division for all 64-bit numerators.
\<close>

theorem libdivide_u64_exact:
  assumes "d \<noteq> 0"
  shows "\<exists>denom. libdivide_u64_gen d = Returned denom \<and> (\<forall>numer. libdivide_u64_do numer denom = numer div d)"
  using assms by (rule u64.exact_quotient)

theorem libdivide_u64_exact_witness:
  "\<exists>denom. libdivide_u64_gen 12288 = Returned denom \<and> (\<forall>numer. libdivide_u64_do numer denom = numer div 12288)"
  using libdivide_u64_exact [of 12288] by simp

text \<open>
  The 32-bit divider made for each size class is exact in the same sense, for every nonzero
  32-bit divisor and every 32-bit numerator.
\<close>

lemma libdivide_u32_exact:
  assumes "d \<noteq> 0"
  shows "\<exists>denom. libdivide_u32_gen d = Returned denom \<and> (\<forall>numer. libdivide_u32_do numer denom = numer div d)"
  using assms by (rule u32.exact_quotient)

end
