(* ===== verification/Slab_Metadata.thy ===== *)
theory Slab_Metadata
  imports Size_Classes Random_State Libdivide
begin

text \<open>
  The metadata of one slab in \<^verbatim>\<open>src/h_malloc.c\<close>: the bitmap of used slots with its count, the bitmap of
  quarantined slots, the search for a free slot, the canary and the write-after-free check. Links to
  other slabs' metadata are indices into the class's \<^verbatim>\<open>slab_info\<close> array.
\<close>

section \<open>Operations\<close>

record slab_metadata =
  md_bitmap :: "u64 list"
  md_next :: "nat option"
  md_prev :: "nat option"
  md_canary_value :: u64
  md_count :: u16
  md_quarantine_bitmap :: "u64 list"

definition bitmap_set :: "u64 list \<Rightarrow> nat \<Rightarrow> u64 list" where
  "bitmap_set bm index =
     (let bucket = index div U64_WIDTH
      in bm[bucket := bm ! bucket OR push_bit (index - bucket * U64_WIDTH) 1])"

definition bitmap_clear :: "u64 list \<Rightarrow> nat \<Rightarrow> u64 list" where
  "bitmap_clear bm index =
     (let bucket = index div U64_WIDTH
      in bm[bucket := bm ! bucket AND NOT (push_bit (index - bucket * U64_WIDTH) 1)])"

definition bitmap_test :: "u64 list \<Rightarrow> nat \<Rightarrow> bool" where
  "bitmap_test bm index =
     (let bucket = index div U64_WIDTH
      in drop_bit (index - bucket * U64_WIDTH) (bm ! bucket) AND 1 \<noteq> 0)"

definition set_used_slot :: "slab_metadata \<Rightarrow> nat \<Rightarrow> slab_metadata" where
  "set_used_slot md index =
     md\<lparr>md_bitmap := bitmap_set (md_bitmap md) index, md_count := md_count md + 1\<rparr>"

definition clear_used_slot :: "slab_metadata \<Rightarrow> nat \<Rightarrow> slab_metadata" where
  "clear_used_slot md index =
     md\<lparr>md_bitmap := bitmap_clear (md_bitmap md) index, md_count := md_count md - 1\<rparr>"

definition is_used_slot :: "slab_metadata \<Rightarrow> nat \<Rightarrow> bool" where
  "is_used_slot md index = bitmap_test (md_bitmap md) index"

definition set_quarantine_slot :: "slab_metadata \<Rightarrow> nat \<Rightarrow> slab_metadata" where
  "set_quarantine_slot md index =
     md\<lparr>md_quarantine_bitmap := bitmap_set (md_quarantine_bitmap md) index\<rparr>"

definition clear_quarantine_slot :: "slab_metadata \<Rightarrow> nat \<Rightarrow> slab_metadata" where
  "clear_quarantine_slot md index =
     md\<lparr>md_quarantine_bitmap := bitmap_clear (md_quarantine_bitmap md) index\<rparr>"

definition is_quarantine_slot :: "slab_metadata \<Rightarrow> nat \<Rightarrow> bool" where
  "is_quarantine_slot md index = bitmap_test (md_quarantine_bitmap md) index"

definition get_mask :: "nat \<Rightarrow> u64" where
  "get_mask slots = (if slots < U64_WIDTH then push_bit slots (NOT 0) else 0)"

text \<open>The endless loop of the randomized search.\<close>

partial_function (option) free_slot_loop :: "nat \<Rightarrow> u64 list \<Rightarrow> nat \<Rightarrow> u64 \<Rightarrow> nat option" where
  "free_slot_loop slots bm i masked =
     (let masked = (if i = slots div U64_WIDTH then masked OR get_mask (slots - i * U64_WIDTH)
                    else masked)
      in if masked \<noteq> NOT 0 then Some (ffz64 masked - 1 + i * U64_WIDTH)
         else let i = (if i = (slots - 1) div U64_WIDTH then 0 else i + 1)
              in free_slot_loop slots bm i (bm ! i))"

text \<open>The bounded loop of the deterministic search.\<close>

function first_slot_loop :: "nat \<Rightarrow> u64 list \<Rightarrow> nat \<Rightarrow> nat outcome" where
  "first_slot_loop slots bm i =
     (if i \<le> (slots - 1) div U64_WIDTH then
        let masked = bm ! i;
            masked = (if i = (slots - 1) div U64_WIDTH then masked OR get_mask (slots - i * U64_WIDTH)
                      else masked)
        in if masked \<noteq> NOT 0 then Returned (ffz64 masked - 1 + i * U64_WIDTH)
           else first_slot_loop slots bm (i + 1)
      else Aborted ''no zero bits'')"
  by pat_completeness auto
termination
  by (relation "measure (\<lambda>(slots, bm, i). Suc ((slots - 1) div U64_WIDTH) - i)") auto

declare first_slot_loop.simps [simp del]

definition get_free_slot ::
    "config \<Rightarrow> kernel \<Rightarrow> random_state \<Rightarrow> nat \<Rightarrow> slab_metadata \<Rightarrow> world \<Rightarrow>
     (nat \<times> random_state \<times> world) outcome" where
  "get_free_slot cfg os rng slots md w =
     (if SLOT_RANDOMIZE cfg then
        bind_o (get_random_u16_uniform os rng (of_nat slots) w) (\<lambda>(r, rng, w).
          let random_index = unat r;
              first_bitmap = random_index div U64_WIDTH;
              random_split = NOT (push_bit (random_index - first_bitmap * U64_WIDTH) (NOT 0));
              i = first_bitmap;
              masked = md_bitmap md ! i OR random_split
          in bind_o (case free_slot_loop slots (md_bitmap md) i masked of
                       None \<Rightarrow> Diverged | Some slot \<Rightarrow> Returned slot)
               (\<lambda>slot. Returned (slot, rng, w)))
      else bind_o (first_slot_loop slots (md_bitmap md) 0) (\<lambda>slot. Returned (slot, rng, w)))"

definition has_free_slots :: "nat \<Rightarrow> slab_metadata \<Rightarrow> bool" where
  "has_free_slots slots md \<longleftrightarrow> unat (md_count md) < slots"

definition is_free_slab :: "slab_metadata \<Rightarrow> bool" where
  "is_free_slab md \<longleftrightarrow> md_count md = 0"

text \<open>
  The check for writes to freed memory: the 64-bit words of the slot are combined with OR.
\<close>

definition waf_accum :: "memory \<Rightarrow> ptr \<Rightarrow> nat \<Rightarrow> u64" where
  "waf_accum m p sz = fold (\<lambda>i accum. accum OR read_u64 m (p + of_nat (8 * i))) [0..<(sz + 7) div 8] 0"

definition write_after_free_check :: "config \<Rightarrow> ptr \<Rightarrow> size_t \<Rightarrow> world \<Rightarrow> unit outcome" where
  "write_after_free_check cfg p sz w =
     (if \<not> WRITE_AFTER_FREE_CHECK cfg then Returned ()
      else if waf_accum (w_mem w) p (unat sz) \<noteq> 0 then Aborted ''detected write after free''
      else Returned ())"

definition set_slab_canary_value ::
    "config \<Rightarrow> kernel \<Rightarrow> slab_metadata \<Rightarrow> random_state \<Rightarrow> world \<Rightarrow>
     (slab_metadata \<times> random_state \<times> world) outcome" where
  "set_slab_canary_value cfg os md rng w =
     (if SLAB_CANARY cfg then
        bind_o (get_random_u64 os rng w) (\<lambda>(r, rng, w).
          Returned (md\<lparr>md_canary_value := r AND 0xffffffffffffff00\<rparr>, rng, w))
      else Returned (md, rng, w))"

definition set_canary :: "config \<Rightarrow> slab_metadata \<Rightarrow> ptr \<Rightarrow> size_t \<Rightarrow> world \<Rightarrow> world" where
  "set_canary cfg md p sz w =
     (if SLAB_CANARY cfg then
        w\<lparr>w_mem := write_u64 (p + sz - canary_size cfg) (md_canary_value md) (w_mem w)\<rparr>
      else w)"

definition check_canary :: "config \<Rightarrow> slab_metadata \<Rightarrow> ptr \<Rightarrow> size_t \<Rightarrow> world \<Rightarrow> unit outcome" where
  "check_canary cfg md p sz w =
     (if SLAB_CANARY cfg then
        let canary_value = read_u64 (w_mem w) (p + sz - canary_size cfg)
        in if canary_value \<noteq> md_canary_value md then Aborted ''canary corrupted'' else Returned ()
      else Returned ())"

definition slot_pointer :: "size_t \<Rightarrow> ptr \<Rightarrow> nat \<Rightarrow> ptr" where
  "slot_pointer sz slab slot = slab + of_nat slot * sz"

section \<open>The slot bitmaps as sets\<close>

text \<open>
  Both bitmaps of a slab behave like a set of slot numbers below 256; what the rest of the
  development uses of them is stated once here.
\<close>

locale slot_set =
  fixes ok :: "'m \<Rightarrow> bool" and test :: "'m \<Rightarrow> nat \<Rightarrow> bool"
    and add :: "'m \<Rightarrow> nat \<Rightarrow> 'm" and remove :: "'m \<Rightarrow> nat \<Rightarrow> 'm"
  assumes ok_add: "ok m \<Longrightarrow> i < 256 \<Longrightarrow> ok (add m i)"
    and ok_remove: "ok m \<Longrightarrow> i < 256 \<Longrightarrow> ok (remove m i)"
    and test_add: "ok m \<Longrightarrow> i < 256 \<Longrightarrow> j < 256 \<Longrightarrow> test (add m i) j \<longleftrightarrow> j = i \<or> test m j"
    and test_remove: "ok m \<Longrightarrow> i < 256 \<Longrightarrow> j < 256 \<Longrightarrow> test (remove m i) j \<longleftrightarrow> j \<noteq> i \<and> test m j"
begin

definition members :: "'m \<Rightarrow> nat set" where
  "members m = {i. i < 256 \<and> test m i}"

lemma finite_members [simp]: "finite (members m)"
  by (rule finite_subset [of _ "{..<256}"]) (auto simp: members_def)

lemma members_add: "ok m \<Longrightarrow> i < 256 \<Longrightarrow> members (add m i) = insert i (members m)"
  by (auto simp: members_def test_add)

lemma members_remove: "ok m \<Longrightarrow> i < 256 \<Longrightarrow> members (remove m i) = members m - {i}"
  by (auto simp: members_def test_remove)

lemma card_add: "ok m \<Longrightarrow> i < 256 \<Longrightarrow> \<not> test m i \<Longrightarrow> card (members (add m i)) = Suc (card (members m))"
  by (simp add: members_add) (simp add: members_def)

lemma card_remove: "ok m \<Longrightarrow> i < 256 \<Longrightarrow> test m i \<Longrightarrow> card (members (remove m i)) = card (members m) - 1"
  by (simp add: members_remove) (simp add: members_def)

lemma remove_add: "ok m \<Longrightarrow> i < 256 \<Longrightarrow> \<not> test m i \<Longrightarrow> members (remove (add m i) i) = members m"
  by (simp add: members_remove members_add ok_add) (auto simp: members_def)

end

lemma bitmap_test_bit: "bitmap_test bm i \<longleftrightarrow> bit (bm ! (i div 64)) (i mod 64)"
proof -
  have "drop_bit k x AND 1 \<noteq> 0 \<longleftrightarrow> bit (x :: u64) k" for k x
    by (simp add: and_one_eq bit_iff_odd_drop_bit mod_2_eq_odd)
  then show ?thesis by (simp add: bitmap_test_def Let_def minus_div_mult_eq_mod)
qed

lemma bit_push_one: "bit (2 ^ n :: u64) k \<longleftrightarrow> k = n \<and> k < 64"
  by (auto simp: bit_simps)

lemma bitmap_test_set:
  assumes "length bm = 4" "i < 256" "j < 256"
  shows "bitmap_test (bitmap_set bm i) j \<longleftrightarrow> j = i \<or> bitmap_test bm j"
proof -
  have "j div 64 < 4" "i div 64 < 4" using assms by auto
  moreover have "j = i \<longleftrightarrow> j div 64 = i div 64 \<and> j mod 64 = i mod 64"
    by (metis div_mult_mod_eq)
  ultimately show ?thesis
    using assms(1)
    by (auto simp: bitmap_test_bit bitmap_set_def Let_def nth_list_update minus_div_mult_eq_mod
        bit_or_iff bit_push_one)
qed

lemma bitmap_test_clear:
  assumes "length bm = 4" "i < 256" "j < 256"
  shows "bitmap_test (bitmap_clear bm i) j \<longleftrightarrow> j \<noteq> i \<and> bitmap_test bm j"
proof -
  have "j div 64 < 4" "i div 64 < 4" using assms by auto
  moreover have "j = i \<longleftrightarrow> j div 64 = i div 64 \<and> j mod 64 = i mod 64"
    by (metis div_mult_mod_eq)
  ultimately show ?thesis
    using assms(1)
    by (auto simp: bitmap_test_bit bitmap_clear_def Let_def nth_list_update minus_div_mult_eq_mod
        bit_and_iff bit_not_iff bit_push_one)
qed

lemma length_bitmap [simp]:
  "length (bitmap_set bm i) = length bm" "length (bitmap_clear bm i) = length bm"
  by (simp_all add: bitmap_set_def bitmap_clear_def Let_def)

interpretation used: slot_set "\<lambda>md. length (md_bitmap md) = 4" is_used_slot set_used_slot clear_used_slot
  by unfold_locales
    (simp_all add: is_used_slot_def set_used_slot_def clear_used_slot_def bitmap_test_set bitmap_test_clear)

interpretation quarantine: slot_set "\<lambda>md. length (md_quarantine_bitmap md) = 4" is_quarantine_slot
    set_quarantine_slot clear_quarantine_slot
  by unfold_locales
    (simp_all add: is_quarantine_slot_def set_quarantine_slot_def clear_quarantine_slot_def
      bitmap_test_set bitmap_test_clear)

section \<open>Finding a free slot\<close>

text \<open>\<open>free_in slots bm k\<close>: slot \<open>k\<close> exists and is not used.\<close>

definition free_in :: "nat \<Rightarrow> u64 list \<Rightarrow> nat \<Rightarrow> bool" where
  "free_in slots bm k \<longleftrightarrow> k < slots \<and> \<not> bitmap_test bm k"

lemma bit_get_mask: "j < 64 \<Longrightarrow> bit (get_mask n) j \<longleftrightarrow> n < 64 \<and> n \<le> j"
  by (auto simp: get_mask_def bit_simps)

lemma word_of_slot: "j < 64 \<Longrightarrow> (64 * i + j) div 64 = i \<and> (64 * i + j) mod 64 = j" for i j :: nat
  by simp

text \<open>The word the search looks at: its zero bits are the free slots of word \<open>i\<close> from \<open>lo\<close> on.\<close>

definition shows_free :: "nat \<Rightarrow> u64 list \<Rightarrow> nat \<Rightarrow> nat \<Rightarrow> u64 \<Rightarrow> bool" where
  "shows_free slots bm i lo x \<longleftrightarrow>
     (\<forall>j < 64. \<not> bit x j \<longleftrightarrow> free_in slots bm (64 * i + j) \<and> lo \<le> 64 * i + j)"

lemma shows_free_masked:
  assumes "i \<le> (slots - 1) div 64" "0 < slots" "lst = slots div 64 \<or> lst = (slots - 1) div 64"
  shows "shows_free slots bm i (64 * i) (if i = lst then bm ! i OR get_mask (slots - i * 64) else bm ! i)"
  unfolding shows_free_def
proof (intro allI impI)
  fix j :: nat assume j: "j < 64"
  have i: "64 * i < slots" using assms(1,2) by (simp add: less_eq_div_iff_mult_less_eq)
  show "(\<not> bit (if i = lst then bm ! i OR get_mask (slots - i * 64) else bm ! i) j) =
      (free_in slots bm (64 * i + j) \<and> 64 * i \<le> 64 * i + j)"
  proof (cases "i = lst")
    case True
    have "64 * i + j < slots \<longleftrightarrow> \<not> (slots - i * 64 < 64 \<and> slots - i * 64 \<le> j)"
      using i j by (auto simp: not_less not_le)
    with True j show ?thesis
      by (auto simp: free_in_def bitmap_test_bit word_of_slot bit_or_iff bit_get_mask)
  next
    case False
    then have "i < slots div 64 \<or> i < (slots - 1) div 64" using assms(1,3) by (auto simp: le_less dest: div_le_mono)
    then have "64 * i + j < slots" using j by auto
    with False j show ?thesis by (simp add: free_in_def bitmap_test_bit word_of_slot)
  qed
qed

lemma shows_free_split:
  assumes "shows_free slots bm i (64 * i) x" "r div 64 = i"
  shows "shows_free slots bm i r (x OR NOT (push_bit (r - i * 64) (NOT 0)))"
  unfolding shows_free_def
proof (intro allI impI)
  fix j :: nat assume j: "j < 64"
  have r: "64 * i \<le> r" "r - i * 64 < 64" using assms(2) by auto
  have "bit (NOT (push_bit (r - i * 64) (NOT 0)) :: u64) j \<longleftrightarrow> j < r - i * 64"
    using j by (auto simp: bit_not_iff bit_push_bit_iff bit_mask_iff)
  then show "(\<not> bit (x OR NOT (push_bit (r - i * 64) (NOT 0))) j) =
      (free_in slots bm (64 * i + j) \<and> r \<le> 64 * i + j)"
    using assms(1) j r by (auto simp: shows_free_def bit_or_iff)
qed

definition free_in_word :: "nat \<Rightarrow> u64 list \<Rightarrow> nat \<Rightarrow> nat \<Rightarrow> bool" where
  "free_in_word slots bm i lo \<longleftrightarrow> (\<exists>j < 64. free_in slots bm (64 * i + j) \<and> lo \<le> 64 * i + j)"

lemma shows_free_full: "shows_free slots bm i lo x \<Longrightarrow> x = NOT 0 \<longleftrightarrow> \<not> free_in_word slots bm i lo"
  unfolding shows_free_def free_in_word_def bit_eq_iff [of x] by (auto simp: bit_not_iff)

text \<open>\<open>least_from P lo\<close>: the first slot from \<open>lo\<close> on with \<open>P\<close>.\<close>

definition least_from :: "(nat \<Rightarrow> bool) \<Rightarrow> nat \<Rightarrow> nat" where
  "least_from P lo = (LEAST k. P k \<and> lo \<le> k)"

lemma shows_free_ffz:
  assumes "shows_free slots bm i lo x" "x \<noteq> NOT 0" "lo div 64 = i"
  shows "ffz64 x - 1 + i * 64 = least_from (free_in slots bm) lo"
    and "\<exists>k. free_in slots bm k \<and> lo \<le> k"
proof -
  obtain j where "ffz64 x = Suc j" using assms(2) ffz64_eq_0_iff [of x] by (cases "ffz64 x") auto
  then have j: "ffz64 x - 1 = j" "j < 64" "\<not> bit x j" "\<forall>l < j. bit x l"
    using ffz64_Suc_iff [of x j] by auto
  have jf: "free_in slots bm (64 * i + j)" "lo \<le> 64 * i + j"
    using assms(1) j by (auto simp: shows_free_def)
  then show "\<exists>k. free_in slots bm k \<and> lo \<le> k" by blast
  have "64 * i + j \<le> k" if "free_in slots bm k" "lo \<le> k" for k
  proof (cases "k < 64 * i + j")
    case True
    have "64 * i \<le> lo" using assms(3) by auto
    with True that(2) obtain l where "k = 64 * i + l" "l < j" by (metis add_less_cancel_left le_Suc_ex le_trans)
    moreover from this j have "bit x l" "l < 64" by auto
    ultimately show ?thesis using that assms(1) unfolding shows_free_def by blast
  qed simp
  with jf have "least_from (free_in slots bm) lo = 64 * i + j"
    unfolding least_from_def by (intro Least_equality) auto
  with j(1) show "ffz64 x - 1 + i * 64 = least_from (free_in slots bm) lo" by simp
qed

text \<open>
  From word \<open>i\<close> on, the randomized loop returns the next free slot, or, when there is none, starts
  again at word 0.
\<close>

lemma free_slot_loop_step:
  assumes "shows_free slots bm i lo
      (if i = slots div 64 then masked OR get_mask (slots - i * 64) else masked)" "lo div 64 = i"
  shows "free_slot_loop slots bm i masked =
    (if free_in_word slots bm i lo then Some (least_from (free_in slots bm) lo)
     else let i = (if i = (slots - 1) div 64 then 0 else i + 1) in free_slot_loop slots bm i (bm ! i))"
proof -
  let ?m = "if i = slots div 64 then masked OR get_mask (slots - i * 64) else masked"
  have "free_slot_loop slots bm i masked =
      (if ?m \<noteq> NOT 0 then Some (ffz64 ?m - 1 + i * 64)
       else let i = (if i = (slots - 1) div 64 then 0 else i + 1) in free_slot_loop slots bm i (bm ! i))"
    by (subst free_slot_loop.simps) (simp only: Let_def)
  then show ?thesis
    using shows_free_full [OF assms(1)] shows_free_ffz(1) [OF assms(1) _ assms(2)] by presburger
qed

lemma no_slot_in_word:
  assumes "\<not> free_in_word slots bm i lo" "lo div 64 = i"
  shows "free_in slots bm k \<and> lo \<le> k \<longleftrightarrow> free_in slots bm k \<and> 64 * (i + 1) \<le> k"
proof -
  have lo: "64 * i \<le> lo" "lo < 64 * (i + 1)" using assms(2) by auto
  show ?thesis
  proof (cases "64 * i \<le> k \<and> k < 64 * (i + 1)")
    case True
    then obtain j where "k = 64 * i + j" "j < 64"
      by (metis add_less_cancel_left distrib_left le_Suc_ex mult.right_neutral)
    with assms(1) True show ?thesis by (auto simp: free_in_word_def)
  next
    case False
    with lo show ?thesis by auto
  qed
qed

text \<open>In the last word the search has seen every slot.\<close>

lemma last_word:
  assumes "i = (slots - 1) div 64" "lo div 64 = i"
  shows "free_in_word slots bm i lo \<longleftrightarrow> (\<exists>k. free_in slots bm k \<and> lo \<le> k)"
proof
  assume "\<exists>k. free_in slots bm k \<and> lo \<le> k"
  then obtain k where k: "free_in slots bm k \<and> lo \<le> k" ..
  have "slots \<le> 64 * (i + 1)" using assms(1) by auto
  then have "\<not> 64 * (i + 1) \<le> k" using k by (simp add: free_in_def)
  with k no_slot_in_word [OF _ assms(2), of slots bm k] show "free_in_word slots bm i lo" by blast
qed (auto simp: free_in_word_def)

lemma free_slot_loop_from:
  assumes "0 < slots" "i \<le> (slots - 1) div 64" "lo div 64 = i"
    and "shows_free slots bm i lo
      (if i = slots div 64 then masked OR get_mask (slots - i * 64) else masked)"
  shows "free_slot_loop slots bm i masked =
    (if \<exists>k. free_in slots bm k \<and> lo \<le> k then Some (least_from (free_in slots bm) lo)
     else free_slot_loop slots bm 0 (bm ! 0))"
  using assms(2-)
proof (induction "(slots - 1) div 64 - i" arbitrary: i lo masked)
  case (0 i lo masked)
  then have i: "i = (slots - 1) div 64" by simp
  show ?case
    using free_slot_loop_step [OF "0.prems"(3,2)] last_word [OF i "0.prems"(2), of bm] i
    by (simp only: Let_def refl if_True)
next
  case (Suc d i lo masked)
  have i: "i \<noteq> (slots - 1) div 64" "i + 1 \<le> (slots - 1) div 64" "d = (slots - 1) div 64 - (i + 1)"
    using Suc.hyps(2) by auto
  note step = free_slot_loop_step [OF Suc.prems(3,2)]
  show ?case
  proof (cases "free_in_word slots bm i lo")
    case True
    then have "\<exists>k. free_in slots bm k \<and> lo \<le> k" by (auto simp: free_in_word_def)
    with True show ?thesis using step by simp
  next
    case False
    have "free_slot_loop slots bm i masked = free_slot_loop slots bm (i + 1) (bm ! (i + 1))"
      using step False i(1) by simp
    also have "\<dots> = (if \<exists>k. free_in slots bm k \<and> 64 * (i + 1) \<le> k
        then Some (least_from (free_in slots bm) (64 * (i + 1))) else free_slot_loop slots bm 0 (bm ! 0))"
      using i assms(1) shows_free_masked [of "i + 1" slots "slots div 64" bm]
      by (intro Suc.hyps(1)) auto
    finally show ?thesis
      using no_slot_in_word [OF False Suc.prems(2)] by (simp only: least_from_def)
  qed
qed

text \<open>The randomized search finds the first free slot from \<open>r\<close> on, or else the first one of all.\<close>

lemma free_slot_loop_found:
  assumes "r < slots" "\<exists>k. free_in slots bm k"
  shows "free_slot_loop slots bm (r div 64) (bm ! (r div 64) OR NOT (push_bit (r - r div 64 * 64) (NOT 0))) =
    Some (least_from (free_in slots bm) (if \<exists>k. free_in slots bm k \<and> r \<le> k then r else 0))"
proof -
  let ?i = "r div 64" and ?split = "NOT (push_bit (r - r div 64 * 64) (NOT 0)) :: u64"
  have i: "?i \<le> (slots - 1) div 64" using assms(1) by (intro div_le_mono) simp
  have "shows_free slots bm ?i r
      ((if ?i = slots div 64 then bm ! ?i OR get_mask (slots - ?i * 64) else bm ! ?i) OR ?split)"
    using shows_free_masked [OF i, of "slots div 64" bm] assms(1) by (intro shows_free_split) auto
  also have "(if ?i = slots div 64 then bm ! ?i OR get_mask (slots - ?i * 64) else bm ! ?i) OR ?split =
      (if ?i = slots div 64 then (bm ! ?i OR ?split) OR get_mask (slots - ?i * 64) else bm ! ?i OR ?split)"
    by (cases "?i = slots div 64") (simp_all only: simp_thms if_True if_False or.assoc or.commute or.left_commute)
  finally have first: "free_slot_loop slots bm ?i (bm ! ?i OR ?split) =
      (if \<exists>k. free_in slots bm k \<and> r \<le> k then Some (least_from (free_in slots bm) r)
       else free_slot_loop slots bm 0 (bm ! 0))"
    using assms(1) by (intro free_slot_loop_from [OF _ i refl]) auto
  have "free_slot_loop slots bm 0 (bm ! 0) =
      (if \<exists>k. free_in slots bm k \<and> 0 \<le> k then Some (least_from (free_in slots bm) 0)
       else free_slot_loop slots bm 0 (bm ! 0))"
    using assms(1) shows_free_masked [of 0 slots "slots div 64" bm]
    by (intro free_slot_loop_from) auto
  with assms(2) first show ?thesis by auto
qed

lemma first_slot_loop_step:
  assumes "i \<le> (slots - 1) div 64" "0 < slots"
  shows "first_slot_loop slots bm i =
    (if free_in_word slots bm i (64 * i) then Returned (least_from (free_in slots bm) (64 * i))
     else first_slot_loop slots bm (i + 1))"
proof -
  let ?m = "if i = (slots - 1) div 64 then bm ! i OR get_mask (slots - i * 64) else bm ! i"
  have sf: "shows_free slots bm i (64 * i) ?m" using shows_free_masked [OF assms] by blast
  have "first_slot_loop slots bm i =
      (if ?m \<noteq> NOT 0 then Returned (ffz64 ?m - 1 + i * 64) else first_slot_loop slots bm (i + 1))"
    using assms(1) by (subst first_slot_loop.simps) (simp only: Let_def if_True)
  then show ?thesis using shows_free_full [OF sf] shows_free_ffz(1) [OF sf] by simp
qed

lemma first_slot_loop_found:
  assumes "0 < slots" "i \<le> (slots - 1) div 64"
  shows "first_slot_loop slots bm i =
    (if \<exists>k. free_in slots bm k \<and> 64 * i \<le> k then Returned (least_from (free_in slots bm) (64 * i))
     else Aborted ''no zero bits'')"
  using assms(2)
proof (induction "(slots - 1) div 64 - i" arbitrary: i)
  case (0 i)
  then have i: "i = (slots - 1) div 64" by simp
  then have "first_slot_loop slots bm (i + 1) = Aborted ''no zero bits''"
    by (subst first_slot_loop.simps) simp
  then show ?case
    using first_slot_loop_step [OF "0.prems" assms(1)] last_word [OF i, of "64 * i" bm] by simp
next
  case (Suc d i)
  have i: "i + 1 \<le> (slots - 1) div 64" "d = (slots - 1) div 64 - (i + 1)"
    using Suc.hyps(2) by auto
  note step = first_slot_loop_step [OF Suc.prems assms(1), of bm]
  show ?case
  proof (cases "free_in_word slots bm i (64 * i)")
    case True
    then have "\<exists>k. free_in slots bm k \<and> 64 * i \<le> k" by (auto simp: free_in_word_def)
    with True show ?thesis using step by simp
  next
    case False
    have "first_slot_loop slots bm i = first_slot_loop slots bm (i + 1)" using step False by simp
    then show ?thesis
      using Suc.hyps(1) [OF i(2,1)] no_slot_in_word [OF False] by (simp add: least_from_def)
  qed
qed

text \<open>Together: what \<^verbatim>\<open>get_free_slot\<close> returns, and that it returns.\<close>

definition slot_free :: "nat \<Rightarrow> slab_metadata \<Rightarrow> nat \<Rightarrow> bool" where
  "slot_free slots md k \<longleftrightarrow> k < slots \<and> \<not> is_used_slot md k"

lemma free_in_slot_free: "free_in slots (md_bitmap md) = slot_free slots md"
  by (simp add: fun_eq_iff free_in_def slot_free_def is_used_slot_def)

lemma least_from_holds:
  assumes "\<exists>k. P k \<and> lo \<le> k"
  shows "P (least_from P lo) \<and> lo \<le> least_from P lo"
  using assms unfolding least_from_def by (rule LeastI_ex)

lemma get_free_slot_random:
  assumes "SLOT_RANDOMIZE cfg" "get_random_u16_uniform os rng (of_nat slots) w = Returned (r, rng', w')"
    and "unat r < slots" "\<exists>k. slot_free slots md k"
  shows "get_free_slot cfg os rng slots md w =
    Returned (least_from (slot_free slots md)
      (if \<exists>k. slot_free slots md k \<and> unat r \<le> k then unat r else 0), rng', w')"
  using free_slot_loop_found [of "unat r" slots "md_bitmap md"] assms
  by (simp only: get_free_slot_def Let_def free_in_slot_free if_True bind_o.simps prod.case option.case)

lemma get_free_slot_first:
  assumes "\<not> SLOT_RANDOMIZE cfg" "0 < slots"
  shows "get_free_slot cfg os rng slots md w =
    (if \<exists>k. slot_free slots md k then Returned (least_from (slot_free slots md) 0, rng, w)
     else Aborted ''no zero bits'')"
  using first_slot_loop_found [OF assms(2), of 0 "md_bitmap md"] assms(1)
  by (simp add: get_free_slot_def free_in_slot_free)

text \<open>The part that the allocator relies on.\<close>

lemma get_free_slot_ok:
  assumes "get_free_slot cfg os rng slots md w = Returned (slot, rng', w')"
    and "0 < slots" "slots \<le> 256" "\<exists>k. slot_free slots md k" "random_state_ok rng"
  shows "slot_free slots md slot \<and> random_state_ok rng' \<and> same_memory w w'"
proof (cases "SLOT_RANDOMIZE cfg")
  case False
  with assms show ?thesis
    using least_from_holds [of "slot_free slots md" 0] by (auto simp: get_free_slot_first)
next
  case True
  with assms(1) obtain r where
    r: "get_random_u16_uniform os rng (of_nat slots) w = Returned (r, rng', w')"
    by (auto simp: get_free_slot_def outcome_simps Let_def)
  have u: "unat (of_nat slots :: u16) = slots" using assms(3) by (simp add: unat_of_nat)
  have nz: "(of_nat slots :: u16) \<noteq> 0" using u assms(2) by (metis unat_0 less_numeral_extra(3))
  have ok: "random_state_ok rng'" "same_memory w w'" "r < of_nat slots"
    using get_random_u16_uniform_ok [OF r assms(5)] nz by auto
  have "unat r < slots" using ok(3) u by (simp add: word_less_nat_alt)
  from get_free_slot_random [OF True r this assms(4)] assms(1)
  have "slot = least_from (slot_free slots md)
      (if \<exists>k. slot_free slots md k \<and> unat r \<le> k then unat r else 0)" by simp
  then show ?thesis
    using ok assms(4) least_from_holds [of "slot_free slots md" "unat r"]
      least_from_holds [of "slot_free slots md" 0] by auto
qed

section \<open>Well-formed metadata\<close>

text \<open>
  The invariant of one slab's metadata: four words per bitmap, only existing slots used, the count is
  the number of used slots, and only used slots are quarantined.
\<close>

abbreviation used_slots :: "slab_metadata \<Rightarrow> nat set" where
  "used_slots \<equiv> used.members"

abbreviation quarantined_slots :: "slab_metadata \<Rightarrow> nat set" where
  "quarantined_slots \<equiv> quarantine.members"

definition metadata_ok :: "nat \<Rightarrow> slab_metadata \<Rightarrow> bool" where
  "metadata_ok slots md \<longleftrightarrow>
     length (md_bitmap md) = 4 \<and> length (md_quarantine_bitmap md) = 4 \<and>
     used_slots md \<subseteq> {..<slots} \<and> quarantined_slots md \<subseteq> used_slots md \<and>
     unat (md_count md) = card (used_slots md)"

definition zero_metadata :: slab_metadata where
  "zero_metadata =
     \<lparr>md_bitmap = [0, 0, 0, 0], md_next = None, md_prev = None, md_canary_value = 0, md_count = 0,
      md_quarantine_bitmap = [0, 0, 0, 0]\<rparr>"

lemma zero_metadata_slots [simp]: "used_slots zero_metadata = {}" "quarantined_slots zero_metadata = {}"
proof -
  have *: "\<not> bitmap_test [0, 0, 0, 0] i" if "i < 256" for i
  proof -
    have "i div 64 \<in> {0, 1, 2, 3}" using that by auto
    then show ?thesis by (auto simp: bitmap_test_bit)
  qed
  show "used_slots zero_metadata = {}" "quarantined_slots zero_metadata = {}"
    by (auto simp: used.members_def quarantine.members_def is_used_slot_def is_quarantine_slot_def
        zero_metadata_def *)
qed

lemma zero_metadata_ok [simp]: "metadata_ok slots zero_metadata"
  by (simp add: metadata_ok_def) (simp add: zero_metadata_def)

lemma finite_used [simp]: "finite (used_slots md)"
  by (rule used.finite_members)

lemma used_slots_iff: "i < 256 \<Longrightarrow> i \<in> used_slots md \<longleftrightarrow> is_used_slot md i"
  by (simp add: used.members_def)

lemma quarantined_slots_iff: "i < 256 \<Longrightarrow> i \<in> quarantined_slots md \<longleftrightarrow> is_quarantine_slot md i"
  by (simp add: quarantine.members_def)

lemma card_used_le: "metadata_ok slots md \<Longrightarrow> card (used_slots md) \<le> slots"
  using card_mono [of "{..<slots}" "used_slots md"] by (simp add: metadata_ok_def)

lemma has_free_slots_iff:
  assumes "metadata_ok slots md" "slots \<le> 256"
  shows "has_free_slots slots md \<longleftrightarrow> (\<exists>k. slot_free slots md k)"
proof -
  have sub: "used_slots md \<subseteq> {..<slots}" using assms(1) by (simp add: metadata_ok_def)
  have free: "slot_free slots md k \<longleftrightarrow> k \<in> {..<slots} - used_slots md" for k
    using assms(2) by (auto simp: slot_free_def used.members_def)
  have "card (used_slots md) < slots \<longleftrightarrow> used_slots md \<noteq> {..<slots}"
  proof (cases "used_slots md = {..<slots}")
    case False
    with sub have "used_slots md \<subset> {..<slots}" by blast
    from psubset_card_mono [OF _ this] False show ?thesis by simp
  qed simp
  also have "\<dots> \<longleftrightarrow> (\<exists>k. slot_free slots md k)" using sub free by auto
  finally show ?thesis using assms(1) by (simp add: has_free_slots_def metadata_ok_def)
qed

lemma is_free_slab_iff: "metadata_ok slots md \<Longrightarrow> is_free_slab md \<longleftrightarrow> used_slots md = {}"
  by (auto simp: is_free_slab_def metadata_ok_def simp flip: unat_eq_zero)

lemma slots_bitmap_only:
  "md_bitmap md' = md_bitmap md \<Longrightarrow> used_slots md' = used_slots md"
  "md_quarantine_bitmap md' = md_quarantine_bitmap md \<Longrightarrow> quarantined_slots md' = quarantined_slots md"
  by (simp_all add: used.members_def quarantine.members_def is_used_slot_def is_quarantine_slot_def)

lemma slots_link_updates [simp]:
  "used_slots (md\<lparr>md_next := x\<rparr>) = used_slots md" "used_slots (md\<lparr>md_prev := x\<rparr>) = used_slots md"
  "used_slots (md\<lparr>md_canary_value := v\<rparr>) = used_slots md"
  "quarantined_slots (md\<lparr>md_next := x\<rparr>) = quarantined_slots md"
  "quarantined_slots (md\<lparr>md_prev := x\<rparr>) = quarantined_slots md"
  "quarantined_slots (md\<lparr>md_canary_value := v\<rparr>) = quarantined_slots md"
  by (rule slots_bitmap_only, simp)+

lemma metadata_ok_link_updates [simp]:
  "metadata_ok slots (md\<lparr>md_next := x\<rparr>) = metadata_ok slots md"
  "metadata_ok slots (md\<lparr>md_prev := x\<rparr>) = metadata_ok slots md"
  "metadata_ok slots (md\<lparr>md_canary_value := v\<rparr>) = metadata_ok slots md"
  by (simp_all add: metadata_ok_def)

lemma md_count_link_updates [simp]:
  "has_free_slots slots (md\<lparr>md_next := x\<rparr>) = has_free_slots slots md"
  "has_free_slots slots (md\<lparr>md_prev := x\<rparr>) = has_free_slots slots md"
  "is_free_slab (md\<lparr>md_next := x\<rparr>) = is_free_slab md"
  "is_free_slab (md\<lparr>md_prev := x\<rparr>) = is_free_slab md"
  by (simp_all add: has_free_slots_def is_free_slab_def)

lemma set_used_ok:
  assumes "metadata_ok slots md" "slot_free slots md i" "slots \<le> 256"
  shows "metadata_ok slots (set_used_slot md i)" "used_slots (set_used_slot md i) = insert i (used_slots md)"
    and "quarantined_slots (set_used_slot md i) = quarantined_slots md"
    and "md_next (set_used_slot md i) = md_next md" "md_prev (set_used_slot md i) = md_prev md"
    and "md_canary_value (set_used_slot md i) = md_canary_value md"
proof -
  have i: "i < 256" "i < slots" "\<not> is_used_slot md i" using assms by (auto simp: slot_free_def)
  have len: "length (md_bitmap md) = 4" using assms(1) by (simp add: metadata_ok_def)
  show u: "used_slots (set_used_slot md i) = insert i (used_slots md)"
    using used.members_add [OF len i(1)] .
  show q: "quarantined_slots (set_used_slot md i) = quarantined_slots md"
    by (rule slots_bitmap_only) (simp add: set_used_slot_def)
  have "unat (md_count md) < 2 ^ 16 - 1"
    using card_used_le [OF assms(1)] assms(1,3) by (simp add: metadata_ok_def)
  then have "unat (md_count md + 1) = Suc (unat (md_count md))"
    by (simp add: unat_word_ariths)
  moreover have "i \<notin> used_slots md" using i by (simp add: used_slots_iff)
  ultimately show "metadata_ok slots (set_used_slot md i)"
    using assms(1) i(2) u q by (auto simp: metadata_ok_def) (simp add: set_used_slot_def)+
qed (simp_all add: set_used_slot_def)

lemma clear_used_ok:
  assumes "metadata_ok slots md" "i \<in> used_slots md" "i \<notin> quarantined_slots md"
  shows "metadata_ok slots (clear_used_slot md i)" "used_slots (clear_used_slot md i) = used_slots md - {i}"
    and "quarantined_slots (clear_used_slot md i) = quarantined_slots md"
    and "md_next (clear_used_slot md i) = md_next md" "md_prev (clear_used_slot md i) = md_prev md"
    and "md_canary_value (clear_used_slot md i) = md_canary_value md"
proof -
  have i: "i < 256" "is_used_slot md i" using assms(2) by (auto simp: used.members_def)
  have len: "length (md_bitmap md) = 4" using assms(1) by (simp add: metadata_ok_def)
  show u: "used_slots (clear_used_slot md i) = used_slots md - {i}"
    using used.members_remove [OF len i(1)] .
  show q: "quarantined_slots (clear_used_slot md i) = quarantined_slots md"
    by (rule slots_bitmap_only) (simp add: clear_used_slot_def)
  have pos: "0 < card (used_slots md)" using assms(2) by (auto simp: card_gt_0_iff)
  then have "md_count md \<noteq> 0" using assms(1) by (auto simp: metadata_ok_def)
  then have "unat (md_count md - 1) = unat (md_count md) - 1" by (simp add: unat_minus_one)
  then have c: "unat (md_count (clear_used_slot md i)) = card (used_slots md - {i})"
    using assms(1,2) by (simp add: clear_used_slot_def metadata_ok_def)
  have "length (md_bitmap (clear_used_slot md i)) = 4 \<and> length (md_quarantine_bitmap (clear_used_slot md i)) = 4"
    using assms(1) by (simp add: clear_used_slot_def metadata_ok_def)
  with assms c show "metadata_ok slots (clear_used_slot md i)"
    unfolding metadata_ok_def u q by blast
qed (simp_all add: clear_used_slot_def)

lemma set_quarantine_ok:
  assumes "metadata_ok slots md" "i \<in> used_slots md"
  shows "metadata_ok slots (set_quarantine_slot md i)"
    and "used_slots (set_quarantine_slot md i) = used_slots md"
    and "quarantined_slots (set_quarantine_slot md i) = insert i (quarantined_slots md)"
    and "md_next (set_quarantine_slot md i) = md_next md" "md_prev (set_quarantine_slot md i) = md_prev md"
proof -
  have i: "i < 256" using assms(2) by (auto simp: used.members_def)
  have len: "length (md_quarantine_bitmap md) = 4" using assms(1) by (simp add: metadata_ok_def)
  show q: "quarantined_slots (set_quarantine_slot md i) = insert i (quarantined_slots md)"
    using quarantine.members_add [OF len i] .
  show u: "used_slots (set_quarantine_slot md i) = used_slots md"
    by (rule slots_bitmap_only) (simp add: set_quarantine_slot_def)
  show "metadata_ok slots (set_quarantine_slot md i)"
    using assms u q by (auto simp: metadata_ok_def) (simp add: set_quarantine_slot_def)+
qed (simp_all add: set_quarantine_slot_def)

lemma clear_quarantine_ok:
  assumes "metadata_ok slots md" "i < 256"
  shows "metadata_ok slots (clear_quarantine_slot md i)"
    and "used_slots (clear_quarantine_slot md i) = used_slots md"
    and "quarantined_slots (clear_quarantine_slot md i) = quarantined_slots md - {i}"
    and "md_next (clear_quarantine_slot md i) = md_next md" "md_prev (clear_quarantine_slot md i) = md_prev md"
proof -
  have len: "length (md_quarantine_bitmap md) = 4" using assms(1) by (simp add: metadata_ok_def)
  show q: "quarantined_slots (clear_quarantine_slot md i) = quarantined_slots md - {i}"
    using quarantine.members_remove [OF len assms(2)] .
  show u: "used_slots (clear_quarantine_slot md i) = used_slots md"
    by (rule slots_bitmap_only) (simp add: clear_quarantine_slot_def)
  have "md_count (clear_quarantine_slot md i) = md_count md \<and> length (md_bitmap (clear_quarantine_slot md i)) = 4
      \<and> length (md_quarantine_bitmap (clear_quarantine_slot md i)) = 4"
    using assms(1) by (simp add: clear_quarantine_slot_def metadata_ok_def)
  with assms(1) show "metadata_ok slots (clear_quarantine_slot md i)"
    unfolding metadata_ok_def u q by auto
qed (simp_all add: clear_quarantine_slot_def)

section \<open>Canaries and freed memory\<close>

text \<open>A 64-bit value written to memory reads back, byte by byte.\<close>

lemma write_u64_byte:
  assumes "i < 8"
  shows "write_u64 p v m (p + of_nat i) = ucast (drop_bit (8 * i) v)"
proof -
  have "unat (of_nat i :: ptr) = i" using assms by (simp add: unat_of_nat)
  then show ?thesis using assms by (simp add: write_u64_def)
qed

lemma bit_byte_of_u64:
  assumes "8 * q + r < 64" "r < 8"
  shows "bit (push_bit (8 * q') (ucast (x :: u8)) :: u64) (8 * q + r) \<longleftrightarrow> q' = q \<and> bit x r"
proof -
  have b: "bit (ucast x :: u64) l \<longleftrightarrow> bit x l" for l
    by (auto simp: bit_ucast_iff dest: bit_imp_le_length)
  have "bit x (8 * q + r - 8 * q') \<and> q' \<le> q \<longleftrightarrow> q' = q \<and> bit x r"
  proof (cases "q' < q")
    case True
    then obtain d where "q = q' + Suc d" using less_natE by (metis add_Suc_right)
    then have "8 \<le> 8 * q + r - 8 * q'" by simp
    with True show ?thesis by (auto dest: bit_imp_le_length)
  qed auto
  moreover have "8 * q' \<le> 8 * q + r \<longleftrightarrow> q' \<le> q" using assms(2) by auto
  ultimately show ?thesis using assms(1) by (auto simp: bit_push_bit_iff b)
qed

lemma bit_read_u64:
  assumes "k < 64"
  shows "bit (read_u64 m p) k \<longleftrightarrow> bit (m (p + of_nat (k div 8))) (k mod 8)"
proof -
  define q r where "q = k div 8" and "r = k mod 8"
  have k: "k = 8 * q + r" "8 * q + r < 64" "r < 8" using assms by (simp_all add: q_def r_def)
  note byte = bit_byte_of_u64 [OF k(2,3)]
  have q: "q = 0 \<or> q = 1 \<or> q = 2 \<or> q = 3 \<or> q = 4 \<or> q = 5 \<or> q = 6 \<or> q = 7"
    using k(2) by auto
  have "bit (read_u64 m p) (8 * q + r) \<longleftrightarrow> bit (m (p + of_nat q)) r"
    using byte [of 0 "m p"] byte [of 1 "m (p + 1)"] byte [of 2 "m (p + 2)"] byte [of 3 "m (p + 3)"]
      byte [of 4 "m (p + 4)"] byte [of 5 "m (p + 5)"] byte [of 6 "m (p + 6)"] byte [of 7 "m (p + 7)"] q
    by (elim disjE) (simp_all add: read_u64_def bit_or_iff)
  then show ?thesis by (simp add: q_def r_def)
qed

lemma read_write_u64: "read_u64 (write_u64 p v m) p = v"
proof (rule bit_eqI)
  fix k assume "possible_bit TYPE(u64) k"
  then have k: "k < 64" by simp
  have "k div 8 < 8" "8 * (k div 8) + k mod 8 = k" "k mod 8 < 8" using k by auto
  then show "bit (read_u64 (write_u64 p v m) p) k = bit v k"
    using k by (simp add: bit_read_u64 write_u64_byte bit_ucast_iff bit_drop_bit_eq)
qed

lemma check_canary_set: "check_canary cfg md p sz (set_canary cfg md p sz w) = Returned ()"
  by (simp add: check_canary_def set_canary_def read_write_u64)

lemma waf_accum_bit: "bit (waf_accum m p sz) k \<longleftrightarrow> (\<exists>i < (sz + 7) div 8. bit (read_u64 m (p + of_nat (8 * i))) k)"
proof -
  have "bit (fold (\<lambda>i accum. accum OR f i) xs a) k \<longleftrightarrow> bit a k \<or> (\<exists>i \<in> set xs. bit (f i) k)"
    for f :: "nat \<Rightarrow> u64" and xs a
    by (induction xs arbitrary: a) (auto simp: bit_or_iff)
  then show ?thesis by (auto simp: waf_accum_def)
qed

lemma read_u64_zero_iff: "read_u64 m p = 0 \<longleftrightarrow> (\<forall>i < 8. m (p + of_nat i) = 0)"
proof
  assume z: "read_u64 m p = 0"
  show "\<forall>i < 8. m (p + of_nat i) = 0"
  proof (intro allI impI bit_eqI)
    fix i j assume i: "i < (8::nat)" and "possible_bit TYPE(u8) j"
    then have "j < 8" by simp
    then have "8 * i + j < 64" "(8 * i + j) div 8 = i" "(8 * i + j) mod 8 = j" using i by auto
    then show "bit (m (p + of_nat i)) j = bit (0 :: u8) j"
      using bit_read_u64 [of "8 * i + j" m p] z by simp
  qed
next
  assume z: "\<forall>i < 8. m (p + of_nat i) = 0"
  show "read_u64 m p = 0"
  proof (rule bit_eqI)
    fix k assume "possible_bit TYPE(u64) k"
    then have "k < 64" "k div 8 < 8" by auto
    then show "bit (read_u64 m p) k = bit (0 :: u64) k" using z by (simp add: bit_read_u64)
  qed
qed

text \<open>The check passes exactly when every byte of the slot is zero.\<close>

lemma waf_accum_zero_iff:
  assumes "8 dvd n"
  shows "waf_accum m p n = 0 \<longleftrightarrow> (\<forall>i < n. m (p + of_nat i) = 0)"
proof -
  obtain q where n: "n = 8 * q" using assms by blast
  have "waf_accum m p n = 0 \<longleftrightarrow> (\<forall>i < q. read_u64 m (p + of_nat (8 * i)) = 0)"
  proof -
    have zero: "(x :: u64) = 0 \<longleftrightarrow> (\<forall>k. \<not> bit x k)" for x by (auto intro: bit_eqI)
    show ?thesis unfolding zero waf_accum_bit n by auto
  qed
  also have "\<dots> \<longleftrightarrow> (\<forall>i < q. \<forall>j < 8. m (p + of_nat (8 * i + j)) = 0)"
    by (simp add: read_u64_zero_iff add.assoc)
  also have "\<dots> \<longleftrightarrow> (\<forall>i < n. m (p + of_nat i) = 0)"
  proof safe
    fix i assume a: "\<forall>i < q. \<forall>j < 8. m (p + of_nat (8 * i + j)) = 0" and "i < n"
    then have "i div 8 < q" "i mod 8 < 8" "8 * (i div 8) + i mod 8 = i" unfolding n by auto
    with a show "m (p + of_nat i) = 0" by metis
  next
    fix i j assume "\<forall>i < n. m (p + of_nat i) = 0" "i < q" "j < (8::nat)"
    then have "8 * i + j < n" unfolding n by simp
    with \<open>\<forall>i < n. m (p + of_nat i) = 0\<close> show "m (p + of_nat (8 * i + j)) = 0" by blast
  qed
  finally show ?thesis .
qed

section \<open>Properties\<close>

text \<open>
  C33. The slot search terminates and is right: in a slab with a free slot, \<^verbatim>\<open>get_free_slot\<close> with
  \<^verbatim>\<open>SLOT_RANDOMIZE\<close> returns, for every random start \<open>r\<close>, the first free slot at or after \<open>r\<close> and
  otherwise the first free slot of the slab; without it, the first free slot; its endless loop never
  spins and \<^verbatim>\<open>no zero bits\<close> is never reached.
\<close>

theorem get_free_slot_correct:
  assumes "0 < slots" "slot_free slots md k"
    and "SLOT_RANDOMIZE cfg \<Longrightarrow>
      get_random_u16_uniform os rng (of_nat slots) w = Returned (r, rng', w') \<and> unat r < slots"
  shows "\<exists>slot rng'' w''. get_free_slot cfg os rng slots md w = Returned (slot, rng'', w'')
    \<and> slot < slots \<and> \<not> is_used_slot md slot
    \<and> (\<forall>j < slots. (SLOT_RANDOMIZE cfg \<longrightarrow> unat r \<le> j) \<and> j < slot \<longrightarrow> is_used_slot md j)
    \<and> (SLOT_RANDOMIZE cfg \<and> slot < unat r \<longrightarrow>
         (\<forall>j < slots. unat r \<le> j \<or> j < slot \<longrightarrow> is_used_slot md j))"
proof -
  let ?P = "slot_free slots md"
  define lo where "lo = (if SLOT_RANDOMIZE cfg \<and> (\<exists>k. ?P k \<and> unat r \<le> k) then unat r else 0)"
  have ex: "\<exists>k. ?P k \<and> lo \<le> k" using assms(2) by (auto simp: lo_def)
  have ret: "\<exists>rng'' w''. get_free_slot cfg os rng slots md w = Returned (least_from ?P lo, rng'', w'')"
  proof (cases "SLOT_RANDOMIZE cfg")
    case True
    from assms(3) [OF True] have draw: "get_random_u16_uniform os rng (of_nat slots) w = Returned (r, rng', w')"
      "unat r < slots" by blast+
    have "\<exists>k. ?P k" using assms(2) by blast
    from get_free_slot_random [OF True draw this] True show ?thesis unfolding lo_def by auto
  next
    case False
    then show ?thesis
      using get_free_slot_first [OF False assms(1)] assms(2) unfolding lo_def by auto
  qed
  have holds: "?P (least_from ?P lo)" "lo \<le> least_from ?P lo" using least_from_holds [OF ex] by auto
  have least: "\<not> ?P j" if "lo \<le> j" "j < least_from ?P lo" for j
    using that not_less_Least [of j "\<lambda>k. ?P k \<and> lo \<le> k"] by (auto simp: least_from_def)
  have 0: "\<not> (\<exists>k. ?P k \<and> unat r \<le> k)" "lo = 0" if "SLOT_RANDOMIZE cfg" "least_from ?P lo < unat r"
  proof -
    show "\<not> (\<exists>k. ?P k \<and> unat r \<le> k)"
    proof
      assume "\<exists>k. ?P k \<and> unat r \<le> k"
      with that(1) have "lo = unat r" by (simp add: lo_def)
      with holds(2) that(2) show False by simp
    qed
    then show "lo = 0" unfolding lo_def by meson
  qed
  have "lo \<le> j" if "SLOT_RANDOMIZE cfg \<longrightarrow> unat r \<le> j" for j
    using that unfolding lo_def by auto
  then have "is_used_slot md j" if "j < slots" "SLOT_RANDOMIZE cfg \<longrightarrow> unat r \<le> j" "j < least_from ?P lo" for j
    using that least [of j] unfolding slot_free_def by blast
  moreover have "is_used_slot md j"
    if "SLOT_RANDOMIZE cfg" "least_from ?P lo < unat r" "j < slots" "unat r \<le> j \<or> j < least_from ?P lo" for j
    using 0 [OF that(1,2)] that(3,4) least [of j] unfolding slot_free_def by blast
  ultimately show ?thesis using ret holds(1) unfolding slot_free_def by blast
qed

theorem get_free_slot_correct_witness:
  "\<exists>slot rng w. get_free_slot default_config bump_kernel (blank_random_state\<lparr>rs_index := 4\<rparr>) 64
     zero_metadata start_world = Returned (slot, rng, w) \<and> slot < 64"
proof -
  let ?rng = "blank_random_state\<lparr>rs_index := 4\<rparr>"
  have "3 \<notin> used_slots zero_metadata" by simp
  then have free: "slot_free 64 zero_metadata 3" by (simp add: slot_free_def used.members_def)
  have "get_random_u16 bump_kernel ?rng start_world = Returned (0, ?rng\<lparr>rs_index := 6\<rparr>, start_world)"
    by (simp add: get_random_u16_def get_random_word_def blank_random_state_def numeral_2_eq_2)
  then obtain v where draw: "get_random_u16_uniform bump_kernel ?rng 64 start_world =
      Returned (v, ?rng\<lparr>rs_index := 6\<rparr>, start_world)"
    using u16_sampler.uniform_one_draw [of bump_kernel "(?rng, start_world)" 0 _ 64]
    by (auto simp: get_random_u16_uniform_def)
  moreover have "random_state_ok ?rng" by (simp add: random_state_ok_def blank_random_state_def)
  ultimately have "v < 64" using get_random_u16_uniform_ok by fastforce
  then have "unat v < 64" by (simp add: word_less_nat_alt)
  with draw get_free_slot_correct [OF _ free, of default_config bump_kernel ?rng start_world v]
  show ?thesis by fastforce
qed

text \<open>
  C34. The canary detects every change: the check right after \<^verbatim>\<open>set_canary\<close> passes, and it aborts with
  \<^verbatim>\<open>canary corrupted\<close> exactly when the eight bytes at the end of the slot no longer hold the value
  of the slab's metadata.
\<close>

theorem canary_detects:
  "check_canary cfg md p sz (set_canary cfg md p sz w) = Returned ()
   \<and> (check_canary cfg md p sz w' = Aborted ''canary corrupted'' \<longleftrightarrow>
       SLAB_CANARY cfg \<and> read_u64 (w_mem w') (p + sz - 8) \<noteq> md_canary_value md)"
  using check_canary_set by (auto simp: check_canary_def canary_size_def Let_def)

text \<open>
  C35. The write-after-free check is exact: for a slot whose checked length is a multiple of eight it
  aborts exactly when some byte of the freed memory is no longer zero.
\<close>

theorem write_after_free_detects:
  assumes "8 dvd unat sz"
  shows "write_after_free_check cfg p sz w =
    (if WRITE_AFTER_FREE_CHECK cfg \<and> (\<exists>i < unat sz. w_mem w (p + of_nat i) \<noteq> 0)
     then Aborted ''detected write after free'' else Returned ())"
  using waf_accum_zero_iff [OF assms] by (simp add: write_after_free_check_def)

theorem write_after_free_detects_witness:
  "write_after_free_check default_config 0x1000 24 (start_world\<lparr>w_mem := (\<lambda>_. 0)(0x1007 := 1)\<rparr>) =
     Aborted ''detected write after free''"
proof -
  let ?w = "start_world\<lparr>w_mem := (\<lambda>_. 0)(0x1007 := 1)\<rparr>"
  have "\<exists>i < unat (24 :: size_t). w_mem ?w (0x1000 + of_nat i) \<noteq> 0" by (rule exI [where x = 7]) simp
  with write_after_free_detects [where sz = 24 and cfg = default_config and p = "0x1000" and w = ?w]
  show ?thesis by (simp add: default_config_def)
qed

end
