(* ===== verification/Slab_Allocator.thy ===== *)
theory Slab_Allocator
  imports Slab_Metadata
begin

text \<open>
  The slab allocator of \<^verbatim>\<open>src/h_malloc.c\<close>: the state of one size class and the operations on it that
  run under the class's lock, from handing out metadata to \<^verbatim>\<open>allocate_small\<close> and \<^verbatim>\<open>deallocate_small\<close>.
  A pointer to slab metadata is the index of the metadata in the class's \<^verbatim>\<open>slab_info\<close> array (\<open>None\<close> is
  \<^verbatim>\<open>NULL\<close>). The operations take the class and return it updated; the choice of the class from the arena
  and the address is in the theory of the public interface.
\<close>

section \<open>State\<close>

record size_class =
  sc_class_region_start :: ptr
  sc_slab_info_base :: ptr
  sc_slab_info :: "nat \<Rightarrow> slab_metadata"
  sc_size_divisor :: libdivide_u32_t
  sc_slab_size_divisor :: libdivide_u64_t
  sc_size :: u32
  sc_slots :: u16
  sc_slab_size :: u32
  sc_partial_slabs :: "nat option"
  sc_empty_slabs :: "nat option"
  sc_empty_slabs_total :: size_t
  sc_free_slabs_head :: "nat option"
  sc_free_slabs_tail :: "nat option"
  sc_free_slabs_quarantine :: "nat option list"
  sc_nmalloc :: u64
  sc_ndalloc :: u64
  sc_allocated :: size_t
  sc_slab_allocated :: size_t
  sc_rng :: random_state
  sc_metadata_allocated :: nat
  sc_metadata_count :: nat
  sc_metadata_count_unguarded :: nat
  sc_quarantine_queue_index :: nat
  sc_quarantine_queue :: "ptr list"
  sc_quarantine_random :: "ptr list"

text \<open>\<^verbatim>\<open>c->slab_info[i]\<close> updated by \<open>f\<close>.\<close>

definition upd_info :: "nat \<Rightarrow> (slab_metadata \<Rightarrow> slab_metadata) \<Rightarrow> size_class \<Rightarrow> size_class" where
  "upd_info i f c = c\<lparr>sc_slab_info := (sc_slab_info c)(i := f (sc_slab_info c i))\<rparr>"

text \<open>
  \<^verbatim>\<open>sizeof(struct slab_metadata)\<close> on a 64-bit target: the fields in order, padded to 8 bytes.
\<close>

definition sizeof_slab_metadata :: "config \<Rightarrow> nat" where
  "sizeof_slab_metadata cfg =
     32 + 8 + 8 + (if SLAB_CANARY cfg then 8 else 0) + 8 + (if SLAB_QUARANTINE cfg then 32 else 0)"

section \<open>Slabs and their metadata\<close>

definition get_slab :: "size_class \<Rightarrow> size_t \<Rightarrow> nat \<Rightarrow> ptr" where
  "get_slab c slab_size i = sc_class_region_start c + of_nat i * slab_size"

definition get_metadata_max :: "config \<Rightarrow> size_t \<Rightarrow> nat" where
  "get_metadata_max cfg slab_size = unat (CLASS_REGION_SIZE cfg div slab_size)"

text \<open>The first half of \<^verbatim>\<open>alloc_metadata\<close>: make room in the metadata array; \<open>True\<close> is failure.\<close>

definition grow_metadata ::
    "config \<Rightarrow> kernel \<Rightarrow> size_class \<Rightarrow> size_t \<Rightarrow> world \<Rightarrow> (bool \<times> size_class \<times> world) outcome" where
  "grow_metadata cfg os c slab_size w =
     (if sc_metadata_count c \<ge> sc_metadata_allocated c then
        let metadata_max = get_metadata_max cfg slab_size in
        if sc_metadata_count c \<ge> metadata_max then Returned (True, c, set_errno ENOMEM w)
        else
          let allocate = max (sc_metadata_allocated c * 2) (4096 div sizeof_slab_metadata cfg);
              allocate = (if allocate > metadata_max then metadata_max else allocate) in
          bind_o (memory_protect_rw_metadata os (sc_slab_info_base c)
                    (of_nat (allocate * sizeof_slab_metadata cfg)) w) (\<lambda>(failed, w).
            if failed then Returned (True, c, w)
            else Returned (False, c\<lparr>sc_metadata_allocated := allocate\<rparr>, w))
      else Returned (False, c, w))"

text \<open>Its last lines: one more slab is in use, and after every interval a guard slab is skipped.\<close>

definition advance_metadata :: "config \<Rightarrow> size_class \<Rightarrow> size_class" where
  "advance_metadata cfg c =
     (let c = c\<lparr>sc_metadata_count := sc_metadata_count c + 1,
                sc_metadata_count_unguarded := sc_metadata_count_unguarded c + 1\<rparr>
      in if sc_metadata_count_unguarded c \<ge> GUARD_SLABS_INTERVAL cfg
         then c\<lparr>sc_metadata_count := sc_metadata_count c + 1, sc_metadata_count_unguarded := 0\<rparr>
         else c)"

definition alloc_metadata ::
    "config \<Rightarrow> kernel \<Rightarrow> size_class \<Rightarrow> size_t \<Rightarrow> bool \<Rightarrow> world \<Rightarrow>
     (nat option \<times> size_class \<times> world) outcome" where
  "alloc_metadata cfg os c slab_size non_zero_size w =
     bind_o (grow_metadata cfg os c slab_size w) (\<lambda>(failed, c, w).
       if failed then Returned (None, c, w)
       else
         let metadata = sc_metadata_count c;
             slab = get_slab c slab_size metadata in
         bind_o (if non_zero_size then memory_protect_rw os slab slab_size w else Returned (False, w))
           (\<lambda>(failed, w).
             if failed then Returned (None, c, w)
             else Returned (Some metadata, advance_metadata cfg c, w)))"

definition get_metadata :: "size_class \<Rightarrow> ptr \<Rightarrow> nat outcome" where
  "get_metadata c p =
     (let offset = p - sc_class_region_start c;
          index = unat (libdivide_u64_do offset (sc_slab_size_divisor c))
      in if index \<ge> sc_metadata_allocated c
         then Aborted ''invalid free within a slab yet to be used''
         else Returned index)"

text \<open>\<^verbatim>\<open>libdivide_u32_do((char *)p - (char *)slab, &c->size_divisor)\<close>\<close>

definition slot_of :: "size_class \<Rightarrow> ptr \<Rightarrow> ptr \<Rightarrow> nat" where
  "slot_of c p slab = unat (libdivide_u32_do (ucast (p - slab)) (sc_size_divisor c))"

section \<open>Statistics\<close>

definition stats_small_allocate :: "config \<Rightarrow> size_class \<Rightarrow> size_t \<Rightarrow> size_class" where
  "stats_small_allocate cfg c sz =
     (if CONFIG_STATS cfg then c\<lparr>sc_allocated := sc_allocated c + sz, sc_nmalloc := sc_nmalloc c + 1\<rparr> else c)"

definition stats_small_deallocate :: "config \<Rightarrow> size_class \<Rightarrow> size_t \<Rightarrow> size_class" where
  "stats_small_deallocate cfg c sz =
     (if CONFIG_STATS cfg then c\<lparr>sc_allocated := sc_allocated c - sz, sc_ndalloc := sc_ndalloc c + 1\<rparr> else c)"

definition stats_slab_allocate :: "config \<Rightarrow> size_class \<Rightarrow> size_t \<Rightarrow> size_class" where
  "stats_slab_allocate cfg c slab_size =
     (if CONFIG_STATS cfg then c\<lparr>sc_slab_allocated := sc_slab_allocated c + slab_size\<rparr> else c)"

definition stats_slab_deallocate :: "config \<Rightarrow> size_class \<Rightarrow> size_t \<Rightarrow> size_class" where
  "stats_slab_deallocate cfg c slab_size =
     (if CONFIG_STATS cfg then c\<lparr>sc_slab_allocated := sc_slab_allocated c - slab_size\<rparr> else c)"

section \<open>Allocation\<close>

text \<open>
  The steps that every path of \<^verbatim>\<open>allocate_small\<close> ends with: find a free slot of slab \<open>i\<close>, mark it, and
  (for a nonzero request) check the freed memory where the slab was in use before, and set the canary.
\<close>

definition take_slot ::
    "config \<Rightarrow> kernel \<Rightarrow> size_class \<Rightarrow> nat \<Rightarrow> world \<Rightarrow> (nat \<times> size_class \<times> world) outcome" where
  "take_slot cfg os c i w =
     bind_o (get_free_slot cfg os (sc_rng c) (unat (sc_slots c)) (sc_slab_info c i) w) (\<lambda>(slot, rng, w).
       Returned (slot, upd_info i (\<lambda>md. set_used_slot md slot) (c\<lparr>sc_rng := rng\<rparr>), w))"

definition prepare_slot ::
    "config \<Rightarrow> bool \<Rightarrow> size_t \<Rightarrow> slab_metadata \<Rightarrow> ptr \<Rightarrow> size_t \<Rightarrow> world \<Rightarrow> world outcome" where
  "prepare_slot cfg reused requested_size md p sz w =
     (if requested_size \<noteq> 0 then
        bind_o (if reused then write_after_free_check cfg p (sz - canary_size cfg) w else Returned ())
          (\<lambda>_. Returned (set_canary cfg md p sz w))
      else Returned w)"

definition set_class_canary ::
    "config \<Rightarrow> kernel \<Rightarrow> size_class \<Rightarrow> nat \<Rightarrow> world \<Rightarrow> (size_class \<times> world) outcome" where
  "set_class_canary cfg os c i w =
     bind_o (set_slab_canary_value cfg os (sc_slab_info c i) (sc_rng c) w) (\<lambda>(md, rng, w).
       Returned (upd_info i (\<lambda>_. md) (c\<lparr>sc_rng := rng\<rparr>), w))"

text \<open>The changes of the slab lists: a slab leaves the empty or the free list, starts or leaves the partial list.\<close>

definition unlink_empty :: "size_class \<Rightarrow> nat \<Rightarrow> size_class" where
  "unlink_empty c i =
     (let c = c\<lparr>sc_empty_slabs := md_next (sc_slab_info c i),
                sc_empty_slabs_total := sc_empty_slabs_total c - ucast (sc_slab_size c)\<rparr>
      in upd_info i (\<lambda>md. md\<lparr>md_next := None, md_prev := None\<rparr>) c)"

definition unlink_free :: "size_class \<Rightarrow> nat \<Rightarrow> size_class" where
  "unlink_free c i =
     (let c = c\<lparr>sc_free_slabs_head := md_next (sc_slab_info c i)\<rparr>;
          c = (if sc_free_slabs_head c = None then c\<lparr>sc_free_slabs_tail := None\<rparr> else c)
      in upd_info i (\<lambda>md. md\<lparr>md_next := None, md_prev := None\<rparr>) c)"

definition start_partial :: "size_class \<Rightarrow> nat \<Rightarrow> size_class" where
  "start_partial c i = c\<lparr>sc_partial_slabs := if unat (sc_slots c) > 1 then Some i else None\<rparr>"

definition drop_full :: "size_class \<Rightarrow> nat \<Rightarrow> size_class" where
  "drop_full c i =
     (let c = c\<lparr>sc_partial_slabs := md_next (sc_slab_info c i)\<rparr>
      in case sc_partial_slabs c of
           None \<Rightarrow> c
         | Some j \<Rightarrow> upd_info j (\<lambda>md. md\<lparr>md_prev := None\<rparr>) c)"

text \<open>No partial slab, but a cached empty one.\<close>

definition allocate_small_empty ::
    "config \<Rightarrow> kernel \<Rightarrow> size_class \<Rightarrow> nat \<Rightarrow> size_t \<Rightarrow> size_t \<Rightarrow> world \<Rightarrow>
     (ptr \<times> size_class \<times> world) outcome" where
  "allocate_small_empty cfg os c i requested_size sz w =
     (let slab_size = ucast (sc_slab_size c) :: size_t;
          c = start_partial (unlink_empty c i) i;
          slab = get_slab c slab_size i in
      bind_o (take_slot cfg os c i w) (\<lambda>(slot, c, w).
        let p = slot_pointer sz slab slot in
        bind_o (prepare_slot cfg True requested_size (sc_slab_info c i) p sz w) (\<lambda>w.
          Returned (p, stats_small_allocate cfg c sz, w))))"

text \<open>No partial or empty slab, but a purged one on the free list.\<close>

definition allocate_small_free ::
    "config \<Rightarrow> kernel \<Rightarrow> size_class \<Rightarrow> nat \<Rightarrow> size_t \<Rightarrow> size_t \<Rightarrow> world \<Rightarrow>
     (ptr \<times> size_class \<times> world) outcome" where
  "allocate_small_free cfg os c i requested_size sz w =
     (let slab_size = ucast (sc_slab_size c) :: size_t in
      bind_o (set_class_canary cfg os c i w) (\<lambda>(c, w).
        let slab = get_slab c slab_size i in
        bind_o (if requested_size \<noteq> 0 then memory_protect_rw os slab slab_size w else Returned (False, w))
          (\<lambda>(failed, w).
            if failed then Returned (NULL, c, w)
            else
              let c = start_partial (unlink_free c i) i in
              bind_o (take_slot cfg os c i w) (\<lambda>(slot, c, w).
                let p = slot_pointer sz slab slot in
                bind_o (prepare_slot cfg False requested_size (sc_slab_info c i) p sz w) (\<lambda>w.
                  Returned (p, stats_small_allocate cfg (stats_slab_allocate cfg c slab_size) sz, w))))))"

text \<open>No slab to reuse: a new one.\<close>

definition allocate_small_new ::
    "config \<Rightarrow> kernel \<Rightarrow> size_class \<Rightarrow> size_t \<Rightarrow> size_t \<Rightarrow> world \<Rightarrow>
     (ptr \<times> size_class \<times> world) outcome" where
  "allocate_small_new cfg os c requested_size sz w =
     (let slab_size = ucast (sc_slab_size c) :: size_t in
      bind_o (alloc_metadata cfg os c slab_size (requested_size \<noteq> 0) w) (\<lambda>(metadata, c, w).
        case metadata of
          None \<Rightarrow> Returned (NULL, c, w)
        | Some i \<Rightarrow>
            bind_o (set_class_canary cfg os c i w) (\<lambda>(c, w).
              let c = start_partial c i;
                  slab = get_slab c slab_size i in
              bind_o (take_slot cfg os c i w) (\<lambda>(slot, c, w).
                let p = slot_pointer sz slab slot in
                bind_o (prepare_slot cfg False requested_size (sc_slab_info c i) p sz w) (\<lambda>w.
                  Returned (p, stats_small_allocate cfg (stats_slab_allocate cfg c slab_size) sz, w))))))"

text \<open>The first partial slab has a free slot; a slab that becomes full leaves the list.\<close>

definition allocate_small_partial ::
    "config \<Rightarrow> kernel \<Rightarrow> size_class \<Rightarrow> nat \<Rightarrow> size_t \<Rightarrow> size_t \<Rightarrow> world \<Rightarrow>
     (ptr \<times> size_class \<times> world) outcome" where
  "allocate_small_partial cfg os c i requested_size sz w =
     (let slab_size = ucast (sc_slab_size c) :: size_t in
      bind_o (take_slot cfg os c i w) (\<lambda>(slot, c, w).
        let c = (if \<not> has_free_slots (unat (sc_slots c)) (sc_slab_info c i) then drop_full c i else c);
            slab = get_slab c slab_size i;
            p = slot_pointer sz slab slot in
        bind_o (prepare_slot cfg True requested_size (sc_slab_info c i) p sz w) (\<lambda>w.
          Returned (p, stats_small_allocate cfg c sz, w))))"

text \<open>\<^verbatim>\<open>allocate_small\<close> on the class that serves the request; \<open>sz\<close> is the size of its slots.\<close>

definition allocate_small_class ::
    "config \<Rightarrow> kernel \<Rightarrow> size_class \<Rightarrow> size_t \<Rightarrow> size_t \<Rightarrow> world \<Rightarrow>
     (ptr \<times> size_class \<times> world) outcome" where
  "allocate_small_class cfg os c requested_size sz w =
     (case sc_partial_slabs c of
        None \<Rightarrow>
          (case sc_empty_slabs c of
             Some i \<Rightarrow> allocate_small_empty cfg os c i requested_size sz w
           | None \<Rightarrow>
               (case sc_free_slabs_head c of
                  Some i \<Rightarrow> allocate_small_free cfg os c i requested_size sz w
                | None \<Rightarrow> allocate_small_new cfg os c requested_size sz w))
      | Some i \<Rightarrow> allocate_small_partial cfg os c i requested_size sz w)"

section \<open>Deallocation\<close>

definition append_free :: "size_class \<Rightarrow> nat \<Rightarrow> size_class" where
  "append_free c s =
     (let c = (case sc_free_slabs_tail c of
                 Some t \<Rightarrow> upd_info t (\<lambda>md. md\<lparr>md_next := Some s\<rparr>) c
               | None \<Rightarrow> c\<lparr>sc_free_slabs_head := Some s\<rparr>)
      in c\<lparr>sc_free_slabs_tail := Some s\<rparr>)"

definition enqueue_free_slab ::
    "config \<Rightarrow> kernel \<Rightarrow> size_class \<Rightarrow> nat \<Rightarrow> world \<Rightarrow> (size_class \<times> world) outcome" where
  "enqueue_free_slab cfg os c i w =
     (let c = upd_info i (\<lambda>md. md\<lparr>md_next := None\<rparr>) c in
      bind_o
        (if FREE_SLABS_QUARANTINE_RANDOM_LENGTH cfg > 0 then
           bind_o (get_random_u16_uniform os (sc_rng c) (of_nat (FREE_SLABS_QUARANTINE_RANDOM_LENGTH cfg)) w)
             (\<lambda>(r, rng, w).
               let index = unat r;
                   substitute = sc_free_slabs_quarantine c ! index
               in Returned (substitute,
                    c\<lparr>sc_rng := rng,
                      sc_free_slabs_quarantine := (sc_free_slabs_quarantine c)[index := Some i]\<rparr>, w))
         else Returned (Some i, c, w))
        (\<lambda>(substitute, c, w).
          Returned (case substitute of None \<Rightarrow> c | Some s \<Rightarrow> append_free c s, w)))"

definition quarantine_shift :: "config \<Rightarrow> size_t \<Rightarrow> nat" where
  "quarantine_shift cfg sz = clz64 sz - (63 - MAX_SLAB_SIZE_CLASS_SHIFT cfg)"

text \<open>
  The random stage of the slab quarantine: the freed pointer takes a random place of the array and
  the pointer it displaces (\<^verbatim>\<open>NULL\<close> when the place was free) moves on.
\<close>

definition quarantine_random_stage ::
    "config \<Rightarrow> kernel \<Rightarrow> size_class \<Rightarrow> size_t \<Rightarrow> ptr \<Rightarrow> world \<Rightarrow> (ptr \<times> size_class \<times> world) outcome" where
  "quarantine_random_stage cfg os c sz p w =
     (if SLAB_QUARANTINE_RANDOM_LENGTH cfg > 0 then
        let len = SLAB_QUARANTINE_RANDOM_LENGTH cfg * 2 ^ quarantine_shift cfg sz in
        bind_o
          (if SLAB_QUARANTINE_RANDOM_LENGTH cfg * 2 ^ (MAX_SLAB_SIZE_CLASS_SHIFT cfg - MIN_SLAB_SIZE_CLASS_SHIFT)
                \<le> 65535
           then bind_o (get_random_u16_uniform os (sc_rng c) (of_nat len) w)
                  (\<lambda>(r, rng, w). Returned (unat r, rng, w))
           else bind_o (get_random_u32_uniform os (sc_rng c) (of_nat len) w)
                  (\<lambda>(r, rng, w). Returned (unat r, rng, w)))
          (\<lambda>(random_index, rng, w).
            Returned (sc_quarantine_random c ! random_index,
              c\<lparr>sc_rng := rng, sc_quarantine_random := (sc_quarantine_random c)[random_index := p]\<rparr>, w))
      else Returned (p, c, w))"

text \<open>The queue stage: a ring buffer; the pointer at the current place moves on.\<close>

definition quarantine_queue_stage :: "config \<Rightarrow> size_class \<Rightarrow> size_t \<Rightarrow> ptr \<Rightarrow> ptr \<times> size_class" where
  "quarantine_queue_stage cfg c sz p =
     (if SLAB_QUARANTINE_QUEUE_LENGTH cfg > 0 then
        let len = SLAB_QUARANTINE_QUEUE_LENGTH cfg * 2 ^ quarantine_shift cfg sz;
            queue_substitute = sc_quarantine_queue c ! sc_quarantine_queue_index c;
            next_queue_index = sc_quarantine_queue_index c + 1
        in (queue_substitute,
            c\<lparr>sc_quarantine_queue := (sc_quarantine_queue c)[sc_quarantine_queue_index c := p],
              sc_quarantine_queue_index := if next_queue_index < len then next_queue_index else 0\<rparr>)
      else (p, c))"

text \<open>Both stages; \<^verbatim>\<open>NULL\<close> when the freed pointer stays in quarantine and nothing leaves it.\<close>

definition slab_quarantine ::
    "config \<Rightarrow> kernel \<Rightarrow> size_class \<Rightarrow> size_t \<Rightarrow> ptr \<Rightarrow> world \<Rightarrow> (ptr \<times> size_class \<times> world) outcome" where
  "slab_quarantine cfg os c sz p w =
     bind_o (quarantine_random_stage cfg os c sz p w) (\<lambda>(p, c, w).
       if p = NULL then Returned (NULL, c, w)
       else let (p, c) = quarantine_queue_stage cfg c sz p in Returned (p, c, w))"

text \<open>
  The last part of \<^verbatim>\<open>deallocate_small\<close>: slot \<open>slot\<close> of slab \<open>i\<close> becomes free; a full slab goes to the front
  of the partial list, a slab without used slots leaves it for the empty list or, when enough empty
  slabs are cached, is purged and put on the free list.
\<close>

definition push_partial :: "size_class \<Rightarrow> nat \<Rightarrow> size_class" where
  "push_partial c i =
     (let c = upd_info i (\<lambda>md. md\<lparr>md_next := sc_partial_slabs c, md_prev := None\<rparr>) c;
          c = (case sc_partial_slabs c of
                 Some j \<Rightarrow> upd_info j (\<lambda>md. md\<lparr>md_prev := Some i\<rparr>) c | None \<Rightarrow> c)
      in c\<lparr>sc_partial_slabs := Some i\<rparr>)"

definition unlink_partial :: "size_class \<Rightarrow> nat \<Rightarrow> size_class" where
  "unlink_partial c i =
     (let c = (case md_prev (sc_slab_info c i) of
                 Some j \<Rightarrow> upd_info j (\<lambda>md. md\<lparr>md_next := md_next (sc_slab_info c i)\<rparr>) c
               | None \<Rightarrow> c\<lparr>sc_partial_slabs := md_next (sc_slab_info c i)\<rparr>);
          c = (case md_next (sc_slab_info c i) of
                 Some j \<Rightarrow> upd_info j (\<lambda>md. md\<lparr>md_prev := md_prev (sc_slab_info c i)\<rparr>) c
               | None \<Rightarrow> c)
      in upd_info i (\<lambda>md. md\<lparr>md_prev := None\<rparr>) c)"

definition push_empty :: "size_class \<Rightarrow> size_t \<Rightarrow> nat \<Rightarrow> size_class" where
  "push_empty c slab_size i =
     (let c = upd_info i (\<lambda>md. md\<lparr>md_next := sc_empty_slabs c\<rparr>) c
      in c\<lparr>sc_empty_slabs := Some i, sc_empty_slabs_total := sc_empty_slabs_total c + slab_size\<rparr>)"

definition retire_slab ::
    "config \<Rightarrow> kernel \<Rightarrow> size_class \<Rightarrow> ptr \<Rightarrow> nat \<Rightarrow> world \<Rightarrow> (size_class \<times> world) outcome" where
  "retire_slab cfg os c slab i w =
     (let slab_size = ucast (sc_slab_size c) :: size_t;
          c = unlink_partial c i in
      if sc_empty_slabs_total c + slab_size > max_empty_slabs_total cfg then
        let saved_errno = w_errno w in
        bind_o (memory_map_fixed os slab slab_size w) (\<lambda>(failed, w).
          if \<not> failed then
            enqueue_free_slab cfg os (stats_slab_deallocate cfg c slab_size) i w
          else
            bind_o (memory_purge os slab slab_size w) (\<lambda>(_, w).
              Returned (push_empty c slab_size i, set_errno saved_errno w)))
      else Returned (push_empty c slab_size i, w))"

definition release_slot ::
    "config \<Rightarrow> kernel \<Rightarrow> size_class \<Rightarrow> ptr \<Rightarrow> nat \<Rightarrow> nat \<Rightarrow> world \<Rightarrow> (size_class \<times> world) outcome" where
  "release_slot cfg os c slab i slot w =
     (let c = (if \<not> has_free_slots (unat (sc_slots c)) (sc_slab_info c i) then push_partial c i else c);
          c = upd_info i (\<lambda>md. clear_used_slot md slot) c in
      if is_free_slab (sc_slab_info c i) then retire_slab cfg os c slab i w
      else Returned (c, w))"

text \<open>\<^verbatim>\<open>deallocate_small\<close> once the checks that come before the quarantine have passed.\<close>

definition finish_deallocate ::
    "config \<Rightarrow> kernel \<Rightarrow> size_class \<Rightarrow> nat \<Rightarrow> nat \<Rightarrow> ptr \<Rightarrow> world \<Rightarrow> (size_class \<times> world) outcome" where
  "finish_deallocate cfg os c i slot p w =
     (let sz = ucast (sc_size c) :: size_t; slab_size = ucast (sc_slab_size c) :: size_t in
      if SLAB_QUARANTINE cfg then
        if is_quarantine_slot (sc_slab_info c i) slot then Aborted ''double free (quarantine)''
        else
          let c = upd_info i (\<lambda>md. set_quarantine_slot md slot) c in
          bind_o (slab_quarantine cfg os c sz p w) (\<lambda>(p, c, w).
            if p = NULL then Returned (c, w)
            else
              bind_o (get_metadata c p) (\<lambda>i.
                let slab = get_slab c slab_size i;
                    slot = slot_of c p slab;
                    c = upd_info i (\<lambda>md. clear_quarantine_slot md slot) c
                in release_slot cfg os c slab i slot w))
      else release_slot cfg os c (get_slab c slab_size i) i slot w)"

text \<open>
  \<^verbatim>\<open>deallocate_small\<close> on the class \<open>class'\<close> that the address belongs to; \<open>expected_size\<close> is present for the
  sized variants.
\<close>

definition deallocate_small_class ::
    "config \<Rightarrow> kernel \<Rightarrow> size_class \<Rightarrow> nat \<Rightarrow> ptr \<Rightarrow> size_t option \<Rightarrow> world \<Rightarrow>
     (size_class \<times> world) outcome" where
  "deallocate_small_class cfg os c class' p expected_size w =
     (let sz = ucast (sc_size c) :: size_t;
          is_zero_size = (class' = 0) in
      if (case expected_size of None \<Rightarrow> False | Some e \<Rightarrow> (if is_zero_size then 0 else sz) \<noteq> e)
      then Aborted ''sized deallocation mismatch (small)''
      else
        let slab_size = ucast (sc_slab_size c) :: size_t;
            c = stats_small_deallocate cfg c sz in
        bind_o (get_metadata c p) (\<lambda>i.
          let slab = get_slab c slab_size i;
              slot = slot_of c p slab in
          if slot_pointer sz slab slot \<noteq> p then Aborted ''invalid unaligned free''
          else if \<not> is_used_slot (sc_slab_info c i) slot then Aborted ''double free''
          else
            bind_o
              (if \<not> is_zero_size then
                 bind_o (check_canary cfg (sc_slab_info c i) p sz w) (\<lambda>_.
                   Returned (if ZERO_ON_FREE cfg
                     then w\<lparr>w_mem := memset p 0 (unat (sz - canary_size cfg)) (w_mem w)\<rparr> else w))
               else Returned w) (\<lambda>w.
              finish_deallocate cfg os c i slot p w)))"

section \<open>Initialisation\<close>

text \<open>The metadata of a class lives in fresh, zeroed pages.\<close>

definition zero_size_class :: "config \<Rightarrow> size_class" where
  "zero_size_class cfg =
     \<lparr>sc_class_region_start = NULL, sc_slab_info_base = NULL, sc_slab_info = (\<lambda>_. zero_metadata),
      sc_size_divisor = \<lparr>magic32 = 0, more32 = 0\<rparr>, sc_slab_size_divisor = \<lparr>magic64 = 0, more64 = 0\<rparr>,
      sc_size = 0, sc_slots = 0, sc_slab_size = 0,
      sc_partial_slabs = None, sc_empty_slabs = None, sc_empty_slabs_total = 0,
      sc_free_slabs_head = None, sc_free_slabs_tail = None,
      sc_free_slabs_quarantine = replicate (FREE_SLABS_QUARANTINE_RANDOM_LENGTH cfg) None,
      sc_nmalloc = 0, sc_ndalloc = 0, sc_allocated = 0, sc_slab_allocated = 0,
      sc_rng = blank_random_state, sc_metadata_allocated = 0, sc_metadata_count = 0,
      sc_metadata_count_unguarded = 0, sc_quarantine_queue_index = 0,
      sc_quarantine_queue = replicate (SLAB_QUARANTINE_QUEUE_LENGTH cfg *
        2 ^ (MAX_SLAB_SIZE_CLASS_SHIFT cfg - MIN_SLAB_SIZE_CLASS_SHIFT)) NULL,
      sc_quarantine_random = replicate (SLAB_QUARANTINE_RANDOM_LENGTH cfg *
        2 ^ (MAX_SLAB_SIZE_CLASS_SHIFT cfg - MIN_SLAB_SIZE_CLASS_SHIFT)) NULL\<rparr>"

text \<open>The fields that \<^verbatim>\<open>init_slow_path\<close> derives from the class number and the start of the region.\<close>

definition setup_size_class :: "config \<Rightarrow> nat \<Rightarrow> ptr \<Rightarrow> ptr \<Rightarrow> size_class \<Rightarrow> size_class outcome" where
  "setup_size_class cfg class' class_region_start slab_info c =
     (let sz = (let sz = ucast (size_classes cfg ! class') :: size_t in if sz = 0 then 16 else sz);
          slots = ucast (get_slots cfg class') :: u16;
          slab_size = ucast (get_slab_size (ucast slots) sz) :: u32 in
      bind_o (libdivide_u32_gen (ucast sz)) (\<lambda>size_divisor.
        bind_o (libdivide_u64_gen (ucast slab_size)) (\<lambda>slab_size_divisor.
          Returned (c\<lparr>sc_class_region_start := class_region_start, sc_size := ucast sz, sc_slots := slots,
                      sc_slab_size := slab_size, sc_size_divisor := size_divisor,
                      sc_slab_size_divisor := slab_size_divisor, sc_slab_info_base := slab_info\<rparr>))))"

definition ARENA_SIZE :: "config \<Rightarrow> size_t" where
  "ARENA_SIZE cfg = REAL_CLASS_REGION_SIZE cfg * of_nat (N_SIZE_CLASSES cfg)"

text \<open>The body of the loop of \<^verbatim>\<open>init_slow_path\<close> over arenas and classes: a random gap, then the fields.\<close>

definition init_size_class ::
    "config \<Rightarrow> kernel \<Rightarrow> ptr \<Rightarrow> nat \<Rightarrow> nat \<Rightarrow> ptr \<Rightarrow> size_class \<Rightarrow> random_state \<Rightarrow> world \<Rightarrow>
     (size_class \<times> random_state \<times> world) outcome" where
  "init_size_class cfg os slab_region_start arena class' slab_info c rng w =
     bind_o (random_state_init_from_random_state os (sc_rng c) rng w) (\<lambda>(crng, rng, w).
       let bound = (REAL_CLASS_REGION_SIZE cfg - CLASS_REGION_SIZE cfg) div PAGE_SIZE - 1 in
       bind_o (get_random_u64_uniform os rng bound w) (\<lambda>(r, rng, w).
         let gap = (r + 1) * PAGE_SIZE;
             start = slab_region_start + ARENA_SIZE cfg * of_nat arena
                     + REAL_CLASS_REGION_SIZE cfg * of_nat class' + gap in
         bind_o (setup_size_class cfg class' start slab_info (c\<lparr>sc_rng := crng\<rparr>)) (\<lambda>c.
           Returned (c, rng, w))))"

end
