(* ===== verification/Slab_Invariant.thy ===== *)
theory Slab_Invariant
  imports Slab_Allocator
begin

text \<open>
  The invariant of a size class and what it gives: addresses and slots correspond one to one, the
  three slab lists and the quarantines are disjoint, and a slab is on the partial list exactly when it
  has both used and free slots. Every step of allocation and deallocation keeps it.
\<close>

section \<open>Geometry of a class\<close>

abbreviation csize :: "size_class \<Rightarrow> nat" where "csize c \<equiv> unat (sc_size c)"
abbreviation cslots :: "size_class \<Rightarrow> nat" where "cslots c \<equiv> unat (sc_slots c)"
abbreviation cslab :: "size_class \<Rightarrow> nat" where "cslab c \<equiv> unat (sc_slab_size c)"

text \<open>The fields that \<^verbatim>\<open>init_slow_path\<close> sets once.\<close>

definition class_static :: "config \<Rightarrow> nat \<Rightarrow> size_class \<Rightarrow> bool" where
  "class_static cfg k c \<longleftrightarrow>
     config_valid cfg \<and> k < N_SIZE_CLASSES cfg \<and>
     csize c = slot_size cfg k \<and> cslots c = unat (get_slots cfg k) \<and>
     cslab c = unat (get_slab_size (get_slots cfg k) (of_nat (slot_size cfg k))) \<and>
     libdivide_u32_gen (sc_size c) = Returned (sc_size_divisor c) \<and>
     libdivide_u64_gen (ucast (sc_slab_size c)) = Returned (sc_slab_size_divisor c) \<and>
     0 < unat (sc_class_region_start c) \<and> 4096 dvd unat (sc_class_region_start c) \<and>
     unat (sc_class_region_start c) + CONFIG_CLASS_REGION_SIZE cfg < 2 ^ 64"

lemma class_static_geometry: "class_static cfg k c \<Longrightarrow> geometry (csize c) (cslots c) (cslab c)"
  using class_geometry(1) [of k cfg] by (simp add: class_static_def)

lemma geometry_pos:
  assumes "geometry sz slots slab"
  shows "0 < sz" "0 < slots" "slots \<le> 256" "0 < slab" "slab \<le> 131072" "sz \<le> slab" "slots * sz \<le> slab"
proof -
  show "0 < sz" "0 < slots" "slots \<le> 256" "slab \<le> 131072" "slots * sz \<le> slab"
    using assms by (auto simp: geometry_def)
  have "1 * sz \<le> slots * sz" "slots * sz \<le> slab" "16 \<le> sz"
    using assms by (auto simp: geometry_def simp del: mult_1 intro: mult_le_mono1)
  then show "sz \<le> slab" "0 < slab" by linarith+
qed

text \<open>The address of slot \<open>s\<close> of slab \<open>i\<close>.\<close>

definition slot_ptr :: "size_class \<Rightarrow> nat \<Rightarrow> nat \<Rightarrow> ptr" where
  "slot_ptr c i s = sc_class_region_start c + of_nat (i * cslab c + s * csize c)"

definition slot_in_slab :: "size_class \<Rightarrow> nat \<Rightarrow> bool" where
  "slot_in_slab c s \<longleftrightarrow> s * csize c < cslab c"

lemma ucast_of_nat_unat: "ucast (x :: 'a::len word) = (of_nat (unat x) :: 'b::len word)"
  by (simp add: of_nat_unat)

lemma unat_of_nat_lt: "n < 2 ^ LENGTH('a) \<Longrightarrow> unat (of_nat n :: 'a::len word) = n"
  by (simp add: unat_of_nat)

lemma slot_pointer_slot_ptr:
  "slot_pointer (ucast (sc_size c)) (get_slab c (ucast (sc_slab_size c)) i) s = slot_ptr c i s"
  unfolding slot_pointer_def get_slab_def slot_ptr_def ucast_of_nat_unat of_nat_add of_nat_mult
  by (simp only: add.assoc)

lemma libdivide_class:
  assumes "class_static cfg k c"
  shows "unat (libdivide_u64_do n (sc_slab_size_divisor c)) = unat n div cslab c"
    and "unat (libdivide_u32_do m (sc_size_divisor c)) = unat m div csize c"
proof -
  note pos = geometry_pos [OF class_static_geometry [OF assms]]
  have "(ucast (sc_slab_size c) :: u64) \<noteq> 0"
  proof
    assume "(ucast (sc_slab_size c) :: u64) = 0"
    then have "unat (ucast (sc_slab_size c) :: u64) = 0" by simp
    then show False using pos(4) by simp
  qed
  then show "unat (libdivide_u64_do n (sc_slab_size_divisor c)) = unat n div cslab c"
    using u64.exact_quotient [of "ucast (sc_slab_size c)"] assms by (auto simp: class_static_def unat_div)
  have "sc_size c \<noteq> 0" using pos(1) by auto
  then show "unat (libdivide_u32_do m (sc_size_divisor c)) = unat m div csize c"
    using u32.exact_quotient [of "sc_size c"] assms by (auto simp: class_static_def unat_div)
qed

lemma get_metadata_eq:
  assumes "class_static cfg k c"
  shows "get_metadata c p =
    (let i = unat (p - sc_class_region_start c) div cslab c
     in if sc_metadata_allocated c \<le> i then Aborted ''invalid free within a slab yet to be used'' else Returned i)"
  by (simp add: get_metadata_def libdivide_class [OF assms] Let_def)

lemma slot_of_eq:
  assumes "class_static cfg k c" "unat (p - sc_class_region_start c) div cslab c = i"
  shows "slot_of c p (get_slab c (ucast (sc_slab_size c)) i) =
    unat (p - sc_class_region_start c) mod cslab c div csize c"
proof -
  let ?off = "unat (p - sc_class_region_start c)"
  note pos = geometry_pos [OF class_static_geometry [OF assms(1)]]
  have "p - get_slab c (ucast (sc_slab_size c)) i = p - sc_class_region_start c - of_nat (i * cslab c)"
    by (simp only: get_slab_def ucast_of_nat_unat of_nat_mult diff_diff_eq)
  also have "\<dots> = of_nat (?off - i * cslab c)"
  proof -
    have "i * cslab c \<le> ?off" using assms(2) by (metis div_times_less_eq_dividend)
    then show ?thesis by (simp only: of_nat_diff) simp
  qed
  also have "?off - i * cslab c = ?off mod cslab c"
    using assms(2) by (metis minus_div_mult_eq_mod)
  finally have eq: "p - get_slab c (ucast (sc_slab_size c)) i = of_nat (?off mod cslab c)" .
  have "?off mod cslab c < cslab c" using pos(4) by (rule mod_less_divisor)
  then have lt: "?off mod cslab c < 2 ^ 32" using pos(5) by simp
  then have "unat (of_nat (?off mod cslab c) :: u64) = ?off mod cslab c"
    by (intro unat_of_nat_lt) simp
  then have "unat (ucast (of_nat (?off mod cslab c) :: u64) :: u32) = ?off mod cslab c"
    using lt unat_ucast_small [of "of_nat (?off mod cslab c) :: u64", where ?'b = 32] by simp
  then show ?thesis
    unfolding slot_of_def eq libdivide_class(2) [OF assms(1)] by (simp only:)
qed

text \<open>Offsets into the class's region.\<close>

lemma metadata_max_nat:
  assumes "class_static cfg k c"
  shows "get_metadata_max cfg (ucast (sc_slab_size c)) = CONFIG_CLASS_REGION_SIZE cfg div cslab c"
  using assms unat_CLASS_REGION_SIZE [of cfg]
  by (simp add: get_metadata_max_def class_static_def unat_div)

lemma slot_offset:
  assumes "class_static cfg k c" "i < get_metadata_max cfg (ucast (sc_slab_size c))" "slot_in_slab c s"
  shows "unat (slot_ptr c i s - sc_class_region_start c) = i * cslab c + s * csize c"
    and "unat (slot_ptr c i s) = unat (sc_class_region_start c) + (i * cslab c + s * csize c)"
    and "i * cslab c + s * csize c < CONFIG_CLASS_REGION_SIZE cfg"
proof -
  have le: "Suc i \<le> CONFIG_CLASS_REGION_SIZE cfg div cslab c"
    using assms(2) by (simp add: metadata_max_nat [OF assms(1)])
  have "Suc i * cslab c \<le> CONFIG_CLASS_REGION_SIZE cfg div cslab c * cslab c"
    using le by (rule mult_le_mono1)
  also have "\<dots> \<le> CONFIG_CLASS_REGION_SIZE cfg" by (rule div_times_less_eq_dividend)
  finally show lt: "i * cslab c + s * csize c < CONFIG_CLASS_REGION_SIZE cfg"
    using assms(3) by (simp add: slot_in_slab_def)
  have room: "unat (sc_class_region_start c) + CONFIG_CLASS_REGION_SIZE cfg < 2 ^ 64"
    using assms(1) by (simp add: class_static_def)
  have u: "unat (of_nat (i * cslab c + s * csize c) :: u64) = i * cslab c + s * csize c"
    using lt room by (intro unat_of_nat_lt) simp
  then show "unat (slot_ptr c i s - sc_class_region_start c) = i * cslab c + s * csize c"
    by (simp add: slot_ptr_def)
  show "unat (slot_ptr c i s) = unat (sc_class_region_start c) + (i * cslab c + s * csize c)"
    unfolding slot_ptr_def using u lt room
    by (subst unat_add_lt) (simp_all only: u, simp)
qed

lemma slot_ptr_lookup:
  assumes "class_static cfg k c" "i < get_metadata_max cfg (ucast (sc_slab_size c))" "slot_in_slab c s"
  shows "unat (slot_ptr c i s - sc_class_region_start c) div cslab c = i"
    and "unat (slot_ptr c i s - sc_class_region_start c) mod cslab c div csize c = s"
    and "slot_ptr c i s \<noteq> NULL"
proof -
  note pos = geometry_pos [OF class_static_geometry [OF assms(1)]]
  have s: "s * csize c < cslab c" using assms(3) by (simp add: slot_in_slab_def)
  show "unat (slot_ptr c i s - sc_class_region_start c) div cslab c = i"
    unfolding slot_offset(1) [OF assms] using s by simp
  show "unat (slot_ptr c i s - sc_class_region_start c) mod cslab c div csize c = s"
    unfolding slot_offset(1) [OF assms] using s pos(1) by simp
  have "0 < unat (slot_ptr c i s)"
    unfolding slot_offset(2) [OF assms] using assms(1) by (simp add: class_static_def)
  then show "slot_ptr c i s \<noteq> NULL" by auto
qed

lemma slot_ptr_inject:
  assumes "class_static cfg k c" "i < get_metadata_max cfg (ucast (sc_slab_size c))" "slot_in_slab c s"
    and "j < get_metadata_max cfg (ucast (sc_slab_size c))" "slot_in_slab c t"
  shows "slot_ptr c i s = slot_ptr c j t \<longleftrightarrow> i = j \<and> s = t"
  using slot_ptr_lookup(1,2) [OF assms(1-3)] slot_ptr_lookup(1,2) [OF assms(1,4,5)] by metis

lemma slot_in_slab_slots: "class_static cfg k c \<Longrightarrow> s < cslots c \<Longrightarrow> slot_in_slab c s"
proof -
  assume st: "class_static cfg k c" and s: "s < cslots c"
  note pos = geometry_pos [OF class_static_geometry [OF st]]
  have "s * csize c < cslots c * csize c" using s pos(1) by simp
  then show ?thesis unfolding slot_in_slab_def using pos(7) by (rule less_le_trans)
qed

text \<open>What the lookup of an arbitrary address in \<^verbatim>\<open>deallocate_small\<close> finds.\<close>

lemma lookup_any:
  assumes "class_static cfg k c" "get_metadata c p = Returned i"
    and "s = slot_of c p (get_slab c (ucast (sc_slab_size c)) i)"
  shows "i < sc_metadata_allocated c" "s < 256" "slot_in_slab c s"
    and "i = unat (p - sc_class_region_start c) div cslab c"
proof -
  let ?off = "unat (p - sc_class_region_start c)"
  note geo = class_static_geometry [OF assms(1)]
  note pos = geometry_pos [OF geo]
  show i: "i = ?off div cslab c" "i < sc_metadata_allocated c"
    using assms(2) by (auto simp: get_metadata_eq [OF assms(1)] Let_def split: if_splits)
  have s: "s = ?off mod cslab c div csize c"
    unfolding assms(3) by (rule slot_of_eq [OF assms(1)]) (simp add: i)
  have lt: "?off mod cslab c < cslab c" using pos(4) by (rule mod_less_divisor)
  show "s < 256" unfolding s using geometry_slot_bound(2) [OF geo lt] .
  have "s * csize c \<le> ?off mod cslab c" unfolding s by (rule div_times_less_eq_dividend)
  with lt show "slot_in_slab c s" by (simp add: slot_in_slab_def)
qed

section \<open>Linked lists of slabs\<close>

text \<open>
  The doubly linked list of partial slabs and the singly linked lists of empty and free slabs, as
  predicates that relate the head pointer to the list of indices it stands for.
\<close>

primrec dll :: "(nat \<Rightarrow> slab_metadata) \<Rightarrow> nat option \<Rightarrow> nat option \<Rightarrow> nat list \<Rightarrow> bool" where
  "dll info h pr [] \<longleftrightarrow> h = None"
| "dll info h pr (i # is) \<longleftrightarrow> h = Some i \<and> md_prev (info i) = pr \<and> dll info (md_next (info i)) (Some i) is"

primrec sll :: "(nat \<Rightarrow> slab_metadata) \<Rightarrow> nat option \<Rightarrow> nat list \<Rightarrow> bool" where
  "sll info h [] \<longleftrightarrow> h = None"
| "sll info h (i # is) \<longleftrightarrow> h = Some i \<and> sll info (md_next (info i)) is"

lemma dll_None [simp]: "dll info None pr is \<longleftrightarrow> is = []"
  by (cases "is") auto

lemma sll_None [simp]: "sll info None is \<longleftrightarrow> is = []"
  by (cases "is") auto

lemma dll_Some: "dll info (Some i) pr is \<longleftrightarrow>
    (\<exists>js. is = i # js \<and> md_prev (info i) = pr \<and> dll info (md_next (info i)) (Some i) js)"
  by (cases "is") auto

lemma sll_Some: "sll info (Some i) is \<longleftrightarrow> (\<exists>js. is = i # js \<and> sll info (md_next (info i)) js)"
  by (cases "is") auto

lemma dll_cong:
  "(\<And>i. i \<in> set is \<Longrightarrow> md_next (info' i) = md_next (info i) \<and> md_prev (info' i) = md_prev (info i)) \<Longrightarrow>
   dll info' h pr is = dll info h pr is"
  by (induction "is" arbitrary: h pr) auto

lemma sll_cong:
  "(\<And>i. i \<in> set is \<Longrightarrow> md_next (info' i) = md_next (info i)) \<Longrightarrow> sll info' h is = sll info h is"
  by (induction "is" arbitrary: h) auto

lemma dll_upd [simp]: "i \<notin> set is \<Longrightarrow> dll (info(i := md)) h pr is = dll info h pr is"
  by (rule dll_cong) auto

lemma sll_upd [simp]: "i \<notin> set is \<Longrightarrow> sll (info(i := md)) h is = sll info h is"
  by (rule sll_cong) auto

text \<open>Changing the predecessor of the first element.\<close>

lemma dll_set_prev:
  "dll info (Some i) pr (i # is) \<Longrightarrow> i \<notin> set is \<Longrightarrow> dll (info(i := (info i)\<lparr>md_prev := pr'\<rparr>)) (Some i) pr' (i # is)"
  by simp

lemma sll_append_last:
  assumes "sll info h (is @ [t])" "distinct (is @ [t])" "j \<notin> set (is @ [t])" "md_next (info j) = None"
  shows "sll (info(t := (info t)\<lparr>md_next := Some j\<rparr>)) h (is @ [t, j])"
  using assms by (induction "is" arbitrary: h) simp_all

lemma sll_last_next: "sll info h (is @ [t]) \<Longrightarrow> md_next (info t) = None"
  by (induction "is" arbitrary: h) auto

text \<open>Unlinking an inner element.\<close>

lemma dll_links:
  assumes "dll info h pr (xs @ i # ys)"
  shows "md_prev (info i) = (if xs = [] then pr else Some (last xs))"
    and "md_next (info i) = (if ys = [] then None else Some (hd ys))"
  using assms by (induction xs arbitrary: h pr) (auto split: if_splits, (cases ys; simp)+)

definition set_next :: "nat option \<Rightarrow> nat option \<Rightarrow> (nat \<Rightarrow> slab_metadata) \<Rightarrow> nat \<Rightarrow> slab_metadata" where
  "set_next j n info = (case j of Some j \<Rightarrow> info(j := (info j)\<lparr>md_next := n\<rparr>) | None \<Rightarrow> info)"

definition set_prev :: "nat option \<Rightarrow> nat option \<Rightarrow> (nat \<Rightarrow> slab_metadata) \<Rightarrow> nat \<Rightarrow> slab_metadata" where
  "set_prev j n info = (case j of Some j \<Rightarrow> info(j := (info j)\<lparr>md_prev := n\<rparr>) | None \<Rightarrow> info)"

lemma set_links:
  "md_next (set_next j n info a) = (if j = Some a then n else md_next (info a))"
  "md_prev (set_next j n info a) = md_prev (info a)"
  "md_prev (set_prev j n info a) = (if j = Some a then n else md_prev (info a))"
  "md_next (set_prev j n info a) = md_next (info a)"
  by (auto simp: set_next_def set_prev_def split: option.splits)

lemma dll_unlink:
  assumes "dll info h pr (xs @ i # ys)" "distinct (xs @ i # ys)" "pr \<notin> Some ` set (xs @ i # ys)"
    and "pi = (if xs = [] then pr else Some (last xs))" "ni = (if ys = [] then None else Some (hd ys))"
  shows "dll (set_prev ni pi (set_next pi ni info)) (if xs = [] then ni else h) pr (xs @ ys)"
  using assms
proof (induction xs arbitrary: h pr)
  case Nil
  have "dll (set_prev ni pi (set_next pi ni info)) ni pr ys"
  proof (cases ys)
    case (Cons y zs)
    then have "dll info (md_next (info y)) (Some y) zs" "ni = Some y" using Nil dll_links(2) [of info h pr "[]"] by auto
    moreover have "dll (set_prev ni pi (set_next pi ni info)) (md_next (info y)) (Some y) zs =
        dll info (md_next (info y)) (Some y) zs"
      using Nil Cons by (intro dll_cong) (auto simp: set_links)
    ultimately show ?thesis using Nil Cons by (auto simp: set_links)
  qed (use Nil in simp)
  then show ?case by simp
next
  case (Cons a xs)
  have h: "h = Some a" "md_prev (info a) = pr" "dll info (md_next (info a)) (Some a) (xs @ i # ys)"
    using Cons.prems(1) by auto
  have pi: "pi = (if xs = [] then Some a else Some (last xs))" using Cons.prems(4) by simp
  have IH: "dll (set_prev ni pi (set_next pi ni info)) (if xs = [] then ni else md_next (info a)) (Some a) (xs @ ys)"
    using Cons.prems h pi by (intro Cons.IH) auto
  have "ni \<noteq> Some a" using Cons.prems(2,5) by (auto split: if_splits)
  moreover have "pi = Some a \<longleftrightarrow> xs = []" using pi Cons.prems(2) by auto
  ultimately show ?case using h IH by (auto simp: set_links)
qed

section \<open>The invariant\<close>

definition somes :: "'a option list \<Rightarrow> 'a list" where
  "somes xs = List.map_filter id xs"

lemma somes_simps [simp]:
  "somes [] = []" "somes (None # xs) = somes xs" "somes (Some x # xs) = x # somes xs"
  by (simp_all add: somes_def List.map_filter_simps)

lemma set_somes [simp]: "set (somes xs) = {x. Some x \<in> set xs}"
proof (induction xs)
  case (Cons a xs)
  then show ?case by (cases a) auto
qed simp

text \<open>
  The lists: partial slabs \<open>ps\<close>, empty slabs \<open>es\<close>, free slabs \<open>fs\<close> and the slabs in the free-slab
  quarantine are disjoint and linked as the head pointers say.
\<close>

abbreviation fq_slabs :: "size_class \<Rightarrow> nat list" where
  "fq_slabs c \<equiv> somes (sc_free_slabs_quarantine c)"

definition live_slab :: "size_class \<Rightarrow> nat \<Rightarrow> bool" where
  "live_slab c i \<longleftrightarrow> i < sc_metadata_count c \<and> i < sc_metadata_allocated c"

abbreviation listed :: "size_class \<Rightarrow> nat list \<Rightarrow> nat list \<Rightarrow> nat list \<Rightarrow> nat list" where
  "listed c ps es fs \<equiv> ps @ es @ fs @ fq_slabs c"

definition lists_ok :: "config \<Rightarrow> size_class \<Rightarrow> nat list \<Rightarrow> nat list \<Rightarrow> nat list \<Rightarrow> bool" where
  "lists_ok cfg c ps es fs \<longleftrightarrow>
     dll (sc_slab_info c) (sc_partial_slabs c) None ps \<and>
     sll (sc_slab_info c) (sc_empty_slabs c) es \<and>
     sll (sc_slab_info c) (sc_free_slabs_head c) fs \<and>
     sc_free_slabs_tail c = (if fs = [] then None else Some (last fs)) \<and>
     distinct (listed c ps es fs) \<and>
     length (sc_free_slabs_quarantine c) = FREE_SLABS_QUARANTINE_RANDOM_LENGTH cfg \<and>
     (\<forall>i \<in> set (fq_slabs c). md_next (sc_slab_info c i) = None) \<and>
     (\<forall>i \<in> set (listed c ps es fs). live_slab c i) \<and>
     sc_empty_slabs_total c = of_nat (length es) * ucast (sc_slab_size c)"

text \<open>
  The slots: slab \<open>i\<close> has been handed out when \<open>live_slab\<close> holds. A slab on the partial list has used and
  free slots, the slabs on the other lists are unused, and a slab on no list is unused or full.
\<close>

abbreviation used_of :: "size_class \<Rightarrow> nat \<Rightarrow> nat set" where
  "used_of c i \<equiv> used_slots (sc_slab_info c i)"

definition slots_ok :: "config \<Rightarrow> size_class \<Rightarrow> nat list \<Rightarrow> nat list \<Rightarrow> nat list \<Rightarrow> bool" where
  "slots_ok cfg c ps es fs \<longleftrightarrow>
     (\<forall>i. metadata_ok (cslots c) (sc_slab_info c i)) \<and>
     (\<forall>i \<in> set ps. used_of c i \<noteq> {} \<and> card (used_of c i) < cslots c) \<and>
     (\<forall>i \<in> set (es @ fs @ fq_slabs c). used_of c i = {}) \<and>
     (\<forall>i. i \<notin> set ps \<longrightarrow> used_of c i = {} \<or> card (used_of c i) = cslots c) \<and>
     (\<forall>i. used_of c i \<noteq> {} \<longrightarrow> live_slab c i) \<and>
     (\<forall>i \<ge> sc_metadata_count c. sc_slab_info c i = zero_metadata) \<and>
     sc_metadata_count c \<le> Suc (sc_metadata_allocated c) \<and>
     sc_metadata_allocated c \<le> get_metadata_max cfg (ucast (sc_slab_size c))"

text \<open>
  The quarantine: the pointers held in the two arrays, and those in \<open>F\<close> that are on their way
  between them, are distinct and are exactly the slots whose quarantine bit is set.
\<close>

definition quarantine_ptrs :: "size_class \<Rightarrow> ptr list" where
  "quarantine_ptrs c = filter (\<lambda>p. p \<noteq> NULL) (sc_quarantine_random c @ sc_quarantine_queue c)"

definition quarantined :: "size_class \<Rightarrow> (nat \<times> nat) set" where
  "quarantined c = {(i, s). s \<in> quarantined_slots (sc_slab_info c i)}"

abbreviation quarantine_length :: "config \<Rightarrow> nat \<Rightarrow> nat" where
  "quarantine_length cfg n \<equiv> n * 2 ^ (MAX_SLAB_SIZE_CLASS_SHIFT cfg - MIN_SLAB_SIZE_CLASS_SHIFT)"

definition quarantine_ok :: "config \<Rightarrow> ptr list \<Rightarrow> size_class \<Rightarrow> bool" where
  "quarantine_ok cfg F c \<longleftrightarrow>
     length (sc_quarantine_random c) = quarantine_length cfg (SLAB_QUARANTINE_RANDOM_LENGTH cfg) \<and>
     length (sc_quarantine_queue c) = quarantine_length cfg (SLAB_QUARANTINE_QUEUE_LENGTH cfg) \<and>
     (0 < SLAB_QUARANTINE_QUEUE_LENGTH cfg \<longrightarrow>
       sc_quarantine_queue_index c < SLAB_QUARANTINE_QUEUE_LENGTH cfg * 2 ^ quarantine_shift cfg (ucast (sc_size c))) \<and>
     distinct (F @ quarantine_ptrs c) \<and>
     set (F @ quarantine_ptrs c) = (\<lambda>(i, s). slot_ptr c i s) ` quarantined c"

definition class_inv :: "config \<Rightarrow> nat \<Rightarrow> ptr list \<Rightarrow> size_class \<Rightarrow> nat list \<Rightarrow> nat list \<Rightarrow> nat list \<Rightarrow> bool" where
  "class_inv cfg k F c ps es fs \<longleftrightarrow>
     class_static cfg k c \<and> random_state_ok (sc_rng c) \<and> lists_ok cfg c ps es fs \<and>
     slots_ok cfg c ps es fs \<and> quarantine_ok cfg F c"

definition class_ok :: "config \<Rightarrow> nat \<Rightarrow> size_class \<Rightarrow> bool" where
  "class_ok cfg k c \<longleftrightarrow> (\<exists>ps es fs. class_inv cfg k [] c ps es fs)"

text \<open>
  The abstraction: the addresses handed out and not yet freed are those of the slots that are used
  and not quarantined.
\<close>

definition used_pairs :: "size_class \<Rightarrow> (nat \<times> nat) set" where
  "used_pairs c = {(i, s). s \<in> used_of c i}"

definition live :: "size_class \<Rightarrow> ptr set" where
  "live c = (\<lambda>(i, s). slot_ptr c i s) ` (used_pairs c - quarantined c)"

text \<open>Those not available for allocation: the live ones and the quarantined ones.\<close>

definition held :: "size_class \<Rightarrow> ptr set" where
  "held c = (\<lambda>(i, s). slot_ptr c i s) ` used_pairs c"

lemma live_held: "live c \<subseteq> held c"
  by (auto simp: live_def held_def)

section \<open>Updates that the invariant does not see\<close>

lemma upd_info_simps [simp]:
  "sc_slab_info (upd_info i f c) = (sc_slab_info c)(i := f (sc_slab_info c i))"
  "sc_class_region_start (upd_info i f c) = sc_class_region_start c"
  "sc_slab_info_base (upd_info i f c) = sc_slab_info_base c"
  "sc_size_divisor (upd_info i f c) = sc_size_divisor c"
  "sc_slab_size_divisor (upd_info i f c) = sc_slab_size_divisor c"
  "sc_size (upd_info i f c) = sc_size c" "sc_slots (upd_info i f c) = sc_slots c"
  "sc_slab_size (upd_info i f c) = sc_slab_size c"
  "sc_partial_slabs (upd_info i f c) = sc_partial_slabs c"
  "sc_empty_slabs (upd_info i f c) = sc_empty_slabs c"
  "sc_empty_slabs_total (upd_info i f c) = sc_empty_slabs_total c"
  "sc_free_slabs_head (upd_info i f c) = sc_free_slabs_head c"
  "sc_free_slabs_tail (upd_info i f c) = sc_free_slabs_tail c"
  "sc_free_slabs_quarantine (upd_info i f c) = sc_free_slabs_quarantine c"
  "sc_rng (upd_info i f c) = sc_rng c"
  "sc_metadata_allocated (upd_info i f c) = sc_metadata_allocated c"
  "sc_metadata_count (upd_info i f c) = sc_metadata_count c"
  "sc_quarantine_queue_index (upd_info i f c) = sc_quarantine_queue_index c"
  "sc_quarantine_queue (upd_info i f c) = sc_quarantine_queue c"
  "sc_quarantine_random (upd_info i f c) = sc_quarantine_random c"
  by (simp_all add: upd_info_def)

text \<open>Two classes with the same static fields have the same geometry.\<close>

definition same_static :: "size_class \<Rightarrow> size_class \<Rightarrow> bool" where
  "same_static c c' \<longleftrightarrow>
     sc_class_region_start c' = sc_class_region_start c \<and> sc_size_divisor c' = sc_size_divisor c \<and>
     sc_slab_size_divisor c' = sc_slab_size_divisor c \<and> sc_size c' = sc_size c \<and>
     sc_slots c' = sc_slots c \<and> sc_slab_size c' = sc_slab_size c"

lemma same_static_refl [simp]: "same_static c c"
  by (simp add: same_static_def)

lemma same_static_class_static: "same_static c c' \<Longrightarrow> class_static cfg k c' = class_static cfg k c"
  by (simp add: same_static_def class_static_def)

lemma same_static_slot_ptr: "same_static c c' \<Longrightarrow> slot_ptr c' = slot_ptr c"
  by (intro ext) (simp add: same_static_def slot_ptr_def)

text \<open>Fields that only count or label.\<close>

lemma class_inv_stats [simp]:
  "class_inv cfg k F (stats_small_allocate cfg c n) ps es fs = class_inv cfg k F c ps es fs"
  "class_inv cfg k F (stats_small_deallocate cfg c n) ps es fs = class_inv cfg k F c ps es fs"
  "class_inv cfg k F (stats_slab_allocate cfg c n) ps es fs = class_inv cfg k F c ps es fs"
  "class_inv cfg k F (stats_slab_deallocate cfg c n) ps es fs = class_inv cfg k F c ps es fs"
  by (simp_all add: class_inv_def class_static_def lists_ok_def slots_ok_def live_slab_def quarantine_ok_def
      quarantine_ptrs_def quarantined_def slot_ptr_def stats_small_allocate_def stats_small_deallocate_def
      stats_slab_allocate_def stats_slab_deallocate_def)

lemma live_stats [simp]:
  "live (stats_small_allocate cfg c n) = live c" "live (stats_small_deallocate cfg c n) = live c"
  "live (stats_slab_allocate cfg c n) = live c" "live (stats_slab_deallocate cfg c n) = live c"
  by (simp_all add: live_def used_pairs_def quarantined_def slot_ptr_def stats_small_allocate_def
      stats_small_deallocate_def stats_slab_allocate_def stats_slab_deallocate_def)

section \<open>Used slots and addresses\<close>

lemma class_invD:
  assumes "class_inv cfg k F c ps es fs"
  shows "class_static cfg k c" "random_state_ok (sc_rng c)" "lists_ok cfg c ps es fs"
    "slots_ok cfg c ps es fs" "quarantine_ok cfg F c"
  using assms by (auto simp: class_inv_def)

lemma slots_okD:
  assumes "slots_ok cfg c ps es fs"
  shows "metadata_ok (cslots c) (sc_slab_info c i)"
    "i \<in> set ps \<Longrightarrow> used_of c i \<noteq> {}" "i \<in> set ps \<Longrightarrow> card (used_of c i) < cslots c"
    "i \<in> set es \<or> i \<in> set fs \<or> i \<in> set (fq_slabs c) \<Longrightarrow> used_of c i = {}"
    "i \<notin> set ps \<Longrightarrow> used_of c i = {} \<or> card (used_of c i) = cslots c"
    "used_of c i \<noteq> {} \<Longrightarrow> live_slab c i"
    "sc_metadata_count c \<le> i \<Longrightarrow> sc_slab_info c i = zero_metadata"
    "sc_metadata_allocated c \<le> get_metadata_max cfg (ucast (sc_slab_size c))"
    "sc_metadata_count c \<le> Suc (sc_metadata_allocated c)"
  using assms unfolding slots_ok_def set_append Un_iff ball_Un by blast+

definition valid_pair :: "config \<Rightarrow> size_class \<Rightarrow> nat \<times> nat \<Rightarrow> bool" where
  "valid_pair cfg c = (\<lambda>(i, s). i < get_metadata_max cfg (ucast (sc_slab_size c)) \<and> s < cslots c)"

lemma quarantined_used: "slots_ok cfg c ps es fs \<Longrightarrow> quarantined c \<subseteq> used_pairs c"
  using slots_okD(1) by (fastforce simp: quarantined_def used_pairs_def metadata_ok_def)

lemma used_valid:
  assumes "slots_ok cfg c ps es fs" "x \<in> used_pairs c"
  shows "valid_pair cfg c x"
proof -
  obtain i s where x: "x = (i, s)" "s \<in> used_of c i" using assms(2) by (auto simp: used_pairs_def)
  then have "live_slab c i" using slots_okD(6) [OF assms(1)] by blast
  moreover have "s < cslots c" using slots_okD(1) [OF assms(1), of i] x(2) by (auto simp: metadata_ok_def)
  ultimately show ?thesis
    using slots_okD(8) [OF assms(1)] x(1) by (simp add: valid_pair_def live_slab_def)
qed

lemma slot_ptr_inj_on:
  assumes "class_static cfg k c"
  shows "inj_on (\<lambda>(i, s). slot_ptr c i s) {x. valid_pair cfg c x}"
proof (rule inj_onI, clarify)
  fix i s j t
  assume "valid_pair cfg c (i, s)" "valid_pair cfg c (j, t)" "slot_ptr c i s = slot_ptr c j t"
  then show "i = j \<and> s = t"
    using slot_ptr_inject [OF assms, of i s j t] slot_in_slab_slots [OF assms]
    by (simp add: valid_pair_def)
qed

text \<open>The live set after one slot became used, quarantined or free.\<close>

lemma live_image:
  assumes "class_static cfg k c" "\<And>x. x \<in> A \<Longrightarrow> valid_pair cfg c x" "valid_pair cfg c y"
  shows "(\<lambda>(i, s). slot_ptr c i s) ` (A - {y}) = (\<lambda>(i, s). slot_ptr c i s) ` A - {case y of (i, s) \<Rightarrow> slot_ptr c i s}"
    and "(case y of (i, s) \<Rightarrow> slot_ptr c i s) \<in> (\<lambda>(i, s). slot_ptr c i s) ` A \<longleftrightarrow> y \<in> A"
proof -
  have "insert y A \<subseteq> {x. valid_pair cfg c x}" using assms(2,3) by blast
  then have inj: "inj_on (\<lambda>(i, s). slot_ptr c i s) (insert y A)"
    by (rule inj_on_subset [OF slot_ptr_inj_on [OF assms(1)]])
  then show "(\<lambda>(i, s). slot_ptr c i s) ` (A - {y}) = (\<lambda>(i, s). slot_ptr c i s) ` A - {case y of (i, s) \<Rightarrow> slot_ptr c i s}"
    using inj_on_image_set_diff [OF inj, of A "{y}"] by (cases y) auto
  show "(case y of (i, s) \<Rightarrow> slot_ptr c i s) \<in> (\<lambda>(i, s). slot_ptr c i s) ` A \<longleftrightarrow> y \<in> A"
    using inj_on_image_mem_iff [OF inj insertI1 subset_insertI] by (cases y) simp
qed

lemma live_insert:
  assumes "class_static cfg k c" "slots_ok cfg c ps es fs" "same_static c c'"
    and "(i, s) \<notin> used_pairs c" "valid_pair cfg c (i, s)"
    and "used_pairs c' = insert (i, s) (used_pairs c)" "quarantined c' = quarantined c"
  shows "live c' = insert (slot_ptr c i s) (live c)" "slot_ptr c i s \<notin> held c"
proof -
  have "(i, s) \<notin> quarantined c" using quarantined_used [OF assms(2)] assms(4) by blast
  then show "live c' = insert (slot_ptr c i s) (live c)"
    by (auto simp: live_def assms(6,7) same_static_slot_ptr [OF assms(3)])
  show "slot_ptr c i s \<notin> held c"
    using live_image(2) [OF assms(1) used_valid [OF assms(2)] assms(5)] assms(4) unfolding held_def by simp
qed

section \<open>Taking a slot\<close>

lemma slot_free_used:
  assumes "slots \<le> 256"
  shows "slot_free slots md s \<longleftrightarrow> s < slots \<and> s \<notin> used_slots md"
  using assms by (auto simp: slot_free_def used.members_def)

lemma take_slot_ok:
  assumes "take_slot cfg os c i w = Returned (s, c', w')" "class_static cfg k c" "random_state_ok (sc_rng c)"
    and "metadata_ok (cslots c) (sc_slab_info c i)" "card (used_of c i) < cslots c"
  obtains rng where "slot_free (cslots c) (sc_slab_info c i) s" "random_state_ok rng" "same_memory w w'"
    "c' = upd_info i (\<lambda>md. set_used_slot md s) (c\<lparr>sc_rng := rng\<rparr>)"
proof -
  note pos = geometry_pos [OF class_static_geometry [OF assms(2)]]
  obtain rng where g: "get_free_slot cfg os (sc_rng c) (cslots c) (sc_slab_info c i) w = Returned (s, rng, w')"
    and c': "c' = upd_info i (\<lambda>md. set_used_slot md s) (c\<lparr>sc_rng := rng\<rparr>)"
    using assms(1) by (auto simp: take_slot_def outcome_simps)
  have "\<exists>k. slot_free (cslots c) (sc_slab_info c i) k"
    using has_free_slots_iff [OF assms(4) pos(3)] assms(4,5) by (simp add: has_free_slots_def metadata_ok_def)
  from get_free_slot_ok [OF g pos(2,3) this assms(3)] c' show ?thesis by (intro that) auto
qed

end
