(* ===== verification/Slab_Correct.thy ===== *)
theory Slab_Correct
  imports Slab_Invariant
begin

text \<open>
  Every operation on a size class keeps the class invariant. The list operations are followed first
  (they change only links), then the slots they concern, then the quarantines; allocation and
  deallocation combine them and are shown to add one address to, or take one address from, the set
  of live addresses.
\<close>

section \<open>Operations that change links only\<close>

definition same_slots :: "slab_metadata \<Rightarrow> slab_metadata \<Rightarrow> bool" where
  "same_slots md md' \<longleftrightarrow>
     md_bitmap md' = md_bitmap md \<and> md_quarantine_bitmap md' = md_quarantine_bitmap md \<and>
     md_count md' = md_count md"

text \<open>\<open>touch I c c'\<close>: from \<open>c\<close> to \<open>c'\<close> only the slots of the slabs in \<open>I\<close>, links, heads and the generator changed.\<close>

definition touch :: "nat set \<Rightarrow> size_class \<Rightarrow> size_class \<Rightarrow> bool" where
  "touch I c c' \<longleftrightarrow>
     same_static c c' \<and>
     sc_metadata_count c' = sc_metadata_count c \<and> sc_metadata_allocated c' = sc_metadata_allocated c \<and>
     sc_quarantine_queue_index c' = sc_quarantine_queue_index c \<and>
     sc_quarantine_queue c' = sc_quarantine_queue c \<and> sc_quarantine_random c' = sc_quarantine_random c \<and>
     (\<forall>j. j \<notin> I \<longrightarrow> same_slots (sc_slab_info c j) (sc_slab_info c' j)) \<and>
     (\<forall>j \<ge> sc_metadata_count c. sc_slab_info c' j = sc_slab_info c j)"

lemma touch_refl [simp]: "touch I c c"
  by (simp add: touch_def same_slots_def)

lemma touch_trans [trans]: "touch I c c' \<Longrightarrow> touch J c' c'' \<Longrightarrow> touch (I \<union> J) c c''"
  by (simp add: touch_def same_slots_def same_static_def)

lemma touch_static: "touch I c c' \<Longrightarrow> same_static c c'"
  by (simp add: touch_def)

lemma touch_live_slab: "touch I c c' \<Longrightarrow> live_slab c' = live_slab c"
  by (simp add: touch_def live_slab_def fun_eq_iff)

lemma touch_slots:
  assumes "touch I c c'" "j \<notin> I"
  shows "used_of c' j = used_of c j"
    and "quarantined_slots (sc_slab_info c' j) = quarantined_slots (sc_slab_info c j)"
    and "metadata_ok n (sc_slab_info c' j) = metadata_ok n (sc_slab_info c j)"
proof -
  have s: "same_slots (sc_slab_info c j) (sc_slab_info c' j)" using assms by (simp add: touch_def)
  then show u: "used_of c' j = used_of c j"
    by (intro slots_bitmap_only) (simp add: same_slots_def)
  from s show q: "quarantined_slots (sc_slab_info c' j) = quarantined_slots (sc_slab_info c j)"
    by (intro slots_bitmap_only) (simp add: same_slots_def)
  show "metadata_ok n (sc_slab_info c' j) = metadata_ok n (sc_slab_info c j)"
    using s unfolding metadata_ok_def u q by (simp add: same_slots_def)
qed

lemma touch_upd_info:
  "i \<in> I \<or> (\<forall>md. same_slots md (f md)) \<Longrightarrow> i < sc_metadata_count c \<Longrightarrow> touch I c (upd_info i f c)"
  by (auto simp: touch_def same_slots_def same_static_def)

lemma touch_rng [simp]: "touch I c (c'\<lparr>sc_rng := r\<rparr>) = touch I c c'" "touch I (c\<lparr>sc_rng := r\<rparr>) c' = touch I c c'"
  by (simp_all add: touch_def same_static_def)

lemma rng_update [simp]:
  "lists_ok cfg (c\<lparr>sc_rng := r\<rparr>) ps es fs = lists_ok cfg c ps es fs"
  "slots_ok cfg (c\<lparr>sc_rng := r\<rparr>) ps es fs = slots_ok cfg c ps es fs"
  "quarantine_ok cfg F (c\<lparr>sc_rng := r\<rparr>) = quarantine_ok cfg F c"
  "class_static cfg k (c\<lparr>sc_rng := r\<rparr>) = class_static cfg k c"
  "live (c\<lparr>sc_rng := r\<rparr>) = live c" "slot_ptr (c\<lparr>sc_rng := r\<rparr>) = slot_ptr c"
  "live_slab (c\<lparr>sc_rng := r\<rparr>) = live_slab c"
  by (auto simp: lists_ok_def slots_ok_def quarantine_ok_def class_static_def live_def live_slab_def
      used_pairs_def quarantined_def quarantine_ptrs_def slot_ptr_def fun_eq_iff)

lemma lists_ok_upd_info:
  assumes "\<And>md. md_next (f md) = md_next md \<and> md_prev (f md) = md_prev md"
  shows "lists_ok cfg (upd_info i f c) ps es fs = lists_ok cfg c ps es fs"
proof -
  have "dll (sc_slab_info (upd_info i f c)) h pr xs = dll (sc_slab_info c) h pr xs"
    "sll (sc_slab_info (upd_info i f c)) h xs = sll (sc_slab_info c) h xs" for h pr xs
    using assms by (auto intro!: dll_cong sll_cong)
  moreover have "md_next (sc_slab_info (upd_info i f c) j) = md_next (sc_slab_info c j)" for j
    using assms by simp
  ultimately show ?thesis
    unfolding lists_ok_def live_slab_def by (simp del: upd_info_simps(1))
qed

lemma lists_ok_partialD: "lists_ok cfg c ps es fs \<Longrightarrow> sc_partial_slabs c = (if ps = [] then None else Some (hd ps))"
  by (cases ps) (auto simp: lists_ok_def)

lemma lists_push_partial:
  assumes "lists_ok cfg c ps es fs" "i \<notin> set (listed c ps es fs)" "live_slab c i"
  shows "lists_ok cfg (push_partial c i) (i # ps) es fs" and "touch {} c (push_partial c i)"
proof -
  show "lists_ok cfg (push_partial c i) (i # ps) es fs"
    using assms by (cases ps) (auto simp: lists_ok_def push_partial_def live_slab_def Let_def)
  show "touch {} c (push_partial c i)"
    using assms by (cases ps) (auto simp: lists_ok_def push_partial_def live_slab_def Let_def touch_def
        same_slots_def same_static_def)
qed

text \<open>Unlinking from the partial list.\<close>

lemma unlink_partial_eq:
  assumes "md_prev (sc_slab_info c i) = pi" "md_next (sc_slab_info c i) = ni" "pi \<noteq> Some i" "ni \<noteq> Some i"
  shows "unlink_partial c i =
    c\<lparr>sc_slab_info := (set_prev ni pi (set_next pi ni (sc_slab_info c)))(i := (sc_slab_info c i)\<lparr>md_prev := None\<rparr>),
      sc_partial_slabs := if pi = None then ni else sc_partial_slabs c\<rparr>"
  using assms
  by (cases pi; cases ni) (auto simp: unlink_partial_def upd_info_def set_next_def set_prev_def Let_def fun_eq_iff)

lemma same_slots_set_links: "same_slots (info j) (set_prev a b (set_next a' b' info) j)"
  by (auto simp: same_slots_def set_prev_def set_next_def split: option.splits)

lemma lists_unlink_partial:
  assumes "lists_ok cfg c ps es fs" "i \<in> set ps"
  obtains ps' where "lists_ok cfg (unlink_partial c i) ps' es fs" "set ps' = set ps - {i}"
    "touch {} c (unlink_partial c i)" "sc_rng (unlink_partial c i) = sc_rng c"
    "fq_slabs (unlink_partial c i) = fq_slabs c"
proof -
  obtain xs ys where ps: "ps = xs @ i # ys" using split_list [OF assms(2)] by blast
  define pi where "pi = (if xs = [] then None else Some (last xs))"
  define ni where "ni = (if ys = [] then None else Some (hd ys))"
  have dll: "dll (sc_slab_info c) (sc_partial_slabs c) None (xs @ i # ys)"
    and dis: "distinct (listed c ps es fs)" and lv: "\<forall>j \<in> set (listed c ps es fs). live_slab c j"
    using assms(1) by (simp_all add: lists_ok_def ps)
  have pni: "pi \<noteq> Some i" "ni \<noteq> Some i" "pi \<in> insert None (Some ` set xs)" "ni \<in> insert None (Some ` set ys)"
    using dis by (auto simp: ps pi_def ni_def)
  have pn: "pi = None \<longleftrightarrow> xs = []" by (simp add: pi_def)
  note eq = unlink_partial_eq [OF dll_links [OF dll, folded pi_def ni_def] pni(1,2)]
  let ?info = "(set_prev ni pi (set_next pi ni (sc_slab_info c)))(i := (sc_slab_info c i)\<lparr>md_prev := None\<rparr>)"
  have "dll (set_prev ni pi (set_next pi ni (sc_slab_info c))) (if xs = [] then ni else sc_partial_slabs c) None (xs @ ys)"
    using dll dis by (intro dll_unlink) (auto simp: ps pi_def ni_def)
  then have d: "dll ?info (if pi = None then ni else sc_partial_slabs c) None (xs @ ys)"
    using dis pn by (simp add: ps)
  have nxt: "md_next (?info j) = md_next (sc_slab_info c j)" if "j \<notin> set ps" for j
    using that pni(3) by (auto simp: ps set_links)
  have s: "sll ?info h js = sll (sc_slab_info c) h js" if "set js \<inter> set ps = {}" for h js
    using that nxt by (intro sll_cong) blast
  have "set es \<inter> set ps = {}" "set fs \<inter> set ps = {}" "set (fq_slabs c) \<inter> set ps = {}"
    using dis by (auto simp: ps)
  then have "sll ?info h es = sll (sc_slab_info c) h es" "sll ?info h fs = sll (sc_slab_info c) h fs"
    "j \<in> set (fq_slabs c) \<Longrightarrow> md_next (?info j) = md_next (sc_slab_info c j)" for h j
    using s nxt by blast+
  moreover have "distinct (listed c (xs @ ys) es fs)" "\<forall>j \<in> set (listed c (xs @ ys) es fs). live_slab c j"
    using dis lv by (auto simp: ps)
  ultimately have "lists_ok cfg (unlink_partial c i) (xs @ ys) es fs"
    using assms(1) d unfolding eq lists_ok_def live_slab_def by (simp del: fun_upd_apply set_somes)
  moreover have "touch {} c (unlink_partial c i)"
  proof -
    have "same_slots (sc_slab_info c j) (?info j)" for j
      using same_slots_set_links by (auto simp: same_slots_def)
    moreover have "?info j = sc_slab_info c j" if "j \<ge> sc_metadata_count c" for j
    proof -
      have "\<not> live_slab c j" using that by (simp add: live_slab_def)
      then have "j \<notin> set ps" using lv by auto
      then have "j \<noteq> i" "pi \<noteq> Some j" "ni \<noteq> Some j" using pni(3,4) by (auto simp: ps)
      then show ?thesis by (auto simp: set_next_def set_prev_def split: option.splits)
    qed
    ultimately show ?thesis by (simp add: eq touch_def same_static_def)
  qed
  ultimately show ?thesis using dis by (intro that) (auto simp: ps eq)
qed

lemma lists_push_empty:
  assumes "lists_ok cfg c ps es fs" "i \<notin> set (listed c ps es fs)" "live_slab c i"
  shows "lists_ok cfg (push_empty c (ucast (sc_slab_size c)) i) ps (i # es) fs"
    and "touch {} c (push_empty c (ucast (sc_slab_size c)) i)"
  using assms
  by (auto simp: lists_ok_def push_empty_def live_slab_def Let_def touch_def same_slots_def same_static_def
      algebra_simps)

text \<open>The free-slab quarantine and the tail of the free list.\<close>

lemma somes_update:
  assumes "k < length xs" "distinct (somes xs)" "i \<notin> set (somes xs)"
  shows "set (somes (xs[k := Some i])) = insert i (set (somes xs) - set_option (xs ! k))
    \<and> distinct (somes (xs[k := Some i]))"
  using assms
proof (induction xs arbitrary: k)
  case (Cons a xs)
  have "j \<in> set (somes xs)" if "m < length xs" "xs ! m = Some j" for m j using that nth_mem by fastforce
  with Cons show ?case
    by (cases k; cases a) (auto simp del: set_somes simp: set_somes [symmetric])
qed simp

lemma lists_append_free:
  assumes "lists_ok cfg c ps es fs" "s \<notin> set (listed c ps es fs)" "live_slab c s" "md_next (sc_slab_info c s) = None"
  shows "lists_ok cfg (append_free c s) ps es (fs @ [s])" "touch {} c (append_free c s)"
    "fq_slabs (append_free c s) = fq_slabs c" "sc_rng (append_free c s) = sc_rng c"
proof -
  show "lists_ok cfg (append_free c s) ps es (fs @ [s])"
  proof (cases fs rule: rev_cases)
    case Nil
    then show ?thesis using assms by (auto simp: lists_ok_def append_free_def live_slab_def)
  next
    case (snoc gs t)
    have "sll (sc_slab_info c) (sc_free_slabs_head c) (gs @ [t])" using assms(1) by (simp add: lists_ok_def snoc)
    then have "sll ((sc_slab_info c)(t := (sc_slab_info c t)\<lparr>md_next := Some s\<rparr>)) (sc_free_slabs_head c) (gs @ [t, s])"
      using assms by (intro sll_append_last) (auto simp: lists_ok_def snoc)
    then show ?thesis
      using assms by (auto simp: lists_ok_def append_free_def live_slab_def snoc)
  qed
  show "touch {} c (append_free c s)"
    using assms by (cases fs rule: rev_cases)
      (auto simp: lists_ok_def append_free_def live_slab_def Let_def touch_def same_slots_def same_static_def)
qed (simp_all add: append_free_def Let_def split: option.splits)

lemma lists_quarantine_place:
  assumes "lists_ok cfg c ps es fs" "i \<notin> set (listed c ps es fs)" "live_slab c i"
    and "md_next (sc_slab_info c i) = None" "k < FREE_SLABS_QUARANTINE_RANDOM_LENGTH cfg"
  defines "c1 \<equiv> c\<lparr>sc_free_slabs_quarantine := (sc_free_slabs_quarantine c)[k := Some i]\<rparr>"
  shows "lists_ok cfg c1 ps es fs"
    and "set (fq_slabs c1) = insert i (set (fq_slabs c) - set_option (sc_free_slabs_quarantine c ! k))"
    and "sc_free_slabs_quarantine c ! k = Some s \<Longrightarrow> s \<in> set (fq_slabs c)"
proof -
  let ?q = "sc_free_slabs_quarantine c"
  have k: "k < length ?q" "distinct (fq_slabs c)" "i \<notin> set (fq_slabs c)"
    using assms(1,2,5) by (simp_all add: lists_ok_def)
  note upd = somes_update [OF k]
  show set: "set (fq_slabs c1) = insert i (set (fq_slabs c) - set_option (?q ! k))"
    using upd by (simp add: c1_def)
  have dis: "distinct (fq_slabs c1)" using upd by (simp add: c1_def)
  have "distinct (listed c1 ps es fs)" "\<forall>j \<in> set (listed c1 ps es fs). live_slab c j"
    "\<forall>j \<in> set (fq_slabs c1). md_next (sc_slab_info c j) = None"
    using assms(1-4) dis unfolding lists_ok_def distinct_append set_append set by auto
  moreover have "sc_slab_info c1 = sc_slab_info c" "sc_partial_slabs c1 = sc_partial_slabs c"
    "sc_empty_slabs c1 = sc_empty_slabs c" "sc_free_slabs_head c1 = sc_free_slabs_head c"
    "sc_free_slabs_tail c1 = sc_free_slabs_tail c" "live_slab c1 = live_slab c"
    "sc_empty_slabs_total c1 = sc_empty_slabs_total c" "sc_slab_size c1 = sc_slab_size c"
    "length (sc_free_slabs_quarantine c1) = length ?q"
    by (simp_all add: c1_def live_slab_def fun_eq_iff)
  ultimately show "lists_ok cfg c1 ps es fs"
    using assms(1) unfolding lists_ok_def by (simp del: set_somes)
  show "?q ! k = Some s \<Longrightarrow> s \<in> set (fq_slabs c)" using k(1) nth_mem by fastforce
qed

lemma lists_enqueue_free_slab:
  assumes "enqueue_free_slab cfg os c i w = Returned (c', w')" "lists_ok cfg c ps es fs"
    and "i \<notin> set (listed c ps es fs)" "live_slab c i" "random_state_ok (sc_rng c)" "config_valid cfg"
  obtains fs' where "lists_ok cfg c' ps es fs'" "touch {} c c'" "random_state_ok (sc_rng c')"
    "set fs' \<union> set (fq_slabs c') = insert i (set fs \<union> set (fq_slabs c))" "same_memory w w'"
proof -
  define c0 where "c0 = upd_info i (\<lambda>md. md\<lparr>md_next := None\<rparr>) c"
  let ?len = "FREE_SLABS_QUARANTINE_RANDOM_LENGTH cfg"
  have c0: "lists_ok cfg c0 ps es fs" "i \<notin> set (listed c0 ps es fs)" "live_slab c0 i"
    "md_next (sc_slab_info c0 i) = None" "touch {} c c0" "fq_slabs c0 = fq_slabs c" "sc_rng c0 = sc_rng c"
    using assms(2-4) by (auto simp: c0_def lists_ok_def live_slab_def touch_def same_slots_def same_static_def)
  show ?thesis
  proof (cases "?len > 0")
    case False
    then have "c' = append_free c0 i" "w' = w"
      using assms(1) by (simp_all add: enqueue_free_slab_def c0_def Let_def)
    with lists_append_free [OF c0(1-4)] c0 assms(5) show ?thesis
      using touch_trans [OF c0(5), of "{}"] by (intro that [of "fs @ [i]"]) auto
  next
    case True
    then obtain r rng where r: "get_random_u16_uniform os (sc_rng c0) (of_nat ?len) w = Returned (r, rng, w')"
      and c': "c' = (let c1 = c0\<lparr>sc_rng := rng, sc_free_slabs_quarantine := (sc_free_slabs_quarantine c0)[unat r := Some i]\<rparr>
          in case sc_free_slabs_quarantine c0 ! unat r of None \<Rightarrow> c1 | Some s \<Rightarrow> append_free c1 s)"
      using assms(1)
      by (auto simp: enqueue_free_slab_def Let_def c0_def [symmetric] outcome_simps)
    have "unat (of_nat ?len :: u16) = ?len" "(of_nat ?len :: u16) \<noteq> 0"
      using assms(6) True by (simp_all add: config_valid_def unat_of_nat of_nat_eq_0_iff word_of_nat_eq_0_iff nat_dvd_not_less)
    then have ok: "unat r < ?len" "random_state_ok rng" "same_memory w w'"
      using get_random_u16_uniform_ok [OF r] assms(5) c0(7) by (auto simp: word_less_nat_alt)
    define c1 where "c1 = c0\<lparr>sc_free_slabs_quarantine := (sc_free_slabs_quarantine c0)[unat r := Some i]\<rparr>"
    note place = lists_quarantine_place [OF c0(1-4) ok(1), folded c1_def]
    have t1: "touch {} c c1" using c0(5) by (simp add: c1_def touch_def same_static_def)
    show ?thesis
    proof (cases "sc_free_slabs_quarantine c0 ! unat r")
      case None
      then have "c' = c1\<lparr>sc_rng := rng\<rparr>" using c' by (simp add: c1_def Let_def)
      with None place t1 ok c0(6) show ?thesis by (intro that [of fs]) auto
    next
      case (Some s)
      have "c0\<lparr>sc_rng := rng, sc_free_slabs_quarantine := (sc_free_slabs_quarantine c0)[unat r := Some i]\<rparr> =
          c1\<lparr>sc_rng := rng\<rparr>" by (simp add: c1_def)
      with Some have c'': "c' = append_free (c1\<lparr>sc_rng := rng\<rparr>) s" using c' by (simp only: Let_def option.case)
      let ?c1 = "c1\<lparr>sc_rng := rng\<rparr>"
      have s: "s \<in> set (fq_slabs c0)" using place(3) [OF Some] .
      have "s \<notin> set (listed ?c1 ps es fs)" "live_slab ?c1 s" "md_next (sc_slab_info ?c1 s) = None"
        using s c0(1,2) place(2) by (auto simp: lists_ok_def Some live_slab_def c1_def simp del: set_somes)
      note app = lists_append_free [OF _ this, of cfg]
      show ?thesis
        using app [folded c''] place(1,2) s touch_trans [OF t1, of "{}" c'] ok c0(6)
        by (intro that [of "fs @ [s]"]) (auto simp: Some simp del: set_somes)
    qed
  qed
qed

section \<open>Slots that change in one slab\<close>

lemma slots_ok_touch:
  assumes "slots_ok cfg c ps es fs" "touch {i} c c'" "live_slab c i"
    and "metadata_ok (cslots c) (sc_slab_info c' i)"
    and "set ps' - {i} = set ps - {i}"
    and "set (es' @ fs' @ fq_slabs c') - {i} = set (es @ fs @ fq_slabs c) - {i}"
    and "i \<in> set ps' \<Longrightarrow> used_of c' i \<noteq> {} \<and> card (used_of c' i) < cslots c"
    and "i \<notin> set ps' \<Longrightarrow> used_of c' i = {} \<or> card (used_of c' i) = cslots c"
    and "i \<in> set (es' @ fs' @ fq_slabs c') \<Longrightarrow> used_of c' i = {}"
  shows "slots_ok cfg c' ps' es' fs'"
proof -
  note other = touch_slots [OF assms(2)]
  have st: "cslots c' = cslots c" "sc_slab_size c' = sc_slab_size c" "sc_metadata_count c' = sc_metadata_count c"
    "sc_metadata_allocated c' = sc_metadata_allocated c"
    using assms(2) by (simp_all add: touch_def same_static_def)
  have ps: "j \<in> set ps' \<longleftrightarrow> j \<in> set ps" if "j \<noteq> i" for j using that assms(5) by blast
  have es: "j \<in> set (es' @ fs' @ fq_slabs c') \<longleftrightarrow> j \<in> set (es @ fs @ fq_slabs c)" if "j \<noteq> i" for j
    using that assms(6) by blast
  have "metadata_ok (cslots c) (sc_slab_info c' j)" for j
    using assms(4) other(3) [of j] slots_okD(1) [OF assms(1)] by (cases "j = i") auto
  moreover have "used_of c' j \<noteq> {} \<and> card (used_of c' j) < cslots c" if "j \<in> set ps'" for j
    using that assms(7) other(1) [of j] ps [of j] slots_okD(2,3) [OF assms(1)] by (cases "j = i") auto
  moreover have "used_of c' j = {}" if "j \<in> set (es' @ fs' @ fq_slabs c')" for j
    using that assms(9) other(1) [of j] es [of j] slots_okD(4) [OF assms(1), of j] by (cases "j = i") auto
  moreover have "used_of c' j = {} \<or> card (used_of c' j) = cslots c" if "j \<notin> set ps'" for j
    using that assms(8) other(1) [of j] ps [of j] slots_okD(5) [OF assms(1), of j] by (cases "j = i") auto
  moreover have "live_slab c' j" if "used_of c' j \<noteq> {}" for j
    using that assms(3) other(1) [of j] slots_okD(6) [OF assms(1), of j] touch_live_slab [OF assms(2)]
    by (cases "j = i") auto
  moreover have "sc_slab_info c' j = zero_metadata" if "sc_metadata_count c \<le> j" for j
    using that assms(2) slots_okD(7) [OF assms(1)] by (simp add: touch_def)
  ultimately show ?thesis
    using slots_okD(8,9) [OF assms(1)] unfolding slots_ok_def st by blast
qed

lemma quarantine_ok_touch:
  assumes "touch I c c'" "quarantined c' = quarantined c"
  shows "quarantine_ok cfg F c' = quarantine_ok cfg F c"
  using assms same_static_slot_ptr [OF touch_static [OF assms(1)]]
  by (simp add: quarantine_ok_def quarantine_ptrs_def touch_def same_static_def)

lemma touch_links_pairs:
  assumes "touch {} c c'"
  shows "used_pairs c' = used_pairs c" "quarantined c' = quarantined c" "live c' = live c" "held c' = held c"
proof -
  show "used_pairs c' = used_pairs c" "quarantined c' = quarantined c"
    using touch_slots [OF assms] by (auto simp: used_pairs_def quarantined_def)
  then show "live c' = live c" "held c' = held c"
    by (simp_all add: live_def held_def same_static_slot_ptr [OF touch_static [OF assms]])
qed

lemma touch_pairs:
  assumes "touch {i} c c'"
  shows "used_pairs c' = {(j, t). if j = i then t \<in> used_of c' i else (j, t) \<in> used_pairs c}"
    and "quarantined c' = {(j, t). if j = i then t \<in> quarantined_slots (sc_slab_info c' i) else (j, t) \<in> quarantined c}"
proof -
  have *: "j \<noteq> i \<Longrightarrow> used_of c' j = used_of c j"
    "j \<noteq> i \<Longrightarrow> quarantined_slots (sc_slab_info c' j) = quarantined_slots (sc_slab_info c j)" for j
    using touch_slots(1,2) [OF assms] by simp_all
  show "used_pairs c' = {(j, t). if j = i then t \<in> used_of c' i else (j, t) \<in> used_pairs c}"
    unfolding used_pairs_def by (intro Collect_cong, clarify) (simp add: *)
  show "quarantined c' = {(j, t). if j = i then t \<in> quarantined_slots (sc_slab_info c' i) else (j, t) \<in> quarantined c}"
    unfolding quarantined_def by (intro Collect_cong, clarify) (simp add: *)
qed

lemma class_inv_touch:
  assumes "class_inv cfg k F c ps es fs" "touch I c c'" "lists_ok cfg c' ps' es' fs'" "slots_ok cfg c' ps' es' fs'"
    and "quarantine_ok cfg F' c'" "random_state_ok (sc_rng c')"
  shows "class_inv cfg k F' c' ps' es' fs'"
  using assms same_static_class_static [OF touch_static [OF assms(2)]] by (simp add: class_inv_def)

section \<open>Allocation\<close>

text \<open>An unused slab leaves its list, or is new, before it becomes the partial slab.\<close>

definition detached :: "size_class \<Rightarrow> nat \<Rightarrow> nat list \<Rightarrow> nat list \<Rightarrow> bool" where
  "detached c i es fs \<longleftrightarrow>
     i \<notin> set (listed c [] es fs) \<and> live_slab c i \<and> used_of c i = {} \<and>
     md_next (sc_slab_info c i) = None \<and> md_prev (sc_slab_info c i) = None"

lemma pop_empty:
  assumes "class_inv cfg k F c [] (i # es) fs"
  defines "c1 \<equiv> unlink_empty c i"
  shows "class_inv cfg k F c1 [] es fs" "detached c1 i es fs" "touch {} c c1" "sc_rng c1 = sc_rng c"
proof -
  note inv = class_invD [OF assms(1)]
  have lv: "live_slab c i" "i \<notin> set (listed c [] es fs)" using inv(3) by (auto simp: lists_ok_def)
  have u: "used_of c i = {}" using slots_okD(4) [OF inv(4), of i] by simp
  show rng: "sc_rng c1 = sc_rng c" by (simp add: c1_def unlink_empty_def)
  show t: "touch {} c c1"
    using lv(1) by (auto simp: c1_def unlink_empty_def touch_def same_slots_def same_static_def live_slab_def)
  have l: "lists_ok cfg c1 [] es fs"
    using inv(3) by (auto simp: lists_ok_def c1_def unlink_empty_def live_slab_def algebra_simps)
  have u1: "used_of c1 i = {}" using touch_slots(1) [OF t, of i] u by simp
  have ti: "touch {i} c c1" using touch_trans [OF t touch_refl] by simp
  have "slots_ok cfg c1 [] es fs"
  proof (rule slots_ok_touch [OF inv(4) ti lv(1)])
    show "metadata_ok (cslots c) (sc_slab_info c1 i)"
      using touch_slots(3) [OF t, of i] slots_okD(1) [OF inv(4)] by simp
  qed (use u1 in \<open>auto simp: c1_def unlink_empty_def\<close>)
  then show "class_inv cfg k F c1 [] es fs"
    using class_inv_touch [OF assms(1) t l] inv quarantine_ok_touch [OF t touch_links_pairs(2) [OF t]]
    by (simp add: rng)
  show "detached c1 i es fs"
    using u1 lv by (auto simp: detached_def c1_def unlink_empty_def live_slab_def)
qed

lemma pop_free:
  assumes "class_inv cfg k F c [] [] (i # fs)"
  defines "c1 \<equiv> unlink_free c i"
  shows "class_inv cfg k F c1 [] [] fs" "detached c1 i [] fs" "touch {} c c1" "sc_rng c1 = sc_rng c"
proof -
  note inv = class_invD [OF assms(1)]
  have lv: "live_slab c i" "i \<notin> set (listed c [] [] fs)" using inv(3) by (auto simp: lists_ok_def)
  have u: "used_of c i = {}" using slots_okD(4) [OF inv(4), of i] by simp
  show rng: "sc_rng c1 = sc_rng c" by (simp add: c1_def unlink_free_def Let_def)
  show t: "touch {} c c1"
    using lv(1) by (auto simp: c1_def unlink_free_def Let_def touch_def same_slots_def same_static_def live_slab_def)
  have l: "lists_ok cfg c1 [] [] fs"
    using inv(3) by (cases fs) (auto simp: lists_ok_def c1_def unlink_free_def Let_def live_slab_def)
  have u1: "used_of c1 i = {}" using touch_slots(1) [OF t, of i] u by simp
  have ti: "touch {i} c c1" using touch_trans [OF t touch_refl] by simp
  have "slots_ok cfg c1 [] [] fs"
  proof (rule slots_ok_touch [OF inv(4) ti lv(1)])
    show "metadata_ok (cslots c) (sc_slab_info c1 i)"
      using touch_slots(3) [OF t, of i] slots_okD(1) [OF inv(4)] by simp
  qed (use u1 in \<open>auto simp: c1_def unlink_free_def Let_def\<close>)
  then show "class_inv cfg k F c1 [] [] fs"
    using class_inv_touch [OF assms(1) t l] inv quarantine_ok_touch [OF t touch_links_pairs(2) [OF t]]
    by (simp add: rng)
  show "detached c1 i [] fs"
    using u1 lv by (auto simp: detached_def c1_def unlink_free_def Let_def live_slab_def)
qed

text \<open>New metadata.\<close>

lemma grow_metadata_ok:
  assumes "grow_metadata cfg os c sz w = Returned (failed, c', w')" "class_inv cfg k F c ps es fs"
    and "sz = ucast (sc_slab_size c)"
  shows "class_inv cfg k F c' ps es fs \<and> live c' = live c \<and> held c' = held c \<and> same_static c c' \<and>
    sc_metadata_count c' = sc_metadata_count c \<and> sc_slab_info c' = sc_slab_info c \<and>
    (\<not> failed \<longrightarrow> sc_metadata_count c' < sc_metadata_allocated c')"
proof (cases "sc_metadata_count c \<ge> sc_metadata_allocated c \<and> \<not> failed")
  case False
  then show ?thesis
    using assms(1,2) by (auto simp: grow_metadata_def outcome_simps Let_def split: if_splits)
next
  case True
  let ?max = "get_metadata_max cfg sz" and ?n = "4096 div sizeof_slab_metadata cfg"
  define a where "a = max (sc_metadata_allocated c * 2) ?n"
  note inv = class_invD [OF assms(2)]
  have c': "c' = c\<lparr>sc_metadata_allocated := if a > ?max then ?max else a\<rparr>" "sc_metadata_count c < ?max"
    using True assms(1)
    by (auto simp: grow_metadata_def outcome_simps Let_def a_def simp del: max.absorb3 max.absorb4 split: if_splits)
  have "3 \<le> ?n" by (simp add: sizeof_slab_metadata_def)
  then have gt: "sc_metadata_count c < a"
    using slots_okD(9) [OF inv(4)] unfolding a_def by linarith
  have "live_slab c' i" if "live_slab c i" for i
    using that c' gt by (auto simp: live_slab_def)
  then have "class_inv cfg k F c' ps es fs"
    using inv c' gt assms(3)
    by (auto simp: class_inv_def lists_ok_def slots_ok_def class_static_def quarantine_ok_def quarantine_ptrs_def
        quarantined_def slot_ptr_def c'(1) simp del: live_slab_def)
  moreover have "live c' = live c" "held c' = held c" "same_static c c'"
    by (simp_all add: c'(1) live_def held_def used_pairs_def quarantined_def slot_ptr_def same_static_def)
  ultimately show ?thesis using c' gt by auto
qed

lemma zero_metadata_links: "md_next zero_metadata = None" "md_prev zero_metadata = None"
  by (simp_all add: zero_metadata_def)

lemma advance_metadata_eq:
  "\<exists>n u. advance_metadata cfg c = c\<lparr>sc_metadata_count := n, sc_metadata_count_unguarded := u\<rparr>
     \<and> sc_metadata_count c < n \<and> n \<le> sc_metadata_count c + 2"
proof (cases "GUARD_SLABS_INTERVAL cfg \<le> sc_metadata_count_unguarded c + 1")
  case True
  then show ?thesis
    by (intro exI [of _ "sc_metadata_count c + 2"] exI [of _ 0]) (simp add: advance_metadata_def Let_def)
next
  case False
  then show ?thesis
    by (intro exI [of _ "sc_metadata_count c + 1"] exI [of _ "sc_metadata_count_unguarded c + 1"])
      (simp add: advance_metadata_def Let_def)
qed

lemma alloc_metadata_ok:
  assumes "alloc_metadata cfg os c sz nz w = Returned (r, c', w')" "class_inv cfg k F c [] es fs"
    and "sz = ucast (sc_slab_size c)"
  shows "class_inv cfg k F c' [] es fs" "live c' = live c" "same_static c c'"
    and "r = Some i \<Longrightarrow> detached c' i es fs" and "held c' = held c"
proof -
  obtain failed c1 w1 where g: "grow_metadata cfg os c sz w = Returned (failed, c1, w1)"
    using assms(1) by (auto simp: alloc_metadata_def outcome_simps)
  note grow = grow_metadata_ok [OF g assms(2,3)]
  have "class_inv cfg k F c' [] es fs \<and> live c' = live c \<and> held c' = held c \<and> same_static c c' \<and>
        (r = Some i \<longrightarrow> detached c' i es fs)"
  proof (cases "r")
    case None
    then have "c' = c1" using assms(1) g by (auto simp: alloc_metadata_def outcome_simps Let_def split: if_splits)
    with None grow show ?thesis by simp
  next
    case (Some j)
    have adv: "c' = advance_metadata cfg c1" "\<not> failed" and j0: "j = sc_metadata_count c1"
      using assms(1) g Some by (auto simp: alloc_metadata_def outcome_simps Let_def split: if_splits)
    obtain n u where c': "c' = c1\<lparr>sc_metadata_count := n, sc_metadata_count_unguarded := u\<rparr>" "\<not> failed"
      and j: "j = sc_metadata_count c1" "j < n" "n \<le> j + 2"
      using advance_metadata_eq [of cfg c1] adv j0 by metis
    note inv = class_invD [OF grow [THEN conjunct1]]
    have lt: "j < sc_metadata_allocated c1" using grow c'(2) j(1) by simp
    have z: "sc_slab_info c1 j = zero_metadata" using slots_okD(7) [OF inv(4)] j(1) by simp
    have mono: "live_slab c' i" if "live_slab c1 i" for i using that c' j by (auto simp: live_slab_def)
    have "\<forall>i \<in> set (listed c1 [] es fs). live_slab c' i" using inv(3) mono unfolding lists_ok_def by blast
    then have "lists_ok cfg c' [] es fs" using inv(3) by (simp add: lists_ok_def c'(1) del: set_somes)
    moreover have "\<forall>i. used_of c1 i \<noteq> {} \<longrightarrow> live_slab c' i" using slots_okD(6) [OF inv(4)] mono by blast
    then have "slots_ok cfg c' [] es fs"
      using inv(4) j lt by (simp add: slots_ok_def c'(1) del: set_somes)
    moreover have "quarantine_ok cfg F c'" "class_static cfg k c'" "random_state_ok (sc_rng c')"
      using inv by (simp_all add: c'(1) quarantine_ok_def class_static_def quarantine_ptrs_def quarantined_def slot_ptr_def)
    moreover have "j \<notin> set (listed c1 [] es fs)"
      using inv(3) j(1) unfolding lists_ok_def live_slab_def by blast
    then have "detached c' j es fs"
      using lt j(2) by (simp add: detached_def c'(1) z live_slab_def zero_metadata_links)
    moreover have "live c' = live c1" "held c' = held c1" "same_static c1 c'"
      by (simp_all add: c'(1) live_def held_def used_pairs_def quarantined_def slot_ptr_def same_static_def)
    ultimately show ?thesis
      using Some grow by (auto simp: class_inv_def same_static_def)
  qed
  then show "class_inv cfg k F c' [] es fs" "live c' = live c" "held c' = held c" "same_static c c'"
    "r = Some i \<Longrightarrow> detached c' i es fs" by blast+
qed

lemma set_class_canary_ok:
  assumes "set_class_canary cfg os c i w = Returned (c', w')" "class_inv cfg k F c ps es fs" "live_slab c i"
  shows "class_inv cfg k F c' ps es fs" "touch {} c c'" "same_memory w w'"
    and "md_next (sc_slab_info c' j) = md_next (sc_slab_info c j)" "md_prev (sc_slab_info c' j) = md_prev (sc_slab_info c j)"
    and "sc_free_slabs_quarantine c' = sc_free_slabs_quarantine c"
proof -
  note inv = class_invD [OF assms(2)]
  obtain v rng where c': "c' = upd_info i (\<lambda>md. md\<lparr>md_canary_value := v\<rparr>) (c\<lparr>sc_rng := rng\<rparr>)"
    and rng: "random_state_ok rng" "same_memory w w'"
  proof (cases "SLAB_CANARY cfg")
    case True
    with assms(1) obtain r rng where "get_random_u64 os (sc_rng c) w = Returned (r, rng, w')"
      "c' = upd_info i (\<lambda>md. md\<lparr>md_canary_value := r AND 0xffffffffffffff00\<rparr>) (c\<lparr>sc_rng := rng\<rparr>)"
      by (auto simp: set_class_canary_def set_slab_canary_value_def outcome_simps upd_info_def)
    with get_random_u64_ok inv(2) that show ?thesis by blast
  next
    case False
    then show ?thesis
      using assms(1) inv(2)
      by (intro that [of "md_canary_value (sc_slab_info c i)" "sc_rng c"])
        (auto simp: set_class_canary_def set_slab_canary_value_def upd_info_def)
  qed
  show t: "touch {} c c'"
    using assms(3) by (auto simp: c' live_slab_def touch_def same_slots_def same_static_def)
  have "lists_ok cfg c' ps es fs" using inv(3) unfolding c' by (subst lists_ok_upd_info) simp_all
  moreover have "slots_ok cfg c' ps es fs"
  proof (rule slots_ok_touch [OF inv(4) _ assms(3)])
    show "touch {i} c c'" using touch_trans [OF t touch_refl] by simp
    show "metadata_ok (cslots c) (sc_slab_info c' i)"
      using touch_slots(3) [OF t, of i] slots_okD(1) [OF inv(4)] by simp
  qed (use slots_okD(2-5) [OF inv(4), of i] touch_slots(1) [OF t, of i] in \<open>auto simp: c'\<close>)
  ultimately show "class_inv cfg k F c' ps es fs"
    using class_inv_touch [OF assms(2) t] rng inv(5) quarantine_ok_touch [OF t touch_links_pairs(2) [OF t]]
    by (simp add: c')
  show "md_next (sc_slab_info c' j) = md_next (sc_slab_info c j)" "md_prev (sc_slab_info c' j) = md_prev (sc_slab_info c j)"
    "sc_free_slabs_quarantine c' = sc_free_slabs_quarantine c" "same_memory w w'"
    by (simp_all add: c' rng)
qed

text \<open>Taking a slot of slab \<open>i\<close>, with any change of links before and after.\<close>

lemma use_slot_ok:
  assumes "class_inv cfg k F c ps es fs" "live_slab c i" "slot_free (cslots c) (sc_slab_info c i) s"
    and "touch {} c c1" "touch {} (upd_info i (\<lambda>md. set_used_slot md s) c1) c'"
    and "lists_ok cfg c' ps' es' fs'" "random_state_ok (sc_rng c')"
    and "set ps' = (if Suc (card (used_of c i)) < cslots c then insert i (set ps) else set ps - {i})"
    and "set (es' @ fs' @ fq_slabs c') = set (es @ fs @ fq_slabs c)" "i \<notin> set (es @ fs @ fq_slabs c)"
  shows "class_inv cfg k F c' ps' es' fs'" "live c' = insert (slot_ptr c i s) (live c)" "slot_ptr c i s \<notin> held c"
    "same_static c c'"
proof -
  note inv = class_invD [OF assms(1)]
  note pos = geometry_pos [OF class_static_geometry [OF inv(1)]]
  have sf: "s < cslots c" "s < 256" "s \<notin> used_of c i"
    using assms(3) pos(3) by (auto simp: slot_free_used)
  have i1: "i < sc_metadata_count c1" using assms(2,4) by (simp add: live_slab_def touch_def)
  have "touch {i} c1 (upd_info i (\<lambda>md. set_used_slot md s) c1)" using i1 by (intro touch_upd_info) auto
  then have t: "touch {i} c c'"
    using touch_trans [OF assms(4) touch_trans [OF _ assms(5)]] by simp
  show st: "same_static c c'" using t by (rule touch_static)
  have mok: "metadata_ok (cslots c) (sc_slab_info c1 i)" "used_of c1 i = used_of c i"
      "quarantined_slots (sc_slab_info c1 i) = quarantined_slots (sc_slab_info c i)"
    using touch_slots [OF assms(4)] slots_okD(1) [OF inv(4)] by simp_all
  have "slot_free (cslots c) (sc_slab_info c1 i) s" using sf mok(2) pos(3) by (simp add: slot_free_used)
  note set = set_used_ok [OF mok(1) this pos(3)]
  have new: "metadata_ok (cslots c) (sc_slab_info c' i)" "used_of c' i = insert s (used_of c i)"
      "quarantined_slots (sc_slab_info c' i) = quarantined_slots (sc_slab_info c i)"
    using touch_slots [OF assms(5), of i] set mok by simp_all
  have card: "card (used_of c' i) = Suc (card (used_of c i))" using sf(3) by (simp add: new(2))
  have le: "card (used_of c' i) \<le> cslots c" using card_used_le [OF new(1)] .
  have sl: "slots_ok cfg c' ps' es' fs'"
    by (rule slots_ok_touch [OF inv(4) t assms(2) new(1)])
      (use card le new(2) assms(8-10) in \<open>auto simp del: set_somes split: if_splits\<close>)
  have up: "used_pairs c' = insert (i, s) (used_pairs c)" "quarantined c' = quarantined c"
    using new(2,3) by (auto simp: touch_pairs [OF t]) (auto simp: used_pairs_def quarantined_def split: if_splits)
  show "class_inv cfg k F c' ps' es' fs'"
    using class_inv_touch [OF assms(1) t assms(6) sl] quarantine_ok_touch [OF t up(2)] inv(5) assms(7) by simp
  have v: "valid_pair cfg c (i, s)"
    using assms(2) slots_okD(8) [OF inv(4)] sf(1) by (simp add: valid_pair_def live_slab_def)
  have "(i, s) \<notin> used_pairs c" using sf(3) by (simp add: used_pairs_def)
  from live_insert [OF inv(1,4) st this v up]
  show "live c' = insert (slot_ptr c i s) (live c)" "slot_ptr c i s \<notin> held c" by blast+
qed

text \<open>What every path of \<^verbatim>\<open>allocate_small\<close> gives.\<close>

definition allocated_from :: "config \<Rightarrow> nat \<Rightarrow> size_class \<Rightarrow> ptr \<Rightarrow> size_class \<Rightarrow> bool" where
  "allocated_from cfg k c p c' \<longleftrightarrow>
     class_ok cfg k c' \<and> same_static c c' \<and>
     (p = NULL \<and> live c' = live c \<or>
      p \<noteq> NULL \<and> p \<notin> held c \<and> live c' = insert p (live c) \<and>
        (\<exists>i s. valid_pair cfg c (i, s) \<and> p = slot_ptr c i s))"

text \<open>
  The statistics on the allocations of a class, and the counts of its slabs; a call that fails leaves them alone.
\<close>

definition counters :: "size_class \<Rightarrow> size_t \<times> u64 \<times> u64" where
  "counters c = (sc_allocated c, sc_nmalloc c, sc_ndalloc c)"

definition counts :: "size_class \<Rightarrow> nat \<Rightarrow> u16" where
  "counts c i = md_count (sc_slab_info c i)"

lemma counters_upd_info [simp]: "counters (upd_info i f c) = counters c"
  by (simp add: counters_def upd_info_def)

lemma set_class_canary_counters:
  assumes "set_class_canary cfg os c i w = Returned (c', w')"
  shows "counters c' = counters c" "counts c' = counts c"
proof -
  obtain md rng where m: "set_slab_canary_value cfg os (sc_slab_info c i) (sc_rng c) w = Returned (md, rng, w')"
    and c': "c' = upd_info i (\<lambda>_. md) (c\<lparr>sc_rng := rng\<rparr>)"
    using assms by (auto simp: set_class_canary_def outcome_simps)
  have "md_count md = md_count (sc_slab_info c i)"
    using m by (auto simp: set_slab_canary_value_def Let_def outcome_simps split: if_splits)
  then show "counters c' = counters c" "counts c' = counts c" by (auto simp: c' counters_def counts_def upd_info_def fun_eq_iff)
qed

lemma alloc_metadata_counters:
  assumes "alloc_metadata cfg os c n z w = Returned (r, c', w')"
  shows "counters c' = counters c" "counts c' = counts c"
  using assms
  by (auto simp: alloc_metadata_def grow_metadata_def advance_metadata_def counters_def counts_def fun_eq_iff Let_def outcome_simps
      split: if_splits)

lemma allocated_fromI:
  assumes "class_inv cfg k [] c ps es fs" "same_static c c1" "live c1 = live c" "held c1 = held c"
    and "class_inv cfg k [] c' ps' es' fs'" "live c' = insert (slot_ptr c1 i s) (live c1)"
    and "slot_ptr c1 i s \<notin> held c1" "same_static c1 c'" "live_slab c' i" "s < cslots c"
  shows "allocated_from cfg k c (slot_ptr c i s) c'" "slot_ptr c i s \<noteq> NULL"
proof -
  note inv = class_invD [OF assms(1)] and inv' = class_invD [OF assms(5)]
  have st: "same_static c c'" using assms(2,8) by (simp add: same_static_def)
  have v: "valid_pair cfg c (i, s)"
    using slots_okD(8) [OF inv'(4)] assms(9,10) st by (simp add: valid_pair_def live_slab_def same_static_def)
  show nn: "slot_ptr c i s \<noteq> NULL"
    using slot_ptr_lookup(3) [OF inv(1)] slot_in_slab_slots [OF inv(1)] v by (simp add: valid_pair_def)
  show "allocated_from cfg k c (slot_ptr c i s) c'"
    using assms(3-7) same_static_slot_ptr [OF assms(2)] st v nn
    unfolding allocated_from_def class_ok_def by auto
qed

lemma adopt_slab_ok:
  assumes "class_inv cfg k F c [] es fs" "detached c i es fs"
    and "take_slot cfg os (start_partial c i) i w =
      Returned (s, c', w')"
  shows "class_inv cfg k F c' (if cslots c > 1 then [i] else []) es fs"
    "live c' = insert (slot_ptr c i s) (live c)" "slot_ptr c i s \<notin> held c" "same_static c c'"
    "same_memory w w'" "live_slab c' i" "s < cslots c"
proof -
  note inv = class_invD [OF assms(1)]
  note pos = geometry_pos [OF class_static_geometry [OF inv(1)]]
  let ?c1 = "c\<lparr>sc_partial_slabs := if unat (sc_slots c) > 1 then Some i else None\<rparr>"
  note take = assms(3) [unfolded start_partial_def]
  have "class_static cfg k ?c1" using inv(1) by (simp add: class_static_def)
  moreover have "metadata_ok (cslots ?c1) (sc_slab_info ?c1 i)" "card (used_of ?c1 i) < cslots ?c1"
    using slots_okD(1) [OF inv(4)] assms(2) pos(2) by (simp_all add: detached_def)
  ultimately obtain rng where s: "slot_free (cslots c) (sc_slab_info c i) s" "random_state_ok rng" "same_memory w w'"
    and c': "c' = upd_info i (\<lambda>md. set_used_slot md s) (?c1\<lparr>sc_rng := rng\<rparr>)"
    using take_slot_ok [OF take] inv(2) by auto
  have t: "touch {} c (?c1\<lparr>sc_rng := rng\<rparr>)" by (simp add: touch_def same_static_def same_slots_def)
  have "lists_ok cfg ?c1 (if cslots c > 1 then [i] else []) es fs"
    using inv(3) assms(2) by (auto simp: lists_ok_def detached_def live_slab_def)
  then have "lists_ok cfg c' (if cslots c > 1 then [i] else []) es fs"
    unfolding c' by (subst lists_ok_upd_info) (simp_all add: set_used_slot_def)
  note use = use_slot_ok [OF assms(1) _ s(1) t _ this, folded c']
  show "class_inv cfg k F c' (if cslots c > 1 then [i] else []) es fs"
    "live c' = insert (slot_ptr c i s) (live c)" "slot_ptr c i s \<notin> held c" "same_static c c'"
    using use assms(2) s(2) by (simp_all add: detached_def c')
  show "same_memory w w'" by (rule s(3))
  show "live_slab c' i" using assms(2) by (simp add: detached_def c' live_slab_def)
  show "s < cslots c" using s(1) by (simp add: slot_free_def)
qed

lemma allocated_from_stats [simp]:
  "allocated_from cfg k c p (stats_small_allocate cfg c' n) = allocated_from cfg k c p c'"
  "allocated_from cfg k c p (stats_slab_allocate cfg c' n) = allocated_from cfg k c p c'"
  unfolding allocated_from_def class_ok_def class_inv_stats live_stats
  by (simp_all add: same_static_def stats_small_allocate_def stats_slab_allocate_def)

lemma adopt_allocated:
  assumes "class_inv cfg k [] c ps' es' fs'" "class_inv cfg k [] c1 [] es fs" "detached c1 i es fs"
    and "take_slot cfg os (start_partial c1 i) i w =
      Returned (s, c2, w')"
    and "same_static c c1" "live c1 = live c" "held c1 = held c"
  shows "allocated_from cfg k c (slot_ptr c i s) c2" "slot_ptr c i s \<noteq> NULL"
proof -
  note ok = adopt_slab_ok [OF assms(2,3,4)]
  have "s < cslots c" using ok(7) assms(5) by (simp add: same_static_def)
  from allocated_fromI [OF assms(1,5,6,7) ok(1,2,3,4,6) this]
  show "allocated_from cfg k c (slot_ptr c i s) c2" "slot_ptr c i s \<noteq> NULL" by simp_all
qed

text \<open>The four paths.\<close>

lemma allocate_small_empty_ok:
  assumes "allocate_small_empty cfg os c i rs sz w = Returned (p, c', w')" "class_inv cfg k [] c [] (i # es) fs"
    and "sz = ucast (sc_size c)"
  shows "allocated_from cfg k c p c' \<and> (p = NULL \<longrightarrow> counters c' = counters c \<and> counts c' = counts c)"
proof -
  note pop = pop_empty [OF assms(2)]
  note st = touch_static [OF pop(3)]
  have sp: "slot_pointer sz (get_slab (start_partial (unlink_empty c i) i) (ucast (sc_slab_size c)) i) s = slot_ptr c i s" for s
    using slot_pointer_slot_ptr [of c i s] st assms(3) by (simp add: get_slab_def start_partial_def same_static_def)
  obtain s c2 w1 where take: "take_slot cfg os (start_partial (unlink_empty c i) i) i w = Returned (s, c2, w1)"
    and p: "p = slot_ptr c i s" and c': "c' = stats_small_allocate cfg c2 sz"
    using assms(1) unfolding allocate_small_empty_def Let_def by (auto simp: outcome_simps sp)
  from adopt_allocated [OF assms(2) pop(1,2) take st touch_links_pairs(3,4) [OF pop(3)]]
  show ?thesis unfolding p c' by simp
qed

lemma allocate_small_free_ok:
  assumes "allocate_small_free cfg os c i rs sz w = Returned (p, c', w')" "class_inv cfg k [] c [] [] (i # fs)"
    and "sz = ucast (sc_size c)"
  shows "allocated_from cfg k c p c' \<and> (p = NULL \<longrightarrow> counters c' = counters c \<and> counts c' = counts c)"
proof -
  have lv: "live_slab c i" using class_invD(3) [OF assms(2)] by (simp add: lists_ok_def)
  obtain c0 w0 where canary: "set_class_canary cfg os c i w = Returned (c0, w0)"
    using assms(1) by (auto simp: allocate_small_free_def Let_def outcome_simps)
  note c0 = set_class_canary_ok [OF canary assms(2) lv]
  note st = touch_static [OF c0(2)] and lc = touch_links_pairs(3,4) [OF c0(2)]
  show ?thesis
  proof (cases "p = NULL \<and> c' = c0")
    case True
    then show ?thesis using c0(1) st lc set_class_canary_counters [OF canary] unfolding allocated_from_def class_ok_def by auto
  next
    case False
    note pop = pop_free [OF c0(1)]
    have sp: "slot_pointer sz (get_slab c0 (ucast (sc_slab_size c)) i) s = slot_ptr c i s" for s
      using slot_pointer_slot_ptr [of c0 i s] same_static_slot_ptr [OF st] st assms(3) by (simp add: same_static_def)
    obtain s c2 w1 w2 where take: "take_slot cfg os (start_partial (unlink_free c0 i) i) i w1 = Returned (s, c2, w2)"
      and p: "p = slot_ptr c i s"
      and c': "c' = stats_small_allocate cfg (stats_slab_allocate cfg c2 (ucast (sc_slab_size c))) sz"
      using assms(1) False canary unfolding allocate_small_free_def Let_def
      by (auto simp: outcome_simps sp split: if_splits)
    have "same_static c (unlink_free c0 i)" using st touch_static [OF pop(3)] by (simp add: same_static_def)
    from adopt_allocated [OF assms(2) pop(1,2) take this] touch_links_pairs(3,4) [OF pop(3)] lc
    show ?thesis unfolding p c' by simp
  qed
qed

lemma allocate_small_new_ok:
  assumes "allocate_small_new cfg os c rs sz w = Returned (p, c', w')" "class_inv cfg k [] c [] es fs"
    and "sz = ucast (sc_size c)"
  shows "allocated_from cfg k c p c' \<and> (p = NULL \<longrightarrow> counters c' = counters c \<and> counts c' = counts c)"
proof -
  obtain r c0 w0 where am: "alloc_metadata cfg os c (ucast (sc_slab_size c)) (rs \<noteq> 0) w = Returned (r, c0, w0)"
    using assms(1) by (auto simp: allocate_small_new_def Let_def outcome_simps)
  note c0 = alloc_metadata_ok [OF am assms(2) refl]
  show ?thesis
  proof (cases r)
    case None
    then have "p = NULL" "c' = c0" using assms(1) am by (simp_all add: allocate_small_new_def Let_def)
    then show ?thesis using c0 alloc_metadata_counters [OF am] unfolding allocated_from_def class_ok_def by auto
  next
    case (Some i)
    note det = c0(4) [OF Some]
    have lv: "live_slab c0 i" using det by (simp add: detached_def)
    obtain c1 w1 where canary: "set_class_canary cfg os c0 i w0 = Returned (c1, w1)"
      using assms(1) am Some by (auto simp: allocate_small_new_def Let_def outcome_simps)
    note c1 = set_class_canary_ok [OF canary c0(1) lv]
    have st: "same_static c c1" using c0(3) touch_static [OF c1(2)] by (simp add: same_static_def)
    have sp: "slot_pointer sz (get_slab (start_partial c1 i) (ucast (sc_slab_size c)) i) s = slot_ptr c i s" for s
      using slot_pointer_slot_ptr [of c i s] st assms(3) by (simp add: get_slab_def start_partial_def same_static_def)
    obtain s c2 w2 where take: "take_slot cfg os (start_partial c1 i) i w1 = Returned (s, c2, w2)"
      and p: "p = slot_ptr c i s"
      and c': "c' = stats_small_allocate cfg (stats_slab_allocate cfg c2 (ucast (sc_slab_size c))) sz"
      using assms(1) am Some canary unfolding allocate_small_new_def Let_def by (auto simp: outcome_simps sp)
    have "detached c1 i es fs"
      using det c1(4,5,6) touch_live_slab [OF c1(2)] touch_slots(1) [OF c1(2), of i] by (simp add: detached_def)
    from adopt_allocated [OF assms(2) c1(1) this take st] touch_links_pairs(3,4) [OF c1(2)] c0(2,5)
    show ?thesis unfolding p c' by simp
  qed
qed

lemma lists_drop_full:
  assumes "lists_ok cfg c (i # ps) es fs"
  shows "lists_ok cfg (drop_full c i) ps es fs" "touch {} c (drop_full c i)"
  using assms
  by (cases ps; auto simp: lists_ok_def drop_full_def live_slab_def Let_def touch_def same_slots_def same_static_def)+

lemma drop_full_simps [simp]:
  "sc_rng (drop_full c i) = sc_rng c" "sc_free_slabs_quarantine (drop_full c i) = sc_free_slabs_quarantine c"
  "sc_class_region_start (drop_full c i) = sc_class_region_start c"
  by (simp_all add: drop_full_def Let_def split: option.splits)

lemma allocate_small_partial_ok:
  assumes "allocate_small_partial cfg os c i rs sz w = Returned (p, c', w')" "class_inv cfg k [] c (i # ps) es fs"
    and "sz = ucast (sc_size c)"
  shows "allocated_from cfg k c p c' \<and> (p = NULL \<longrightarrow> counters c' = counters c \<and> counts c' = counts c)"
proof -
  note inv = class_invD [OF assms(2)]
  note pos = geometry_pos [OF class_static_geometry [OF inv(1)]]
  have lv: "live_slab c i" and ni: "i \<notin> set (ps @ es @ fs @ fq_slabs c)"
    using inv(3) by (simp_all add: lists_ok_def)
  obtain s c1 w1 where take: "take_slot cfg os c i w = Returned (s, c1, w1)"
    using assms(1) by (auto simp: allocate_small_partial_def Let_def outcome_simps)
  define c2 where "c2 = (if \<not> has_free_slots (cslots c1) (sc_slab_info c1 i) then drop_full c1 i else c1)"
  have mok: "metadata_ok (cslots c) (sc_slab_info c i)" "card (used_of c i) < cslots c"
    using slots_okD(1,3) [OF inv(4)] by simp_all
  obtain rng where sf: "slot_free (cslots c) (sc_slab_info c i) s" "random_state_ok rng"
    and c1: "c1 = upd_info i (\<lambda>md. set_used_slot md s) (c\<lparr>sc_rng := rng\<rparr>)"
    using take_slot_ok [OF take inv(1,2) mok] by blast
  have s: "s < cslots c" "s \<notin> used_of c i" using sf(1) pos(3) by (auto simp: slot_free_used)
  note set = set_used_ok [OF mok(1) sf(1) pos(3)]
  have free: "has_free_slots (cslots c1) (sc_slab_info c1 i) \<longleftrightarrow> Suc (card (used_of c i)) < cslots c"
    using set(1,2) s(2) by (simp add: c1 has_free_slots_def metadata_ok_def)
  have l1: "lists_ok cfg c1 (i # ps) es fs"
    using inv(3) unfolding c1 by (subst lists_ok_upd_info) (simp_all add: set_used_slot_def)
  define ps' where "ps' = (if Suc (card (used_of c i)) < cslots c then i # ps else ps)"
  have l2: "lists_ok cfg c2 ps' es fs" "touch {} c1 c2" "sc_rng c2 = rng" "fq_slabs c2 = fq_slabs c"
    using l1 lists_drop_full [OF l1] by (simp_all add: c2_def ps'_def free) (simp_all add: c1)
  have t: "touch {} c (c\<lparr>sc_rng := rng\<rparr>)" by simp
  note use = use_slot_ok [OF assms(2) lv sf(1) t l2(2) [unfolded c1] l2(1)]
  have ok: "class_inv cfg k [] c2 ps' es fs" "live c2 = insert (slot_ptr c i s) (live c)"
      "slot_ptr c i s \<notin> held c" "same_static c c2"
    using use ni sf(2) by (auto simp: l2(3,4) ps'_def simp del: set_somes)
  have "live_slab c2 i" using lv l2(2) by (simp add: touch_def live_slab_def c1)
  note allocated_fromI [OF assms(2) same_static_refl refl refl ok this s(1)]
  moreover have "p = slot_ptr c i s" "c' = stats_small_allocate cfg c2 sz"
  proof -
    have "slot_pointer sz (get_slab c2 (ucast (sc_slab_size c)) i) s = slot_ptr c i s"
      using slot_pointer_slot_ptr [of c i s] ok(4) assms(3) by (simp add: get_slab_def same_static_def)
    then show "p = slot_ptr c i s" "c' = stats_small_allocate cfg c2 sz"
      using assms(1) take unfolding allocate_small_partial_def Let_def
      by (auto simp: outcome_simps c2_def [symmetric])
  qed
  ultimately show ?thesis by simp
qed

lemma allocate_small_class_ok:
  assumes "allocate_small_class cfg os c rs (ucast (sc_size c)) w = Returned (p, c', w')" "class_ok cfg k c"
  shows "allocated_from cfg k c p c'" "p = NULL \<Longrightarrow> counters c' = counters c \<and> counts c' = counts c"
proof -
  obtain ps es fs where inv: "class_inv cfg k [] c ps es fs" using assms(2) by (auto simp: class_ok_def)
  have h: "dll (sc_slab_info c) (sc_partial_slabs c) None ps" "sll (sc_slab_info c) (sc_empty_slabs c) es"
    "sll (sc_slab_info c) (sc_free_slabs_head c) fs"
    using class_invD(3) [OF inv] by (simp_all add: lists_ok_def)
  have "allocated_from cfg k c p c' \<and> (p = NULL \<longrightarrow> counters c' = counters c \<and> counts c' = counts c)"
  proof (cases ps)
    case (Cons i ps')
    then show ?thesis
      using assms(1) h(1) inv allocate_small_partial_ok [OF _ _ refl] by (simp add: allocate_small_class_def)
  next
    case Nil
    note pn = this
    show ?thesis
    proof (cases es)
      case (Cons i es')
      then show ?thesis
        using assms(1) h inv pn allocate_small_empty_ok [OF _ _ refl] by (simp add: allocate_small_class_def)
    next
      case Nil
      show ?thesis
      proof (rule list.exhaust [of fs])
        fix i fs' assume Cons: "fs = i # fs'"
        then show ?thesis
          using assms(1) h inv pn Nil allocate_small_free_ok [OF _ _ refl] by (simp add: allocate_small_class_def)
      next
        assume "fs = []"
        then show ?thesis
          using assms(1) h inv pn Nil allocate_small_new_ok [OF _ _ refl] by (simp add: allocate_small_class_def)
      qed
    qed
  qed
  then show "allocated_from cfg k c p c'" "p = NULL \<Longrightarrow> counters c' = counters c \<and> counts c' = counts c" by blast+
qed

section \<open>Deallocation\<close>

lemma stats_slab_deallocate_ok [simp]:
  "lists_ok cfg (stats_slab_deallocate cfg' c n) ps es fs = lists_ok cfg c ps es fs"
  "touch I (stats_slab_deallocate cfg' c n) c' = touch I c c'"
  "live_slab (stats_slab_deallocate cfg' c n) = live_slab c"
  "sc_rng (stats_slab_deallocate cfg' c n) = sc_rng c"
  "sc_free_slabs_quarantine (stats_slab_deallocate cfg' c n) = sc_free_slabs_quarantine c"
  by (auto simp: stats_slab_deallocate_def lists_ok_def touch_def live_slab_def same_static_def fun_eq_iff)

lemma retire_slab_ok:
  assumes "retire_slab cfg os c slab i w = Returned (c', w')" "lists_ok cfg c ps es fs" "i \<in> set ps"
    and "random_state_ok (sc_rng c)" "config_valid cfg"
  obtains ps' es' fs' where "lists_ok cfg c' ps' es' fs'" "touch {} c c'" "random_state_ok (sc_rng c')"
    "set ps' = set ps - {i}" "set (es' @ fs' @ fq_slabs c') = insert i (set (es @ fs @ fq_slabs c))"
proof -
  obtain ps' where u: "lists_ok cfg (unlink_partial c i) ps' es fs" "set ps' = set ps - {i}"
    "touch {} c (unlink_partial c i)" "sc_rng (unlink_partial c i) = sc_rng c"
    "fq_slabs (unlink_partial c i) = fq_slabs c"
    using lists_unlink_partial [OF assms(2,3)] by blast
  let ?c = "unlink_partial c i"
  have lv: "live_slab ?c i" "i \<notin> set (listed ?c ps' es fs)" and sz: "sc_slab_size ?c = sc_slab_size c"
    using assms(2,3) touch_live_slab [OF u(3)] u(2,3,5)
    by (auto simp: lists_ok_def touch_def same_static_def simp del: set_somes)
  consider "c' = push_empty ?c (ucast (sc_slab_size c)) i"
    | wa wb where "enqueue_free_slab cfg os (stats_slab_deallocate cfg ?c (ucast (sc_slab_size c))) i wa = Returned (c', wb)"
    using assms(1) unfolding retire_slab_def Let_def by (auto simp: outcome_simps split: if_splits)
  then show ?thesis
  proof cases
    case 1
    note pe = lists_push_empty [OF u(1) lv(2,1), unfolded sz, folded 1]
    have "touch {} c c'" using touch_trans [OF u(3) pe(2)] by simp
    moreover have "sc_rng c' = sc_rng c" "fq_slabs c' = fq_slabs c"
      using u(4,5) by (simp_all add: 1 push_empty_def Let_def)
    ultimately show ?thesis
      using pe(1) u(2) assms(4) by (intro that [of ps' "i # es" fs]) (simp_all del: set_somes)
  next
    case 2
    let ?d = "stats_slab_deallocate cfg ?c (ucast (sc_slab_size c))"
    have "lists_ok cfg ?d ps' es fs" "i \<notin> set (listed ?d ps' es fs)" "live_slab ?d i" "random_state_ok (sc_rng ?d)"
      using u(1,4) lv assms(4) by simp_all
    from lists_enqueue_free_slab [OF 2 this assms(5)] obtain fs' where e: "lists_ok cfg c' ps' es fs'"
      "touch {} ?c c'" "random_state_ok (sc_rng c')"
      "set fs' \<union> set (fq_slabs c') = insert i (set fs \<union> set (fq_slabs ?c))"
      unfolding stats_slab_deallocate_ok by blast
    have "touch {} c c'" using touch_trans [OF u(3) e(2)] by simp
    then show ?thesis using e u(2,5) by (intro that [of ps' es fs']) (auto simp del: set_somes)
  qed
qed

lemma release_slot_ok:
  assumes "release_slot cfg os c slab i s w = Returned (c', w')" "class_inv cfg k F c ps es fs"
    and "(i, s) \<in> used_pairs c" "(i, s) \<notin> quarantined c"
  obtains ps' es' fs' where "class_inv cfg k F c' ps' es' fs'" "same_static c c'"
    "used_pairs c' = used_pairs c - {(i, s)}" "quarantined c' = quarantined c"
proof -
  note inv = class_invD [OF assms(2)]
  have cv: "config_valid cfg" using inv(1) by (simp add: class_static_def)
  have us: "s \<in> used_of c i" "s \<notin> quarantined_slots (sc_slab_info c i)"
    using assms(3,4) by (auto simp: used_pairs_def quarantined_def)
  have mok: "metadata_ok (cslots c) (sc_slab_info c i)" using slots_okD(1) [OF inv(4)] .
  have lv: "live_slab c i" using slots_okD(6) [OF inv(4)] us(1) by blast
  have ni: "i \<notin> set (es @ fs @ fq_slabs c)" using slots_okD(4) [OF inv(4), of i] us(1) by auto
  define c1 where "c1 = (if \<not> has_free_slots (cslots c) (sc_slab_info c i) then push_partial c i else c)"
  obtain ps1 where l1: "lists_ok cfg c1 ps1 es fs" "touch {} c c1" "set ps1 = insert i (set ps)"
    "sc_rng c1 = sc_rng c" "fq_slabs c1 = fq_slabs c"
  proof (cases "has_free_slots (cslots c) (sc_slab_info c i)")
    case True
    then have "card (used_of c i) < cslots c" using mok by (simp add: has_free_slots_def metadata_ok_def)
    then have "i \<in> set ps" using slots_okD(5) [OF inv(4), of i] us(1) by auto
    then show ?thesis using inv(3) True by (intro that [of ps]) (auto simp: c1_def)
  next
    case False
    then have "\<not> card (used_of c i) < cslots c" using mok by (simp add: has_free_slots_def metadata_ok_def)
    then have "i \<notin> set (listed c ps es fs)" using slots_okD(3) [OF inv(4), of i] ni by auto
    note pp = lists_push_partial [OF inv(3) this lv]
    show ?thesis using pp False
      by (intro that [of "i # ps"]) (auto simp: c1_def push_partial_def Let_def split: option.splits)
  qed
  define c2 where "c2 = upd_info i (\<lambda>md. clear_used_slot md s) c1"
  have m1: "metadata_ok (cslots c) (sc_slab_info c1 i)" "s \<in> used_of c1 i" "s \<notin> quarantined_slots (sc_slab_info c1 i)"
    using touch_slots [OF l1(2), of i] mok us by simp_all
  note clr = clear_used_ok [OF m1]
  have "touch {i} c1 c2" unfolding c2_def
    using lv l1(2) by (intro touch_upd_info) (simp_all add: live_slab_def touch_def)
  then have t2: "touch {i} c c2" using touch_trans [OF l1(2)] by fastforce
  have "lists_ok cfg c2 ps1 es fs"
    using l1(1) unfolding c2_def by (subst lists_ok_upd_info) (simp_all add: clear_used_slot_def)
  with l1(4,5) have l2: "lists_ok cfg c2 ps1 es fs" "sc_rng c2 = sc_rng c" "fq_slabs c2 = fq_slabs c"
    by (simp_all add: c2_def)
  obtain ps' es' fs' where l': "lists_ok cfg c' ps' es' fs'" "touch {} c2 c'" "random_state_ok (sc_rng c')"
    "set ps' = (if used_of c2 i = {} then set ps - {i} else insert i (set ps))"
    "set (es' @ fs' @ fq_slabs c') = (if used_of c2 i = {} then {i} else {}) \<union> set (es @ fs @ fq_slabs c)"
  proof (cases "used_of c2 i = {}")
    case True
    then have "is_free_slab (sc_slab_info c2 i)" using is_free_slab_iff clr(1) by (simp add: c2_def)
    then have r: "retire_slab cfg os c2 slab i w = Returned (c', w')"
      using assms(1) unfolding release_slot_def Let_def c1_def [symmetric] c2_def [symmetric] by simp
    have "i \<in> set ps1" by (simp add: l1(3))
    moreover have "random_state_ok (sc_rng c2)" using inv(2) l2(2) by simp
    ultimately obtain ps' es' fs' where "lists_ok cfg c' ps' es' fs'" "touch {} c2 c'" "random_state_ok (sc_rng c')"
      "set ps' = set ps1 - {i}" "set (es' @ fs' @ fq_slabs c') = insert i (set (es @ fs @ fq_slabs c2))"
      using retire_slab_ok [OF r l2(1) _ _ cv] by blast
    then show ?thesis using True l1(3) l2(3) by (intro that [of ps' es' fs']) auto
  next
    case False
    then have "\<not> is_free_slab (sc_slab_info c2 i)" using is_free_slab_iff clr(1) by (simp add: c2_def)
    then have "c' = c2"
      using assms(1) unfolding release_slot_def Let_def c1_def [symmetric] c2_def [symmetric] by simp
    then show ?thesis using False l2 l1(3) inv(2) by (intro that [of ps1 es fs]) auto
  qed
  have t: "touch {i} c c'" using touch_trans [OF t2 l'(2)] by simp
  have new: "metadata_ok (cslots c) (sc_slab_info c' i)" "used_of c' i = used_of c i - {s}"
      "quarantined_slots (sc_slab_info c' i) = quarantined_slots (sc_slab_info c i)" "used_of c2 i = used_of c' i"
    using touch_slots [OF l'(2), of i] touch_slots [OF l1(2), of i] clr(1-3) by (simp_all add: c2_def)
  have "card (used_of c' i) < card (used_of c i)" unfolding new(2) using us(1) by (intro psubset_card_mono) auto
  then have lt: "card (used_of c' i) < cslots c" using card_used_le [OF mok] by linarith
  have sl: "slots_ok cfg c' ps' es' fs'"
    by (rule slots_ok_touch [OF inv(4) t lv new(1)])
      (use l'(4,5) lt ni in \<open>auto simp: new(4) simp del: set_somes split: if_splits\<close>)
  have up: "used_pairs c' = used_pairs c - {(i, s)}" "quarantined c' = quarantined c"
    using new(2,3) by (auto simp: touch_pairs [OF t]) (auto simp: used_pairs_def quarantined_def split: if_splits)
  show ?thesis
    using class_inv_touch [OF assms(2) t l'(1) sl] quarantine_ok_touch [OF t up(2)] inv(5) l'(3) up touch_static [OF t]
    by (intro that) auto
qed

end
