(* ===== verification/Contract.thy ===== *)
theory Contract
  imports Prelude
begin

text \<open>
  What an allocator promises its clients, independent of how it keeps its memory. The abstract
  machine holds the set of addresses handed out and not yet taken back: an allocation adds an address
  that was not in the set, a deallocation takes out an address that was. The locale states the two
  laws a component has to provide; that every sequence of calls is then one of the abstract machine is
  proved once, inside it.
\<close>

section \<open>The abstract machine\<close>

datatype event = Alloc ptr | Free ptr

text \<open>\<open>None\<close>: the events are not those of an allocator. A null pointer is a failed allocation.\<close>

fun spec_run :: "ptr set \<Rightarrow> event list \<Rightarrow> ptr set option" where
  "spec_run A [] = Some A"
| "spec_run A (Alloc p # es) =
     (if p = NULL then spec_run A es else if p \<in> A then None else spec_run (insert p A) es)"
| "spec_run A (Free p # es) = (if p \<in> A then spec_run (A - {p}) es else None)"

lemma spec_run_append:
  "spec_run A (es @ fs) = (case spec_run A es of None \<Rightarrow> None | Some B \<Rightarrow> spec_run B fs)"
  by (induction A es rule: spec_run.induct) auto

text \<open>No address is freed twice without having been handed out in between.\<close>

lemma spec_run_no_realloc: "p \<notin> A \<Longrightarrow> p \<noteq> NULL \<Longrightarrow> Alloc p \<notin> set es \<Longrightarrow> spec_run A es = Some B \<Longrightarrow> p \<notin> B \<and> Free p \<notin> set es"
  by (induction A es rule: spec_run.induct) (auto split: if_splits)

lemma spec_run_no_double_free:
  assumes "spec_run A (xs @ Free p # ys @ Free p # zs) = Some B" "p \<noteq> NULL"
  shows "Alloc p \<in> set ys"
proof (rule ccontr)
  assume no: "Alloc p \<notin> set ys"
  obtain C where "spec_run A (xs @ [Free p]) = Some C" "spec_run C (ys @ Free p # zs) = Some B"
    using assms(1) spec_run_append [of A "xs @ [Free p]" "ys @ Free p # zs"] by (auto split: option.splits)
  moreover from this(1) have "p \<notin> C" by (auto simp: spec_run_append split: option.splits if_splits)
  moreover obtain D where "spec_run C ys = Some D" "spec_run D (Free p # zs) = Some B"
    using calculation(2) by (auto simp: spec_run_append split: option.splits)
  ultimately show False using spec_run_no_realloc [of p C ys D] assms(2) no by (auto split: if_splits)
qed

text \<open>Between two allocations that return the same address it is freed.\<close>

lemma spec_run_keeps: "p \<in> A \<Longrightarrow> Free p \<notin> set es \<Longrightarrow> spec_run A es = Some B \<Longrightarrow> p \<in> B"
  by (induction A es rule: spec_run.induct) (auto split: if_splits)

lemma spec_run_no_overlap:
  assumes "spec_run A (xs @ Alloc p # ys @ Alloc p # zs) = Some B" "p \<noteq> NULL"
  shows "Free p \<in> set ys"
proof (rule ccontr)
  assume no: "Free p \<notin> set ys"
  obtain C where "spec_run A (xs @ [Alloc p]) = Some C" "spec_run C (ys @ Alloc p # zs) = Some B"
    using assms(1) spec_run_append [of A "xs @ [Alloc p]" "ys @ Alloc p # zs"] by (auto split: option.splits)
  moreover from this(1) have "p \<in> C" using assms(2) by (auto simp: spec_run_append split: option.splits if_splits)
  moreover obtain D where "spec_run C ys = Some D" "spec_run D (Alloc p # zs) = Some B"
    using calculation(2) by (auto simp: spec_run_append split: option.splits)
  ultimately show False using spec_run_keeps [of p C ys D] assms(2) no by (auto split: if_splits)
qed

section \<open>The contract\<close>

locale allocator =
  fixes inv :: "'s \<Rightarrow> bool" and live :: "'s \<Rightarrow> ptr set"
    and alloc :: "'s \<Rightarrow> ptr \<Rightarrow> 's \<Rightarrow> bool" and dealloc :: "'s \<Rightarrow> ptr \<Rightarrow> 's \<Rightarrow> bool"
  assumes alloc_law: "inv s \<Longrightarrow> alloc s p s' \<Longrightarrow>
      inv s' \<and> (p = NULL \<and> live s' = live s \<or> p \<noteq> NULL \<and> p \<notin> live s \<and> live s' = insert p (live s))"
    and dealloc_law: "inv s \<Longrightarrow> dealloc s p s' \<Longrightarrow> inv s' \<and> p \<in> live s \<and> live s' = live s - {p}"
begin

primrec runs :: "'s \<Rightarrow> event list \<Rightarrow> 's \<Rightarrow> bool" where
  "runs s [] s' \<longleftrightarrow> s' = s"
| "runs s (e # es) s' \<longleftrightarrow>
     (\<exists>t. (case e of Alloc p \<Rightarrow> alloc s p t | Free p \<Rightarrow> dealloc s p t) \<and> runs t es s')"

lemma runs_refine: "runs s es s' \<Longrightarrow> inv s \<Longrightarrow> inv s' \<and> spec_run (live s) es = Some (live s')"
proof (induction es arbitrary: s)
  case (Cons e es)
  then obtain t where t: "case e of Alloc p \<Rightarrow> alloc s p t | Free p \<Rightarrow> dealloc s p t" "runs t es s'" by auto
  show ?case
  proof (cases e)
    case (Alloc p)
    with t(1) have "alloc s p t" by simp
    note law = alloc_law [OF Cons.prems(2) this]
    from law Cons.IH [OF t(2)] show ?thesis unfolding Alloc by (elim conjE disjE) simp_all
  next
    case (Free p)
    with t(1) have "dealloc s p t" by simp
    note law = dealloc_law [OF Cons.prems(2) this]
    from law Cons.IH [OF t(2)] show ?thesis unfolding Free by simp
  qed
qed simp

lemma no_double_free:
  "inv s \<Longrightarrow> runs s (xs @ Free p # ys @ Free p # zs) s' \<Longrightarrow> p \<noteq> NULL \<Longrightarrow> Alloc p \<in> set ys"
  using runs_refine spec_run_no_double_free by blast

lemma no_overlap:
  "inv s \<Longrightarrow> runs s (xs @ Alloc p # ys @ Alloc p # zs) s' \<Longrightarrow> p \<noteq> NULL \<Longrightarrow> Free p \<in> set ys"
  using runs_refine spec_run_no_overlap by blast

end

end
