(* ===== verification/Slab_Quarantine.thy ===== *)
theory Slab_Quarantine
  imports Slab_Correct Contract "HOL-Library.Multiset"
begin

text \<open>
  The slab quarantine and \<^verbatim>\<open>deallocate_small\<close>: a freed pointer takes a place in the random array, the
  one it displaces a place in the queue, and only what leaves the queue becomes a free slot again.
  Pointers between the two arrays are tracked, so no pointer is lost or held twice.
\<close>

section \<open>The two arrays\<close>

lemma mset_replace_nonnull:
  fixes p :: ptr
  assumes "k < length xs" "p \<noteq> NULL"
  shows "mset ((if xs ! k = NULL then [] else [xs ! k]) @ filter (\<lambda>p. p \<noteq> NULL) (xs[k := p])) =
    mset (p # filter (\<lambda>p. p \<noteq> NULL) xs)"
proof -
  have "mset xs = add_mset (xs ! k) (mset xs - {#xs ! k#})" using assms(1) by (simp add: nth_mem_mset)
  then have "filter_mset (\<lambda>p. p \<noteq> NULL) (mset xs) =
      filter_mset (\<lambda>p. p \<noteq> NULL) (add_mset (xs ! k) (mset xs - {#xs ! k#}))" by (rule arg_cong)
  then show ?thesis using assms by (simp add: mset_update mset_filter)
qed

lemma quarantine_place:
  assumes "quarantine_ok cfg [p] c" "p \<noteq> NULL"
    and "k < length (sc_quarantine_random c @ sc_quarantine_queue c)"
    and "sc_quarantine_random c' @ sc_quarantine_queue c' = (sc_quarantine_random c @ sc_quarantine_queue c)[k := p]"
    and "length (sc_quarantine_random c') = length (sc_quarantine_random c)"
    and "0 < SLAB_QUARANTINE_QUEUE_LENGTH cfg \<longrightarrow>
       sc_quarantine_queue_index c' < SLAB_QUARANTINE_QUEUE_LENGTH cfg * 2 ^ quarantine_shift cfg (ucast (sc_size c'))"
    and "quarantined c' = quarantined c" "slot_ptr c' = slot_ptr c"
    and "q = (sc_quarantine_random c @ sc_quarantine_queue c) ! k"
  shows "quarantine_ok cfg (if q = NULL then [] else [q]) c'"
proof -
  have "length (sc_quarantine_random c' @ sc_quarantine_queue c') = length (sc_quarantine_random c @ sc_quarantine_queue c)"
    unfolding assms(4) by simp
  then have len: "length (sc_quarantine_queue c') = length (sc_quarantine_queue c)" using assms(5) by simp
  have "mset ((if q = NULL then [] else [q]) @ quarantine_ptrs c') = mset ([p] @ quarantine_ptrs c)"
    unfolding quarantine_ptrs_def assms(4,9) using mset_replace_nonnull [OF assms(3,2)] by simp
  then have "distinct ((if q = NULL then [] else [q]) @ quarantine_ptrs c')"
    "set ((if q = NULL then [] else [q]) @ quarantine_ptrs c') = (\<lambda>(i, s). slot_ptr c i s) ` quarantined c"
    using assms(1) mset_eq_imp_distinct_iff mset_eq_setD unfolding quarantine_ok_def by metis+
  then show ?thesis
    using assms(1,5,6) len unfolding quarantine_ok_def assms(7,8) by simp
qed

text \<open>The part of a class that the quarantine stages change.\<close>

definition quarantine_step :: "size_class \<Rightarrow> size_class \<Rightarrow> bool" where
  "quarantine_step c c' \<longleftrightarrow>
     same_static c c' \<and> sc_slab_info c' = sc_slab_info c \<and>
     sc_partial_slabs c' = sc_partial_slabs c \<and> sc_empty_slabs c' = sc_empty_slabs c \<and>
     sc_empty_slabs_total c' = sc_empty_slabs_total c \<and> sc_free_slabs_head c' = sc_free_slabs_head c \<and>
     sc_free_slabs_tail c' = sc_free_slabs_tail c \<and> sc_free_slabs_quarantine c' = sc_free_slabs_quarantine c \<and>
     sc_metadata_allocated c' = sc_metadata_allocated c \<and> sc_metadata_count c' = sc_metadata_count c"

lemma quarantine_stepI:
  "quarantine_step c (c\<lparr>sc_rng := r, sc_quarantine_random := xs\<rparr>)"
  "quarantine_step c (c\<lparr>sc_quarantine_queue := ys, sc_quarantine_queue_index := n\<rparr>)"
  "quarantine_step c c"
  by (simp_all add: quarantine_step_def same_static_def)

lemma quarantine_step_trans: "quarantine_step c c' \<Longrightarrow> quarantine_step c' c'' \<Longrightarrow> quarantine_step c c''"
  by (simp add: quarantine_step_def same_static_def)

lemma quarantine_step_same:
  assumes "quarantine_step c c'"
  shows "lists_ok cfg c' ps es fs = lists_ok cfg c ps es fs" "slots_ok cfg c' ps es fs = slots_ok cfg c ps es fs"
    "class_static cfg k c' = class_static cfg k c" "same_static c c'" "sc_slab_info c' = sc_slab_info c"
    "slot_ptr c' = slot_ptr c" "quarantined c' = quarantined c" "used_pairs c' = used_pairs c"
proof -
  have lv: "live_slab c' = live_slab c" using assms by (simp add: quarantine_step_def live_slab_def fun_eq_iff)
  show "lists_ok cfg c' ps es fs = lists_ok cfg c ps es fs" "slots_ok cfg c' ps es fs = slots_ok cfg c ps es fs"
    using assms unfolding lists_ok_def slots_ok_def lv quarantine_step_def same_static_def by simp_all
  show "class_static cfg k c' = class_static cfg k c" "slot_ptr c' = slot_ptr c" "same_static c c'"
    using assms same_static_class_static same_static_slot_ptr by (auto simp: quarantine_step_def)
  show "sc_slab_info c' = sc_slab_info c" "quarantined c' = quarantined c" "used_pairs c' = used_pairs c"
    using assms by (simp_all add: quarantine_step_def quarantined_def used_pairs_def)
qed

lemma quarantine_shift_le:
  assumes "class_static cfg k c"
  shows "quarantine_shift cfg (ucast (sc_size c)) \<le> MAX_SLAB_SIZE_CLASS_SHIFT cfg - MIN_SLAB_SIZE_CLASS_SHIFT"
proof -
  have g: "16 \<le> csize c" "csize c \<le> 131072"
    using class_static_geometry [OF assms] by (simp_all add: geometry_def)
  obtain j where j: "2 ^ j \<le> csize c" "csize c < 2 ^ Suc j" using ex_log2 [of "csize c"] g(1) by auto
  have "(2::nat) ^ 4 < 2 ^ Suc j" using j(2) g(1) by simp
  then have "4 \<le> j" by (simp only: power_strict_increasing_iff)
  moreover have "clz64 (ucast (sc_size c)) = 63 - j" using clz64_eq [of j "ucast (sc_size c)"] j by simp
  ultimately show ?thesis
    by (simp add: quarantine_shift_def MIN_SLAB_SIZE_CLASS_SHIFT_def MAX_SLAB_SIZE_CLASS_SHIFT_def)
qed

lemma quarantine_length_le:
  assumes "class_static cfg k c"
  shows "n * 2 ^ quarantine_shift cfg (ucast (sc_size c)) \<le> quarantine_length cfg n"
    and "0 < n \<Longrightarrow> 0 < n * 2 ^ quarantine_shift cfg (ucast (sc_size c))"
  using quarantine_shift_le [OF assms] by (simp_all add: mult_le_mono2)

lemma random_stage_index:
  assumes "0 < len" "len \<le> bound" "bound < 2 ^ 32" "random_state_ok rng"
    and "(if bound \<le> 65535
           then bind_o (get_random_u16_uniform os rng (of_nat len) w) (\<lambda>(r, rng, w). Returned (unat r, rng, w))
           else bind_o (get_random_u32_uniform os rng (of_nat len) w) (\<lambda>(r, rng, w). Returned (unat r, rng, w)))
      = Returned (k, rng', w')"
  shows "k < len" "random_state_ok rng'"
proof -
  have "k < len \<and> random_state_ok rng'"
  proof (cases "bound \<le> 65535")
    case True
    then have u: "unat (of_nat len :: u16) = len" using assms(2) by (simp add: unat_of_nat)
    then have "(of_nat len :: u16) \<noteq> 0" using assms(1) by (metis less_irrefl unat_0)
    then show ?thesis
      using assms(5) True get_random_u16_uniform_ok [OF _ assms(4)] u
      by (fastforce simp: outcome_simps word_less_nat_alt)
  next
    case False
    then have u: "unat (of_nat len :: u32) = len" using assms(2,3) by (simp add: unat_of_nat)
    then have "(of_nat len :: u32) \<noteq> 0" using assms(1) by (metis less_irrefl unat_0)
    then show ?thesis
      using assms(5) False get_random_u32_uniform_ok [OF _ assms(4)] u
      by (fastforce simp: outcome_simps word_less_nat_alt)
  qed
  then show "k < len" "random_state_ok rng'" by blast+
qed

lemma random_stage_ok:
  assumes "quarantine_random_stage cfg os c (ucast (sc_size c)) p w = Returned (q, c', w')"
    and "class_static cfg k c" "quarantine_ok cfg [p] c" "p \<noteq> NULL" "random_state_ok (sc_rng c)"
  shows "quarantine_ok cfg (if q = NULL then [] else [q]) c'" "quarantine_step c c'" "random_state_ok (sc_rng c')"
proof -
  let ?n = "SLAB_QUARANTINE_RANDOM_LENGTH cfg"
  have "quarantine_ok cfg (if q = NULL then [] else [q]) c' \<and> quarantine_step c c' \<and> random_state_ok (sc_rng c')"
  proof (cases "0 < ?n")
    case False
    with assms show ?thesis by (simp add: quarantine_random_stage_def quarantine_stepI)
  next
    case True
    let ?len = "?n * 2 ^ quarantine_shift cfg (ucast (sc_size c))"
    have len: "0 < ?len" "?len \<le> quarantine_length cfg ?n"
      using quarantine_length_le [OF assms(2)] True by simp_all
    have "?n \<le> 65536" using assms(2) by (simp add: class_static_def config_valid_def)
    moreover have "(2::nat) ^ (MAX_SLAB_SIZE_CLASS_SHIFT cfg - MIN_SLAB_SIZE_CLASS_SHIFT) \<le> 2 ^ 13"
      by (intro power_increasing) (simp_all add: MAX_SLAB_SIZE_CLASS_SHIFT_def MIN_SLAB_SIZE_CLASS_SHIFT_def)
    ultimately have "quarantine_length cfg ?n \<le> 65536 * 2 ^ 13" by (intro mult_le_mono)
    then have small: "quarantine_length cfg ?n < 2 ^ 32" by simp
    obtain i rng where i: "(if quarantine_length cfg ?n \<le> 65535
           then bind_o (get_random_u16_uniform os (sc_rng c) (of_nat ?len) w) (\<lambda>(r, rng, w). Returned (unat r, rng, w))
           else bind_o (get_random_u32_uniform os (sc_rng c) (of_nat ?len) w) (\<lambda>(r, rng, w). Returned (unat r, rng, w)))
        = Returned (i, rng, w')"
      and q: "q = sc_quarantine_random c ! i"
      and c': "c' = c\<lparr>sc_rng := rng, sc_quarantine_random := (sc_quarantine_random c)[i := p]\<rparr>"
      using assms(1) True unfolding quarantine_random_stage_def Let_def by (auto simp: outcome_simps)
    note idx = random_stage_index [OF len small assms(5) i]
    have il: "i < length (sc_quarantine_random c)" using idx(1) len(2) assms(3) unfolding quarantine_ok_def by linarith
    have st: "quarantine_step c c'" unfolding c' by (rule quarantine_stepI)
    have "quarantine_ok cfg (if q = NULL then [] else [q]) c'"
      by (rule quarantine_place [OF assms(3,4), of i])
        (use il assms(3) quarantine_step_same [OF st] in
          \<open>auto simp: q nth_append list_update_append c' quarantine_ok_def\<close>)
    then show ?thesis using st idx(2) by (simp add: c')
  qed
  then show "quarantine_ok cfg (if q = NULL then [] else [q]) c'" "quarantine_step c c'" "random_state_ok (sc_rng c')"
    by blast+
qed

lemma queue_stage_ok:
  assumes "quarantine_queue_stage cfg c (ucast (sc_size c)) p = (q, c')"
    and "class_static cfg k c" "quarantine_ok cfg [p] c" "p \<noteq> NULL"
  shows "quarantine_ok cfg (if q = NULL then [] else [q]) c'" "quarantine_step c c'" "sc_rng c' = sc_rng c"
proof -
  let ?n = "SLAB_QUARANTINE_QUEUE_LENGTH cfg"
  have "quarantine_ok cfg (if q = NULL then [] else [q]) c' \<and> quarantine_step c c' \<and> sc_rng c' = sc_rng c"
  proof (cases "0 < ?n")
    case False
    with assms show ?thesis by (simp add: quarantine_queue_stage_def quarantine_stepI)
  next
    case True
    let ?len = "?n * 2 ^ quarantine_shift cfg (ucast (sc_size c))" and ?i = "sc_quarantine_queue_index c"
    have len: "0 < ?len" "?len \<le> quarantine_length cfg ?n"
      using quarantine_length_le [OF assms(2)] True by simp_all
    have q: "q = sc_quarantine_queue c ! ?i"
      and c': "c' = c\<lparr>sc_quarantine_queue := (sc_quarantine_queue c)[?i := p],
          sc_quarantine_queue_index := if ?i + 1 < ?len then ?i + 1 else 0\<rparr>"
      using assms(1) True by (auto simp: quarantine_queue_stage_def Let_def)
    have il: "?i < length (sc_quarantine_queue c)"
      using len(2) True assms(3) unfolding quarantine_ok_def by linarith
    have st: "quarantine_step c c'" unfolding c' by (rule quarantine_stepI)
    have "quarantine_ok cfg (if q = NULL then [] else [q]) c'"
      by (rule quarantine_place [OF assms(3,4), of "length (sc_quarantine_random c) + ?i"])
        (use il len(1) quarantine_step_same [OF st] in \<open>auto simp: q nth_append list_update_append c'\<close>)
    then show ?thesis using st by (simp add: c')
  qed
  then show "quarantine_ok cfg (if q = NULL then [] else [q]) c'" "quarantine_step c c'" "sc_rng c' = sc_rng c"
    by blast+
qed

lemma slab_quarantine_ok:
  assumes "slab_quarantine cfg os c (ucast (sc_size c)) p w = Returned (q, c', w')"
    and "class_inv cfg k [p] c ps es fs" "p \<noteq> NULL"
  shows "class_inv cfg k (if q = NULL then [] else [q]) c' ps es fs" "quarantine_step c c'"
proof -
  note inv = class_invD [OF assms(2)]
  obtain r c1 w1 where r: "quarantine_random_stage cfg os c (ucast (sc_size c)) p w = Returned (r, c1, w1)"
    using assms(1) by (auto simp: slab_quarantine_def outcome_simps)
  note st1 = random_stage_ok [OF r inv(1,5) assms(3) inv(2)]
  have "quarantine_ok cfg (if q = NULL then [] else [q]) c' \<and> quarantine_step c c' \<and> random_state_ok (sc_rng c')"
  proof (cases "r = NULL")
    case True
    then show ?thesis using assms(1) r st1 by (simp add: slab_quarantine_def)
  next
    case False
    have sz: "sc_size c1 = sc_size c" using st1(2) by (simp add: quarantine_step_def same_static_def)
    obtain q1 c2 where q1: "quarantine_queue_stage cfg c1 (ucast (sc_size c)) r = (q1, c2)" by (cases "quarantine_queue_stage cfg c1 (ucast (sc_size c)) r")
    then have eq: "q1 = q" "c2 = c'" using assms(1) r False by (simp_all add: slab_quarantine_def)
    have "class_static cfg k c1" using inv(1) quarantine_step_same(3) [OF st1(2)] by simp
    note q = queue_stage_ok [OF q1 [folded sz, unfolded eq] this _ False]
    show ?thesis using q quarantine_step_trans [OF st1(2)] st1 False by simp
  qed
  then show "class_inv cfg k (if q = NULL then [] else [q]) c' ps es fs" "quarantine_step c c'"
    using inv quarantine_step_same [of c c'] by (auto simp: class_inv_def)
qed

section \<open>Deallocation\<close>

text \<open>The lookup in \<^verbatim>\<open>deallocate_small\<close> finds the slot of any address that belongs to one.\<close>

lemma lookup_slot_ptr:
  assumes "class_inv cfg k F c ps es fs" "(i, s) \<in> used_pairs c"
  shows "get_metadata c (slot_ptr c i s) = Returned i"
    and "slot_of c (slot_ptr c i s) (get_slab c (ucast (sc_slab_size c)) i) = s"
proof -
  note inv = class_invD [OF assms(1)]
  have v: "i < get_metadata_max cfg (ucast (sc_slab_size c))" "slot_in_slab c s"
    using used_valid [OF inv(4) assms(2)] slot_in_slab_slots [OF inv(1)] by (auto simp: valid_pair_def)
  have "i < sc_metadata_allocated c"
    using slots_okD(6) [OF inv(4), of i] assms(2) by (auto simp: used_pairs_def live_slab_def)
  then show "get_metadata c (slot_ptr c i s) = Returned i"
    using slot_ptr_lookup(1) [OF inv(1) v] by (simp add: get_metadata_eq [OF inv(1)] Let_def)
  show "slot_of c (slot_ptr c i s) (get_slab c (ucast (sc_slab_size c)) i) = s"
    using slot_ptr_lookup(1,2) [OF inv(1) v] by (simp add: slot_of_eq [OF inv(1)])
qed

lemma quarantined_valid: "slots_ok cfg c ps es fs \<Longrightarrow> x \<in> quarantined c \<Longrightarrow> valid_pair cfg c x"
  using quarantined_used used_valid by blast

text \<open>Marking a slot as quarantined, and taking the mark back.\<close>

lemma set_quarantine_inv:
  assumes "class_inv cfg k [] c ps es fs" "(i, s) \<in> used_pairs c" "(i, s) \<notin> quarantined c"
  defines "c' \<equiv> upd_info i (\<lambda>md. set_quarantine_slot md s) c"
  shows "class_inv cfg k [slot_ptr c i s] c' ps es fs"
    "used_pairs c' = used_pairs c" "quarantined c' = insert (i, s) (quarantined c)" "same_static c c'"
proof -
  note inv = class_invD [OF assms(1)]
  have us: "s \<in> used_of c i" using assms(2) by (simp add: used_pairs_def)
  have lv: "live_slab c i" using slots_okD(6) [OF inv(4)] us by blast
  note set = set_quarantine_ok [OF slots_okD(1) [OF inv(4)] us]
  have t: "touch {i} c c'" unfolding c'_def using lv by (intro touch_upd_info) (simp_all add: live_slab_def)
  show up: "used_pairs c' = used_pairs c" "quarantined c' = insert (i, s) (quarantined c)"
    using set(2,3) by (auto simp: touch_pairs [OF t] c'_def) (auto simp: used_pairs_def quarantined_def split: if_splits)
  show st: "same_static c c'" using t by (rule touch_static)
  have l: "lists_ok cfg c' ps es fs" using inv(3) unfolding c'_def
    by (subst lists_ok_upd_info) (simp_all add: set_quarantine_slot_def)
  have sl: "slots_ok cfg c' ps es fs"
    by (rule slots_ok_touch [OF inv(4) t lv])
      (use set slots_okD(2-5) [OF inv(4), of i] in \<open>auto simp: c'_def\<close>)
  have "slot_ptr c i s \<notin> (\<lambda>(i, s). slot_ptr c i s) ` quarantined c"
    using live_image(2) [OF inv(1) quarantined_valid [OF inv(4)] used_valid [OF inv(4) assms(2)]] assms(3) by simp
  then have "quarantine_ok cfg [slot_ptr c i s] c'"
    using inv(5) unfolding quarantine_ok_def up(2) same_static_slot_ptr [OF st]
    by (simp add: c'_def quarantine_ptrs_def)
  then show "class_inv cfg k [slot_ptr c i s] c' ps es fs"
    using class_inv_touch [OF assms(1) t l sl] inv(2) by (simp add: c'_def)
qed

lemma clear_quarantine_inv:
  assumes "class_inv cfg k [slot_ptr c i s] c ps es fs" "(i, s) \<in> quarantined c"
  defines "c' \<equiv> upd_info i (\<lambda>md. clear_quarantine_slot md s) c"
  shows "class_inv cfg k [] c' ps es fs"
    "used_pairs c' = used_pairs c" "quarantined c' = quarantined c - {(i, s)}" "same_static c c'"
proof -
  note inv = class_invD [OF assms(1)]
  have us: "s \<in> used_of c i" "s < 256"
    using assms(2) quarantined_used [OF inv(4)] by (auto simp: used_pairs_def quarantined_def quarantine.members_def)
  have lv: "live_slab c i" using slots_okD(6) [OF inv(4)] us by blast
  note clr = clear_quarantine_ok [OF slots_okD(1) [OF inv(4)] us(2)]
  have t: "touch {i} c c'" unfolding c'_def using lv by (intro touch_upd_info) (simp_all add: live_slab_def)
  show up: "used_pairs c' = used_pairs c" "quarantined c' = quarantined c - {(i, s)}"
    using clr(2,3) by (auto simp: touch_pairs [OF t] c'_def) (auto simp: used_pairs_def quarantined_def split: if_splits)
  show st: "same_static c c'" using t by (rule touch_static)
  have l: "lists_ok cfg c' ps es fs" using inv(3) unfolding c'_def
    by (subst lists_ok_upd_info) (simp_all add: clear_quarantine_slot_def)
  have sl: "slots_ok cfg c' ps es fs"
    by (rule slots_ok_touch [OF inv(4) t lv])
      (use clr slots_okD(2-5) [OF inv(4), of i] in \<open>auto simp: c'_def\<close>)
  have img: "(\<lambda>(i, s). slot_ptr c i s) ` (quarantined c - {(i, s)}) = (\<lambda>(i, s). slot_ptr c i s) ` quarantined c - {slot_ptr c i s}"
    using live_image(1) [OF inv(1) quarantined_valid [OF inv(4)] quarantined_valid [OF inv(4) assms(2)]] by simp
  have "set (quarantine_ptrs c) = (\<lambda>(i, s). slot_ptr c i s) ` quarantined c - {slot_ptr c i s}"
    using inv(5) unfolding quarantine_ok_def by (metis Diff_insert_absorb append.left_neutral append_Cons distinct.simps(2) list.simps(15))
  moreover have "quarantine_ptrs c' = quarantine_ptrs c" by (simp add: c'_def quarantine_ptrs_def)
  ultimately have "quarantine_ok cfg [] c'"
    using inv(5) unfolding quarantine_ok_def up(2) same_static_slot_ptr [OF st] img
    by (simp add: c'_def)
  then show "class_inv cfg k [] c' ps es fs"
    using class_inv_touch [OF assms(1) t l sl] inv(2) by (simp add: c'_def)
qed

lemma dealloc_lookup:
  assumes "class_inv cfg k F c ps es fs" "get_metadata c p = Returned i"
    and "s = slot_of c p (get_slab c (ucast (sc_slab_size c)) i)"
    and "slot_pointer (ucast (sc_size c)) (get_slab c (ucast (sc_slab_size c)) i) s = p"
  shows "p = slot_ptr c i s" "is_used_slot (sc_slab_info c i) s \<longleftrightarrow> (i, s) \<in> used_pairs c"
    "is_quarantine_slot (sc_slab_info c i) s \<longleftrightarrow> (i, s) \<in> quarantined c"
    "(i, s) \<in> used_pairs c \<Longrightarrow> p \<in> live c \<longleftrightarrow> (i, s) \<notin> quarantined c" "p \<in> live c \<Longrightarrow> (i, s) \<in> used_pairs c"
proof -
  note inv = class_invD [OF assms(1)]
  note any = lookup_any [OF inv(1) assms(2,3)]
  show p: "p = slot_ptr c i s" using assms(4) by (simp only: slot_pointer_slot_ptr)
  show "is_used_slot (sc_slab_info c i) s \<longleftrightarrow> (i, s) \<in> used_pairs c"
    "is_quarantine_slot (sc_slab_info c i) s \<longleftrightarrow> (i, s) \<in> quarantined c"
    using any(2) by (simp_all add: used_pairs_def quarantined_def used_slots_iff quarantined_slots_iff)
  have vA: "valid_pair cfg c x" if "x \<in> used_pairs c - quarantined c" for x
    using used_valid [OF inv(4)] that by blast
  show "p \<in> live c \<longleftrightarrow> (i, s) \<notin> quarantined c" if "(i, s) \<in> used_pairs c"
    using live_image(2) [where A = "used_pairs c - quarantined c", OF inv(1) vA used_valid [OF inv(4) that]] that by (simp add: live_def p)
  assume "p \<in> live c"
  then obtain j t where jt: "(j, t) \<in> used_pairs c" "p = slot_ptr c j t" by (auto simp: live_def)
  then have "i = j" "s = t" using lookup_slot_ptr [OF assms(1) jt(1)] assms(2,3) by simp_all
  with jt show "(i, s) \<in> used_pairs c" by simp
qed

text \<open>After the slot is found: leaving the live set, and from quarantine back to a free slot.\<close>

lemma live_release:
  assumes "class_static cfg k c" "slots_ok cfg c ps es fs" "same_static c c'" "(i, s) \<in> used_pairs c"
    and "used_pairs c' - quarantined c' = used_pairs c - quarantined c - {(i, s)}"
  shows "live c' = live c - {slot_ptr c i s}"
proof -
  have vA: "valid_pair cfg c x" if "x \<in> used_pairs c - quarantined c" for x
    using used_valid [OF assms(2)] that by blast
  show ?thesis
    using live_image(1) [where A = "used_pairs c - quarantined c", OF assms(1) vA used_valid [OF assms(2,4)]]
    unfolding live_def assms(5) same_static_slot_ptr [OF assms(3)] by simp
qed

lemma release_quarantined_ok:
  assumes "class_inv cfg k [q] c ps es fs" "get_metadata c q = Returned i"
    and "s = slot_of c q (get_slab c (ucast (sc_slab_size c)) i)"
    and "release_slot cfg os (upd_info i (\<lambda>md. clear_quarantine_slot md s) c) slab i s w = Returned (c', w')"
  shows "class_ok cfg k c'" "same_static c c'" "used_pairs c' - quarantined c' = used_pairs c - quarantined c"
proof -
  note inv = class_invD [OF assms(1)]
  have "q \<in> (\<lambda>(i, s). slot_ptr c i s) ` quarantined c" using inv(5) by (auto simp: quarantine_ok_def)
  then obtain j t where jt: "(j, t) \<in> quarantined c" "q = slot_ptr c j t" by auto
  have "(j, t) \<in> used_pairs c" using quarantined_used [OF inv(4)] jt(1) by blast
  note look = lookup_slot_ptr [OF assms(1) this]
  have eq: "i = j" "s = t" using look assms(2,3) jt(2) by simp_all
  note clr = clear_quarantine_inv [OF assms(1) [unfolded jt(2)] jt(1)]
  have "(j, t) \<in> used_pairs (upd_info j (\<lambda>md. clear_quarantine_slot md t) c)"
    "(j, t) \<notin> quarantined (upd_info j (\<lambda>md. clear_quarantine_slot md t) c)"
    using clr(2,3) \<open>(j, t) \<in> used_pairs c\<close> by simp_all
  from release_slot_ok [OF assms(4) [unfolded eq] clr(1) this] clr(2,3) obtain ps' es' fs' where r: "class_inv cfg k [] c' ps' es' fs'"
    "same_static (upd_info j (\<lambda>md. clear_quarantine_slot md t) c) c'"
    "used_pairs c' = used_pairs c - {(j, t)}" "quarantined c' = quarantined c - {(j, t)}"
    by metis
  show "class_ok cfg k c'" using r(1) by (auto simp: class_ok_def)
  show "same_static c c'" using r(2) by (simp add: same_static_def)
  show "used_pairs c' - quarantined c' = used_pairs c - quarantined c" using r(3,4) jt(1) by auto
qed

lemma no_quarantine:
  assumes "quarantine_ok cfg [] c" "\<not> SLAB_QUARANTINE cfg"
  shows "quarantined c = {}"
proof -
  have "quarantine_ptrs c = []" using assms by (simp add: quarantine_ok_def SLAB_QUARANTINE_def quarantine_ptrs_def)
  then show ?thesis using assms(1) by (auto simp: quarantine_ok_def)
qed

lemma finish_deallocate_ok:
  assumes "finish_deallocate cfg os c i s p w = Returned (c', w')" "class_inv cfg k [] c ps es fs"
    and "(i, s) \<in> used_pairs c" "p = slot_ptr c i s"
    and "is_quarantine_slot (sc_slab_info c i) s \<longleftrightarrow> (i, s) \<in> quarantined c"
  shows "class_ok cfg k c'" "same_static c c'" "(i, s) \<notin> quarantined c" "live c' = live c - {p}"
proof -
  note inv = class_invD [OF assms(2)]
  have "class_ok cfg k c' \<and> same_static c c' \<and> (i, s) \<notin> quarantined c \<and>
      used_pairs c' - quarantined c' = used_pairs c - quarantined c - {(i, s)}"
  proof (cases "SLAB_QUARANTINE cfg")
    case False
    then have nq: "(i, s) \<notin> quarantined c" using no_quarantine inv(5) by simp
    moreover have "release_slot cfg os c (get_slab c (ucast (sc_slab_size c)) i) i s w = Returned (c', w')"
      using assms(1) False by (simp add: finish_deallocate_def)
    ultimately show ?thesis
      using release_slot_ok [OF _ assms(2,3) nq] unfolding class_ok_def by (metis Diff_insert Diff_insert2)
  next
    case True
    define c1 where "c1 = upd_info i (\<lambda>md. set_quarantine_slot md s) c"
    from assms(1,5) True obtain q c2 w2 where nq: "(i, s) \<notin> quarantined c"
      and sq: "slab_quarantine cfg os c1 (ucast (sc_size c)) p w = Returned (q, c2, w2)"
      by (auto simp: finish_deallocate_def Let_def c1_def outcome_simps split: if_splits)
    note set = set_quarantine_inv [OF assms(2,3) nq, folded c1_def]
    have sz: "sc_size c1 = sc_size c" by (simp add: c1_def)
    have "p \<noteq> NULL"
      using slot_ptr_lookup(3) [OF inv(1)] used_valid [OF inv(4) assms(3)] slot_in_slab_slots [OF inv(1)]
      by (simp add: assms(4) valid_pair_def)
    note q = slab_quarantine_ok [OF sq [folded sz] set(1) [folded assms(4)] this]
    note same = quarantine_step_same [OF q(2)]
    have eq: "used_pairs c2 - quarantined c2 = used_pairs c - quarantined c - {(i, s)}"
      using same(7,8) set(2,3) by auto
    have st: "same_static c c2" using same(4) set(4) by (simp add: same_static_def)
    show ?thesis
    proof (cases "q = NULL")
      case True
      then have "c' = c2" using assms(1,5) nq \<open>SLAB_QUARANTINE cfg\<close> sq by (simp add: finish_deallocate_def Let_def c1_def)
      then show ?thesis using q(1) True st eq nq by (auto simp: class_ok_def)
    next
      case False
      have ss: "sc_slab_size c2 = sc_slab_size c" using st by (simp add: same_static_def)
      obtain j where j: "get_metadata c2 q = Returned j"
        "release_slot cfg os (upd_info j (\<lambda>md. clear_quarantine_slot md (slot_of c2 q (get_slab c2 (ucast (sc_slab_size c2)) j))) c2)
          (get_slab c2 (ucast (sc_slab_size c2)) j) j (slot_of c2 q (get_slab c2 (ucast (sc_slab_size c2)) j)) w2 = Returned (c', w')"
        using assms(1,5) nq \<open>SLAB_QUARANTINE cfg\<close> sq False unfolding ss
        by (auto simp: finish_deallocate_def Let_def c1_def outcome_simps)
      have "class_inv cfg k [q] c2 ps es fs" using q(1) False by simp
      note r = release_quarantined_ok [OF this j(1) refl j(2)]
      show ?thesis using r eq nq st by (simp add: same_static_def)
    qed
  qed
  then show "class_ok cfg k c'" "same_static c c'" "(i, s) \<notin> quarantined c" "live c' = live c - {p}"
    using live_release [OF inv(1,4) _ assms(3), of c'] assms(4) by auto
qed

lemma same_static_stats [simp]: "same_static (stats_small_deallocate cfg c n) c' = same_static c c'"
  by (simp add: same_static_def stats_small_deallocate_def)

lemma deallocate_small_class_ok:
  assumes "deallocate_small_class cfg os c class' p e w = Returned (c', w')" "class_ok cfg k c"
  shows "class_ok cfg k c' \<and> same_static c c' \<and> p \<in> live c \<and> live c' = live c - {p}"
proof -
  obtain ps es fs where "class_inv cfg k [] c ps es fs" using assms(2) by (auto simp: class_ok_def)
  define c0 where "c0 = stats_small_deallocate cfg c (ucast (sc_size c))"
  have inv: "class_inv cfg k [] c0 ps es fs" "live c0 = live c" "\<And>c'. same_static c0 c' = same_static c c'"
    using \<open>class_inv cfg k [] c ps es fs\<close> by (simp_all add: c0_def)
  have sz: "sc_size c0 = sc_size c" and ss: "sc_slab_size c = sc_slab_size c0"
    by (simp_all add: c0_def stats_small_deallocate_def)
  let ?slab = "\<lambda>i. get_slab c0 (ucast (sc_slab_size c0)) i"
  obtain i w1 where i: "get_metadata c0 p = Returned i"
    and al: "slot_pointer (ucast (sc_size c0)) (?slab i) (slot_of c0 p (?slab i)) = p"
    and us: "is_used_slot (sc_slab_info c0 i) (slot_of c0 p (?slab i))"
    and fin: "finish_deallocate cfg os c0 i (slot_of c0 p (?slab i)) p w1 = Returned (c', w')"
    using assms(1) unfolding deallocate_small_class_def Let_def c0_def [symmetric] ss sz
    by (auto simp: outcome_simps split: if_splits)
  note look = dealloc_lookup [OF inv(1) i refl al]
  have up: "(i, slot_of c0 p (?slab i)) \<in> used_pairs c0" using us look(2) by blast
  note ok = finish_deallocate_ok [OF fin inv(1) up look(1,3)]
  show ?thesis using ok look(4) [OF up] inv(2,3) by simp
qed

text \<open>An address that is not live is rejected, whatever the class looks like.\<close>

lemma deallocate_small_class_rejects:
  assumes "class_ok cfg k c" "p \<notin> live c"
  shows "\<exists>msg. deallocate_small_class cfg os c class' p e w = Aborted msg \<and>
    msg \<in> {''sized deallocation mismatch (small)'', ''invalid free within a slab yet to be used'',
      ''invalid unaligned free'', ''double free'', ''canary corrupted'', ''double free (quarantine)''}"
proof -
  obtain ps es fs where "class_inv cfg k [] c ps es fs" using assms(1) by (auto simp: class_ok_def)
  define c0 where "c0 = stats_small_deallocate cfg c (ucast (sc_size c))"
  have inv: "class_inv cfg k [] c0 ps es fs" "p \<notin> live c0"
    using \<open>class_inv cfg k [] c ps es fs\<close> assms(2) by (simp_all add: c0_def)
  have sz: "sc_size c0 = sc_size c" and ss: "sc_slab_size c = sc_slab_size c0"
    by (simp_all add: c0_def stats_small_deallocate_def)
  let ?slab = "\<lambda>i. get_slab c0 (ucast (sc_slab_size c0)) i"
  have fin: "finish_deallocate cfg os c0 i (slot_of c0 p (?slab i)) p w1 = Aborted ''double free (quarantine)''"
    if "get_metadata c0 p = Returned i" "slot_pointer (ucast (sc_size c0)) (?slab i) (slot_of c0 p (?slab i)) = p"
      "is_used_slot (sc_slab_info c0 i) (slot_of c0 p (?slab i))" for i w1
  proof -
    note look = dealloc_lookup [OF inv(1) that(1) refl that(2)]
    have "(i, slot_of c0 p (?slab i)) \<in> quarantined c0" using look(2,4) that(3) inv(2) by blast
    moreover from this have "SLAB_QUARANTINE cfg" using no_quarantine class_invD(5) [OF inv(1)] by blast
    ultimately show ?thesis using look(3) by (simp add: finish_deallocate_def)
  qed
  have canary: "check_canary cfg md p n w1 = Returned () \<or> check_canary cfg md p n w1 = Aborted ''canary corrupted''" for md n w1
    by (simp add: check_canary_def Let_def)
  have meta: "(\<exists>i. get_metadata c0 p = Returned i) \<or> get_metadata c0 p = Aborted ''invalid free within a slab yet to be used''"
    by (simp add: get_metadata_def Let_def)
  show ?thesis
    using meta
  proof (elim disjE exE)
    fix i assume i: "get_metadata c0 p = Returned i"
    show ?thesis
      unfolding deallocate_small_class_def Let_def c0_def [symmetric] i bind_o.simps ss
      using fin [OF i] canary [of "sc_slab_info c0 i" "ucast (sc_size c)" w] by (auto simp: sz)
  qed (auto simp: deallocate_small_class_def Let_def c0_def [symmetric])
qed

section \<open>The initial state\<close>

text \<open>A class set up on zeroed metadata satisfies the invariant and has no live address.\<close>

lemma setup_size_class_eq:
  assumes "k < N_SIZE_CLASSES cfg"
  obtains sz slots slab d1 d2 where
    "setup_size_class cfg k start base c = Returned (c\<lparr>sc_class_region_start := start, sc_size := sz, sc_slots := slots,
      sc_slab_size := slab, sc_size_divisor := d1, sc_slab_size_divisor := d2, sc_slab_info_base := base\<rparr>)"
    "unat sz = slot_size cfg k" "unat slots = unat (get_slots cfg k)"
    "unat slab = unat (get_slab_size (get_slots cfg k) (of_nat (slot_size cfg k)))"
    "libdivide_u32_gen sz = Returned d1" "libdivide_u64_gen (ucast slab) = Returned d2"
proof -
  note geo = class_geometry [OF assms]
  note pos = geometry_pos [OF geo(1)]
  define sz :: size_t where "sz = (if (ucast (size_classes cfg ! k) :: size_t) = 0 then 16 else ucast (size_classes cfg ! k))"
  define slots :: u16 where "slots = ucast (get_slots cfg k)"
  define slab :: u32 where "slab = ucast (get_slab_size (ucast slots) sz)"
  have "(ucast (size_classes cfg ! k) :: size_t) = 0 \<longleftrightarrow> class_size cfg k = 0"
    by (simp add: class_size_def flip: unat_eq_zero)
  then have sz: "sz = of_nat (slot_size cfg k)"
    by (simp add: sz_def slot_size_def class_size_def Let_def of_nat_unat)
  have "slot_size cfg k < 2 ^ 32" using geo(1) by (simp add: geometry_def)
  then have sz32: "unat (ucast sz :: u32) = slot_size cfg k" using sz geo(2) by (simp add: unat_ucast)
  have "unat (get_slots cfg k) < 2 ^ 16" using geo(1) by (simp add: geometry_def)
  then have us: "unat slots = unat (get_slots cfg k)" by (simp add: slots_def unat_ucast)
  then have "(ucast slots :: size_t) = get_slots cfg k" by (intro word_unat_eq_iff [THEN iffD2]) simp
  then have ub: "unat slab = unat (get_slab_size (get_slots cfg k) (of_nat (slot_size cfg k)))"
    using geo(1) by (simp add: slab_def sz unat_ucast geometry_def)
  have nz: "(ucast sz :: u32) \<noteq> 0" "(ucast slab :: u64) \<noteq> 0"
    using sz32 ub pos(1,4) unat_ucast_up [of slab, where ?'b = 64] by (metis less_irrefl unat_0, force)
  obtain d1 d2 where d: "libdivide_u32_gen (ucast sz) = Returned d1" "libdivide_u64_gen (ucast slab) = Returned d2"
    using u32.exact_quotient [OF nz(1)] u64.exact_quotient [OF nz(2)] by blast
  have "setup_size_class cfg k start base c = Returned (c\<lparr>sc_class_region_start := start, sc_size := ucast sz,
      sc_slots := slots, sc_slab_size := slab, sc_size_divisor := d1, sc_slab_size_divisor := d2, sc_slab_info_base := base\<rparr>)"
    unfolding setup_size_class_def Let_def sz_def [symmetric] slots_def [symmetric]
    unfolding slab_def [symmetric] d bind_o.simps ..
  from that [OF this sz32 us ub d] show ?thesis .
qed

lemma setup_size_class_ok:
  assumes "setup_size_class cfg k start base ((zero_size_class cfg)\<lparr>sc_rng := rng\<rparr>) = Returned c"
    and "config_valid cfg" "k < N_SIZE_CLASSES cfg" "random_state_ok rng"
    and "0 < unat start" "4096 dvd unat start" "unat start + CONFIG_CLASS_REGION_SIZE cfg < 2 ^ 64"
  shows "class_inv cfg k [] c [] [] []" "live c = {}" "sc_class_region_start c = start"
proof -
  obtain sz slots slab d1 d2 where c: "c = (zero_size_class cfg)\<lparr>sc_rng := rng, sc_class_region_start := start, sc_size := sz,
      sc_slots := slots, sc_slab_size := slab, sc_size_divisor := d1, sc_slab_size_divisor := d2, sc_slab_info_base := base\<rparr>"
    and eq: "unat sz = slot_size cfg k" "unat slots = unat (get_slots cfg k)"
      "unat slab = unat (get_slab_size (get_slots cfg k) (of_nat (slot_size cfg k)))"
      "libdivide_u32_gen sz = Returned d1" "libdivide_u64_gen (ucast slab) = Returned d2"
    by (rule setup_size_class_eq [OF assms(3), of start base "(zero_size_class cfg)\<lparr>sc_rng := rng\<rparr>"])
      (use assms(1) in auto)
  have st: "class_static cfg k c"
    using assms(2,3,5-7) eq by (simp add: class_static_def c)
  have "fq_slabs c = []" by (simp add: c zero_size_class_def somes_def map_filter_def)
  then have l: "lists_ok cfg c [] [] []" by (simp add: lists_ok_def c zero_size_class_def)
  have s: "slots_ok cfg c [] [] []"
    using \<open>fq_slabs c = []\<close> by (simp add: slots_ok_def del: set_somes) (simp add: c zero_size_class_def)
  have q: "quarantined c = {}" "used_pairs c = {}"
    by (simp_all add: quarantined_def used_pairs_def c zero_size_class_def)
  have "quarantine_ok cfg [] c"
    using quarantine_length_le(2) [OF st] unfolding quarantine_ok_def q
    by (simp add: c zero_size_class_def quarantine_ptrs_def)
  with st l s assms(4) show "class_inv cfg k [] c [] [] []" by (simp add: class_inv_def c)
  show "live c = {}" by (simp add: live_def q)
  show "sc_class_region_start c = start" by (simp add: c)
qed

section \<open>The contract of a size class\<close>

text \<open>
  One step of a class: a call that returns, for any kernel, request and state of memory (the program
  writes to its memory between the calls).
\<close>

definition class_alloc :: "config \<Rightarrow> size_class \<Rightarrow> ptr \<Rightarrow> size_class \<Rightarrow> bool" where
  "class_alloc cfg c p c' \<longleftrightarrow>
     (\<exists>os requested_size w w'. allocate_small_class cfg os c requested_size (ucast (sc_size c)) w = Returned (p, c', w'))"

definition class_dealloc :: "config \<Rightarrow> size_class \<Rightarrow> ptr \<Rightarrow> size_class \<Rightarrow> bool" where
  "class_dealloc cfg c p c' \<longleftrightarrow>
     (\<exists>os class' e w w'. deallocate_small_class cfg os c class' p e w = Returned (c', w'))"

interpretation class_allocator: allocator "class_ok cfg k" live "class_alloc cfg" "class_dealloc cfg" for cfg k
proof
  fix c p c'
  assume "class_ok cfg k c" "class_alloc cfg c p c'"
  then have "allocated_from cfg k c p c'" using allocate_small_class_ok by (auto simp: class_alloc_def)
  then show "class_ok cfg k c' \<and> (p = NULL \<and> live c' = live c \<or> p \<noteq> NULL \<and> p \<notin> live c \<and> live c' = insert p (live c))"
    using live_held [of c] by (auto simp: allocated_from_def)
next
  fix c p c'
  assume "class_ok cfg k c" "class_dealloc cfg c p c'"
  then show "class_ok cfg k c' \<and> p \<in> live c \<and> live c' = live c - {p}"
    using deallocate_small_class_ok by (auto simp: class_dealloc_def)
qed

end
