(* ===== verification/Slab_Properties.thy ===== *)
theory Slab_Properties
  imports Slab_Quarantine
begin

text \<open>
  The properties of the slab allocator: what an allocation returns, what a deallocation accepts, and
  that every sequence of calls on a size class refines the abstract machine of the contract.
\<close>

section \<open>Slots do not overlap\<close>

lemma slot_ptr_bounds:
  assumes "class_static cfg k c" "valid_pair cfg c (i, s)"
  shows "unat (slot_ptr c i s) = unat (sc_class_region_start c) + (i * cslab c + s * csize c)"
    and "i * cslab c + (s + 1) * csize c \<le> (i + 1) * cslab c"
    and "(i + 1) * cslab c \<le> CONFIG_CLASS_REGION_SIZE cfg"
    and "16 dvd unat (slot_ptr c i s)"
proof -
  note geo = class_static_geometry [OF assms(1)]
  have v: "i < get_metadata_max cfg (ucast (sc_slab_size c))" "s < cslots c"
    using assms(2) by (simp_all add: valid_pair_def)
  note off = slot_offset [OF assms(1) v(1) slot_in_slab_slots [OF assms(1) v(2)]]
  show u: "unat (slot_ptr c i s) = unat (sc_class_region_start c) + (i * cslab c + s * csize c)" by (rule off(2))
  have "(s + 1) * csize c \<le> cslots c * csize c" using v(2) by (intro mult_le_mono1) simp
  also have "\<dots> \<le> cslab c" using geometry_pos(7) [OF geo] .
  finally show "i * cslab c + (s + 1) * csize c \<le> (i + 1) * cslab c" by simp
  have "(i + 1) * cslab c \<le> CONFIG_CLASS_REGION_SIZE cfg div cslab c * cslab c"
    using v(1) metadata_max_nat [OF assms(1)] by (intro mult_le_mono1) simp
  also have "\<dots> \<le> CONFIG_CLASS_REGION_SIZE cfg" by (rule div_times_less_eq_dividend)
  finally show "(i + 1) * cslab c \<le> CONFIG_CLASS_REGION_SIZE cfg" .
  have "16 dvd (4096::nat)" by simp
  moreover have "4096 dvd unat (sc_class_region_start c)" "4096 dvd cslab c" "16 dvd csize c"
    using assms(1) geo by (simp_all add: class_static_def geometry_def)
  ultimately have "16 dvd unat (sc_class_region_start c)" "16 dvd cslab c" "16 dvd csize c"
    by (blast intro: dvd_trans)+
  then show "16 dvd unat (slot_ptr c i s)" unfolding u by simp
qed

lemma slots_apart:
  assumes "class_static cfg k c" "valid_pair cfg c (i, s)" "valid_pair cfg c (j, t)" "(i, s) \<noteq> (j, t)"
  shows "unat (slot_ptr c i s) + csize c \<le> unat (slot_ptr c j t) \<or>
    unat (slot_ptr c j t) + csize c \<le> unat (slot_ptr c i s)"
proof -
  note a = slot_ptr_bounds(1,2) [OF assms(1,2)] and b = slot_ptr_bounds(1,2) [OF assms(1,3)]
  have less: "i * cslab c + s * csize c + csize c \<le> j * cslab c + t * csize c"
    if "i < j \<or> i = j \<and> s < t" "i * cslab c + (s + 1) * csize c \<le> (i + 1) * cslab c" for i s j t
  proof (cases "i < j")
    case True
    then have "(i + 1) * cslab c \<le> j * cslab c" by (intro mult_le_mono1) simp
    with that(2) show ?thesis by simp
  next
    case False
    then have "i = j" "s + 1 \<le> t" using that(1) by auto
    then show ?thesis using mult_le_mono1 [of "s + 1" t "csize c"] by simp
  qed
  have "i < j \<or> i = j \<and> s < t \<or> j < i \<or> j = i \<and> t < s" using assms(4) by auto
  then show ?thesis using less [of i j s t] less [of j i t s] a b by auto
qed

section \<open>Calls that return\<close>

text \<open>The kernel of the examples grants every request but a mapping beyond the address space.\<close>

lemma bump_grants: "sys_bool msg bump_kernel c w = (case c of Mmap n pr \<Rightarrow> sys_bool msg bump_kernel c w
   | _ \<Rightarrow> Returned (False, w\<lparr>w_history := (c, Sys_ok 0) # w_history w\<rparr>))"
  by (cases c) (simp_all add: sys_bool_def sys_def bump_kernel_def Let_def)

lemma fresh_slot: 
  assumes "0 < slots" "\<not> SLOT_RANDOMIZE cfg"
  shows "get_free_slot cfg os rng slots zero_metadata w = Returned (0, rng, w)"
proof -
  have "slot_free slots zero_metadata 0"
    using assms(1) zero_metadata_slots(1) used_slots_iff [of 0 zero_metadata] by (auto simp: slot_free_def)
  then show ?thesis using get_free_slot_first [OF assms(2,1)] by (auto simp: least_from_def)
qed

lemma first_allocation:
  assumes "\<not> SLOT_RANDOMIZE cfg" "\<not> SLAB_CANARY cfg" "0 < cslots c"
    and "sc_partial_slabs c = None" "sc_empty_slabs c = None" "sc_free_slabs_head c = None"
    and "sc_metadata_count c = 0" "sc_metadata_allocated c = 0" "sc_slab_info c = (\<lambda>_. zero_metadata)"
    and "0 < get_metadata_max cfg (ucast (sc_slab_size c))"
  shows "\<exists>c' w'. allocate_small_class cfg bump_kernel c rs (ucast (sc_size c)) w = Returned (sc_class_region_start c, c', w')"
proof -
  obtain c1 w1 where g: "grow_metadata cfg bump_kernel c (ucast (sc_slab_size c)) w = Returned (False, c1, w1)"
    and c1: "\<exists>n. c1 = c\<lparr>sc_metadata_allocated := n\<rparr>"
    using assms(7,8,10) by (auto simp: grow_metadata_def memory_wrapper_defs bump_grants Let_def)
  have "\<exists>w2. alloc_metadata cfg bump_kernel c (ucast (sc_slab_size c)) (rs \<noteq> 0) w = Returned (Some 0, advance_metadata cfg c1, w2)"
    using g c1 assms(7) by (cases "rs = 0") (auto simp: alloc_metadata_def memory_wrapper_defs bump_grants Let_def)
  then obtain w2 where am: "alloc_metadata cfg bump_kernel c (ucast (sc_slab_size c)) (rs \<noteq> 0) w = Returned (Some 0, advance_metadata cfg c1, w2)" ..
  obtain n u where "advance_metadata cfg c1 = c1\<lparr>sc_metadata_count := n, sc_metadata_count_unguarded := u\<rparr>"
    using advance_metadata_eq by blast
  with c1 assms(9) have c2: "sc_slab_info (advance_metadata cfg c1) = (\<lambda>_. zero_metadata)"
    "sc_slots (advance_metadata cfg c1) = sc_slots c" "sc_class_region_start (advance_metadata cfg c1) = sc_class_region_start c"
    by auto
  show ?thesis 
    using assms(2,4-6) am c2 fresh_slot [OF assms(3,1)]
    by (auto simp: allocate_small_class_def allocate_small_new_def Let_def set_class_canary_def set_slab_canary_value_def take_slot_def start_partial_def
     prepare_slot_def set_canary_def get_slab_def slot_pointer_def)
qed

lemma release_slot_returns:
  assumes "only_ENOMEM os" "FREE_SLABS_QUARANTINE_RANDOM_LENGTH cfg = 0"
  shows "returns (release_slot cfg os c slab i s w)"
proof -
  have "returns (enqueue_free_slab cfg os c i w)" for c w
    using assms(2) by (simp add: enqueue_free_slab_def Let_def)
  moreover note memory_wrapper_returns [OF assms(1)]
  ultimately have "returns (retire_slab cfg os c slab i w)" for c
    unfolding retire_slab_def Let_def
    by (auto intro!: returns_bind)
  then show ?thesis by (simp add: release_slot_def Let_def)
qed

lemma deallocate_small_class_returns:
  assumes "class_ok cfg k c" "p \<in> live c" "\<not> SLAB_QUARANTINE cfg" "FREE_SLABS_QUARANTINE_RANDOM_LENGTH cfg = 0"
    and "only_ENOMEM os"
    and "\<And>i. get_metadata c p = Returned i \<Longrightarrow> class' \<noteq> 0 \<Longrightarrow>
      check_canary cfg (sc_slab_info c i) p (ucast (sc_size c)) w = Returned ()"
  shows "returns (deallocate_small_class cfg os c class' p None w)"
proof -
  obtain ps es fs where inv: "class_inv cfg k [] c ps es fs" using assms(1) by (auto simp: class_ok_def)
  obtain i s where sl: "(i, s) \<in> used_pairs c" "p = slot_ptr c i s" using assms(2) by (auto simp: live_def)
  note look = lookup_slot_ptr [OF inv sl(1)]
  let ?c = "stats_small_deallocate cfg c (ucast (sc_size c))"
  have same: "get_metadata ?c = get_metadata c" "get_slab ?c = get_slab c" "slot_of ?c = slot_of c" "sc_slab_info ?c = sc_slab_info c"
    by (simp_all add: fun_eq_iff stats_small_deallocate_def get_metadata_def get_slab_def slot_of_def)
  have al: "slot_pointer (ucast (sc_size c)) (get_slab c (ucast (sc_slab_size c)) i) (slot_of c p (get_slab c (ucast (sc_slab_size c)) i)) = p"
    using look(2) sl(2) slot_pointer_slot_ptr by simp
  have "is_used_slot (sc_slab_info c i) s"
    using dealloc_lookup(2) [OF inv look(1)] sl look(2) slot_pointer_slot_ptr by simp
  moreover have "returns (finish_deallocate cfg os ?c i s p w')" for w'
    using release_slot_returns [OF assms(5,4)] assms(3) by (simp add: finish_deallocate_def Let_def)
  ultimately show ?thesis
    using look al sl(2) assms(6)
    by (cases "class' = 0") (simp_all add: deallocate_small_class_def same Let_def)
qed

section \<open>An example\<close>

text \<open>A build without randomness and canaries, and its class of 16-byte slots, for concrete instances.\<close>

definition plain_config :: config where
  "plain_config = light_config\<lparr>SLAB_CANARY := False, FREE_SLABS_QUARANTINE_RANDOM_LENGTH := 0\<rparr>"

lemma plain_config_simps [simp]:
  "\<not> SLOT_RANDOMIZE plain_config" "\<not> SLAB_CANARY plain_config" "\<not> CONFIG_STATS plain_config"
  "\<not> SLAB_QUARANTINE plain_config" "FREE_SLABS_QUARANTINE_RANDOM_LENGTH plain_config = 0"
  "CONFIG_CLASS_REGION_SIZE plain_config = 34359738368" "CONFIG_EXTENDED_SIZE_CLASSES plain_config"
  "config_valid plain_config"
  by (simp_all add: plain_config_def light_config_def default_config_def SLAB_QUARANTINE_def config_valid_def
      MREMAP_MOVE_THRESHOLD_def)

lemma example_class:
  obtains c where "setup_size_class plain_config 1 0x200000000000 0x300000000000 (zero_size_class plain_config) = Returned c"
    "class_ok plain_config 1 c" "live c = {}" "sc_class_region_start c = 0x200000000000"
    "\<And>w. \<exists>c' w'. allocate_small_class plain_config bump_kernel c 8 (ucast (sc_size c)) w = Returned (0x200000000000, c', w')"
proof -
  have k: "1 < N_SIZE_CLASSES plain_config" by (simp add: N_SIZE_CLASSES_eq)
  obtain sz slots slab d1 d2 where
    set: "setup_size_class plain_config 1 0x200000000000 0x300000000000 (zero_size_class plain_config) =
      Returned ((zero_size_class plain_config)\<lparr>sc_class_region_start := 0x200000000000, sc_size := sz, sc_slots := slots,
        sc_slab_size := slab, sc_size_divisor := d1, sc_slab_size_divisor := d2, sc_slab_info_base := 0x300000000000\<rparr>)"
    (is "_ = Returned ?c") and slots: "unat slots = unat (get_slots plain_config 1)"
    by (rule setup_size_class_eq [OF k])
  have rng: "(zero_size_class plain_config)\<lparr>sc_rng := blank_random_state\<rparr> = zero_size_class plain_config"
    "random_state_ok blank_random_state"
    by (simp_all add: zero_size_class_def random_state_ok_def blank_random_state_def)
  note ok = setup_size_class_ok [where rng = blank_random_state and cfg = plain_config, unfolded rng(1), OF set _ k rng(2)]
  have inv: "class_inv plain_config 1 [] ?c [] [] []" "live ?c = {}" using ok by simp_all
  note st = class_invD(1) [OF inv(1)]
  note pos = geometry_pos [OF class_static_geometry [OF st]]
  have "0 < CONFIG_CLASS_REGION_SIZE plain_config div cslab ?c"
    using pos(4,5) by (simp add: div_greater_zero_iff)
  then have "0 < get_metadata_max plain_config (ucast (sc_slab_size ?c))" by (simp only: metadata_max_nat [OF st])
  moreover have "0 < cslots ?c" by (rule pos(2))
  ultimately have "\<exists>c' w'. allocate_small_class plain_config bump_kernel ?c 8 (ucast (sc_size ?c)) w =
      Returned (0x200000000000, c', w')" for w
    using first_allocation [of plain_config ?c 8 w] by (simp add: zero_size_class_def)
  then show ?thesis using set inv that [of ?c] unfolding class_ok_def by auto
qed

section \<open>Properties\<close>

text \<open>
  What \<^verbatim>\<open>allocate_small\<close> returns is fresh memory: from a consistent class it leaves a consistent
  class and returns either \<^verbatim>\<open>NULL\<close> with nothing changed for the client, or an address that was
  neither live nor in quarantine, is now live, is aligned to 16 bytes, lies with its whole slot in
  the region of the class, and whose slot overlaps no other slot that is live or quarantined.
\<close>

lemma allocate_small_fresh:
  assumes "class_ok cfg k c"
    and "allocate_small_class cfg os c requested_size (ucast (sc_size c)) w = Returned (p, c', w')"
  shows "class_ok cfg k c' \<and>
    (p = NULL \<and> live c' = live c \<or>
     p \<noteq> NULL \<and> p \<notin> held c \<and> live c' = insert p (live c) \<and> 16 dvd unat p \<and>
     unat (sc_class_region_start c) \<le> unat p \<and>
     unat p + csize c \<le> unat (sc_class_region_start c) + CONFIG_CLASS_REGION_SIZE cfg \<and>
     (\<forall>q \<in> held c. unat p + csize c \<le> unat q \<or> unat q + csize c \<le> unat p))"
proof -
  obtain ps es fs where "class_inv cfg k [] c ps es fs" using assms(1) by (auto simp: class_ok_def)
  note inv = class_invD [OF this]
  note from_c = allocate_small_class_ok [OF assms(2,1), unfolded allocated_from_def]
  have "16 dvd unat p \<and> unat (sc_class_region_start c) \<le> unat p \<and>
     unat p + csize c \<le> unat (sc_class_region_start c) + CONFIG_CLASS_REGION_SIZE cfg \<and>
     (\<forall>q \<in> held c. unat p + csize c \<le> unat q \<or> unat q + csize c \<le> unat p)" if "p \<noteq> NULL"
  proof -
    obtain i s where v: "valid_pair cfg c (i, s)" and p: "p = slot_ptr c i s" and new: "p \<notin> held c"
      using from_c \<open>p \<noteq> NULL\<close> by blast
    note b = slot_ptr_bounds [OF inv(1) v]
    have "unat p + csize c \<le> unat q \<or> unat q + csize c \<le> unat p" if q: "q \<in> held c" for q
    proof -
      obtain j t where jt: "(j, t) \<in> used_pairs c" "q = slot_ptr c j t" using q by (auto simp: held_def)
      then have "(i, s) \<noteq> (j, t)" using new p by (auto simp: held_def)
      with slots_apart [OF inv(1) v used_valid [OF inv(4) jt(1)]] show ?thesis unfolding p jt(2) by blast
    qed
    moreover have "unat p + csize c \<le> unat (sc_class_region_start c) + CONFIG_CLASS_REGION_SIZE cfg"
      using b(1-3) unfolding p by simp
    ultimately show ?thesis using b(1,4) unfolding p by simp
  qed
  with from_c show ?thesis by blast
qed

text \<open>
  \<^verbatim>\<open>deallocate_small\<close> takes back exactly the live addresses: on a consistent class a call that
  returns was given a live address, the address is no longer live, nothing else changed for the
  client and the class is consistent; and for every other address (already freed, in quarantine,
  inside a slot, in a slab not yet handed out) the process is aborted with one of its messages.
\<close>

lemma deallocate_small_exact:
  assumes "class_ok cfg k c"
  shows "(\<forall>c' w'. deallocate_small_class cfg os c class' p expected_size w = Returned (c', w') \<longrightarrow>
       class_ok cfg k c' \<and> p \<in> live c \<and> live c' = live c - {p}) \<and>
    (p \<notin> live c \<longrightarrow> (\<exists>msg. deallocate_small_class cfg os c class' p expected_size w = Aborted msg \<and>
       msg \<in> {''sized deallocation mismatch (small)'', ''invalid free within a slab yet to be used'',
         ''invalid unaligned free'', ''double free'', ''canary corrupted'', ''double free (quarantine)''}))"
  using deallocate_small_class_ok [OF _ assms] deallocate_small_class_rejects [OF assms] by blast

text \<open>
  C21. A live address can always be freed: in a build without quarantines, with a kernel whose calls
  fail for lack of memory only and an intact canary, \<^verbatim>\<open>deallocate_small\<close> returns.
\<close>

theorem deallocate_small_returns:
  assumes "class_ok cfg k c" "p \<in> live c" "\<not> SLAB_QUARANTINE cfg" "FREE_SLABS_QUARANTINE_RANDOM_LENGTH cfg = 0"
    and "only_ENOMEM os"
    and "\<And>i. get_metadata c p = Returned i \<Longrightarrow> class' \<noteq> 0 \<Longrightarrow>
      check_canary cfg (sc_slab_info c i) p (ucast (sc_size c)) w = Returned ()"
  shows "\<exists>c' w'. deallocate_small_class cfg os c class' p None w = Returned (c', w') \<and> live c' = live c - {p}"
proof -
  have "returns (deallocate_small_class cfg os c class' p None w)"
    by (rule deallocate_small_class_returns [OF assms(1-5)]) (rule assms(6))
  then obtain c' w' where r: "deallocate_small_class cfg os c class' p None w = Returned (c', w')"
    by (auto simp: returns_def)
  with deallocate_small_class_ok [OF r assms(1)] show ?thesis by blast
qed

theorem deallocate_small_returns_witness:
  "\<exists>c c' w'. live c = {0x200000000000} \<and> live c' = {} \<and>
     deallocate_small_class plain_config bump_kernel c 1 0x200000000000 None start_world = Returned (c', w')"
proof -
  obtain c0 where c0: "class_ok plain_config 1 c0" "live c0 = {}"
    "\<And>w. \<exists>c' w'. allocate_small_class plain_config bump_kernel c0 8 (ucast (sc_size c0)) w = Returned (0x200000000000, c', w')"
    by (rule example_class) (rule that)
  then obtain c w where "allocate_small_class plain_config bump_kernel c0 8 (ucast (sc_size c0)) start_world =
      Returned (0x200000000000, c, w)" by blast
  from allocate_small_class_ok [OF this c0(1)] c0(2) have c: "class_ok plain_config 1 c" "live c = {0x200000000000}"
    by (auto simp: allocated_from_def)
  from deallocate_small_returns [OF c(1), of "0x200000000000" bump_kernel 1 start_world] c(2) bump_only_ENOMEM
  show ?thesis by (auto simp: check_canary_def)
qed

text \<open>
  Every sequence of calls on a class refines the abstract machine: from the class that
  \<^verbatim>\<open>init_slow_path\<close> sets up on zeroed metadata, the addresses returned and freed are those of a run that
  starts with no address handed out, and the addresses outstanding at its end are the live ones.
\<close>

lemma class_refines_spec:
  assumes "setup_size_class cfg k start base ((zero_size_class cfg)\<lparr>sc_rng := rng\<rparr>) = Returned c"
    and "config_valid cfg" "k < N_SIZE_CLASSES cfg" "random_state_ok rng"
    and "0 < unat start" "4096 dvd unat start" "unat start + CONFIG_CLASS_REGION_SIZE cfg < 2 ^ 64"
    and "class_allocator.runs cfg c events c'"
  shows "spec_run {} events = Some (live c') \<and> class_ok cfg k c'"
proof -
  note init = setup_size_class_ok [OF assms(1-7)]
  have "class_ok cfg k c" using init(1) by (auto simp: class_ok_def)
  with class_allocator.runs_refine [OF assms(8)] init(2) show ?thesis by auto
qed

end
