(* ===== verification/Slab_Counters.thy ===== *)
theory Slab_Counters
  imports Slab_Quarantine
begin

text \<open>
  The statistics of a size class (\<^verbatim>\<open>CONFIG_STATS\<close>) count what they are meant to: \<^verbatim>\<open>allocated\<close> is the number of live
  addresses times the size of a slot, and the numbers of allocations and deallocations differ by the number of live
  addresses, in the arithmetic of their machine words.
\<close>

section \<open>Steps that leave the counters alone\<close>

lemma counters_frame [simp]:
  "counters (c\<lparr>sc_rng := r\<rparr>) = counters c" "counters (c\<lparr>sc_empty_slabs := x\<rparr>) = counters c"
  "counters (c\<lparr>sc_empty_slabs_total := n\<rparr>) = counters c"
  "counters (unlink_empty c i) = counters c" "counters (unlink_free c i) = counters c"
  "counters (start_partial c i) = counters c" "counters (drop_full c i) = counters c"
  "counters (append_free c i) = counters c" "counters (push_partial c i) = counters c"
  "counters (unlink_partial c i) = counters c" "counters (push_empty c n i) = counters c"
  "counters (stats_slab_allocate cfg c n) = counters c" "counters (stats_slab_deallocate cfg c n) = counters c"
  by (simp_all add: counters_def unlink_empty_def unlink_free_def start_partial_def drop_full_def append_free_def
      push_partial_def unlink_partial_def push_empty_def stats_slab_allocate_def stats_slab_deallocate_def upd_info_def
      Let_def split: option.splits)

text \<open>Counting an allocation depends on the counters only.\<close>

lemma counters_stats:
  "counters c = counters c' \<Longrightarrow> counters (stats_small_allocate cfg c n) = counters (stats_small_allocate cfg c' n)"
  "counters (stats_small_allocate cfg c n) =
     (if CONFIG_STATS cfg then (sc_allocated c + n, sc_nmalloc c + 1, sc_ndalloc c) else counters c)"
  "counters (stats_small_deallocate cfg c n) =
     (if CONFIG_STATS cfg then (sc_allocated c - n, sc_nmalloc c, sc_ndalloc c + 1) else counters c)"
  by (simp_all add: counters_def stats_small_allocate_def stats_small_deallocate_def)

abbreviation same_counters :: "size_class \<Rightarrow> size_class \<times> world \<Rightarrow> bool" where
  "same_counters c \<equiv> \<lambda>(c', _). counters c' = counters c"

lemma take_slot_counters: "all_o (\<lambda>(_, c', _). counters c' = counters c) (take_slot cfg os c i w)"
  unfolding take_slot_def by (cases "get_free_slot cfg os (sc_rng c) (unat (sc_slots c)) (sc_slab_info c i) w") auto

lemma enqueue_free_slab_counters: "all_o (same_counters c) (enqueue_free_slab cfg os c i w)"
  by (rule all_oI)
    (auto simp: enqueue_free_slab_def Let_def outcome_simps split: if_splits option.splits; simp add: counters_def upd_info_def)

lemma retire_slab_counters: "all_o (same_counters c) (retire_slab cfg os c slab i w)"
proof (rule all_oI, clarify)
  fix c' w' assume r: "retire_slab cfg os c slab i w = Returned (c', w')"
  show "counters c' = counters c"
  proof (cases "\<exists>c1 w1. counters c1 = counters c \<and> enqueue_free_slab cfg os c1 i w1 = Returned (c', w')")
    case True
    then show ?thesis using all_oD [OF enqueue_free_slab_counters] by fastforce
  next
    case False
    then have "\<exists>c1. counters c1 = counters c \<and> c' = push_empty c1 (ucast (sc_slab_size c)) i"
      using r unfolding retire_slab_def Let_def
      by (auto simp: outcome_simps split: if_splits) (metis counters_frame(10,13))+
    then show ?thesis by auto
  qed
qed

lemma release_slot_counters: "all_o (same_counters c) (release_slot cfg os c slab i s w)"
proof -
  let ?c = "upd_info i (\<lambda>md. clear_used_slot md s)
    (if \<not> has_free_slots (unat (sc_slots c)) (sc_slab_info c i) then push_partial c i else c)"
  have "counters ?c = counters c" by simp
  then show ?thesis
    using retire_slab_counters [of ?c cfg os slab i w] unfolding release_slot_def Let_def by simp
qed

lemma quarantine_random_stage_counters: "all_o (\<lambda>(_, c', _). counters c' = counters c) (quarantine_random_stage cfg os c sz p w)"
proof (rule all_oI, clarify)
  fix q c' w' assume r: "quarantine_random_stage cfg os c sz p w = Returned (q, c', w')"
  have "c' = c \<or> (\<exists>rng xs. c' = c\<lparr>sc_rng := rng, sc_quarantine_random := xs\<rparr>)"
    using r unfolding quarantine_random_stage_def Let_def by (auto simp only: outcome_simps split: if_splits)
  then show "counters c' = counters c" by (auto simp: counters_def)
qed

lemma slab_quarantine_counters: "all_o (\<lambda>(_, c', _). counters c' = counters c) (slab_quarantine cfg os c sz p w)"
proof -
  have "counters (snd (quarantine_queue_stage cfg c' sz q)) = counters c'" for c' q
    by (simp add: quarantine_queue_stage_def Let_def counters_def)
  then show ?thesis unfolding slab_quarantine_def
    by (intro all_o_bind [OF quarantine_random_stage_counters]) (auto split: prod.splits, metis snd_conv)
qed

lemma finish_deallocate_counters: "all_o (same_counters c) (finish_deallocate cfg os c i s p w)"
proof (rule all_oI, clarify)
  fix c' w' assume f: "finish_deallocate cfg os c i s p w = Returned (c', w')"
  show "counters c' = counters c"
  proof (cases "SLAB_QUARANTINE cfg")
    case False
    then show ?thesis using f all_oD [OF release_slot_counters] by (fastforce simp: finish_deallocate_def)
  next
    case True
    let ?c = "upd_info i (\<lambda>md. set_quarantine_slot md s) c"
    obtain q c1 w1 where q: "slab_quarantine cfg os ?c (ucast (sc_size c)) p w = Returned (q, c1, w1)"
      using f True by (auto simp: finish_deallocate_def Let_def outcome_simps split: if_splits)
    have c1: "counters c1 = counters c" using all_oD [OF slab_quarantine_counters q] by simp
    show ?thesis
    proof (cases "q = NULL")
      case True
      then show ?thesis using f q c1 \<open>SLAB_QUARANTINE cfg\<close> by (auto simp: finish_deallocate_def Let_def split: if_splits)
    next
      case False
      then obtain c2 slab j t where "counters c2 = counters c1" "release_slot cfg os c2 slab j t w1 = Returned (c', w')"
        using f q \<open>SLAB_QUARANTINE cfg\<close>
        by (auto simp: finish_deallocate_def Let_def outcome_simps split: if_splits) (metis counters_upd_info)
      then show ?thesis using all_oD [OF release_slot_counters] c1 by fastforce
    qed
  qed
qed

section \<open>Allocation and deallocation\<close>

abbreviation bumped :: "config \<Rightarrow> size_class \<Rightarrow> size_t \<Rightarrow> ptr \<times> size_class \<times> world \<Rightarrow> bool" where
  "bumped cfg c n \<equiv> \<lambda>(p, c', _). p = NULL \<or> counters c' = counters (stats_small_allocate cfg c n)"

lemma allocate_small_class_counters: "all_o (bumped cfg c n) (allocate_small_class cfg os c rs n w)"
proof -
  have take: "counters c2 = counters c0" if "take_slot cfg os c1 i w1 = Returned (s, c2, w2)" "counters c1 = counters c0"
    for c0 c1 c2 i w1 s w2
    using all_oD [OF take_slot_counters that(1)] that(2) by simp
  have "all_o (bumped cfg c n) (allocate_small_empty cfg os c i rs n w)" for i
    by (rule all_oI) (auto simp: allocate_small_empty_def Let_def outcome_simps intro: counters_stats(1) dest!: take [of _ _ _ _ _ _ c])
  moreover have "all_o (bumped cfg c n) (allocate_small_partial cfg os c i rs n w)" for i
    by (rule all_oI) (auto simp: allocate_small_partial_def Let_def outcome_simps intro!: counters_stats(1) dest!: take [of _ _ _ _ _ _ c])
  moreover have "all_o (bumped cfg c n) (allocate_small_free cfg os c i rs n w)" for i
    by (rule all_oI) (auto simp: allocate_small_free_def Let_def outcome_simps intro!: counters_stats(1) split: if_splits
        dest!: set_class_canary_counters(1) take [of _ _ _ _ _ _ c])
  moreover have "all_o (bumped cfg c n) (allocate_small_new cfg os c rs n w)"
    by (rule all_oI) (auto simp: allocate_small_new_def Let_def outcome_simps intro!: counters_stats(1) split: if_splits option.splits
        dest!: alloc_metadata_counters(1) set_class_canary_counters(1) take [of _ _ _ _ _ _ c])
  ultimately show ?thesis unfolding allocate_small_class_def by (simp split: option.splits)
qed

lemma deallocate_small_class_counters:
  "all_o (\<lambda>(c', _). counters c' = counters (stats_small_deallocate cfg c (ucast (sc_size c))))
     (deallocate_small_class cfg os c class' p e w)"
proof (rule all_oI, clarify)
  fix c' w' assume "deallocate_small_class cfg os c class' p e w = Returned (c', w')"
  then obtain i s w1 where "finish_deallocate cfg os (stats_small_deallocate cfg c (ucast (sc_size c))) i s p w1 = Returned (c', w')"
    unfolding deallocate_small_class_def Let_def by (auto simp: outcome_simps split: if_splits)
  from all_oD [OF finish_deallocate_counters this]
  show "counters c' = counters (stats_small_deallocate cfg c (ucast (sc_size c)))" by simp
qed

section \<open>The counters are those of the live addresses\<close>

definition counted :: "config \<Rightarrow> size_class \<Rightarrow> bool" where
  "counted cfg c \<longleftrightarrow>
     (CONFIG_STATS cfg \<longrightarrow> counters c =
       (of_nat (card (live c)) * ucast (sc_size c), sc_ndalloc c + of_nat (card (live c)), sc_ndalloc c))"

lemma counted_cong: "counters c' = counters c \<Longrightarrow> live c' = live c \<Longrightarrow> sc_size c' = sc_size c \<Longrightarrow> counted cfg c' = counted cfg c"
  by (simp add: counted_def counters_def)

lemma finite_live:
  assumes "class_ok cfg k c"
  shows "finite (live c)"
proof -
  obtain ps es fs where inv: "class_inv cfg k [] c ps es fs" using assms by (auto simp: class_ok_def)
  have "used_pairs c \<subseteq> {..< sc_metadata_count c} \<times> {..< cslots c}"
    using slots_okD(1,6) [OF class_invD(4) [OF inv]] by (fastforce simp: used_pairs_def live_slab_def metadata_ok_def)
  then have "finite (used_pairs c)" by (rule finite_subset) simp
  then show ?thesis by (simp add: live_def)
qed

lemma allocate_counted:
  assumes "allocate_small_class cfg os c rs (ucast (sc_size c)) w = Returned (p, c', w')" "class_ok cfg k c" "counted cfg c"
  shows "counted cfg c'"
proof -
  note ok = allocate_small_class_ok [OF assms(1,2)]
  have sz: "sc_size c' = sc_size c" using ok(1) by (simp add: allocated_from_def same_static_def)
  show ?thesis
  proof (cases "p = NULL")
    case True
    then show ?thesis using ok assms(3) sz counted_cong [of c' c] by (auto simp: allocated_from_def)
  next
    case False
    then have "live c' = insert p (live c)" "p \<notin> live c" using ok(1) live_held by (auto simp: allocated_from_def)
    then have "card (live c') = Suc (card (live c))" using finite_live [OF assms(2)] by simp
    moreover have "counters c' = counters (stats_small_allocate cfg c (ucast (sc_size c)))"
      using all_oD [OF allocate_small_class_counters assms(1)] False by simp
    ultimately show ?thesis using assms(3) sz by (auto simp: counted_def counters_def stats_small_allocate_def stats_small_deallocate_def algebra_simps)
  qed
qed

lemma deallocate_counted:
  assumes "deallocate_small_class cfg os c class' p e w = Returned (c', w')" "class_ok cfg k c" "counted cfg c"
  shows "counted cfg c'"
proof -
  note ok = deallocate_small_class_ok [OF assms(1,2)]
  have sz: "sc_size c' = sc_size c" using ok by (simp add: same_static_def)
  have n: "card (live c) = Suc (card (live c'))"
    using ok card.remove [OF finite_live [OF assms(2)], of p] by simp
  have "counters c' = counters (stats_small_deallocate cfg c (ucast (sc_size c)))"
    using all_oD [OF deallocate_small_class_counters assms(1)] by simp
  then show ?thesis using assms(3) sz n by (auto simp: counted_def counters_def stats_small_allocate_def stats_small_deallocate_def algebra_simps)
qed

end
