(* ===== verification/Regions.thy ===== *)
theory Regions
  imports Pages Config Random_State
begin

text \<open>
  The region allocator of \<^verbatim>\<open>src/h_malloc.c\<close> that keeps track of large allocations: a hash table with
  linear probing (downwards) and deletion by shifting entries back, and the quarantine of freed
  mappings. The two arrays that the table alternates between are functions from indices to
  entries; a pointer to an entry is its index.
\<close>

section \<open>State\<close>

record region_metadata =
  rm_p :: ptr
  rm_size :: size_t
  rm_guard_size :: size_t

record quarantine_info =
  qi_p :: ptr
  qi_size :: size_t

definition zero_region :: region_metadata where
  "zero_region = \<lparr>rm_p = NULL, rm_size = 0, rm_guard_size = 0\<rparr>"

type_synonym region_table = "nat \<Rightarrow> region_metadata"

definition INITIAL_REGION_TABLE_SIZE :: nat where
  "INITIAL_REGION_TABLE_SIZE = 128"

definition MAX_REGION_TABLE_SIZE :: "config \<Rightarrow> nat" where
  "MAX_REGION_TABLE_SIZE cfg = CONFIG_CLASS_REGION_SIZE cfg div 4096 div 24"

text \<open>
  \<open>ra_regions\<close> and \<open>ra_spare\<close> are the contents of the array in use and of the other one, \<open>ra_regions_at\<close> and
  \<open>ra_spare_at\<close> where they are (\<^verbatim>\<open>ro.regions[0]\<close> and \<^verbatim>\<open>ro.regions[1]\<close>, in either order).
\<close>

record region_allocator =
  ra_regions :: region_table
  ra_regions_at :: ptr
  ra_spare :: region_table
  ra_spare_at :: ptr
  ra_total :: nat
  ra_free :: nat
  ra_allocated :: size_t
  ra_quarantine_random :: "quarantine_info list"
  ra_quarantine_queue :: "quarantine_info list"
  ra_quarantine_queue_index :: nat
  ra_rng :: random_state

definition stats_large_allocate :: "config \<Rightarrow> region_allocator \<Rightarrow> size_t \<Rightarrow> region_allocator" where
  "stats_large_allocate cfg ra sz = (if CONFIG_STATS cfg then ra\<lparr>ra_allocated := ra_allocated ra + sz\<rparr> else ra)"

definition stats_large_deallocate :: "config \<Rightarrow> region_allocator \<Rightarrow> size_t \<Rightarrow> region_allocator" where
  "stats_large_deallocate cfg ra sz = (if CONFIG_STATS cfg then ra\<lparr>ra_allocated := ra_allocated ra - sz\<rparr> else ra)"

section \<open>Quarantine of mappings\<close>

text \<open>
  The contents go first: the pages are replaced by a fresh inaccessible mapping, or, when that fails,
  discarded, or zeroed.
\<close>

definition purge_region :: "kernel \<Rightarrow> ptr \<Rightarrow> size_t \<Rightarrow> world \<Rightarrow> world outcome" where
  "purge_region os p sz w =
     bind_o (memory_map_fixed os p sz w) (\<lambda>(failed, w).
       if failed then
         bind_o (memory_purge os p sz w) (\<lambda>(failed, w).
           Returned (if failed then w\<lparr>w_mem := memset p 0 (unat sz) (w_mem w)\<rparr> else w))
       else Returned w)"

text \<open>The two arrays; what leaves them, when anything does, is unmapped by the caller.\<close>

definition region_quarantine_random ::
    "config \<Rightarrow> kernel \<Rightarrow> region_allocator \<Rightarrow> quarantine_info \<Rightarrow> world \<Rightarrow>
     (quarantine_info option \<times> region_allocator \<times> world) outcome" where
  "region_quarantine_random cfg os ra target w =
     (if REGION_QUARANTINE_RANDOM_LENGTH cfg > 0 then
        bind_o (get_random_u64_uniform os (ra_rng ra) (of_nat (REGION_QUARANTINE_RANDOM_LENGTH cfg)) w)
          (\<lambda>(r, rng, w).
            let index = unat r;
                random_substitute = ra_quarantine_random ra ! index;
                ra = ra\<lparr>ra_rng := rng, ra_quarantine_random := (ra_quarantine_random ra)[index := target]\<rparr>
            in Returned (if qi_p random_substitute = NULL then None else Some random_substitute, ra, w))
      else Returned (Some target, ra, w))"

definition region_quarantine_queue ::
    "config \<Rightarrow> region_allocator \<Rightarrow> quarantine_info \<Rightarrow> quarantine_info \<times> region_allocator" where
  "region_quarantine_queue cfg ra target =
     (if REGION_QUARANTINE_QUEUE_LENGTH cfg > 0 then
        let queue_substitute = ra_quarantine_queue ra ! ra_quarantine_queue_index ra
        in (queue_substitute,
            ra\<lparr>ra_quarantine_queue := (ra_quarantine_queue ra)[ra_quarantine_queue_index ra := target],
               ra_quarantine_queue_index :=
                 (ra_quarantine_queue_index ra + 1) mod REGION_QUARANTINE_QUEUE_LENGTH cfg\<rparr>)
      else (target, ra))"

definition regions_quarantine_deallocate_pages ::
    "config \<Rightarrow> kernel \<Rightarrow> region_allocator \<Rightarrow> ptr \<Rightarrow> size_t \<Rightarrow> size_t \<Rightarrow> world \<Rightarrow>
     (region_allocator \<times> world) outcome" where
  "regions_quarantine_deallocate_pages cfg os ra p sz guard_size w =
     (if \<not> REGION_QUARANTINE cfg \<or> unat sz \<ge> REGION_QUARANTINE_SKIP_THRESHOLD cfg then
        bind_o (deallocate_pages os p sz guard_size w) (\<lambda>w. Returned (ra, w))
      else
        bind_o (purge_region os p sz w) (\<lambda>w.
          let target = \<lparr>qi_p = p - guard_size, qi_size = sz + guard_size * 2\<rparr> in
          bind_o (region_quarantine_random cfg os ra target w) (\<lambda>(target, ra, w).
            case target of
              None \<Rightarrow> Returned (ra, w)
            | Some target \<Rightarrow>
                let (target, ra) = region_quarantine_queue cfg ra target in
                if qi_p target \<noteq> NULL then
                  bind_o (memory_unmap os (qi_p target) (qi_size target) w) (\<lambda>(_, w). Returned (ra, w))
                else Returned (ra, w))))"

section \<open>The hash table\<close>

text \<open>\<^verbatim>\<open>hash_page(p) & mask\<close> and \<^verbatim>\<open>(index - 1) & mask\<close>\<close>

definition first_index :: "size_t \<Rightarrow> ptr \<Rightarrow> size_t" where
  "first_index msk p = hash_page p AND msk"

definition next_index :: "size_t \<Rightarrow> size_t \<Rightarrow> size_t" where
  "next_index msk index = (index - 1) AND msk"

text \<open>The loops of \<^verbatim>\<open>regions_insert\<close> and \<^verbatim>\<open>regions_grow\<close>, and of \<^verbatim>\<open>regions_find\<close>.\<close>

partial_function (option) free_index_loop :: "region_table \<Rightarrow> size_t \<Rightarrow> size_t \<Rightarrow> size_t option" where
  "free_index_loop t msk index =
     (if rm_p (t (unat index)) \<noteq> NULL then free_index_loop t msk (next_index msk index) else Some index)"

partial_function (option) find_loop :: "region_table \<Rightarrow> size_t \<Rightarrow> ptr \<Rightarrow> size_t \<Rightarrow> size_t option" where
  "find_loop t msk p index =
     (let r = rm_p (t (unat index)) in
      if r \<noteq> p \<and> r \<noteq> NULL then find_loop t msk p (next_index msk index) else Some index)"

primrec rehash :: "region_table \<Rightarrow> size_t \<Rightarrow> nat list \<Rightarrow> region_table \<Rightarrow> region_table option" where
  "rehash old msk [] new = Some new"
| "rehash old msk (i # is) new =
     (let q = rm_p (old i) in
      if q \<noteq> NULL then
        case free_index_loop new msk (first_index msk q) of
          None \<Rightarrow> None
        | Some index \<Rightarrow> rehash old msk is (new(unat index := old i))
      else rehash old msk is new)"

text \<open>
  The array that is left is cleared: by a fresh mapping, by \<^verbatim>\<open>MADV_DONTNEED\<close> or by \<^verbatim>\<open>memset\<close>, whichever
  succeeds first.
\<close>

definition clear_table :: "nat \<Rightarrow> region_table \<Rightarrow> region_table" where
  "clear_table n t = (\<lambda>i. if i < n then zero_region else t i)"

definition regions_grow ::
    "config \<Rightarrow> kernel \<Rightarrow> region_allocator \<Rightarrow> world \<Rightarrow> (bool \<times> region_allocator \<times> world) outcome" where
  "regions_grow cfg os ra w =
     (if ra_total ra > (2 ^ 64 - 1) div 24 div 2 then Returned (True, ra, w)
      else
        let newtotal = ra_total ra * 2;
            newsize = newtotal * 24;
            msk = of_nat newtotal - 1 :: size_t in
        if newtotal > MAX_REGION_TABLE_SIZE cfg then Returned (True, ra, w)
        else
          bind_o (memory_protect_rw_metadata os (ra_spare_at ra) (of_nat newsize) w) (\<lambda>(failed, w).
            if failed then Returned (True, ra, w)
            else
              case rehash (ra_regions ra) msk [0..<ra_total ra] (ra_spare ra) of
                None \<Rightarrow> Diverged
              | Some p \<Rightarrow>
                  let oldsize = of_nat (ra_total ra * 24) in
                  bind_o (memory_map_fixed os (ra_regions_at ra) oldsize w) (\<lambda>(failed, w).
                  bind_o (if failed then
                            bind_o (memory_purge os (ra_regions_at ra) oldsize w) (\<lambda>(_, w). Returned w)
                          else Returned w) (\<lambda>w.
                    Returned (False,
                      ra\<lparr>ra_free := ra_free ra + ra_total ra, ra_total := newtotal,
                         ra_regions := p, ra_regions_at := ra_spare_at ra,
                         ra_spare := clear_table (ra_total ra) (ra_regions ra),
                         ra_spare_at := ra_regions_at ra\<rparr>, w)))))"

definition regions_insert ::
    "config \<Rightarrow> kernel \<Rightarrow> region_allocator \<Rightarrow> ptr \<Rightarrow> size_t \<Rightarrow> size_t \<Rightarrow> world \<Rightarrow>
     (bool \<times> region_allocator \<times> world) outcome" where
  "regions_insert cfg os ra p sz guard_size w =
     bind_o (if ra_free ra * 4 < ra_total ra then regions_grow cfg os ra w else Returned (False, ra, w))
       (\<lambda>(failed, ra, w).
         if failed then Returned (True, ra, w)
         else
           let msk = of_nat (ra_total ra) - 1 in
           case free_index_loop (ra_regions ra) msk (first_index msk p) of
             None \<Rightarrow> Diverged
           | Some index \<Rightarrow>
               Returned (False,
                 ra\<lparr>ra_regions := (ra_regions ra)(unat index := \<lparr>rm_p = p, rm_size = sz, rm_guard_size = guard_size\<rparr>),
                    ra_free := ra_free ra - 1\<rparr>, w))"

text \<open>\<open>None\<close> is a null pointer, \<open>Some i\<close> the address of entry \<open>i\<close>.\<close>

definition regions_find :: "region_allocator \<Rightarrow> ptr \<Rightarrow> nat option outcome" where
  "regions_find ra p =
     (let msk = of_nat (ra_total ra) - 1 in
      case find_loop (ra_regions ra) msk p (first_index msk p) of
        None \<Rightarrow> Diverged
      | Some index \<Rightarrow>
          let r = rm_p (ra_regions ra (unat index)) in
          Returned (if r = p \<and> r \<noteq> NULL then Some (unat index) else None))"

text \<open>
  The inner loop of \<^verbatim>\<open>regions_delete\<close> looks for an entry that may move to the hole at \<open>j\<close>; \<open>None\<close> inside means
  that it met an unused entry. The outer loop moves the entry and goes on with the hole it left.
\<close>

definition stays :: "size_t \<Rightarrow> size_t \<Rightarrow> size_t \<Rightarrow> bool" where
  "stays i r j \<longleftrightarrow> (i \<le> r \<and> r < j) \<or> (r < j \<and> j < i) \<or> (j < i \<and> i \<le> r)"

partial_function (option) delete_scan ::
    "region_table \<Rightarrow> size_t \<Rightarrow> size_t \<Rightarrow> size_t \<Rightarrow> size_t option option" where
  "delete_scan t msk j i =
     (let i = next_index msk i in
      if rm_p (t (unat i)) = NULL then Some None
      else if stays i (first_index msk (rm_p (t (unat i)))) j then delete_scan t msk j i
      else Some (Some i))"

partial_function (option) delete_loop :: "region_table \<Rightarrow> size_t \<Rightarrow> size_t \<Rightarrow> region_table option" where
  "delete_loop t msk i =
     (let t = t(unat i := (t (unat i))\<lparr>rm_p := NULL, rm_size := 0\<rparr>) in
      case delete_scan t msk i i of
        None \<Rightarrow> None
      | Some None \<Rightarrow> Some t
      | Some (Some k) \<Rightarrow> delete_loop (t(unat i := t (unat k))) msk k)"

definition regions_delete :: "region_allocator \<Rightarrow> nat \<Rightarrow> region_allocator outcome" where
  "regions_delete ra region =
     (let msk = of_nat (ra_total ra) - 1 in
      case delete_loop (ra_regions ra) msk (of_nat region) of
        None \<Rightarrow> Diverged
      | Some t \<Rightarrow> Returned (ra\<lparr>ra_free := ra_free ra + 1, ra_regions := t\<rparr>))"

section \<open>Initialisation\<close>

text \<open>The allocator state is fresh, zeroed memory when \<^verbatim>\<open>init_slow_path\<close> sets up its region allocator.\<close>

definition zero_region_allocator :: "config \<Rightarrow> region_allocator" where
  "zero_region_allocator cfg =
     \<lparr>ra_regions = (\<lambda>_. zero_region), ra_regions_at = NULL, ra_spare = (\<lambda>_. zero_region), ra_spare_at = NULL,
      ra_total = 0, ra_free = 0, ra_allocated = 0,
      ra_quarantine_random = replicate (REGION_QUARANTINE_RANDOM_LENGTH cfg) \<lparr>qi_p = NULL, qi_size = 0\<rparr>,
      ra_quarantine_queue = replicate (REGION_QUARANTINE_QUEUE_LENGTH cfg) \<lparr>qi_p = NULL, qi_size = 0\<rparr>,
      ra_quarantine_queue_index = 0, ra_rng = blank_random_state\<rparr>"

definition init_region_allocator ::
    "kernel \<Rightarrow> ptr \<Rightarrow> ptr \<Rightarrow> region_allocator \<Rightarrow> random_state \<Rightarrow> world \<Rightarrow>
     (region_allocator \<times> random_state \<times> world) outcome" where
  "init_region_allocator os regions_a regions_b ra rng w =
     bind_o (random_state_init_from_random_state os (ra_rng ra) rng w) (\<lambda>(ra_rng', rng, w).
       let ra = ra\<lparr>ra_rng := ra_rng', ra_regions_at := regions_a, ra_spare_at := regions_b,
                   ra_total := INITIAL_REGION_TABLE_SIZE, ra_free := INITIAL_REGION_TABLE_SIZE\<rparr> in
       bind_o (memory_protect_rw_metadata os (ra_regions_at ra) (of_nat (ra_total ra * 24)) w) (\<lambda>(failed, w).
         if failed then Aborted ''failed to unprotect memory for regions table''
         else Returned (ra, rng, w)))"

end
