(* ===== verification/Address_Space.thy ===== *)
theory Address_Space
  imports Regions "HOL-Library.Multiset"
begin

text \<open>
  Ownership of the address space. The allocator owns a collection of extents (mappings of large allocations, of
  the quarantine, of the slab region); the invariant is that every address is in at most one of them, and in none
  unless it is mapped. Since extents are counted with multiplicity, one condition says both that they are mapped
  and that they do not overlap.
\<close>

section \<open>What stays mapped\<close>

definition mapped :: "world \<Rightarrow> ptr \<Rightarrow> bool" where
  "mapped w a \<longleftrightarrow> vm_view (w_history w) a \<noteq> None"

definition keeps_maps :: "world \<Rightarrow> world \<Rightarrow> bool" where
  "keeps_maps w w' \<longleftrightarrow> (\<forall>a. mapped w a \<longrightarrow> mapped w' a)"

lemma keeps_maps_refl [simp]: "keeps_maps w w"
  by (simp add: keeps_maps_def)

lemma keeps_maps_trans [trans]: "keeps_maps w w' \<Longrightarrow> keeps_maps w' w'' \<Longrightarrow> keeps_maps w w''"
  by (simp add: keeps_maps_def)

lemma mapped_updates [simp]:
  "mapped (w\<lparr>w_mem := m\<rparr>) = mapped w" "mapped (set_errno e w) = mapped w"
  by (simp_all add: mapped_def set_errno_def fun_eq_iff)

lemma keeps_maps_updates [simp]:
  "keeps_maps w (w'\<lparr>w_mem := m\<rparr>) = keeps_maps w w'" "keeps_maps w (set_errno e w') = keeps_maps w w'"
  "keeps_maps (w\<lparr>w_mem := m\<rparr>) w' = keeps_maps w w'" "keeps_maps (set_errno e w) w' = keeps_maps w w'"
  by (simp_all add: keeps_maps_def)

lemma same_memory_mapped: "same_memory w w' \<Longrightarrow> mapped w' = mapped w"
  by (simp add: same_memory_def mapped_def fun_eq_iff)

lemma same_memory_keeps: "same_memory w w' \<Longrightarrow> keeps_maps w w'"
  by (simp add: keeps_maps_def same_memory_mapped)

lemma same_memory_fresh: "same_memory w w' \<Longrightarrow> fresh_mmap os w' n = fresh_mmap os w n"
  by (simp add: same_memory_def fresh_mmap_def)

text \<open>Only \<^verbatim>\<open>munmap\<close> and \<^verbatim>\<open>mremap\<close> take mappings away.\<close>

definition unmaps :: "syscall \<Rightarrow> bool" where
  "unmaps c \<longleftrightarrow> (case c of Munmap _ _ \<Rightarrow> True | Mremap _ _ _ \<Rightarrow> True | Mremap_fixed _ _ _ _ \<Rightarrow> True | _ \<Rightarrow> False)"

lemma sys_bool_keeps: "sys_bool msg os c w = Returned (failed, w') \<Longrightarrow> \<not> unmaps c \<Longrightarrow> keeps_maps w w'"
  using sys_bool_view [of msg os c w failed w']
  by (auto simp: keeps_maps_def mapped_def unmaps_def vm_apply_def split: syscall.splits if_splits)

lemma wrapper_keeps:
  "memory_map_fixed os p n w = Returned (failed, w') \<Longrightarrow> keeps_maps w w'"
  "memory_protect_rw os p n w = Returned (failed, w') \<Longrightarrow> keeps_maps w w'"
  "memory_protect_ro os p n w = Returned (failed, w') \<Longrightarrow> keeps_maps w w'"
  "memory_protect_rw_metadata os p n w = Returned (failed, w') \<Longrightarrow> keeps_maps w w'"
  "memory_purge os p n w = Returned (failed, w') \<Longrightarrow> keeps_maps w w'"
  by (auto simp: memory_wrapper_defs unmaps_def dest: sys_bool_keeps)

lemma memory_map_keeps:
  assumes "memory_map os n w = Returned (p, w')"
  shows "keeps_maps w w'"
proof (cases "p = NULL")
  case True
  then show ?thesis
    using assms
    by (auto simp: memory_map_def memory_map_prot_def keeps_maps_def mapped_def vm_apply_def w_history_sys
        split: prod.splits sysret.splits if_splits)
next
  case False
  then show ?thesis using memory_map_view [OF assms] by (auto simp: keeps_maps_def mapped_def vm_apply_def)
qed

lemma unmap_mapped:
  "memory_unmap os p n w = Returned (failed, w') \<Longrightarrow> mapped w a \<Longrightarrow> \<not> in_range p (page_round n) a \<Longrightarrow> mapped w' a"
  using sys_bool_view [of "''non-ENOMEM munmap failure''" os "Munmap p n" w failed w']
  by (auto simp: mapped_def memory_unmap_def vm_apply_def split: if_splits)

section \<open>Extents\<close>

definition in_extent :: "ptr \<Rightarrow> quarantine_info \<Rightarrow> bool" where
  "in_extent a x \<longleftrightarrow> in_range (qi_p x) (page_round (qi_size x)) a"

definition cover :: "quarantine_info multiset \<Rightarrow> ptr \<Rightarrow> nat" where
  "cover X a = size (filter_mset (in_extent a) X)"

definition owns :: "world \<Rightarrow> quarantine_info multiset \<Rightarrow> bool" where
  "owns w X \<longleftrightarrow> (\<forall>a. cover X a \<le> (if mapped w a then 1 else 0))"

lemma cover_simps [simp]:
  "cover {#} a = 0" "cover (X + Y) a = cover X a + cover Y a"
  "cover (add_mset x X) a = (if in_extent a x then 1 else 0) + cover X a"
  by (simp_all add: cover_def)

lemma owns_empty [simp]: "owns w {#}"
  by (simp add: owns_def)

lemma owns_updates [simp]: "owns (w\<lparr>w_mem := m\<rparr>) = owns w" "owns (set_errno e w) = owns w"
  by (simp_all add: owns_def fun_eq_iff)

lemma ownsI: "(\<And>a. mapped w a \<Longrightarrow> cover X a \<le> 1) \<Longrightarrow> (\<And>a. \<not> mapped w a \<Longrightarrow> cover X a = 0) \<Longrightarrow> owns w X"
  by (simp add: owns_def)

lemma ownsD: "owns w X \<Longrightarrow> cover X a \<le> 1" "owns w X \<Longrightarrow> \<not> mapped w a \<Longrightarrow> cover X a = 0"
proof -
  assume "owns w X"
  then have *: "cover X a \<le> (if mapped w a then 1 else 0)" by (simp only: owns_def)
  then show "cover X a \<le> 1" by (cases "mapped w a") simp_all
  show "\<not> mapped w a \<Longrightarrow> cover X a = 0" using * by simp
qed

lemma owns_keeps: "owns w X \<Longrightarrow> keeps_maps w w' \<Longrightarrow> owns w' X"
  by (rule ownsI) (auto simp: keeps_maps_def intro: ownsD(2) simp del: One_nat_def dest: ownsD(1))

lemma owns_mono: "owns w (X + Y) \<Longrightarrow> owns w X"
  by (rule ownsI) (use ownsD(1) [of w "X + Y"] ownsD(2) [of w "X + Y"] in \<open>auto intro: add_leD1\<close>)

lemma owns_disjoint: "owns w (add_mset x X) \<Longrightarrow> in_extent a x \<Longrightarrow> y \<in># X \<Longrightarrow> \<not> in_extent a y"
proof
  assume o: "owns w (add_mset x X)" "in_extent a x" "y \<in># X" "in_extent a y"
  obtain Y where "X = add_mset y Y" using o(3) by (metis insert_DiffM)
  then show False using ownsD(1) [OF o(1), of a] o(2,4) by simp
qed

lemma owns_mapped: "owns w X \<Longrightarrow> x \<in># X \<Longrightarrow> in_extent a x \<Longrightarrow> mapped w a"
proof (rule ccontr)
  assume o: "owns w X" "x \<in># X" "in_extent a x" "\<not> mapped w a"
  obtain Y where "X = add_mset x Y" using o(2) by (metis insert_DiffM)
  then show False using ownsD(2) [OF o(1,4)] o(3) by simp
qed

text \<open>A fresh mapping is a new extent.\<close>

lemma owns_fresh:
  assumes "owns w X" "\<And>a. in_extent a x \<Longrightarrow> \<not> mapped w a" "\<And>a. in_extent a x \<Longrightarrow> mapped w' a" "keeps_maps w w'"
  shows "owns w' (add_mset x X)"
proof (rule ownsI)
  fix a assume "mapped w' a"
  then show "cover (add_mset x X) a \<le> 1"
    using ownsD(1) [OF assms(1), of a] ownsD(2) [OF assms(1) assms(2), of a] by (cases "in_extent a x") simp_all
next
  fix a assume "\<not> mapped w' a"
  then have "\<not> in_extent a x" "\<not> mapped w a" using assms(3,4) by (auto simp: keeps_maps_def)
  then show "cover (add_mset x X) a = 0" using ownsD(2) [OF assms(1)] by simp
qed

text \<open>Giving an extent up: whatever is lost of the mappings lies inside it.\<close>

lemma owns_drop:
  assumes "owns w (add_mset x X)" "\<And>a. mapped w a \<Longrightarrow> \<not> in_extent a x \<Longrightarrow> mapped w' a"
  shows "owns w' X"
proof (rule ownsI)
  fix a
  show "cover X a \<le> 1" using ownsD(1) [OF assms(1), of a] by simp
next
  fix a assume n: "\<not> mapped w' a"
  show "cover X a = 0"
  proof (cases "in_extent a x")
    case True
    then show ?thesis using ownsD(1) [OF assms(1), of a] by simp
  next
    case False
    then have "\<not> mapped w a" using assms(2) n by blast
    then show ?thesis using ownsD(2) [OF assms(1)] by simp
  qed
qed

lemma owns_unmap:
  assumes "memory_unmap os (qi_p x) (qi_size x) w = Returned (failed, w')" "owns w (add_mset x X)"
  shows "owns w' X"
  using assms(2) by (rule owns_drop) (auto simp: in_extent_def intro: unmap_mapped [OF assms(1)])

lemma owns_deallocate_pages:
  assumes "deallocate_pages os p sz g w = Returned w'" "owns w (add_mset \<lparr>qi_p = p - g, qi_size = sz + g * 2\<rparr> X)"
  shows "owns w' X"
proof -
  obtain failed w1 where um: "memory_unmap os (p - g) (sz + g * 2) w = Returned (failed, w1)" and k: "keeps_maps w1 w'"
    using assms(1) unfolding deallocate_pages_def
    by (auto simp: outcome_simps split: if_splits dest: wrapper_keeps)
  have "owns w1 X" using owns_unmap [OF _ assms(2)] um by simp
  then show ?thesis using k by (rule owns_keeps)
qed

lemma purge_region_keeps: "purge_region os p n w = Returned w' \<Longrightarrow> keeps_maps w w'"
  by (auto simp: purge_region_def outcome_simps split: if_splits dest!: wrapper_keeps elim: keeps_maps_trans)

section \<open>Fresh pages\<close>

lemma owns_allocate_pages:
  assumes "allocate_pages os sz g True w = Returned (p, w')" "p \<noteq> NULL" "4096 dvd unat g" "fresh_mmap os w (sz + g * 2)"
    and "owns w X"
  shows "owns w' (add_mset \<lparr>qi_p = p - g, qi_size = sz + g * 2\<rparr> X)"
proof -
  note fresh = allocate_pages_fresh [OF assms(1,2,4)]
  note view = allocate_pages_view [OF assms(1-3)]
  have r: "page_round (sz + g * 2) = page_round sz + 2 * unat g" by (rule page_round_guards [OF fresh(1) assms(3)])
  show ?thesis
    by (rule owns_fresh [OF assms(5)])
      (use fresh(4) in \<open>auto simp: in_extent_def mapped_def view guarded_def r keeps_maps_def\<close>)
qed

lemma owns_allocate_pages_aligned:
  assumes "allocate_pages_aligned os sz alignment g w = Returned (p, w')" "p \<noteq> NULL"
    and "alignment = 2 ^ k" "12 \<le> k" "k < 64" "4096 dvd unat g" "\<And>n. fresh_mmap os w n" "owns w X"
  shows "owns w' (add_mset \<lparr>qi_p = p - g, qi_size = sz + g * 2\<rparr> X)" "p - g \<noteq> NULL" "unat sz + 2 * unat g < 2 ^ 64"
    "unat (p - g) + page_round (sz + g * 2) < 2 ^ 64"
proof -
  note view = allocate_pages_aligned_view [OF assms(1-7)]
  have r: "page_round (sz + g * 2) = page_round sz + 2 * unat g" by (rule page_round_guards [OF view(3) assms(6)])
  show "owns w' (add_mset \<lparr>qi_p = p - g, qi_size = sz + g * 2\<rparr> X)"
    by (rule owns_fresh [OF assms(8)])
      (use view(6) in \<open>auto simp: in_extent_def mapped_def view(2) guarded_def r keeps_maps_def\<close>)
  show "p - g \<noteq> NULL" "unat sz + 2 * unat g < 2 ^ 64" by (rule view)+
  show "unat (p - g) + page_round (sz + g * 2) < 2 ^ 64" using view(5) r by simp
qed

text \<open>When an allocation of pages fails, nothing that was mapped before is lost: what it unmaps is what it mapped.\<close>

lemma fresh_mapping:
  assumes "memory_map os n w = Returned (real, w1)" "real \<noteq> NULL" "fresh_mmap os w n" "mapped w a"
  shows "\<not> in_range real (page_round n) a"
proof -
  obtain m where "k_syscall os (w_history w) (w_mem w) (Mmap n PROT_NONE) = (Sys_ok real, m)"
    using memory_map_view [OF assms(1,2)] by blast
  from assms(3) [unfolded fresh_mmap_def, rule_format, OF this] assms(4) show ?thesis by (auto simp: mapped_def)
qed

lemma unmap_inside:
  assumes "memory_unmap os (real + d) n w1 = Returned (failed, w2)" "keeps_maps w w1"
    and "\<And>a. mapped w a \<Longrightarrow> \<not> in_range real m a" "page_round n + unat d \<le> m" "m \<le> 2 ^ 64"
  shows "keeps_maps w w2"
  unfolding keeps_maps_def
proof (intro allI impI)
  fix a assume a: "mapped w a"
  have "\<not> in_range (real + d) (page_round n) a"
    using in_range_shift [of real d "page_round n" a m] assms(3) [OF a] assms(4,5) by auto
  then show "mapped w2 a" using unmap_mapped [OF assms(1)] assms(2) a by (auto simp: keeps_maps_def)
qed

lemma allocate_pages_keeps:
  assumes "fresh_mmap os w (sz + g * 2)"
  shows "all_o (\<lambda>(p, w'). keeps_maps w w') (allocate_pages os sz g unprotect w)"
proof -
  obtain ov t where ag: "add_guards sz g = (ov, t)" by (cases "add_guards sz g")
  have t: "t = sz + g * 2" if "\<not> ov" using ag add_guards_iff [of sz g t] that by auto
  have un: "keeps_maps w w2" if "memory_unmap os real t w1 = Returned (f, w2)" "keeps_maps w w1"
      "memory_map os t w = Returned (real, w0)" "real \<noteq> NULL" "\<not> ov" for real f w0 w1 w2
    using unmap_inside [of os real 0 t w1 f w2 w "page_round t"] that fresh_mapping [OF that(3,4)] assms t page_round_le [of t]
    by simp
  show ?thesis
  proof (cases ov)
    case True
    then show ?thesis by (simp add: allocate_pages_def ag)
  next
    case False
    show ?thesis
      unfolding allocate_pages_def ag Let_def prod.case if_not_P [OF False]
    proof (rule all_o_bind [of "\<lambda>(real, w1). memory_map os t w = Returned (real, w1)"], goal_cases)
      case (2 x)
      obtain real w1 where x: "x = (real, w1)" by (cases x)
      with 2 have m: "memory_map os t w = Returned (real, w1)" by simp
      note k1 = memory_map_keeps [OF m]
      have 1: "all_o (\<lambda>(_, w2). keeps_maps w w2) (memory_protect_rw os p n w1)" for p n
        by (auto intro!: all_oI dest: wrapper_keeps intro: keeps_maps_trans [OF k1])
      have 2: "all_o (\<lambda>(_, w3). keeps_maps w w3) (memory_unmap os real t w2)" if "keeps_maps w w2" "real \<noteq> NULL" for w2
        by (auto intro!: all_oI dest: un [OF _ that(1) m that(2) False])
      show ?case
        unfolding x prod.case
        by (auto intro!: all_o_bind [of "\<lambda>(_, w2). keeps_maps w w2"] 1 2 simp: k1)
    qed (auto intro: all_oI)
  qed
qed

lemma allocate_pages_aligned_keeps:
  assumes k: "alignment = 2 ^ k" "12 \<le> k" "k < 64" and g: "4096 dvd unat g" and fresh: "\<And>n. fresh_mmap os w n"
  shows "all_o (\<lambda>(p, w'). keeps_maps w w') (allocate_pages_aligned os us alignment g w)"
proof -
  define usz where "usz = page_align us"
  obtain o1 als where ba: "builtin_add_overflow usz (alignment - PAGE_SIZE) = (o1, als)" by fastforce
  obtain o2 whole where ag: "add_guards als g = (o2, whole)" by fastforce
  show ?thesis
  proof (cases "usz = 0 \<or> o1 \<or> o2")
    case True
    then show ?thesis by (auto simp: allocate_pages_aligned_def ba ag simp flip: usz_def)
  next
    case False
    then have no: "usz \<noteq> 0" "\<not> o1" "\<not> o2" by simp_all
    have als: "unat usz + unat (alignment - PAGE_SIZE) < 2 ^ 64" "als = usz + (alignment - PAGE_SIZE)"
      using no ba builtin_add_overflow_iff [of usz "alignment - PAGE_SIZE" als] by auto
    have whole: "unat als + 2 * unat g < 2 ^ 64" "whole = als + g * 2"
      using no ag add_guards_iff [of als g whole] by auto
    have u4: "4096 dvd unat usz" by (simp add: usz_def)
    show ?thesis
      unfolding allocate_pages_aligned_def Let_def usz_def [symmetric] ba prod.case ag if_not_P [OF no(1)] if_not_P [OF no(2)]
        if_not_P [OF no(3)]
    proof (rule all_o_bind [of "\<lambda>(real, w1). memory_map os whole w = Returned (real, w1)"], goal_cases)
      case (2 x)
      obtain real w1 where x: "x = (real, w1)" by (cases x)
      with 2 have m: "memory_map os whole w = Returned (real, w1)" by simp
      note k1 = memory_map_keeps [OF m]
      show ?case
      proof (cases "real = NULL")
        case True
        then show ?thesis by (simp add: x k1)
      next
        case nn: False
        define lead where "lead = align (real + g) alignment - (real + g)"
        define trail where "trail = alignment - PAGE_SIZE - lead"
        have real: "4096 dvd unat real" "unat real + page_round whole < 2 ^ 64"
          using memory_map_view [OF m nn] fresh [of whole] by (auto simp: fresh_mmap_def)
        note sizes = aligned_sizes [OF k g u4 no(1) als(1) whole(1) [unfolded als(2)] real(1)
            real(2) [unfolded whole(2) als(2)], folded lead_def, folded trail_def als(2), folded whole(2)]
        note frs = fresh_mapping [OF m nn fresh]
        have un: "all_o (\<lambda>(_, w3). keeps_maps w w3) (memory_unmap os (real + d) n w2)"
          if "keeps_maps w w2" "page_round n + unat d \<le> page_round whole" for w2 d n
          by (auto intro!: all_oI dest: unmap_inside [OF _ that(1) frs that(2) page_round_le])
        have un0: "all_o (\<lambda>(_, w3). keeps_maps w w3) (memory_unmap os real whole w2)"
          "all_o (\<lambda>(_, w3). keeps_maps w w3) (memory_unmap os real lead w2)" if "keeps_maps w w2" for w2
          using un [OF that, of whole 0] un [OF that, of lead 0] sizes
          by (simp_all add: page_round_aligned)
        define q where "q = real + g + lead + usz + g"
        have at: "q = real + (g + lead + usz + g)" by (simp only: q_def add.assoc)
        have un1: "all_o (\<lambda>(_, w3). keeps_maps w w3) (memory_unmap os q trail w2)" if "keeps_maps w w2" for w2
          unfolding at using un [OF that, of trail "g + lead + usz + g"] sizes by (simp add: page_round_aligned)
        have pr: "all_o (\<lambda>(_, w2). keeps_maps w w2) (memory_protect_rw os p n w1)" for p n
          by (auto intro!: all_oI dest: wrapper_keeps intro: keeps_maps_trans [OF k1])
        have tr: "als - lead - usz = trail" by (simp add: trail_def als(2))
        show ?thesis
          unfolding x prod.case if_not_P [OF nn] lead_def [symmetric] tr q_def [symmetric]
          by (auto intro!: all_o_bind [of "\<lambda>(_, w2). keeps_maps w w2"] pr un0 un1)
      qed
    qed (auto intro: all_oI)
  qed
qed

end
