(* ===== verification/Slab_Mappings.thy ===== *)
theory Slab_Mappings
  imports Slab_Allocator Address_Space
begin

text \<open>
  The slab allocator works inside the slab region: it changes protections and replaces pages there but never unmaps
  anything. Each operation therefore keeps every mapping of the process, its own and those of large allocations.
\<close>

named_theorems keeps \<open>operations that keep the mappings\<close>

text \<open>The last component of a result is the world after the call.\<close>

abbreviation pair_keeps :: "world \<Rightarrow> 'a \<times> world \<Rightarrow> bool" where
  "pair_keeps w0 \<equiv> \<lambda>(_, w). keeps_maps w0 w"

abbreviation triple_keeps :: "world \<Rightarrow> 'a \<times> 'b \<times> world \<Rightarrow> bool" where
  "triple_keeps w0 \<equiv> \<lambda>(_, _, w). keeps_maps w0 w"

lemma bind_pair_keeps [keeps]:
  "all_o (pair_keeps w0) m \<Longrightarrow> (\<And>a w. keeps_maps w0 w \<Longrightarrow> all_o Q (f a w)) \<Longrightarrow> all_o Q (bind_o m (\<lambda>(a, w). f a w))"
  by (rule all_o_bind [of "pair_keeps w0"]) auto

lemma bind_triple_keeps [keeps]:
  "all_o (triple_keeps w0) m \<Longrightarrow> (\<And>a b w. keeps_maps w0 w \<Longrightarrow> all_o Q (f a b w)) \<Longrightarrow>
   all_o Q (bind_o m (\<lambda>(a, b, w). f a b w))"
  by (rule all_o_bind [of "triple_keeps w0"]) auto

lemma bind_any_keeps: "(\<And>x. all_o Q (f x)) \<Longrightarrow> all_o Q (bind_o m f)"
  by (cases m) simp_all

lemma wrappers_keep [keeps]:
  assumes "keeps_maps w0 w"
  shows "all_o (pair_keeps w0) (memory_map_fixed os p n w)" "all_o (pair_keeps w0) (memory_protect_rw os p n w)"
    "all_o (pair_keeps w0) (memory_protect_ro os p n w)" "all_o (pair_keeps w0) (memory_protect_rw_metadata os p n w)"
    "all_o (pair_keeps w0) (memory_purge os p n w)" "all_o (pair_keeps w0) (memory_map os n w)"
  by (auto intro!: all_oI keeps_maps_trans [OF assms] dest: wrapper_keeps memory_map_keeps)

section \<open>Random numbers\<close>

lemma random_state_init_keeps [keeps]: "keeps_maps w0 w \<Longrightarrow> all_o (pair_keeps w0) (random_state_init os state w)"
  by (auto intro!: all_oI simp: random_state_init_def outcome_simps
      dest!: get_random_seed_same same_memory_keeps elim: keeps_maps_trans)

lemma refill_keeps [keeps]: "keeps_maps w0 w \<Longrightarrow> all_o (pair_keeps w0) (refill os state w)"
  unfolding refill_def by (auto intro!: keeps split: prod.splits)

lemma get_random_word_keeps [keeps]: "keeps_maps w0 w \<Longrightarrow> all_o (triple_keeps w0) (get_random_word n os state w)"
  unfolding get_random_word_def Let_def by (auto intro!: keeps)

lemma random_u64_keeps [keeps]: "keeps_maps w0 w \<Longrightarrow> all_o (triple_keeps w0) (get_random_u64 os state w)"
  unfolding get_random_u64_def by (rule keeps)

lemma uniform_keeps [keeps]:
  assumes "keeps_maps w0 w"
  shows "all_o (triple_keeps w0) (get_random_u16_uniform os state b w)"
    "all_o (triple_keeps w0) (get_random_u32_uniform os state b' w)"
    "all_o (triple_keeps w0) (get_random_u64_uniform os state b'' w)"
proof -
  have step: "keeps_maps w0 (snd s')"
    if "keeps_maps w0 (snd s)" "(case s of (state, w) \<Rightarrow> get_random_word n os state w) = Returned (x :: 'a::len word, s')"
    for n s s' x
    using all_oD [OF get_random_word_keeps [OF that(1), of n os "fst s"]] that(2) by (cases s; cases s') fastforce
  show "all_o (triple_keeps w0) (get_random_u16_uniform os state b w)"
  proof (rule all_oI, clarify)
    fix v s w'
    assume "get_random_u16_uniform os state b w = Returned (v, s, w')"
    from u16_sampler.uniform_returns [OF this [unfolded get_random_u16_uniform_def], of "\<lambda>s. keeps_maps w0 (snd s)"]
      step [of _ 2] assms show "keeps_maps w0 w'" by (auto simp: get_random_u16_def)
  qed
  show "all_o (triple_keeps w0) (get_random_u32_uniform os state b' w)"
  proof (rule all_oI, clarify)
    fix v s w'
    assume "get_random_u32_uniform os state b' w = Returned (v, s, w')"
    from u32_sampler.uniform_returns [OF this [unfolded get_random_u32_uniform_def], of "\<lambda>s. keeps_maps w0 (snd s)"]
      step [of _ 4] assms show "keeps_maps w0 w'" by (auto simp: get_random_u32_def)
  qed
  show "all_o (triple_keeps w0) (get_random_u64_uniform os state b'' w)"
  proof (rule all_oI, clarify)
    fix v s w'
    assume "get_random_u64_uniform os state b'' w = Returned (v, s, w')"
    from u64_sampler.uniform_returns [OF this [unfolded get_random_u64_uniform_def], of "\<lambda>s. keeps_maps w0 (snd s)"]
      step [of _ 8] assms show "keeps_maps w0 w'" by (auto simp: get_random_u64_def)
  qed
qed

section \<open>Slab operations\<close>

text \<open>Calls that do not touch the world at all.\<close>

lemmas bind_pure_keeps [keeps] =
  bind_any_keeps [of _ _ "first_slot_loop slots bm i" for slots bm i]
  bind_any_keeps [of _ _ "case free_slot_loop slots bm i m of None \<Rightarrow> Diverged | Some s \<Rightarrow> Returned s" for slots bm i m]
  bind_any_keeps [of _ _ "get_metadata c p" for c p]
  bind_any_keeps [of _ _ "check_canary cfg md p sz w" for cfg md p sz w]

lemma set_canary_keeps [simp]: "keeps_maps w0 (set_canary cfg md p sz w) = keeps_maps w0 w"
  by (simp add: set_canary_def)

lemma take_slot_keeps [keeps]: "keeps_maps w0 w \<Longrightarrow> all_o (triple_keeps w0) (take_slot cfg os c i w)"
  unfolding take_slot_def get_free_slot_def Let_def
  by (auto intro!: keeps)

lemma prepare_slot_keeps:
  "keeps_maps w0 w \<Longrightarrow> all_o (keeps_maps w0) (prepare_slot cfg reused requested md p sz w)"
  unfolding prepare_slot_def by (auto intro!: bind_any_keeps)

lemma bind_prepare_keeps [keeps]:
  "keeps_maps w0 w \<Longrightarrow> (\<And>w. keeps_maps w0 w \<Longrightarrow> all_o Q (f w)) \<Longrightarrow>
   all_o Q (bind_o (prepare_slot cfg reused requested md p sz w) f)"
  by (rule all_o_bind [OF prepare_slot_keeps])

lemma set_class_canary_keeps [keeps]: "keeps_maps w0 w \<Longrightarrow> all_o (pair_keeps w0) (set_class_canary cfg os c i w)"
  unfolding set_class_canary_def set_slab_canary_value_def by (auto intro!: keeps)

lemma alloc_metadata_keeps [keeps]:
  "keeps_maps w0 w \<Longrightarrow> all_o (triple_keeps w0) (alloc_metadata cfg os c slab_size nz w)"
  unfolding alloc_metadata_def grow_metadata_def Let_def by (auto intro!: keeps)

lemma allocate_small_class_keeps [keeps]:
  "keeps_maps w0 w \<Longrightarrow> all_o (triple_keeps w0) (allocate_small_class cfg os c requested sz w)"
  unfolding allocate_small_class_def allocate_small_empty_def allocate_small_free_def allocate_small_new_def
    allocate_small_partial_def Let_def
  by (auto intro!: keeps split: option.splits)

lemma enqueue_free_slab_keeps [keeps]: "keeps_maps w0 w \<Longrightarrow> all_o (pair_keeps w0) (enqueue_free_slab cfg os c i w)"
  unfolding enqueue_free_slab_def Let_def by (auto intro!: keeps)

lemma slab_quarantine_keeps [keeps]: "keeps_maps w0 w \<Longrightarrow> all_o (triple_keeps w0) (slab_quarantine cfg os c sz p w)"
  unfolding slab_quarantine_def quarantine_random_stage_def Let_def by (auto intro!: keeps split: prod.splits)

lemma release_slot_keeps [keeps]: "keeps_maps w0 w \<Longrightarrow> all_o (pair_keeps w0) (release_slot cfg os c slab i slot w)"
  unfolding release_slot_def retire_slab_def Let_def by (auto intro!: keeps)

lemma finish_deallocate_keeps [keeps]:
  "keeps_maps w0 w \<Longrightarrow> all_o (pair_keeps w0) (finish_deallocate cfg os c i slot p w)"
  unfolding finish_deallocate_def Let_def by (auto intro!: keeps)

lemma deallocate_small_class_keeps [keeps]:
  "keeps_maps w0 w \<Longrightarrow> all_o (pair_keeps w0) (deallocate_small_class cfg os c k p expected w)"
  unfolding deallocate_small_class_def Let_def by (auto intro!: keeps simp: bind_o_assoc)

end
