(* ===== verification/Region_Table.thy ===== *)
theory Region_Table
  imports Regions Contract
begin

text \<open>
  The region table refines a map from addresses to regions. Positions along a probe sequence are
  counted from the entry where it starts, so that all the modular arithmetic is in the two functions
  \<open>cell\<close> and \<open>dist\<close>. The table is well formed when no probe sequence that leads to an entry has a gap; the
  shifting deletion is followed with one gap allowed, the hole it is about to fill.
\<close>

section \<open>Probe sequences\<close>

definition table_size :: "nat \<Rightarrow> size_t \<Rightarrow> bool" where
  "table_size n msk \<longleftrightarrow> (\<exists>m < 64. n = 2 ^ m) \<and> msk = of_nat n - 1"

definition home :: "size_t \<Rightarrow> ptr \<Rightarrow> nat" where
  "home msk p = unat (first_index msk p)"

definition down :: "nat \<Rightarrow> nat \<Rightarrow> nat" where
  "down n i = (if i = 0 then n - 1 else i - 1)"

definition cell :: "nat \<Rightarrow> nat \<Rightarrow> nat \<Rightarrow> nat" where
  "cell n h k = (if k \<le> h then h - k else h + n - k)"

definition dist :: "nat \<Rightarrow> nat \<Rightarrow> nat \<Rightarrow> nat" where
  "dist n h i = (if i \<le> h then h - i else h + n - i)"

lemma table_size_mask: "table_size n msk \<Longrightarrow> \<exists>m < 64. n = 2 ^ m \<and> msk = mask m"
  by (auto simp: table_size_def mask_eq_decr_exp)

lemma table_size_pos: "table_size n msk \<Longrightarrow> 0 < n"
  by (auto simp: table_size_def)

lemma home_less: "table_size n msk \<Longrightarrow> home msk p < n"
  by (auto dest!: table_size_mask simp: home_def first_index_def unat_and_mask)

lemma unat_next_index:
  assumes "table_size n msk" "unat i < n"
  shows "unat (next_index msk i) = down n (unat i)"
proof -
  obtain m where m: "m < 64" "n = 2 ^ m" "msk = mask m" using table_size_mask [OF assms(1)] by blast
  have u: "unat (next_index msk i) = unat (i - 1) mod n" by (simp add: next_index_def m unat_and_mask)
  show ?thesis
  proof (cases "i = 0")
    case True
    have "(a * n - 1) mod n = n - 1" if "0 < a" "0 < n" for a :: nat
    proof -
      obtain a' where "a = Suc a'" using \<open>0 < a\<close> by (cases a) auto
      then have "a * n - 1 = a' * n + (n - 1)" using \<open>0 < n\<close> by simp
      then have "(a * n - 1) mod n = (n - 1) mod n" by (simp only: mod_mult_self3)
      then show ?thesis using \<open>0 < n\<close> by simp
    qed
    from this [of "2 ^ (64 - m)"] have "(2 ^ (64 - m) * n - 1) mod n = n - 1" using m(2) by simp
    moreover have "2 ^ (64 - m) * n = 2 ^ 64" using m(1,2) by (simp flip: power_add)
    ultimately have "(2 ^ 64 - 1) mod n = n - 1" by (simp only:)
    moreover have "unat (i - 1) = 2 ^ 64 - 1" using True by (simp add: unsigned_minus_1_eq_mask mask_eq_exp_minus_1)
    ultimately show ?thesis using u True m(2) by (simp add: down_def)
  next
    case False
    then have "unat (i - 1) = unat i - 1" by (rule unat_minus_one)
    then show ?thesis using u False assms(2) by (simp add: down_def unat_eq_zero)
  qed
qed

lemma cell_simps [simp]: "cell n h 0 = h"
  by (simp add: cell_def)

lemma cell_less: "h < n \<Longrightarrow> k < n \<Longrightarrow> cell n h k < n"
  by (auto simp: cell_def)

lemma cell_down: "h < n \<Longrightarrow> Suc k < n \<Longrightarrow> cell n (down n h) k = cell n h (Suc k)"
  by (auto simp: cell_def down_def)

lemma down_cell: "h < n \<Longrightarrow> Suc k < n \<Longrightarrow> down n (cell n h k) = cell n h (Suc k)"
  by (auto simp: cell_def down_def)

lemma dist_less: "h < n \<Longrightarrow> i < n \<Longrightarrow> dist n h i < n"
  by (auto simp: dist_def)

lemma cell_dist: "h < n \<Longrightarrow> i < n \<Longrightarrow> cell n h (dist n h i) = i"
  by (auto simp: cell_def dist_def)

lemma dist_cell: "h < n \<Longrightarrow> k < n \<Longrightarrow> dist n h (cell n h k) = k"
  by (auto simp: cell_def dist_def)

lemma cell_eq_iff: "h < n \<Longrightarrow> k < n \<Longrightarrow> i < n \<Longrightarrow> cell n h k = i \<longleftrightarrow> k = dist n h i"
  using cell_dist dist_cell by metis

section \<open>Well-formed tables\<close>

definition probe_ok :: "nat set \<Rightarrow> nat \<Rightarrow> size_t \<Rightarrow> region_table \<Rightarrow> bool" where
  "probe_ok H n msk t \<longleftrightarrow>
     (\<forall>i < n. rm_p (t i) \<noteq> NULL \<longrightarrow>
       (\<forall>k < dist n (home msk (rm_p (t i))) i.
          cell n (home msk (rm_p (t i))) k \<in> H \<or> rm_p (t (cell n (home msk (rm_p (t i))) k)) \<noteq> NULL))"

definition keys_distinct :: "nat \<Rightarrow> region_table \<Rightarrow> bool" where
  "keys_distinct n t \<longleftrightarrow>
     (\<forall>i < n. \<forall>j < n. rm_p (t i) = rm_p (t j) \<and> rm_p (t i) \<noteq> NULL \<longrightarrow> i = j)"

definition table_ok :: "nat \<Rightarrow> size_t \<Rightarrow> region_table \<Rightarrow> bool" where
  "table_ok n msk t \<longleftrightarrow> table_size n msk \<and> keys_distinct n t \<and> probe_ok {} n msk t"

text \<open>The entries of a table, and the map they make.\<close>

definition ents :: "nat \<Rightarrow> region_table \<Rightarrow> region_metadata set" where
  "ents n t = {e. rm_p e \<noteq> NULL \<and> (\<exists>i < n. t i = e)}"

lemma ents_indices: "ents n t = t ` {i. i < n \<and> rm_p (t i) \<noteq> NULL}"
  by (auto simp: ents_def)

lemma finite_ents [simp]: "finite (ents n t)"
  by (simp add: ents_indices)

lemma card_ents: "keys_distinct n t \<Longrightarrow> card (ents n t) = card {i. i < n \<and> rm_p (t i) \<noteq> NULL}"
  unfolding ents_indices by (rule card_image) (auto simp: inj_on_def keys_distinct_def)

lemma card_ents_le: "card (ents n t) \<le> n"
proof -
  have "card (ents n t) \<le> card {i. i < n \<and> rm_p (t i) \<noteq> NULL}"
    unfolding ents_indices by (rule card_image_le) simp
  also have "\<dots> \<le> card {..<n}" by (rule card_mono) auto
  finally show ?thesis by simp
qed

lemma ex_unused:
  assumes "card (ents n t) < n" "keys_distinct n t"
  shows "\<exists>i < n. rm_p (t i) = NULL"
proof (rule ccontr)
  assume "\<not> ?thesis"
  then have "{i. i < n \<and> rm_p (t i) \<noteq> NULL} = {..<n}" by auto
  then show False using assms card_ents by simp
qed

lemma ents_unique:
  assumes "keys_distinct n t" "e \<in> ents n t" "e' \<in> ents n t" "rm_p e = rm_p e'"
  shows "e = e'"
  using assms by (auto simp: ents_def keys_distinct_def)

section \<open>Searching\<close>

lemma find_loop_stops:
  assumes "table_size n msk" "unat index < n" "k < n"
    and "rm_p (t (cell n (unat index) k)) = p \<or> rm_p (t (cell n (unat index) k)) = NULL"
    and "\<And>l. l < k \<Longrightarrow> rm_p (t (cell n (unat index) l)) \<noteq> p \<and> rm_p (t (cell n (unat index) l)) \<noteq> NULL"
  shows "\<exists>i. find_loop t msk p index = Some i \<and> unat i = cell n (unat index) k"
  using assms(2-)
proof (induction k arbitrary: index)
  case 0
  then show ?case by (subst find_loop.simps) (auto simp: Let_def)
next
  case (Suc k)
  let ?h = "unat index"
  have go: "rm_p (t ?h) \<noteq> p \<and> rm_p (t ?h) \<noteq> NULL" using Suc.prems(4) [of 0] by simp
  have nx: "unat (next_index msk index) = down n ?h" using unat_next_index [OF assms(1) Suc.prems(1)] .
  have cd: "cell n (down n ?h) l = cell n ?h (Suc l)" if "l \<le> k" for l
    using that Suc.prems(1,2) by (intro cell_down) auto
  have "\<exists>i. find_loop t msk p (next_index msk index) = Some i \<and> unat i = cell n (unat (next_index msk index)) k"
    by (rule Suc.IH) (use Suc.prems nx cd in \<open>auto simp: down_def\<close>)
  then show ?case using go nx cd by (subst find_loop.simps) (simp add: Let_def)
qed

lemma free_index_loop_stops:
  assumes "table_size n msk" "unat index < n" "k < n"
    and "rm_p (t (cell n (unat index) k)) = NULL"
    and "\<And>l. l < k \<Longrightarrow> rm_p (t (cell n (unat index) l)) \<noteq> NULL"
  shows "\<exists>i. free_index_loop t msk index = Some i \<and> unat i = cell n (unat index) k"
  using assms(2-)
proof (induction k arbitrary: index)
  case 0
  then show ?case by (subst free_index_loop.simps) auto
next
  case (Suc k)
  let ?h = "unat index"
  have go: "rm_p (t ?h) \<noteq> NULL" using Suc.prems(4) [of 0] by simp
  have nx: "unat (next_index msk index) = down n ?h" using unat_next_index [OF assms(1) Suc.prems(1)] .
  have cd: "cell n (down n ?h) l = cell n ?h (Suc l)" if "l \<le> k" for l
    using that Suc.prems(1,2) by (intro cell_down) auto
  have "\<exists>i. free_index_loop t msk (next_index msk index) = Some i \<and> unat i = cell n (unat (next_index msk index)) k"
    by (rule Suc.IH) (use Suc.prems nx cd in \<open>auto simp: down_def\<close>)
  then show ?case using go nx cd by (subst free_index_loop.simps) simp
qed

text \<open>The first unused entry along the probe sequence of an address.\<close>

lemma first_unused:
  assumes "table_size n msk" "\<exists>i < n. rm_p (t i) = NULL" "h < n"
  obtains k where "k < n" "rm_p (t (cell n h k)) = NULL" "\<And>l. l < k \<Longrightarrow> rm_p (t (cell n h l)) \<noteq> NULL"
proof -
  obtain i where i: "i < n" "rm_p (t i) = NULL" using assms(2) by blast
  let ?P = "\<lambda>k. rm_p (t (cell n h k)) = NULL"
  have P: "?P (dist n h i)" using cell_dist [OF assms(3) i(1)] i(2) by simp
  have "(LEAST k. ?P k) \<le> dist n h i" using P by (rule Least_le)
  then have "(LEAST k. ?P k) < n" using dist_less [OF assms(3) i(1)] by simp
  then show ?thesis using LeastI [of ?P, OF P] not_less_Least [of _ ?P] by (intro that) auto
qed

lemma find_loop_finds:
  assumes "table_ok n msk t" "card (ents n t) < n" "p \<noteq> NULL"
  shows "\<exists>i. find_loop t msk p (first_index msk p) = Some i \<and> unat i < n \<and>
    (if \<exists>e \<in> ents n t. rm_p e = p then rm_p (t (unat i)) = p else rm_p (t (unat i)) = NULL)"
proof -
  have ts: "table_size n msk" and kd: "keys_distinct n t" and po: "probe_ok {} n msk t"
    using assms(1) by (simp_all add: table_ok_def)
  let ?h = "home msk p"
  have h: "?h < n" using home_less [OF ts] .
  show ?thesis
  proof (cases "\<exists>e \<in> ents n t. rm_p e = p")
    case True
    then obtain j where j: "j < n" "rm_p (t j) = p" by (auto simp: ents_def)
    let ?k = "dist n ?h j"
    have kn: "?k < n" "cell n ?h ?k = j" using dist_less [OF h j(1)] cell_dist [OF h j(1)] by auto
    have "rm_p (t (cell n ?h l)) \<noteq> p \<and> rm_p (t (cell n ?h l)) \<noteq> NULL" if "l < ?k" for l
    proof -
      have "rm_p (t (cell n ?h l)) \<noteq> NULL" using po j assms(3) that by (auto simp: probe_ok_def)
      moreover have "cell n ?h l < n" "cell n ?h l \<noteq> j"
        using that kn(1) cell_less [OF h, of l] cell_eq_iff [OF h _ j(1), of l] by auto
      then have "rm_p (t (cell n ?h l)) \<noteq> p" using kd j assms(3) by (auto simp: keys_distinct_def)
      ultimately show ?thesis by blast
    qed
    then show ?thesis
      using find_loop_stops [OF ts, of "first_index msk p" ?k t p] h kn j True by (auto simp: home_def)
  next
    case False
    obtain k where k: "k < n" "rm_p (t (cell n ?h k)) = NULL" "\<And>l. l < k \<Longrightarrow> rm_p (t (cell n ?h l)) \<noteq> NULL"
      using first_unused [OF ts ex_unused [OF assms(2) kd] h] by blast
    have "rm_p (t (cell n ?h l)) \<noteq> p" if "l < k" for l
    proof -
      have "cell n ?h l < n" using cell_less [OF h, of l] that k(1) by simp
      then have "t (cell n ?h l) \<in> ents n t" using k(3) [OF that] unfolding ents_def by blast
      then show ?thesis using False by blast
    qed
    then show ?thesis
      using find_loop_stops [OF ts, of "first_index msk p" k t p] h k False cell_less [OF h k(1)] by (auto simp: home_def)
  qed
qed

section \<open>Insertion\<close>

lemma ents_fill: "c < n \<Longrightarrow> rm_p (t c) = NULL \<Longrightarrow> rm_p e \<noteq> NULL \<Longrightarrow> ents n (t(c := e)) = insert e (ents n t)"
proof (intro set_eqI iffI)
  fix x assume c: "c < n" "rm_p (t c) = NULL" "rm_p e \<noteq> NULL"
  {
    assume "x \<in> ents n (t(c := e))"
    then obtain i where "i < n" "(t(c := e)) i = x" "rm_p x \<noteq> NULL" by (auto simp: ents_def)
    then show "x \<in> insert e (ents n t)" by (cases "i = c") (auto simp: ents_def)
  next
    assume "x \<in> insert e (ents n t)"
    then consider "x = e" | i where "i < n" "t i = x" "rm_p x \<noteq> NULL" by (auto simp: ents_def)
    then have "\<exists>i. i < n \<and> (t(c := e)) i = x \<and> rm_p x \<noteq> NULL"
    proof cases
      case 1
      then show ?thesis using c by (intro exI [of _ c]) simp
    next
      case 2
      then show ?thesis using c by (intro exI [of _ i]) auto
    qed
    then show "x \<in> ents n (t(c := e))" unfolding ents_def by blast
  }
qed

lemma keys_distinct_fill:
  "keys_distinct n t \<Longrightarrow> \<forall>e' \<in> ents n t. rm_p e' \<noteq> rm_p e \<Longrightarrow> keys_distinct n (t(c := e))"
  unfolding keys_distinct_def
proof (intro allI impI)
  fix i j
  assume kd: "\<forall>i < n. \<forall>j < n. rm_p (t i) = rm_p (t j) \<and> rm_p (t i) \<noteq> NULL \<longrightarrow> i = j"
    and new: "\<forall>e' \<in> ents n t. rm_p e' \<noteq> rm_p e" and ij: "i < n" "j < n"
    and eq: "rm_p ((t(c := e)) i) = rm_p ((t(c := e)) j) \<and> rm_p ((t(c := e)) i) \<noteq> NULL"
  have "t l \<in> ents n t" if "l < n" "rm_p (t l) \<noteq> NULL" for l using that by (auto simp: ents_def)
  then show "i = j" using kd new ij eq by (cases "i = c"; cases "j = c") auto
qed

lemma insert_entry:
  assumes "table_ok n msk t" "card (ents n t) < n" "rm_p e \<noteq> NULL" "\<forall>e' \<in> ents n t. rm_p e' \<noteq> rm_p e"
  shows "\<exists>i. free_index_loop t msk (first_index msk (rm_p e)) = Some i \<and> unat i < n \<and>
    table_ok n msk (t(unat i := e)) \<and> ents n (t(unat i := e)) = insert e (ents n t)"
proof -
  have ts: "table_size n msk" and kd: "keys_distinct n t" and po: "probe_ok {} n msk t"
    using assms(1) by (simp_all add: table_ok_def)
  let ?h = "home msk (rm_p e)"
  have h: "?h < n" using home_less [OF ts] .
  obtain k where k: "k < n" "rm_p (t (cell n ?h k)) = NULL" "\<And>l. l < k \<Longrightarrow> rm_p (t (cell n ?h l)) \<noteq> NULL"
    using first_unused [OF ts ex_unused [OF assms(2) kd] h] by blast
  define c where "c = cell n ?h k"
  have c: "c < n" "rm_p (t c) = NULL" using cell_less [OF h k(1)] k(2) by (simp_all add: c_def)
  obtain i where i: "free_index_loop t msk (first_index msk (rm_p e)) = Some i" "unat i = c"
    using free_index_loop_stops [OF ts, of "first_index msk (rm_p e)" k t] h k by (auto simp: home_def c_def)
  let ?t = "t(c := e)"
  have "ents n ?t = insert e (ents n t)" using c assms(3) by (rule ents_fill)
  moreover have "keys_distinct n ?t" using kd assms(4) by (rule keys_distinct_fill)
  moreover have "probe_ok {} n msk ?t"
    unfolding probe_ok_def
  proof (intro allI impI disjI2)
    fix j l assume j: "j < n" "rm_p (?t j) \<noteq> NULL" "l < dist n (home msk (rm_p (?t j))) j"
    show "rm_p (?t (cell n (home msk (rm_p (?t j))) l)) \<noteq> NULL"
    proof (cases "j = c")
      case True
      then have "l < k" using j(3) dist_cell [OF h k(1)] by (simp add: c_def)
      then show ?thesis using True k(3) assms(3) by simp
    next
      case False
      then have "rm_p (t (cell n (home msk (rm_p (?t j))) l)) \<noteq> NULL" using j po unfolding probe_ok_def by simp
      then show ?thesis using assms(3) by simp
    qed
  qed
  ultimately show ?thesis using i c(1) ts by (auto simp: table_ok_def)
qed

text \<open>Rehashing moves every entry of the old table.\<close>

lemma rehash_ok:
  assumes "table_ok m msk new" "card (ents m new) + length is < m" "distinct is" "set is \<subseteq> {..<n}"
    and "keys_distinct n old" "\<forall>i \<in> set is. \<forall>e \<in> ents m new. rm_p (old i) \<noteq> NULL \<longrightarrow> rm_p e \<noteq> rm_p (old i)"
  shows "\<exists>new'. rehash old msk is new = Some new' \<and> table_ok m msk new' \<and>
    ents m new' = ents m new \<union> {e. rm_p e \<noteq> NULL \<and> (\<exists>i \<in> set is. old i = e)}
    \<and> (\<forall>j \<ge> m. new' j = new j)"
  using assms(1-4,6)
proof (induction "is" arbitrary: new)
  case (Cons i "is")
  show ?case
  proof (cases "rm_p (old i) = NULL")
    case True
    with Cons.prems Cons.IH [of new] show ?thesis by (auto simp: Let_def)
  next
    case False
    have lt: "card (ents m new) < m" using Cons.prems(2) by simp
    obtain j where j: "free_index_loop new msk (first_index msk (rm_p (old i))) = Some j" "unat j < m"
      "table_ok m msk (new(unat j := old i))" "ents m (new(unat j := old i)) = insert (old i) (ents m new)"
      using insert_entry [OF Cons.prems(1) lt False] Cons.prems(5) False by auto
    let ?new = "new(unat j := old i)"
    have "card (ents m ?new) \<le> Suc (card (ents m new))" unfolding j(4) by (simp add: card_insert_if)
    have other: "rm_p (old i) \<noteq> rm_p (old i')" if "i' \<in> set is" for i'
    proof -
      have "i' < n" "i < n" "i \<noteq> i'" using that Cons.prems(3,4) by auto
      then show ?thesis using assms(5) False unfolding keys_distinct_def by blast
    qed
    have "\<exists>new'. rehash old msk is ?new = Some new' \<and> table_ok m msk new' \<and>
      ents m new' = ents m ?new \<union> {e. rm_p e \<noteq> NULL \<and> (\<exists>i \<in> set is. old i = e)} \<and> (\<forall>l \<ge> m. new' l = ?new l)"
    proof (intro Cons.IH)
      show "table_ok m msk ?new" by (rule j(3))
      show "card (ents m ?new) + length is < m"
        using \<open>card (ents m ?new) \<le> Suc (card (ents m new))\<close> Cons.prems(2) by simp
      show "\<forall>i' \<in> set is. \<forall>e \<in> ents m ?new. rm_p (old i') \<noteq> NULL \<longrightarrow> rm_p e \<noteq> rm_p (old i')"
        unfolding j(4) using Cons.prems(5) other by simp
    qed (use Cons.prems(3,4) in auto)
    then show ?thesis using j False by (auto simp: Let_def)
  qed
qed auto

section \<open>Deletion\<close>

text \<open>An entry may stay where it is exactly when its probe sequence does not pass the hole.\<close>

lemma stays_iff:
  assumes "unat i < n" "unat r < n" "unat j < n" "i \<noteq> j"
  shows "stays i r j \<longleftrightarrow> dist n (unat r) (unat i) \<le> dist n (unat r) (unat j)"
proof -
  have "unat i \<noteq> unat j" using assms(4) by (simp add: word_unat_eq_iff)
  then show ?thesis
    using assms(1-3) by (auto simp: stays_def dist_def word_le_nat_alt word_less_nat_alt)
qed

text \<open>
  The inner loop, from a hole at \<open>j\<close> in a table with an unused entry \<open>D\<close> steps below it: it stops at the
  first entry that is unused or may not stay.
\<close>

lemma delete_scan_stops:
  assumes "table_size n msk" "unat j < n" "D < n" "0 < D" "rm_p (t (cell n (unat j) D)) = NULL"
    and "unat i = cell n (unat j) k" "k < D"
  shows "\<exists>l i'. k < l \<and> l \<le> D \<and> unat i' = cell n (unat j) l \<and>
    (\<forall>l'. k < l' \<and> l' < l \<longrightarrow> rm_p (t (cell n (unat j) l')) \<noteq> NULL \<and>
       dist n (home msk (rm_p (t (cell n (unat j) l')))) (cell n (unat j) l') \<le>
       dist n (home msk (rm_p (t (cell n (unat j) l')))) (unat j)) \<and>
    (delete_scan t msk j i = Some None \<and> rm_p (t (cell n (unat j) l)) = NULL \<or>
     delete_scan t msk j i = Some (Some i') \<and> rm_p (t (cell n (unat j) l)) \<noteq> NULL \<and>
       dist n (home msk (rm_p (t (cell n (unat j) l)))) (unat j) <
       dist n (home msk (rm_p (t (cell n (unat j) l)))) (cell n (unat j) l))"
  using assms(6,7)
proof (induction "D - k" arbitrary: i k)
  case (Suc d)
  let ?i = "next_index msk i" and ?c = "cell n (unat j)"
  have kn: "Suc k < n" using Suc.prems(2) assms(3) by simp
  have "unat i < n" using Suc.prems(1) kn cell_less [OF assms(2), of k] by simp
  then have ui: "unat ?i = ?c (Suc k)"
    using unat_next_index [OF assms(1)] down_cell [OF assms(2) kn] Suc.prems(1) by simp
  have cn: "?c (Suc k) < n" using cell_less [OF assms(2) kn] .
  have "?c (Suc k) \<noteq> unat j" using cell_eq_iff [OF assms(2) kn assms(2)] by (simp add: dist_def)
  then have ne: "?i \<noteq> j" using ui by auto
  let ?q = "rm_p (t (?c (Suc k)))"
  have st: "stays ?i (first_index msk ?q) j \<longleftrightarrow> dist n (home msk ?q) (?c (Suc k)) \<le> dist n (home msk ?q) (unat j)"
    using stays_iff [OF _ _ assms(2) ne, of "first_index msk ?q"] home_less [OF assms(1), of ?q] ui cn by (simp add: home_def)
  have unf: "delete_scan t msk j i = (if ?q = NULL then Some None
      else if stays ?i (first_index msk ?q) j then delete_scan t msk j ?i else Some (Some ?i))"
    by (subst delete_scan.simps) (simp add: Let_def ui)
  show ?case
  proof (cases "?q \<noteq> NULL \<and> stays ?i (first_index msk ?q) j")
    case False
    then show ?thesis using unf st ui Suc.prems(2) by (intro exI [of _ "Suc k"] exI [of _ ?i]) auto
  next
    case True
    then have "Suc k < D" using assms(5) Suc.prems(2) by (metis Suc_lessI)
    moreover have "d = D - Suc k" using Suc.hyps(2) by simp
    ultimately obtain l i' where IH: "Suc k < l" "l \<le> D" "unat i' = ?c l"
      "\<forall>l'. Suc k < l' \<and> l' < l \<longrightarrow> rm_p (t (?c l')) \<noteq> NULL \<and>
         dist n (home msk (rm_p (t (?c l')))) (?c l') \<le> dist n (home msk (rm_p (t (?c l')))) (unat j)"
      "delete_scan t msk j ?i = Some None \<and> rm_p (t (?c l)) = NULL \<or>
       delete_scan t msk j ?i = Some (Some i') \<and> rm_p (t (?c l)) \<noteq> NULL \<and>
         dist n (home msk (rm_p (t (?c l)))) (unat j) < dist n (home msk (rm_p (t (?c l)))) (?c l)"
      using Suc.hyps(1) [of "Suc k" ?i] ui by blast
    have "rm_p (t (?c l')) \<noteq> NULL \<and>
         dist n (home msk (rm_p (t (?c l')))) (?c l') \<le> dist n (home msk (rm_p (t (?c l')))) (unat j)"
      if "k < l'" "l' < l" for l'
      using that IH(4) True st by (cases "l' = Suc k") auto
    moreover have "delete_scan t msk j i = delete_scan t msk j ?i" using unf True by simp
    ultimately show ?thesis using IH(1-3,5) by (intro exI [of _ l] exI [of _ i']) auto
  qed
qed simp

lemma cell_shift: "h < n \<Longrightarrow> i < n \<Longrightarrow> dist n h i + m < n \<Longrightarrow> cell n h (dist n h i + m) = cell n i m"
  by (auto simp: cell_def dist_def split: if_splits)

lemma dist_shift: "h < n \<Longrightarrow> i < n \<Longrightarrow> x < n \<Longrightarrow> dist n h i \<le> dist n h x \<Longrightarrow> dist n h x = dist n h i + dist n i x"
  by (auto simp: dist_def split: if_splits)

definition clear_entry :: "region_metadata \<Rightarrow> region_metadata" where
  "clear_entry e = e\<lparr>rm_p := NULL, rm_size := 0\<rparr>"

lemma clear_entry_p [simp]: "rm_p (clear_entry e) = NULL"
  by (simp add: clear_entry_def)

text \<open>When the inner loop met an unused entry, no probe sequence passes the hole any more.\<close>

lemma hole_closed:
  assumes "table_size n msk" "probe_ok {i} n msk t" "i < n" "rm_p (t i) = NULL" "0 < l" "l < n"
    and "rm_p (t (cell n i l)) = NULL"
    and "\<And>l'. 0 < l' \<Longrightarrow> l' < l \<Longrightarrow> dist n (home msk (rm_p (t (cell n i l')))) (cell n i l') \<le>
       dist n (home msk (rm_p (t (cell n i l')))) i"
  shows "probe_ok {} n msk t"
  unfolding probe_ok_def
proof (intro allI impI disjI2)
  fix x k
  let ?h = "home msk (rm_p (t x))"
  assume x: "x < n" "rm_p (t x) \<noteq> NULL" and k: "k < dist n ?h x"
  note h = home_less [OF assms(1), of "rm_p (t x)"]
  have path: "cell n ?h k' = i \<or> rm_p (t (cell n ?h k')) \<noteq> NULL" if "k' < dist n ?h x" for k'
    using assms(2) x that by (auto simp: probe_ok_def)
  have kn: "k < n" using k dist_less [OF h x(1)] by simp
  show "rm_p (t (cell n ?h k)) \<noteq> NULL"
  proof (cases "cell n ?h k = i")
    case True
    then have ki: "k = dist n ?h i" using cell_eq_iff [OF h kn assms(3)] by simp
    let ?m = "dist n i x"
    have m: "dist n ?h x = dist n ?h i + ?m" using dist_shift [OF h assms(3) x(1)] k ki by simp
    have mn: "?m < n" "cell n i ?m = x" using dist_less cell_dist assms(3) x(1) by auto
    have "?m < l"
    proof (rule ccontr)
      assume "\<not> ?m < l"
      then have "l < ?m" using assms(7) x(2) mn(2) by (metis linorder_neqE_nat)
      then have "dist n ?h i + l < dist n ?h x" using m by simp
      moreover from this have "cell n ?h (dist n ?h i + l) = cell n i l"
        using cell_shift [OF h assms(3)] dist_less [OF h x(1)] by simp
      moreover have "cell n i l \<noteq> i" using cell_eq_iff [OF assms(3,6,3)] assms(5) by (simp add: dist_def)
      ultimately show False using path [of "dist n ?h i + l"] assms(7) by simp
    qed
    moreover have "0 < ?m" using k ki m by simp
    ultimately have "dist n ?h x \<le> dist n ?h i" using assms(8) [of ?m] mn(2) by simp
    with k ki show ?thesis by simp
  qed (use path [OF k] in blast)
qed

text \<open>Moving the entry at \<open>x\<close> to the hole \<open>i\<close> leaves a hole at \<open>x\<close>.\<close>

lemma move_entry:
  assumes "table_size n msk" "keys_distinct n t" "probe_ok {i} n msk t" "i < n" "rm_p (t i) = NULL"
    and "x < n" "x \<noteq> i" "rm_p (t x) \<noteq> NULL" "dist n (home msk (rm_p (t x))) i < dist n (home msk (rm_p (t x))) x"
  defines "t' \<equiv> t(i := t x, x := clear_entry (t x))"
  shows "keys_distinct n t'" "probe_ok {x} n msk t'" "ents n t' = ents n t"
proof -
  have t': "t' y = (if y = x then clear_entry (t x) else if y = i then t x else t y)" for y
    using assms(7) by (simp add: t'_def)
  show "keys_distinct n t'"
    unfolding keys_distinct_def
  proof (intro allI impI)
    fix a b assume ab: "a < n" "b < n" "rm_p (t' a) = rm_p (t' b) \<and> rm_p (t' a) \<noteq> NULL"
    have kd: "a = b" if "a < n" "b < n" "rm_p (t a) = rm_p (t b)" "rm_p (t a) \<noteq> NULL" for a b
      using assms(2) that unfolding keys_distinct_def by blast
    have "a \<noteq> x" "b \<noteq> x" using ab(3) by (auto simp: t')
    then show "a = b"
      using ab kd [of x b] kd [of a x] kd [of a b] assms(6) by (cases "a = i"; cases "b = i") (auto simp: t')
  qed
  show "ents n t' = ents n t"
  proof (intro set_eqI iffI)
    fix e assume "e \<in> ents n t'"
    then obtain y where y: "y < n" "t' y = e" "rm_p e \<noteq> NULL" by (auto simp: ents_def)
    then have "e = t (if y = i then x else y)" by (auto simp: t' split: if_splits)
    then show "e \<in> ents n t" using y assms(6) by (auto simp: ents_def)
  next
    fix e assume "e \<in> ents n t"
    then obtain y where y: "y < n" "t y = e" "rm_p e \<noteq> NULL" by (auto simp: ents_def)
    then have "y \<noteq> i" using assms(5) by auto
    then have "t' (if y = x then i else y) = e" "(if y = x then i else y) < n"
      using y assms(4,7) by (auto simp: t')
    then show "e \<in> ents n t'" using y(3) unfolding ents_def by blast
  qed
  show "probe_ok {x} n msk t'"
    unfolding probe_ok_def
  proof (intro allI impI)
    fix y k
    assume y: "y < n" "rm_p (t' y) \<noteq> NULL" and k: "k < dist n (home msk (rm_p (t' y))) y"
    let ?h = "home msk (rm_p (t' y))"
    note h = home_less [OF assms(1), of "rm_p (t' y)"]
    have yx: "y \<noteq> x" using y(2) by (auto simp: t')
    have kn: "k < n" using k dist_less [OF h y(1)] by simp
    have "cell n ?h k = i \<or> rm_p (t (cell n ?h k)) \<noteq> NULL"
    proof (cases "y = i")
      case True
      then have e: "rm_p (t' y) = rm_p (t x)" using assms(7) by (simp add: t')
      then have "k < dist n ?h x" using k assms(9) True by simp
      then show ?thesis using assms(3,6,8) e by (auto simp: probe_ok_def)
    next
      case False
      then have "t' y = t y" using yx by (simp add: t')
      then show ?thesis using assms(3) y k by (auto simp: probe_ok_def)
    qed
    then show "cell n ?h k \<in> {x} \<or> rm_p (t' (cell n ?h k)) \<noteq> NULL"
      using assms(8) by (auto simp: t')
  qed
qed

lemma delete_loop_ok:
  assumes "table_size n msk" "unat i < n" "D < n" "0 < D" "rm_p (t (cell n (unat i) D)) = NULL"
    and "keys_distinct n (t(unat i := clear_entry (t (unat i))))"
    and "probe_ok {unat i} n msk (t(unat i := clear_entry (t (unat i))))"
  shows "\<exists>t'. delete_loop t msk i = Some t' \<and> table_ok n msk t' \<and>
    ents n t' = ents n (t(unat i := clear_entry (t (unat i)))) \<and> (\<forall>j \<ge> n. t' j = t j)"
  using assms(2-)
proof (induction D arbitrary: t i rule: less_induct)
  case (less D)
  define u where "u = t(unat i := clear_entry (t (unat i)))"
  have prems: "keys_distinct n u" "probe_ok {unat i} n msk u"
    unfolding u_def by (rule less.prems(5), rule less.prems(6))
  have out: "\<And>j. j \<ge> n \<Longrightarrow> u j = t j" using less.prems(1) by (auto simp: u_def)
  have ci: "cell n (unat i) D \<noteq> unat i"
    using cell_eq_iff [OF less.prems(1,2,1)] less.prems(3) by (simp add: dist_def)
  then have uD: "rm_p (u (cell n (unat i) D)) = NULL" using less.prems(4) by (simp add: u_def)
  from delete_scan_stops [where t = u and i = i and k = 0, OF assms(1) less.prems(1,2,3) uD] less.prems(3)
  obtain l k where l: "0 < l" "l \<le> D" "unat k = cell n (unat i) l"
    and stay: "\<And>l'. 0 < l' \<Longrightarrow> l' < l \<Longrightarrow> dist n (home msk (rm_p (u (cell n (unat i) l')))) (cell n (unat i) l') \<le>
       dist n (home msk (rm_p (u (cell n (unat i) l')))) (unat i)"
    and res: "delete_scan u msk i i = Some None \<and> rm_p (u (cell n (unat i) l)) = NULL \<or>
     delete_scan u msk i i = Some (Some k) \<and> rm_p (u (cell n (unat i) l)) \<noteq> NULL \<and>
       dist n (home msk (rm_p (u (cell n (unat i) l)))) (unat i) <
       dist n (home msk (rm_p (u (cell n (unat i) l)))) (cell n (unat i) l)"
    by auto
  have ui: "rm_p (u (unat i)) = NULL" by (simp add: u_def)
  have ln: "l < n" using l(2) less.prems(2) by simp
  have unf: "delete_loop t msk i = (case delete_scan u msk i i of None \<Rightarrow> None | Some None \<Rightarrow> Some u
      | Some (Some k) \<Rightarrow> delete_loop (u(unat i := u (unat k))) msk k)"
    by (subst delete_loop.simps) (simp only: Let_def clear_entry_def [symmetric] u_def [symmetric])
  from res have "\<exists>t'. delete_loop t msk i = Some t' \<and> table_ok n msk t' \<and> ents n t' = ents n u \<and> (\<forall>j \<ge> n. t' j = u j)"
  proof (elim disjE conjE)
    assume none: "delete_scan u msk i i = Some None" "rm_p (u (cell n (unat i) l)) = NULL"
    have "probe_ok {} n msk u"
      by (rule hole_closed [OF assms(1) prems(2) less.prems(1) _ l(1) ln none(2) stay]) (simp_all add: u_def)
    then show ?thesis using unf none(1) assms(1) prems(1) by (simp add: table_ok_def)
  next
    assume some: "delete_scan u msk i i = Some (Some k)" "rm_p (u (cell n (unat i) l)) \<noteq> NULL"
      "dist n (home msk (rm_p (u (cell n (unat i) l)))) (unat i) < dist n (home msk (rm_p (u (cell n (unat i) l)))) (cell n (unat i) l)"
    have x: "unat k < n" "unat k \<noteq> unat i"
      using l(1,3) cell_less [OF less.prems(1) ln] cell_eq_iff [OF less.prems(1) ln less.prems(1)] by (simp_all add: dist_def)
    note mv = move_entry [OF assms(1) prems less.prems(1) _ x]
    let ?t1 = "u(unat i := u (unat k))"
    have eq: "?t1(unat k := clear_entry (?t1 (unat k))) = u(unat i := u (unat k), unat k := clear_entry (u (unat k)))"
      using x(2) by simp
    have mv': "keys_distinct n (?t1(unat k := clear_entry (?t1 (unat k))))"
      "probe_ok {unat k} n msk (?t1(unat k := clear_entry (?t1 (unat k))))"
      "ents n (?t1(unat k := clear_entry (?t1 (unat k)))) = ents n u"
      unfolding eq using mv some(2,3) l(3) ui by simp_all
    have "l \<noteq> D" using some(2) uD by auto
    then have lD: "l < D" using l(2) by simp
    have dl: "dist n (unat i) (unat k) = l" using dist_cell [OF less.prems(1) ln] l(3) by simp
    have cs: "cell n (unat k) (D - l) = cell n (unat i) D"
      using cell_shift [OF less.prems(1) x(1), of "D - l"] dl lD less.prems(2) by simp
    have ck: "cell n (unat i) D \<noteq> unat k"
      using cell_eq_iff [OF less.prems(1,2) x(1)] dl lD by simp
    have "\<exists>t'. delete_loop ?t1 msk k = Some t' \<and> table_ok n msk t' \<and>
        ents n t' = ents n (?t1(unat k := clear_entry (?t1 (unat k)))) \<and> (\<forall>j \<ge> n. t' j = ?t1 j)"
    proof (rule less.IH [of "D - l"])
      show "rm_p (?t1 (cell n (unat k) (D - l))) = NULL" unfolding cs using ci uD by simp
      show "keys_distinct n (?t1(unat k := clear_entry (?t1 (unat k))))" by (rule mv'(1))
      show "probe_ok {unat k} n msk (?t1(unat k := clear_entry (?t1 (unat k))))" by (rule mv'(2))
    qed (use lD l(1) less.prems(2) x(1) in auto)
    then show ?thesis using unf some(1) mv'(3) less.prems(1) by auto
  qed
  then show ?case using out unfolding u_def [symmetric] by auto
qed

section \<open>The region allocator\<close>

abbreviation ra_mask :: "region_allocator \<Rightarrow> size_t" where
  "ra_mask ra \<equiv> of_nat (ra_total ra) - 1"

abbreviation ra_ents :: "region_allocator \<Rightarrow> region_metadata set" where
  "ra_ents ra \<equiv> ents (ra_total ra) (ra_regions ra)"

definition regions_ok :: "config \<Rightarrow> region_allocator \<Rightarrow> bool" where
  "regions_ok cfg ra \<longleftrightarrow>
     table_ok (ra_total ra) (ra_mask ra) (ra_regions ra) \<and> INITIAL_REGION_TABLE_SIZE \<le> ra_total ra \<and>
     ra_total ra \<le> MAX_REGION_TABLE_SIZE cfg \<and>
     ra_free ra + card (ra_ents ra) = ra_total ra \<and> 0 < ra_free ra \<and>
     (\<forall>i. rm_p (ra_spare ra i) = NULL) \<and> (\<forall>i \<ge> ra_total ra. rm_p (ra_regions ra i) = NULL) \<and>
     random_state_ok (ra_rng ra) \<and>
     length (ra_quarantine_random ra) = REGION_QUARANTINE_RANDOM_LENGTH cfg \<and>
     length (ra_quarantine_queue ra) = REGION_QUARANTINE_QUEUE_LENGTH cfg \<and>
     (0 < REGION_QUARANTINE_QUEUE_LENGTH cfg \<longrightarrow> ra_quarantine_queue_index ra < REGION_QUARANTINE_QUEUE_LENGTH cfg)"

text \<open>The abstraction: a map from the address of a region to its entry.\<close>

definition region_map :: "region_allocator \<Rightarrow> ptr \<Rightarrow> region_metadata option" where
  "region_map ra p =
     (if p = NULL then None else find (\<lambda>e. rm_p e = p) (map (ra_regions ra) [0..<ra_total ra]))"

lemma regions_okD:
  assumes "regions_ok cfg ra"
  shows "table_ok (ra_total ra) (ra_mask ra) (ra_regions ra)" "table_size (ra_total ra) (ra_mask ra)"
    "keys_distinct (ra_total ra) (ra_regions ra)" "card (ra_ents ra) < ra_total ra"
  using assms by (auto simp: regions_ok_def table_ok_def)

lemma region_map_Some:
  assumes "regions_ok cfg ra"
  shows "region_map ra p = Some e \<longleftrightarrow> e \<in> ra_ents ra \<and> rm_p e = p"
proof (cases "p = NULL")
  case True
  then show ?thesis by (auto simp: region_map_def ents_def)
next
  case False
  let ?xs = "map (ra_regions ra) [0..<ra_total ra]"
  have ex: "e \<in> ra_ents ra" if "e \<in> set ?xs" "rm_p e = p" for e using that False by (auto simp: ents_def)
  have "e \<in> set ?xs" if "e \<in> ra_ents ra" for e using that by (auto simp: ents_def)
  moreover have "e \<in> set ?xs \<and> rm_p e = p" if "find (\<lambda>e. rm_p e = p) ?xs = Some e" for e
    using that by (auto simp: find_Some_iff)
  moreover have "\<exists>e. find (\<lambda>e. rm_p e = p) ?xs = Some e" if "e \<in> set ?xs" "rm_p e = p" for e
    using that by (metis (mono_tags, lifting) find_None_iff not_None_eq)
  ultimately show ?thesis
    using False ex ents_unique [OF regions_okD(3) [OF assms]] unfolding region_map_def by metis
qed

lemma region_map_None:
  assumes "regions_ok cfg ra"
  shows "region_map ra p = None \<longleftrightarrow> (\<forall>e \<in> ra_ents ra. rm_p e \<noteq> p)"
  using region_map_Some [OF assms] by (metis option.distinct(1) option.exhaust)

lemma region_map_eqI:
  assumes "regions_ok cfg ra'" "\<And>e. e \<in> ra_ents ra' \<longleftrightarrow> f (rm_p e) = Some e" "\<And>p e. f p = Some e \<Longrightarrow> rm_p e = p"
  shows "region_map ra' = f"
proof
  fix p
  have "region_map ra' p = Some e \<longleftrightarrow> f p = Some e" for e
    using region_map_Some [OF assms(1), of p e] assms(2) [of e] assms(3) [of p e] by blast
  then show "region_map ra' p = f p" by (rule option_eqI)
qed

lemma regions_find_ok:
  assumes "regions_ok cfg ra"
  obtains r where "regions_find ra p = Returned r"
    "case r of None \<Rightarrow> region_map ra p = None
     | Some i \<Rightarrow> i < ra_total ra \<and> rm_p (ra_regions ra i) = p \<and> p \<noteq> NULL \<and> region_map ra p = Some (ra_regions ra i)"
proof -
  note ok = regions_okD [OF assms]
  show ?thesis
  proof (cases "p = NULL")
    case True
    obtain k where "k < ra_total ra" "rm_p (ra_regions ra (cell (ra_total ra) (home (ra_mask ra) p) k)) = NULL"
      "\<And>l. l < k \<Longrightarrow> rm_p (ra_regions ra (cell (ra_total ra) (home (ra_mask ra) p) l)) \<noteq> NULL"
      using first_unused [OF ok(2) ex_unused [OF ok(4,3)] home_less [OF ok(2), of p]] by blast
    then obtain i where "find_loop (ra_regions ra) (ra_mask ra) p (first_index (ra_mask ra) p) = Some i"
      using find_loop_stops [OF ok(2), of "first_index (ra_mask ra) p" k "ra_regions ra" p] True home_less [OF ok(2), of p]
      by (auto simp: home_def)
    then show ?thesis using True by (intro that [of None]) (simp_all add: regions_find_def Let_def region_map_def)
  next
    case False
    obtain i where i: "find_loop (ra_regions ra) (ra_mask ra) p (first_index (ra_mask ra) p) = Some i" "unat i < ra_total ra"
      "if \<exists>e \<in> ra_ents ra. rm_p e = p then rm_p (ra_regions ra (unat i)) = p else rm_p (ra_regions ra (unat i)) = NULL"
      using find_loop_finds [OF ok(1,4) False] by blast
    show ?thesis
    proof (cases "\<exists>e \<in> ra_ents ra. rm_p e = p")
      case True
      then have p: "rm_p (ra_regions ra (unat i)) = p" using i(3) by simp
      then have "ra_regions ra (unat i) \<in> ra_ents ra" using i(2) False by (auto simp: ents_def)
      then have "region_map ra p = Some (ra_regions ra (unat i))" using region_map_Some [OF assms] p by blast
      then show ?thesis using i(1,2) p False by (intro that [of "Some (unat i)"]) (simp_all add: regions_find_def Let_def)
    next
      case none: False
      then have "region_map ra p = None" using region_map_None [OF assms] by blast
      then show ?thesis using i none False by (intro that [of None]) (simp_all add: regions_find_def Let_def)
    qed
  qed
qed

lemma pow2_double: "table_size n msk \<Longrightarrow> n * 2 < 2 ^ 64 \<Longrightarrow> table_size (n * 2) (of_nat (n * 2) - 1)"
proof -
  assume "table_size n msk" "n * 2 < 2 ^ 64"
  then obtain m where m: "n = 2 ^ m" "2 ^ Suc m < (2::nat) ^ 64" by (auto simp: table_size_def)
  then have "Suc m < 64" by (simp only: power_strict_increasing_iff)
  with m(1) show ?thesis unfolding table_size_def by (intro conjI exI [of _ "Suc m"]) simp_all
qed

lemma empty_table_ok: "table_size n msk \<Longrightarrow> (\<forall>i. rm_p (t i) = NULL) \<Longrightarrow> table_ok n msk t \<and> ents n t = {}"
  by (auto simp: table_ok_def keys_distinct_def probe_ok_def ents_def)

lemma max_table_size: "config_valid cfg \<Longrightarrow> MAX_REGION_TABLE_SIZE cfg < 2 ^ 62"
proof -
  assume "config_valid cfg"
  then have "CONFIG_CLASS_REGION_SIZE cfg \<le> 1099511627776" by (simp add: config_valid_def)
  then have "CONFIG_CLASS_REGION_SIZE cfg div 4096 div 24 \<le> 1099511627776 div 4096 div 24" by (intro div_le_mono)
  then show ?thesis by (simp add: MAX_REGION_TABLE_SIZE_def)
qed

text \<open>Rehashing into the empty array of twice the size ends, with the same entries.\<close>

lemma rehash_grown:
  assumes "regions_ok cfg ra" "config_valid cfg" "ra_total ra * 2 \<le> MAX_REGION_TABLE_SIZE cfg"
  shows "\<exists>new. rehash (ra_regions ra) (of_nat (ra_total ra * 2) - 1) [0..<ra_total ra] (ra_spare ra) = Some new \<and>
    table_ok (ra_total ra * 2) (of_nat (ra_total ra * 2) - 1) new \<and> ents (ra_total ra * 2) new = ra_ents ra \<and>
    (\<forall>j \<ge> ra_total ra * 2. new j = ra_spare ra j)"
proof -
  note ok = regions_okD [OF assms(1)]
  let ?n = "ra_total ra" and ?m = "ra_total ra * 2"
  have "?m < 2 ^ 64" using assms(3) max_table_size [OF assms(2)] by simp
  then have ts: "table_size ?m (of_nat ?m - 1)" using pow2_double [OF ok(2)] by blast
  have sp: "\<forall>i. rm_p (ra_spare ra i) = NULL" "0 < ?n"
    using assms(1) table_size_pos [OF ok(2)] by (simp_all add: regions_ok_def)
  note em = empty_table_ok [OF ts sp(1)]
  have "card (ents ?m (ra_spare ra)) + length [0..<?n] < ?m" using em sp(2) by simp
  moreover have "set [0..<?n] \<subseteq> {..<?n}" by auto
  ultimately obtain new where new: "rehash (ra_regions ra) (of_nat ?m - 1) [0..<?n] (ra_spare ra) = Some new"
      "table_ok ?m (of_nat ?m - 1) new"
      "ents ?m new = ents ?m (ra_spare ra) \<union> {e. rm_p e \<noteq> NULL \<and> (\<exists>i \<in> set [0..<?n]. ra_regions ra i = e)}"
      "\<forall>j \<ge> ?m. new j = ra_spare ra j"
    using rehash_ok [of ?m "of_nat ?m - 1" "ra_spare ra" "[0..<?n]" ?n "ra_regions ra"] em ok(3) by auto
  moreover have "ents ?m new = ra_ents ra" using new(3) em by (auto simp: ents_def)
  ultimately show ?thesis by blast
qed

lemma regions_grow_ok:
  assumes "regions_grow cfg os ra w = Returned (failed, ra', w')" "regions_ok cfg ra" "config_valid cfg"
  shows "regions_ok cfg ra' \<and> region_map ra' = region_map ra \<and>
    (if failed then ra' = ra else ra_free ra' = ra_free ra + ra_total ra)"
proof (cases failed)
  case True
  then have "ra' = ra"
    using assms(1) by (auto simp: regions_grow_def Let_def outcome_simps split: if_splits option.splits)
  with True assms(2) show ?thesis by simp
next
  case False
  let ?n = "ra_total ra" and ?m = "ra_total ra * 2"
  obtain p where le: "?m \<le> MAX_REGION_TABLE_SIZE cfg"
    and rh: "rehash (ra_regions ra) (of_nat ?m - 1) [0..<?n] (ra_spare ra) = Some p"
    and ra': "ra' = ra\<lparr>ra_free := ra_free ra + ?n, ra_total := ?m, ra_regions := p, ra_regions_at := ra_spare_at ra,
        ra_spare := clear_table ?n (ra_regions ra), ra_spare_at := ra_regions_at ra\<rparr>"
    using assms(1) False
    by (auto simp: regions_grow_def Let_def outcome_simps not_less split: if_splits option.splits)
  have p: "table_ok ?m (of_nat ?m - 1) p" "ents ?m p = ra_ents ra" "\<forall>j \<ge> ?m. p j = ra_spare ra j"
    using rehash_grown [OF assms(2,3) le] rh by auto
  have ok': "regions_ok cfg ra'"
    using assms(2) p le unfolding regions_ok_def ra' by (auto simp: clear_table_def zero_region_def)
  have "region_map ra' = region_map ra"
    by (rule region_map_eqI [OF ok'])
      (use region_map_Some [OF assms(2)] p(2) in \<open>auto simp: ra'\<close>)
  with ok' False show ?thesis by (simp add: ra')
qed

lemma regions_grow_returns:
  assumes "regions_ok cfg ra" "config_valid cfg" "only_ENOMEM os"
  shows "returns (regions_grow cfg os ra w)"
proof (cases "ra_total ra * 2 \<le> MAX_REGION_TABLE_SIZE cfg")
  case True
  obtain p where "rehash (ra_regions ra) (of_nat (ra_total ra * 2) - 1) [0..<ra_total ra] (ra_spare ra) = Some p"
    using rehash_grown [OF assms(1,2) True] by blast
  then show ?thesis
    unfolding regions_grow_def Let_def
    by (auto intro!: returns_bind memory_wrapper_returns [OF assms(3)] split: if_splits)
next
  case False
  then show ?thesis by (auto simp: regions_grow_def Let_def)
qed

text \<open>Insertion, of a region whose address has no entry yet.\<close>

lemma insert_into:
  fixes sz g :: size_t
  assumes "regions_ok cfg ra" "1 < ra_free ra" "p \<noteq> NULL" "region_map ra p = None"
  defines "e \<equiv> \<lparr>rm_p = p, rm_size = sz, rm_guard_size = g\<rparr>"
  shows "\<exists>i. free_index_loop (ra_regions ra) (ra_mask ra) (first_index (ra_mask ra) p) = Some i \<and>
    regions_ok cfg (ra\<lparr>ra_regions := (ra_regions ra)(unat i := e), ra_free := ra_free ra - 1\<rparr>) \<and>
    region_map (ra\<lparr>ra_regions := (ra_regions ra)(unat i := e), ra_free := ra_free ra - 1\<rparr>) = (region_map ra)(p \<mapsto> e)"
proof -
  note ok = regions_okD [OF assms(1)]
  have key: "rm_p e = p" by (simp add: e_def)
  have new: "\<forall>e' \<in> ra_ents ra. rm_p e' \<noteq> rm_p e" using assms(4) region_map_None [OF assms(1)] key by simp
  from insert_entry [OF ok(1,4) _ new] key assms(3) obtain i where i:
    "free_index_loop (ra_regions ra) (ra_mask ra) (first_index (ra_mask ra) p) = Some i" "unat i < ra_total ra"
    "table_ok (ra_total ra) (ra_mask ra) ((ra_regions ra)(unat i := e))"
    "ents (ra_total ra) ((ra_regions ra)(unat i := e)) = insert e (ra_ents ra)" by auto
  let ?ra = "ra\<lparr>ra_regions := (ra_regions ra)(unat i := e), ra_free := ra_free ra - 1\<rparr>"
  have "e \<notin> ra_ents ra" using new by blast
  then have ok': "regions_ok cfg ?ra"
    using assms(1,2) i(2,3,4) by (auto simp: regions_ok_def)
  have "region_map ?ra = (region_map ra)(p \<mapsto> e)"
  proof (rule region_map_eqI [OF ok'])
    fix x
    show "x \<in> ra_ents ?ra \<longleftrightarrow> ((region_map ra)(p \<mapsto> e)) (rm_p x) = Some x"
      using i(4) new key region_map_Some [OF assms(1), of "rm_p x" x] by auto
  qed (auto simp: key region_map_Some [OF assms(1)] split: if_splits)
  with i(1) ok' show ?thesis by blast
qed

lemma regions_insert_ok:
  assumes "regions_insert cfg os ra p sz g w = Returned (failed, ra', w')" "regions_ok cfg ra" "config_valid cfg"
    and "p \<noteq> NULL" "region_map ra p = None"
  shows "regions_ok cfg ra'" "region_map ra' =
    (if failed then region_map ra else (region_map ra)(p \<mapsto> \<lparr>rm_p = p, rm_size = sz, rm_guard_size = g\<rparr>))"
proof -
  obtain grow_failed ra1 w1 where g: "(if ra_free ra * 4 < ra_total ra then regions_grow cfg os ra w
      else Returned (False, ra, w)) = Returned (grow_failed, ra1, w1)"
    using assms(1) unfolding regions_insert_def by (auto simp only: outcome_simps)
  have tot: "128 \<le> ra_total ra" using assms(2) by (simp add: regions_ok_def INITIAL_REGION_TABLE_SIZE_def)
  have ra1: "regions_ok cfg ra1" "region_map ra1 = region_map ra" "\<not> grow_failed \<Longrightarrow> 1 < ra_free ra1"
    using g regions_grow_ok [OF _ assms(2,3)] assms(2) tot by (auto split: if_splits)
  have "regions_ok cfg ra' \<and> region_map ra' =
    (if failed then region_map ra else (region_map ra)(p \<mapsto> \<lparr>rm_p = p, rm_size = sz, rm_guard_size = g\<rparr>))"
  proof (cases grow_failed)
    case True
    then show ?thesis using assms(1) ra1 g by (simp add: regions_insert_def)
  next
    case False
    from insert_into [OF ra1(1) ra1(3) [OF this] assms(4), of sz g] ra1(2) assms(5) False
    show ?thesis using assms(1) g by (auto simp: regions_insert_def Let_def)
  qed
  then show "regions_ok cfg ra'" "region_map ra' =
    (if failed then region_map ra else (region_map ra)(p \<mapsto> \<lparr>rm_p = p, rm_size = sz, rm_guard_size = g\<rparr>))"
    by blast+
qed

lemma regions_insert_returns:
  assumes "regions_ok cfg ra" "config_valid cfg" "only_ENOMEM os" "p \<noteq> NULL" "region_map ra p = None"
  shows "returns (regions_insert cfg os ra p sz g w)"
  unfolding regions_insert_def
proof (rule returns_bind)
  show "returns (if ra_free ra * 4 < ra_total ra then regions_grow cfg os ra w else Returned (False, ra, w))"
    using regions_grow_returns [OF assms(1-3)] by simp
next
  fix x
  assume g: "(if ra_free ra * 4 < ra_total ra then regions_grow cfg os ra w else Returned (False, ra, w)) = Returned x"
  obtain failed ra1 w1 where x: "x = (failed, ra1, w1)" by (cases x)
  have tot: "128 \<le> ra_total ra" using assms(1) by (simp add: regions_ok_def INITIAL_REGION_TABLE_SIZE_def)
  have ra1: "regions_ok cfg ra1" "region_map ra1 = region_map ra" "\<not> failed \<Longrightarrow> 1 < ra_free ra1"
    using g regions_grow_ok [OF _ assms(1,2)] assms(1) tot by (auto simp: x split: if_splits)
  show "returns (case x of (failed, ra, w) \<Rightarrow>
      if failed then Returned (True, ra, w)
      else let msk = of_nat (ra_total ra) - 1 in
        case free_index_loop (ra_regions ra) msk (first_index msk p) of None \<Rightarrow> Diverged
        | Some index \<Rightarrow> Returned (False,
            ra\<lparr>ra_regions := (ra_regions ra)(unat index := \<lparr>rm_p = p, rm_size = sz, rm_guard_size = g\<rparr>),
               ra_free := ra_free ra - 1\<rparr>, w))"
    using insert_into [OF ra1(1) _ assms(4), of sz g] ra1(2,3) assms(5) by (auto simp: x Let_def)
qed

text \<open>Deletion of an entry.\<close>

lemma clear_index:
  assumes "regions_ok cfg ra" "i < ra_total ra" "rm_p (ra_regions ra i) \<noteq> NULL"
  defines "t \<equiv> (ra_regions ra)(i := clear_entry (ra_regions ra i))"
  shows "keys_distinct (ra_total ra) t" "probe_ok {i} (ra_total ra) (ra_mask ra) t"
    "ents (ra_total ra) t = ra_ents ra - {ra_regions ra i}"
proof -
  note ok = regions_okD [OF assms(1)]
  show "keys_distinct (ra_total ra) t" using ok(3) by (auto simp: keys_distinct_def t_def)
  show "probe_ok {i} (ra_total ra) (ra_mask ra) t" using ok(1) by (auto simp: table_ok_def probe_ok_def t_def)
  have same: "j = i" if "j < ra_total ra" "ra_regions ra j = ra_regions ra i" for j
    using ok(3) that assms(2,3) by (auto simp: keys_distinct_def)
  have "x \<in> ents (ra_total ra) t \<longleftrightarrow> x \<in> ra_ents ra - {ra_regions ra i}" for x
  proof
    assume "x \<in> ents (ra_total ra) t"
    then obtain j where j: "j < ra_total ra" "t j = x" "rm_p x \<noteq> NULL" by (auto simp: ents_def)
    then have "j \<noteq> i" by (auto simp: t_def)
    then show "x \<in> ra_ents ra - {ra_regions ra i}" using j same by (auto simp: ents_def t_def)
  next
    assume "x \<in> ra_ents ra - {ra_regions ra i}"
    then obtain j where j: "j < ra_total ra" "ra_regions ra j = x" "rm_p x \<noteq> NULL" "j \<noteq> i" by (auto simp: ents_def)
    then have "t j = x" by (simp add: t_def)
    with j show "x \<in> ents (ra_total ra) t" by (auto simp: ents_def)
  qed
  then show "ents (ra_total ra) t = ra_ents ra - {ra_regions ra i}" by (rule set_eqI)
qed

lemma regions_delete_ok:
  assumes "regions_ok cfg ra" "i < ra_total ra" "rm_p (ra_regions ra i) = p" "p \<noteq> NULL"
  obtains ra' where "regions_delete ra i = Returned ra'" "regions_ok cfg ra'"
    "region_map ra' = (region_map ra)(p := None)" "ra_free ra' = ra_free ra + 1"
proof -
  note ok = regions_okD [OF assms(1)]
  let ?n = "ra_total ra" and ?e = "ra_regions ra i"
  obtain m where "m < 64" "?n = 2 ^ m" using ok(2) by (auto simp: table_size_def)
  then have "?n < 2 ^ 64" using power_strict_increasing [of m 64 "2 :: nat"] by simp
  then have ui: "unat (of_nat i :: size_t) = i" using assms(2) by (simp add: unat_of_nat)
  obtain D where D: "D < ?n" "rm_p (ra_regions ra (cell ?n i D)) = NULL"
    using first_unused [OF ok(2) ex_unused [OF ok(4,3)] assms(2)] by blast
  have "0 < D" by (rule ccontr) (use D assms(3,4) in simp)
  from delete_loop_ok [of ?n "ra_mask ra" "of_nat i" D "ra_regions ra", unfolded ui] ok(2) assms D this
    clear_index [OF assms(1,2)]
  obtain t where t: "delete_loop (ra_regions ra) (ra_mask ra) (of_nat i) = Some t" "table_ok ?n (ra_mask ra) t"
    "ents ?n t = ra_ents ra - {?e}" "\<forall>j \<ge> ?n. t j = ra_regions ra j" by auto
  let ?ra = "ra\<lparr>ra_free := ra_free ra + 1, ra_regions := t\<rparr>"
  have "?e \<in> ra_ents ra" using assms by (auto simp: ents_def)
  then have "card (ra_ents ra - {?e}) = card (ra_ents ra) - 1" "0 < card (ra_ents ra)"
    by (auto simp: card_gt_0_iff)
  then have ok': "regions_ok cfg ?ra" using assms(1) t(2,3,4) by (auto simp: regions_ok_def)
  have "region_map ?ra = (region_map ra)(p := None)"
  proof (rule region_map_eqI [OF ok'])
    fix x
    show "x \<in> ra_ents ?ra \<longleftrightarrow> ((region_map ra)(p := None)) (rm_p x) = Some x"
      using t(3) assms(3) region_map_Some [OF assms(1), of "rm_p x" x] ents_unique [OF ok(3), of x ?e] \<open>?e \<in> ra_ents ra\<close>
      by auto
  qed (auto simp: region_map_Some [OF assms(1)] split: if_splits)
  with t(1) ok' show ?thesis by (intro that [of ?ra]) (simp_all add: regions_delete_def Let_def)
qed

end
