(* ===== verification/Region_Properties.thy ===== *)
theory Region_Properties
  imports Region_Table Address_Space
begin

text \<open>
  What the region allocator promises. Its table is a finite map from the addresses of the large
  allocations to their sizes: the locale states the laws of such an index once, and the table is an
  instance of it and through it of the contract of an allocator. The quarantine keeps every mapping
  it is given until it calls \<^verbatim>\<open>munmap\<close> on it.
\<close>

section \<open>An index of regions\<close>

locale region_index =
  fixes inv :: "'s \<Rightarrow> bool" and lookup :: "'s \<Rightarrow> ptr \<Rightarrow> 'e option" and key :: "'e \<Rightarrow> ptr"
    and put :: "'s \<Rightarrow> 'e \<Rightarrow> 's \<Rightarrow> bool" and del :: "'s \<Rightarrow> ptr \<Rightarrow> 's \<Rightarrow> bool"
  assumes put_law: "inv s \<Longrightarrow> key e \<noteq> NULL \<Longrightarrow> lookup s (key e) = None \<Longrightarrow> put s e s' \<Longrightarrow>
      inv s' \<and> lookup s' = (lookup s)(key e \<mapsto> e)"
    and del_law: "inv s \<Longrightarrow> del s p s' \<Longrightarrow> inv s' \<and> lookup s p \<noteq> None \<and> lookup s' = (lookup s)(p := None)"
begin

lemma put_del:
  assumes "inv s" "key e \<noteq> NULL" "lookup s (key e) = None" "put s e s1" "del s1 (key e) s2"
  shows "lookup s1 (key e) = Some e \<and> lookup s2 = lookup s"
proof -
  from put_law [OF assms(1-4)] have s1: "inv s1" "lookup s1 = (lookup s)(key e \<mapsto> e)" by simp_all
  from del_law [OF s1(1) assms(5)] have "lookup s2 = (lookup s1)(key e := None)" by simp
  with s1(2) assms(3) show ?thesis by (simp add: fun_upd_idem)
qed

lemma put_other:
  "inv s \<Longrightarrow> key e \<noteq> NULL \<Longrightarrow> lookup s (key e) = None \<Longrightarrow> put s e s' \<Longrightarrow> p \<noteq> key e \<Longrightarrow> lookup s' p = lookup s p"
  by (drule (3) put_law) simp

text \<open>The steps of the index as steps of an allocator.\<close>

definition alloc_step :: "'s \<Rightarrow> ptr \<Rightarrow> 's \<Rightarrow> bool" where
  "alloc_step s p s' \<longleftrightarrow> (if p = NULL then s' = s else \<exists>e. key e = p \<and> lookup s p = None \<and> put s e s')"

end

sublocale region_index \<subseteq> entries: allocator inv "\<lambda>s. dom (lookup s)" alloc_step del
proof
  fix s p s'
  assume s: "inv s" "alloc_step s p s'"
  show "inv s' \<and> (p = NULL \<and> dom (lookup s') = dom (lookup s) \<or>
      p \<noteq> NULL \<and> p \<notin> dom (lookup s) \<and> dom (lookup s') = insert p (dom (lookup s)))"
  proof (cases "p = NULL")
    case True
    with s show ?thesis by (simp add: alloc_step_def)
  next
    case False
    with s(2) obtain e where e: "key e = p" "lookup s p = None" "put s e s'" by (auto simp: alloc_step_def)
    with put_law [OF s(1), of e s'] False show ?thesis by (simp add: domIff)
  qed
next
  fix s p s'
  assume "inv s" "del s p s'"
  from del_law [OF this] show "inv s' \<and> p \<in> dom (lookup s) \<and> dom (lookup s') = dom (lookup s) - {p}" by auto
qed

section \<open>The region table as an index\<close>

definition region_put :: "config \<Rightarrow> region_allocator \<Rightarrow> region_metadata \<Rightarrow> region_allocator \<Rightarrow> bool" where
  "region_put cfg ra e ra' \<longleftrightarrow>
     (\<exists>os w w'. regions_insert cfg os ra (rm_p e) (rm_size e) (rm_guard_size e) w = Returned (False, ra', w'))"

definition region_del :: "region_allocator \<Rightarrow> ptr \<Rightarrow> region_allocator \<Rightarrow> bool" where
  "region_del ra p ra' \<longleftrightarrow> (\<exists>i. regions_find ra p = Returned (Some i) \<and> regions_delete ra i = Returned ra')"

lemma regions_find_delete:
  assumes "regions_find ra p = Returned (Some i)" "regions_ok cfg ra"
  obtains ra' where "regions_delete ra i = Returned ra'" "regions_ok cfg ra'"
    "region_map ra' = (region_map ra)(p := None)" "region_map ra p = Some (ra_regions ra i)" "ra_free ra' = ra_free ra + 1"
proof -
  have i: "i < ra_total ra" "rm_p (ra_regions ra i) = p" "p \<noteq> NULL" "region_map ra p = Some (ra_regions ra i)"
    using regions_find_ok [OF assms(2), of p] assms(1) by auto
  from regions_delete_ok [OF assms(2) i(1-3)] i(4) that show ?thesis by metis
qed

interpretation region_table:
  region_index "\<lambda>ra. regions_ok cfg ra \<and> config_valid cfg" region_map rm_p "region_put cfg" region_del for cfg
proof
  fix s e s'
  assume s: "regions_ok cfg s \<and> config_valid cfg" "rm_p e \<noteq> NULL" "region_map s (rm_p e) = None" "region_put cfg s e s'"
  then obtain os w w' where
    "regions_insert cfg os s (rm_p e) (rm_size e) (rm_guard_size e) w = Returned (False, s', w')"
    by (auto simp: region_put_def)
  note ins = regions_insert_ok [OF this _ _ s(2,3)]
  have "\<lparr>rm_p = rm_p e, rm_size = rm_size e, rm_guard_size = rm_guard_size e\<rparr> = e" by simp
  with ins s(1) show "(regions_ok cfg s' \<and> config_valid cfg) \<and> region_map s' = (region_map s)(rm_p e \<mapsto> e)"
    by (simp only: if_False simp_thms)
next
  fix s p s'
  assume s: "regions_ok cfg s \<and> config_valid cfg" "region_del s p s'"
  then obtain i where "regions_find s p = Returned (Some i)" "regions_delete s i = Returned s'"
    by (auto simp: region_del_def)
  then show "(regions_ok cfg s' \<and> config_valid cfg) \<and> region_map s p \<noteq> None \<and> region_map s' = (region_map s)(p := None)"
    using regions_find_delete [of s p i cfg] s(1) by auto
qed

definition fresh_regions :: "config \<Rightarrow> random_state \<Rightarrow> ptr \<Rightarrow> ptr \<Rightarrow> region_allocator" where
  "fresh_regions cfg r a b = (zero_region_allocator cfg)\<lparr>ra_rng := r, ra_regions_at := a, ra_spare_at := b,
      ra_total := INITIAL_REGION_TABLE_SIZE, ra_free := INITIAL_REGION_TABLE_SIZE\<rparr>"

lemma fresh_regions_ok:
  assumes "config_valid cfg" "random_state_ok r"
  shows "regions_ok cfg (fresh_regions cfg r a b)" "region_map (fresh_regions cfg r a b) = Map.empty"
proof -
  have "table_size 128 (127 :: size_t)" unfolding table_size_def by (intro conjI exI [of _ 7]) simp_all
  note em = empty_table_ok [OF this, of "\<lambda>_. zero_region"]
  show "regions_ok cfg (fresh_regions cfg r a b)"
    using em assms
    by (simp add: regions_ok_def fresh_regions_def zero_region_allocator_def zero_region_def INITIAL_REGION_TABLE_SIZE_def
        config_valid_def MAX_REGION_TABLE_SIZE_def)
  show "region_map (fresh_regions cfg r a b) = Map.empty"
    by (rule ext) (simp add: region_map_def fresh_regions_def zero_region_allocator_def zero_region_def find_None_iff)
qed

text \<open>As long as a quarter of the table is free, an insertion does not have to grow it.\<close>

lemma regions_insert_roomy:
  assumes "regions_ok cfg ra" "p \<noteq> NULL" "region_map ra p = None" "ra_total ra \<le> ra_free ra * 4"
  shows "\<exists>ra'. regions_insert cfg os ra p sz g w = Returned (False, ra', w) \<and> regions_ok cfg ra' \<and>
    region_map ra' = (region_map ra)(p \<mapsto> \<lparr>rm_p = p, rm_size = sz, rm_guard_size = g\<rparr>)"
proof -
  have "1 < ra_free ra" using assms(1,4) by (simp add: regions_ok_def INITIAL_REGION_TABLE_SIZE_def)
  from insert_into [OF assms(1) this assms(2,3), of sz g] assms(4)
  show ?thesis by (auto simp: regions_insert_def Let_def)
qed

lemma init_region_allocator_ok:
  assumes "init_region_allocator os a b (zero_region_allocator cfg) rng w = Returned (ra, rng', w')"
    and "random_state_ok rng" "config_valid cfg"
  shows "regions_ok cfg ra" "region_map ra = Map.empty" "random_state_ok rng'"
proof -
  obtain r w1 where r: "random_state_init_from_random_state os blank_random_state rng w = Returned (r, rng', w1)"
    and ra: "ra = (zero_region_allocator cfg)\<lparr>ra_rng := r, ra_regions_at := a, ra_spare_at := b,
      ra_total := INITIAL_REGION_TABLE_SIZE, ra_free := INITIAL_REGION_TABLE_SIZE\<rparr>"
    using assms(1) unfolding init_region_allocator_def
    by (auto simp: outcome_simps zero_region_allocator_def split: if_splits)
  have ok: "random_state_ok r" "random_state_ok rng'"
    using random_state_init_from_random_state_ok [OF r _ _ assms(2)] by (simp_all add: blank_random_state_def)
  show "regions_ok cfg ra" "region_map ra = Map.empty"
    using fresh_regions_ok [OF assms(3) ok(1), of a b] by (simp_all add: ra fresh_regions_def)
  show "random_state_ok rng'" by (rule ok)
qed

section \<open>The quarantine\<close>

text \<open>The mappings in the two arrays, and the ranges that \<^verbatim>\<open>munmap\<close> has been called on so far, most recent first.\<close>

definition quarantined_regions :: "region_allocator \<Rightarrow> quarantine_info multiset" where
  "quarantined_regions ra =
     filter_mset (\<lambda>q. qi_p q \<noteq> NULL) (mset (ra_quarantine_random ra) + mset (ra_quarantine_queue ra))"

definition munmap_calls :: "world \<Rightarrow> quarantine_info list" where
  "munmap_calls w =
     List.map_filter (\<lambda>(c, r). case c of Munmap p n \<Rightarrow> Some \<lparr>qi_p = p, qi_size = n\<rparr> | _ \<Rightarrow> None) (w_history w)"

abbreviation opt_mset :: "quarantine_info option \<Rightarrow> quarantine_info multiset" where
  "opt_mset q \<equiv> (case q of None \<Rightarrow> {#} | Some x \<Rightarrow> if qi_p x \<noteq> NULL then {#x#} else {#})"

lemma mset_swap: "i < length xs \<Longrightarrow> mset (xs[i := y]) + {#xs ! i#} = mset xs + {#y#}"
  by (simp add: mset_update)

lemma region_quarantine_random_conserves:
  assumes "region_quarantine_random cfg os ra target w = Returned (out, ra', w')" "regions_ok cfg ra" "config_valid cfg"
  shows "regions_ok cfg ra'" "region_map ra' = region_map ra" "same_memory w w'"
    "quarantined_regions ra' + opt_mset out = quarantined_regions ra + opt_mset (Some target)"
proof -
  have "regions_ok cfg ra' \<and> region_map ra' = region_map ra \<and> same_memory w w' \<and>
    quarantined_regions ra' + opt_mset out = quarantined_regions ra + opt_mset (Some target)"
  proof (cases "REGION_QUARANTINE_RANDOM_LENGTH cfg > 0")
    case False
    with assms(1,2) show ?thesis by (auto simp: region_quarantine_random_def)
  next
    case True
    let ?n = "REGION_QUARANTINE_RANDOM_LENGTH cfg"
    have le: "?n \<le> 65536" using assms(3) by (simp add: config_valid_def)
    then have n: "unat (of_nat ?n :: size_t) = ?n" "of_nat ?n \<noteq> (0 :: size_t)"
      using True by (simp_all add: unat_of_nat unat_eq_0 [symmetric])
    obtain r rng where r: "get_random_u64_uniform os (ra_rng ra) (of_nat ?n) w = Returned (r, rng, w')"
      and out: "out = (let q = ra_quarantine_random ra ! unat r in if qi_p q = NULL then None else Some q)"
      and ra': "ra' = ra\<lparr>ra_rng := rng, ra_quarantine_random := (ra_quarantine_random ra)[unat r := target]\<rparr>"
      using assms(1) True unfolding region_quarantine_random_def Let_def by (auto simp: outcome_simps)
    have ok: "random_state_ok (ra_rng ra)" "length (ra_quarantine_random ra) = ?n"
      using assms(2) by (simp_all add: regions_ok_def)
    have rr: "random_state_ok rng" "same_memory w w'" "unat r < ?n"
      using get_random_u64_uniform_ok [OF r ok(1)] n by (simp_all add: word_less_nat_alt)
    have "regions_ok cfg ra'" using assms(2) rr(1) by (simp add: regions_ok_def ra')
    moreover have "region_map ra' = region_map ra" by (rule ext) (simp add: region_map_def ra')
    moreover have "quarantined_regions ra' + opt_mset out = quarantined_regions ra + opt_mset (Some target)"
    proof -
      let ?q = "ra_quarantine_random ra ! unat r" and ?F = "filter_mset (\<lambda>q. qi_p q \<noteq> NULL)"
      have "?F (mset ((ra_quarantine_random ra)[unat r := target]) + {#?q#}) = ?F (mset (ra_quarantine_random ra) + {#target#})"
        using mset_swap [of "unat r" "ra_quarantine_random ra" target] rr(3) ok(2) by simp
      then show ?thesis by (auto simp: quarantined_regions_def ra' out Let_def split: if_splits)
    qed
    ultimately show ?thesis using rr(2) by blast
  qed
  then show "regions_ok cfg ra'" "region_map ra' = region_map ra" "same_memory w w'"
    "quarantined_regions ra' + opt_mset out = quarantined_regions ra + opt_mset (Some target)" by blast+
qed

lemma region_quarantine_queue_conserves:
  assumes "region_quarantine_queue cfg ra target = (out, ra')" "regions_ok cfg ra"
  shows "regions_ok cfg ra'" "region_map ra' = region_map ra"
    "quarantined_regions ra' + opt_mset (Some out) = quarantined_regions ra + opt_mset (Some target)"
proof -
  have "regions_ok cfg ra' \<and> region_map ra' = region_map ra \<and>
    quarantined_regions ra' + opt_mset (Some out) = quarantined_regions ra + opt_mset (Some target)"
  proof (cases "REGION_QUARANTINE_QUEUE_LENGTH cfg > 0")
    case False
    with assms show ?thesis by (auto simp: region_quarantine_queue_def)
  next
    case True
    let ?n = "REGION_QUARANTINE_QUEUE_LENGTH cfg" and ?i = "ra_quarantine_queue_index ra"
    have ok: "length (ra_quarantine_queue ra) = ?n" "?i < ?n" using assms(2) True by (simp_all add: regions_ok_def)
    have out: "out = ra_quarantine_queue ra ! ?i"
      and ra': "ra' = ra\<lparr>ra_quarantine_queue := (ra_quarantine_queue ra)[?i := target],
        ra_quarantine_queue_index := (?i + 1) mod ?n\<rparr>"
      using assms(1) True by (auto simp: region_quarantine_queue_def Let_def)
    let ?F = "filter_mset (\<lambda>q. qi_p q \<noteq> NULL)"
    have "?F (mset ((ra_quarantine_queue ra)[?i := target]) + {#out#}) = ?F (mset (ra_quarantine_queue ra) + {#target#})"
      using mset_swap [of ?i "ra_quarantine_queue ra" target] ok out by simp
    then have "quarantined_regions ra' + opt_mset (Some out) = quarantined_regions ra + opt_mset (Some target)"
      by (auto simp: quarantined_regions_def ra' split: if_splits)
    moreover have "regions_ok cfg ra'" using assms(2) True by (simp add: regions_ok_def ra')
    moreover have "region_map ra' = region_map ra" by (rule ext) (simp add: region_map_def ra')
    ultimately show ?thesis by blast
  qed
  then show "regions_ok cfg ra'" "region_map ra' = region_map ra"
    "quarantined_regions ra' + opt_mset (Some out) = quarantined_regions ra + opt_mset (Some target)" by blast+
qed

lemma munmap_calls_same: "same_memory w w' \<Longrightarrow> munmap_calls w' = munmap_calls w"
  by (simp add: munmap_calls_def same_memory_def)

lemma munmap_calls_sys_bool:
  "sys_bool msg os c w = Returned (failed, w') \<Longrightarrow>
   munmap_calls w' = (case c of Munmap p n \<Rightarrow> [\<lparr>qi_p = p, qi_size = n\<rparr>] | _ \<Rightarrow> []) @ munmap_calls w"
  by (auto simp: sys_bool_def munmap_calls_def w_history_sys List.map_filter_simps
      split: prod.splits sysret.splits if_splits syscall.splits)

lemma munmap_calls_wrappers:
  "memory_map_fixed os p n w = Returned (failed, w') \<Longrightarrow> munmap_calls w' = munmap_calls w"
  "memory_purge os p n w = Returned (failed, w') \<Longrightarrow> munmap_calls w' = munmap_calls w"
  "memory_unmap os p n w = Returned (failed, w') \<Longrightarrow> munmap_calls w' = \<lparr>qi_p = p, qi_size = n\<rparr> # munmap_calls w"
  by (auto simp: memory_wrapper_defs dest!: munmap_calls_sys_bool)

lemma munmap_calls_set_mem [simp]: "munmap_calls (w\<lparr>w_mem := m\<rparr>) = munmap_calls w"
  by (simp add: munmap_calls_def)

lemma munmap_calls_purge_region: "purge_region os p n w = Returned w' \<Longrightarrow> munmap_calls w' = munmap_calls w"
  by (auto simp: purge_region_def outcome_simps split: if_splits dest!: munmap_calls_wrappers(1,2))

text \<open>
  What a deallocation through the quarantine does: up to \<open>w2\<close> it only replaces pages and draws random numbers; then
  it unmaps at most one extent, the one that leaves the arrays.
\<close>

lemma regions_quarantine_stages:
  assumes "regions_quarantine_deallocate_pages cfg os ra p sz g w = Returned (ra', w')" "regions_ok cfg ra" "config_valid cfg"
    and "REGION_QUARANTINE cfg" "unat sz < REGION_QUARANTINE_SKIP_THRESHOLD cfg"
  shows "regions_ok cfg ra' \<and> region_map ra' = region_map ra \<and>
    (\<exists>us w2. keeps_maps w w2 \<and> munmap_calls w2 = munmap_calls w \<and>
      (us = [] \<and> w' = w2 \<or> (\<exists>q f. us = [q] \<and> memory_unmap os (qi_p q) (qi_size q) w2 = Returned (f, w'))) \<and>
      quarantined_regions ra' + mset us =
        quarantined_regions ra + opt_mset (Some \<lparr>qi_p = p - g, qi_size = sz + g * 2\<rparr>))"
proof -
  let ?t = "\<lparr>qi_p = p - g, qi_size = sz + g * 2\<rparr>"
  have "\<not> (\<not> REGION_QUARANTINE cfg \<or> unat sz \<ge> REGION_QUARANTINE_SKIP_THRESHOLD cfg)" using assms(4,5) by simp
  then obtain w1 out ra1 w2 where w1: "purge_region os p sz w = Returned w1"
    and rnd: "region_quarantine_random cfg os ra ?t w1 = Returned (out, ra1, w2)"
    and rest: "(case out of None \<Rightarrow> Returned (ra1, w2) | Some target \<Rightarrow>
        let (target, ra) = region_quarantine_queue cfg ra1 target in
        if qi_p target \<noteq> NULL then
          bind_o (memory_unmap os (qi_p target) (qi_size target) w2) (\<lambda>(_, w). Returned (ra, w))
        else Returned (ra, w2)) = Returned (ra', w')"
    using assms(1) unfolding regions_quarantine_deallocate_pages_def Let_def
    by (simp only: if_False) (auto simp only: outcome_steps bind_o_Returned_iff [of "purge_region os p sz w"])
  note r1 = region_quarantine_random_conserves [OF rnd assms(2,3)]
  have w2: "keeps_maps w w2" "munmap_calls w2 = munmap_calls w"
    using purge_region_keeps [OF w1] same_memory_keeps [OF r1(3)] munmap_calls_purge_region [OF w1] munmap_calls_same [OF r1(3)]
    by (auto intro: keeps_maps_trans)
  show ?thesis
  proof (cases out)
    case None
    then show ?thesis using rest r1 w2 by (intro conjI exI [of _ "[]"]) auto
  next
    case (Some target)
    obtain target' ra2 where q: "region_quarantine_queue cfg ra1 target = (target', ra2)" by fastforce
    note r2 = region_quarantine_queue_conserves [OF q r1(1)]
    have sum: "quarantined_regions ra2 + opt_mset (Some target') = quarantined_regions ra + opt_mset (Some ?t)"
      using r1(4) r2(3) Some by simp
    show ?thesis
    proof (cases "qi_p target' = NULL")
      case True
      then show ?thesis using rest Some q r1 r2 w2 sum by (intro conjI exI [of _ "[]"]) auto
    next
      case False
      then have "ra' = ra2" "\<exists>f. memory_unmap os (qi_p target') (qi_size target') w2 = Returned (f, w')"
        using rest Some q by (auto simp: outcome_simps)
      then show ?thesis using r1 r2 sum False w2 by (intro conjI exI [of _ "[target']"]) auto
    qed
  qed
qed

lemma regions_quarantine_ok:
  assumes "regions_quarantine_deallocate_pages cfg os ra p sz g w = Returned (ra', w')" "regions_ok cfg ra" "config_valid cfg"
  shows "regions_ok cfg ra' \<and> region_map ra' = region_map ra"
proof (cases "\<not> REGION_QUARANTINE cfg \<or> unat sz \<ge> REGION_QUARANTINE_SKIP_THRESHOLD cfg")
  case True
  then show ?thesis using assms(1,2) by (auto simp: regions_quarantine_deallocate_pages_def outcome_simps)
next
  case False
  then show ?thesis using regions_quarantine_stages [OF assms] by simp
qed

section \<open>Properties\<close>

text \<open>
  C22. The region table refines a finite map: from the table that \<^verbatim>\<open>init_slow_path\<close> sets up, any sequence of
  insertions of fresh addresses and deletions of found entries, with the growth and rehashing they cause, is a run
  of the abstract allocator, and the addresses with an entry at its end are the outstanding ones.
\<close>

theorem region_table_refines_spec:
  assumes "init_region_allocator os a b (zero_region_allocator cfg) rng w = Returned (ra0, rng', w')"
    and "random_state_ok rng" "config_valid cfg" "region_table.entries.runs cfg ra0 es ra"
  shows "regions_ok cfg ra \<and> spec_run {} es = Some (dom (region_map ra))"
proof -
  note init = init_region_allocator_ok [OF assms(1-3)]
  from region_table.entries.runs_refine [OF assms(4)] init assms(3) show ?thesis by simp
qed

lemma example_init:
  "\<exists>r rng' w'. random_state_ok r \<and> random_state_ok rng' \<and>
    init_region_allocator bump_kernel 0x1000 0x100000 (zero_region_allocator default_config) blank_random_state start_world =
      Returned (fresh_regions default_config r 0x1000 0x100000, rng', w')"
proof -
  have blank: "random_state_ok blank_random_state" by (simp add: random_state_ok_def blank_random_state_def)
  obtain r rng' where init: "random_state_init_from_random_state bump_kernel blank_random_state blank_random_state start_world =
      Returned (r, rng', start_world)"
    by (simp add: random_state_init_from_random_state_def get_random_bytes_def get_random_bytes_loop.simps
        blank_random_state_def Let_def)
  have "random_state_ok r \<and> random_state_ok rng'"
    using random_state_init_from_random_state_ok [OF init _ _ blank] by (simp add: blank_random_state_def)
  moreover have "\<exists>w'. memory_protect_rw_metadata bump_kernel 0x1000 (of_nat (128 * 24)) start_world = Returned (False, w')"
    by (simp add: memory_wrapper_defs sys_bool_def sys_def bump_kernel_def)
  ultimately show ?thesis using init
    by (auto simp: init_region_allocator_def zero_region_allocator_def fresh_regions_def INITIAL_REGION_TABLE_SIZE_def)
qed

theorem region_table_refines_spec_witness:
  "\<exists>ra. spec_run {} [Alloc 0x7000, Free 0x7000] = Some (dom (region_map ra)) \<and> regions_ok default_config ra"
proof -
  obtain r rng' w' where init: "random_state_ok r"
    "init_region_allocator bump_kernel 0x1000 0x100000 (zero_region_allocator default_config) blank_random_state start_world =
      Returned (fresh_regions default_config r 0x1000 0x100000, rng', w')" using example_init by blast
  let ?ra0 = "fresh_regions default_config r 0x1000 0x100000"
  let ?e = "\<lparr>rm_p = 0x7000, rm_size = 4096, rm_guard_size = 4096\<rparr>"
  note ok0 = fresh_regions_ok [OF default_config_valid init(1), where a = "0x1000" and b = "0x100000"]
  have room: "ra_total ?ra0 \<le> ra_free ?ra0 * 4" by (simp add: fresh_regions_def)
  obtain ra1 where ra1: "regions_insert default_config bump_kernel ?ra0 0x7000 4096 4096 start_world = Returned (False, ra1, start_world)"
      "regions_ok default_config ra1" "region_map ra1 = [0x7000 \<mapsto> ?e]"
    using regions_insert_roomy [OF ok0(1) _ _ room, of "0x7000" bump_kernel 4096 4096 start_world] ok0(2) by auto
  obtain i where "regions_find ra1 0x7000 = Returned (Some i)"
    by (rule regions_find_ok [OF ra1(2), of "0x7000"]) (use ra1(3) in \<open>auto split: option.splits\<close>)
  moreover from regions_find_delete [OF this ra1(2)] obtain ra2 where "regions_delete ra1 i = Returned ra2" by blast
  ultimately have "region_del ra1 0x7000 ra2" unfolding region_del_def by blast
  moreover have "region_put default_config ?ra0 ?e ra1" using ra1(1) unfolding region_put_def by auto
  then have "region_table.alloc_step default_config ?ra0 0x7000 ra1"
    using ok0(2) unfolding region_table.alloc_step_def by (auto intro!: exI [of _ ?e])
  ultimately have "region_table.alloc_step default_config ?ra0 0x7000 ra1" "region_del ra1 0x7000 ra2" by blast+
  then have "region_table.entries.runs default_config ?ra0 [Alloc 0x7000, Free 0x7000] ra2" by auto
  from region_table_refines_spec [OF init(2) _ default_config_valid this]
  show ?thesis by (auto simp: random_state_ok_def blank_random_state_def)
qed

text \<open>
  C24. \<^verbatim>\<open>regions_find\<close> ends on every address, although nothing bounds its probing loop, and returns the entry
  of the address if there is one and a null pointer otherwise.
\<close>

theorem regions_find_total:
  assumes "regions_ok cfg ra"
  shows "\<exists>r. regions_find ra p = Returned r \<and> map_option (ra_regions ra) r = region_map ra p"
  by (rule regions_find_ok [OF assms, of p]) (auto split: option.splits)

theorem regions_find_total_witness:
  "\<exists>r. regions_find (fresh_regions default_config blank_random_state 0 0) 0x7000 = Returned r \<and> r = None"
proof -
  have "random_state_ok blank_random_state" by (simp add: random_state_ok_def blank_random_state_def)
  note ok = fresh_regions_ok [OF default_config_valid this, where a = 0 and b = 0]
  from regions_find_total [OF ok(1), of "0x7000"] ok(2) show ?thesis by auto
qed

text \<open>
  Insertion and deletion are inverse: when the kernel fails for lack of memory only, inserting an address that
  has no entry returns; unless it reports failure, which leaves the map as it was, the entry is then found, no other
  address is affected, and deleting it ends with the map as before.
\<close>

lemma region_insert_delete_roundtrip:
  assumes "regions_ok cfg ra" "config_valid cfg" "only_ENOMEM os" "p \<noteq> NULL" "region_map ra p = None"
  shows "\<exists>failed ra1 w1. regions_insert cfg os ra p sz g w = Returned (failed, ra1, w1) \<and> regions_ok cfg ra1 \<and>
    (if failed then region_map ra1 = region_map ra
     else (\<forall>q. q \<noteq> p \<longrightarrow> region_map ra1 q = region_map ra q) \<and>
       (\<exists>i ra2. regions_find ra1 p = Returned (Some i) \<and>
          ra_regions ra1 i = \<lparr>rm_p = p, rm_size = sz, rm_guard_size = g\<rparr> \<and>
          regions_delete ra1 i = Returned ra2 \<and> regions_ok cfg ra2 \<and> region_map ra2 = region_map ra))"
proof -
  let ?e = "\<lparr>rm_p = p, rm_size = sz, rm_guard_size = g\<rparr>"
  obtain failed ra1 w1 where ins: "regions_insert cfg os ra p sz g w = Returned (failed, ra1, w1)"
    using regions_insert_returns [OF assms, of sz g w] by (auto simp: returns_def)
  note ok = regions_insert_ok [OF ins assms(1,2,4,5)]
  show ?thesis
  proof (cases failed)
    case True
    with ins ok show ?thesis by auto
  next
    case False
    then have m: "region_map ra1 = (region_map ra)(p \<mapsto> ?e)" using ok by simp
    obtain r where r: "regions_find ra1 p = Returned r" "map_option (ra_regions ra1) r = region_map ra1 p"
      by (rule regions_find_ok [OF ok(1), of p]) (auto split: option.splits)
    then obtain i where i: "regions_find ra1 p = Returned (Some i)" "ra_regions ra1 i = ?e" using m by auto
    from regions_find_delete [OF i(1) ok(1)] obtain ra2 where ra2: "regions_delete ra1 i = Returned ra2"
      "regions_ok cfg ra2" "region_map ra2 = (region_map ra1)(p := None)" by blast
    have "region_map ra2 = region_map ra" using ra2(3) m assms(5) by (simp add: fun_upd_idem)
    with False ins ok(1) m i ra2(1,2) show ?thesis by auto
  qed
qed

text \<open>
  C23. Deletion by shifting back: for an entry that \<^verbatim>\<open>regions_find\<close> returned, \<^verbatim>\<open>regions_delete\<close> ends, removes exactly
  that entry and keeps every other one findable.
\<close>

theorem regions_delete_exact:
  assumes "regions_ok cfg ra" "regions_find ra p = Returned (Some i)"
  shows "\<exists>ra'. regions_delete ra i = Returned ra' \<and> regions_ok cfg ra' \<and>
    region_map ra' = (region_map ra)(p := None) \<and> ra_free ra' = ra_free ra + 1"
  by (rule regions_find_delete [OF assms(2,1)]) blast

theorem regions_delete_exact_witness:
  "\<exists>ra i ra'. regions_find ra 0x7000 = Returned (Some i) \<and> regions_delete ra i = Returned ra' \<and> region_map ra' 0x7000 = None"
proof -
  have "random_state_ok blank_random_state" by (simp add: random_state_ok_def blank_random_state_def)
  note ok = fresh_regions_ok [OF default_config_valid this, where a = 0 and b = 0]
  let ?ra0 = "fresh_regions default_config blank_random_state 0 0"
  have room: "ra_total ?ra0 \<le> ra_free ?ra0 * 4" by (simp add: fresh_regions_def)
  obtain ra1 where ra1: "regions_ok default_config ra1" "region_map ra1 0x7000 \<noteq> None"
    using regions_insert_roomy [OF ok(1) _ _ room, of "0x7000" bump_kernel 4096 4096 start_world] ok(2) by auto
  obtain i where i: "regions_find ra1 0x7000 = Returned (Some i)"
    by (rule regions_find_ok [OF ra1(1), of "0x7000"]) (use ra1(2) in \<open>auto split: option.splits\<close>)
  from regions_delete_exact [OF ra1(1) i] obtain ra' where
    "regions_delete ra1 i = Returned ra'" "region_map ra' = (region_map ra1)(0x7000 := None)" by blast
  with i show ?thesis by (intro exI conjI) auto
qed

lemma memory_unmap_effect:
  assumes "memory_unmap os (qi_p q) (qi_size q) w = Returned (failed, w')"
  shows "(\<exists>h. w_history w' = (Munmap (qi_p q) (qi_size q), Sys_error ENOMEM) # h) \<or> (\<forall>a. in_extent a q \<longrightarrow> \<not> mapped w' a)"
proof (cases failed)
  case True
  then show ?thesis using assms
    by (auto simp: memory_unmap_def sys_bool_def w_history_sys split: prod.splits sysret.splits if_splits)
next
  case False
  then show ?thesis using sys_bool_view [OF assms [unfolded memory_unmap_def]]
    by (auto simp: mapped_def in_extent_def vm_apply_def)
qed

text \<open>
  C25. The quarantine of large mappings loses none: after the call, what it is given is in one of its arrays, together
  with its guard regions, or the call has made one \<^verbatim>\<open>munmap\<close> for the whole of it, and likewise for every mapping that
  was in the arrays before; at most one \<^verbatim>\<open>munmap\<close> is called, and then no address of the mapping is mapped any more,
  unless the system refused with \<^verbatim>\<open>ENOMEM\<close>, which the code ignores.
\<close>

theorem region_quarantine_conserves:
  assumes "regions_quarantine_deallocate_pages cfg os ra p sz g w = Returned (ra', w')" "regions_ok cfg ra" "config_valid cfg"
    and "REGION_QUARANTINE cfg" "unat sz < REGION_QUARANTINE_SKIP_THRESHOLD cfg" "p \<noteq> g"
  shows "regions_ok cfg ra' \<and> region_map ra' = region_map ra \<and>
    (\<exists>us. length us \<le> 1 \<and> munmap_calls w' = us @ munmap_calls w \<and>
      quarantined_regions ra' + mset us = quarantined_regions ra + {#\<lparr>qi_p = p - g, qi_size = sz + g * 2\<rparr>#} \<and>
      (\<forall>q \<in> set us. (\<exists>h. w_history w' = (Munmap (qi_p q) (qi_size q), Sys_error ENOMEM) # h) \<or>
        (\<forall>a. in_extent a q \<longrightarrow> \<not> mapped w' a)))"
proof -
  obtain us w2 where st: "regions_ok cfg ra'" "region_map ra' = region_map ra" "munmap_calls w2 = munmap_calls w"
      "us = [] \<and> w' = w2 \<or> (\<exists>q f. us = [q] \<and> memory_unmap os (qi_p q) (qi_size q) w2 = Returned (f, w'))"
      "quarantined_regions ra' + mset us = quarantined_regions ra + {#\<lparr>qi_p = p - g, qi_size = sz + g * 2\<rparr>#}"
    using regions_quarantine_stages [OF assms(1-5)] assms(6) by auto
  from st(3,4) have "length us \<le> 1" "munmap_calls w' = us @ munmap_calls w" by (auto simp: munmap_calls_wrappers)
  moreover have "\<forall>q \<in> set us. (\<exists>h. w_history w' = (Munmap (qi_p q) (qi_size q), Sys_error ENOMEM) # h) \<or>
      (\<forall>a. in_extent a q \<longrightarrow> \<not> mapped w' a)"
    using st(4) memory_unmap_effect by fastforce
  ultimately show ?thesis using st(1,2,5) by blast
qed

definition queue_config :: config where
  "queue_config = default_config\<lparr>REGION_QUARANTINE_RANDOM_LENGTH := 0, REGION_QUARANTINE_QUEUE_LENGTH := 2\<rparr>"

theorem region_quarantine_conserves_witness:
  "\<exists>ra' w'. regions_quarantine_deallocate_pages queue_config bump_kernel
       (fresh_regions queue_config blank_random_state 0 0) 0x7000 4096 4096 start_world = Returned (ra', w') \<and>
     quarantined_regions ra' + mset (munmap_calls w') = {#\<lparr>qi_p = 0x6000, qi_size = 12288\<rparr>#}"
proof -
  let ?ra = "fresh_regions queue_config blank_random_state 0 0"
  have valid: "config_valid queue_config"
    using default_config_valid by (simp add: queue_config_def config_valid_def)
  have "random_state_ok blank_random_state" by (simp add: random_state_ok_def blank_random_state_def)
  note ok = fresh_regions_ok [OF valid this, where a = 0 and b = 0]
  obtain ra' w' where ret: "regions_quarantine_deallocate_pages queue_config bump_kernel ?ra 0x7000 4096 4096 start_world
      = Returned (ra', w')"
    by (simp add: regions_quarantine_deallocate_pages_def purge_region_def memory_wrapper_defs sys_bool_def sys_def
        bump_kernel_def queue_config_def default_config_def REGION_QUARANTINE_def region_quarantine_random_def
        region_quarantine_queue_def fresh_regions_def zero_region_allocator_def)
  moreover have "quarantined_regions ?ra = {#}" "munmap_calls start_world = []"
    by (simp_all add: quarantined_regions_def fresh_regions_def zero_region_allocator_def queue_config_def default_config_def
        munmap_calls_def start_world_def List.map_filter_simps)
  ultimately show ?thesis
    using region_quarantine_conserves [OF ret ok(1) valid]
    by (auto simp: queue_config_def default_config_def REGION_QUARANTINE_def)
qed

end
