(* ===== verification/Large.thy ===== *)
theory Large
  imports Region_Properties Size_Classes
begin

text \<open>
  Large allocations of \<^verbatim>\<open>src/h_malloc.c\<close>: mappings of their own with guard regions of random size, tracked by the
  region allocator. The operations take the region allocator and return it updated.
\<close>

section \<open>Operations\<close>

definition get_guard_size ::
    "config \<Rightarrow> kernel \<Rightarrow> random_state \<Rightarrow> size_t \<Rightarrow> world \<Rightarrow> (size_t \<times> random_state \<times> world) outcome" where
  "get_guard_size cfg os state sz w =
     bind_o (get_random_u64_uniform os state (sz div PAGE_SIZE div of_nat (GUARD_SIZE_DIVISOR cfg)) w)
       (\<lambda>(r, state, w). Returned ((r + 1) * PAGE_SIZE, state, w))"

text \<open>
  The steps that \<^verbatim>\<open>allocate_large\<close> and \<^verbatim>\<open>allocate_aligned\<close> share after the mapping has been made: the table
  gets an entry, or the mapping is given back and the result is a null pointer.
\<close>

definition track_region ::
    "config \<Rightarrow> kernel \<Rightarrow> region_allocator \<Rightarrow> ptr \<Rightarrow> size_t \<Rightarrow> size_t \<Rightarrow> world \<Rightarrow>
     (ptr \<times> region_allocator \<times> world) outcome" where
  "track_region cfg os ra p sz guard_size w =
     bind_o (regions_insert cfg os ra p sz guard_size w) (\<lambda>(failed, ra, w).
       if failed then bind_o (deallocate_pages os p sz guard_size w) (\<lambda>w. Returned (NULL, ra, w))
       else Returned (p, stats_large_allocate cfg ra sz, w))"

definition allocate_large ::
    "config \<Rightarrow> kernel \<Rightarrow> region_allocator \<Rightarrow> size_t \<Rightarrow> world \<Rightarrow> (ptr \<times> region_allocator \<times> world) outcome" where
  "allocate_large cfg os ra sz w =
     (let sz = get_large_size_class cfg sz in
      if sz = 0 then Returned (NULL, ra, set_errno ENOMEM w)
      else
        bind_o (get_guard_size cfg os (ra_rng ra) sz w) (\<lambda>(guard_size, rng, w).
          let ra = ra\<lparr>ra_rng := rng\<rparr> in
          bind_o (allocate_pages os sz guard_size True w) (\<lambda>(p, w).
            if p = NULL then Returned (NULL, ra, w)
            else
              bind_o (track_region cfg os ra p sz guard_size w) (\<lambda>(p, ra, w).
                Returned (p, ra, if p = NULL then set_errno ENOMEM w else w)))))"

text \<open>The end of \<^verbatim>\<open>allocate_aligned\<close>, for an alignment beyond a page; a null pointer stands for \<^verbatim>\<open>ENOMEM\<close>.\<close>

definition allocate_large_aligned ::
    "config \<Rightarrow> kernel \<Rightarrow> region_allocator \<Rightarrow> size_t \<Rightarrow> size_t \<Rightarrow> world \<Rightarrow>
     (ptr \<times> region_allocator \<times> world) outcome" where
  "allocate_large_aligned cfg os ra alignment sz w =
     (let sz = get_large_size_class cfg sz in
      if sz = 0 then Returned (NULL, ra, w)
      else
        bind_o (get_guard_size cfg os (ra_rng ra) sz w) (\<lambda>(guard_size, rng, w).
          let ra = ra\<lparr>ra_rng := rng\<rparr> in
          bind_o (allocate_pages_aligned os sz alignment guard_size w) (\<lambda>(p, w).
            if p = NULL then Returned (NULL, ra, w)
            else track_region cfg os ra p sz guard_size w)))"

text \<open>\<^verbatim>\<open>deallocate_large\<close> after \<^verbatim>\<open>enforce_init\<close>.\<close>

definition release_region ::
    "config \<Rightarrow> kernel \<Rightarrow> region_allocator \<Rightarrow> ptr \<Rightarrow> size_t option \<Rightarrow> world \<Rightarrow>
     (region_allocator \<times> world) outcome" where
  "release_region cfg os ra p expected_size w =
     bind_o (regions_find ra p) (\<lambda>region.
       case region of
         None \<Rightarrow> Aborted ''invalid free''
       | Some i \<Rightarrow>
           let sz = rm_size (ra_regions ra i) in
           if (case expected_size of None \<Rightarrow> False | Some e \<Rightarrow> sz \<noteq> get_large_size_class cfg e)
           then Aborted ''sized deallocation mismatch (large)''
           else
             let guard_size = rm_guard_size (ra_regions ra i) in
             bind_o (regions_delete ra i) (\<lambda>ra.
               let ra = stats_large_deallocate cfg ra sz in
               regions_quarantine_deallocate_pages cfg os ra p sz guard_size w))"

section \<open>Reallocation\<close>

text \<open>
  The two ways in which \<^verbatim>\<open>h_realloc\<close> resizes a large allocation without copying it through an ordinary
  allocation: shrinking in place, where the guard region moves down and the rest of the mapping is deallocated, and
  moving the pages with \<^verbatim>\<open>mremap\<close>.
\<close>

definition shrink_region ::
    "config \<Rightarrow> kernel \<Rightarrow> region_allocator \<Rightarrow> ptr \<Rightarrow> size_t \<Rightarrow> size_t \<Rightarrow> size_t \<Rightarrow> world \<Rightarrow>
     (ptr \<times> region_allocator \<times> world) outcome" where
  "shrink_region cfg os ra old old_size old_guard_size sz w =
     (let new_end = old + sz in
      bind_o (memory_map_fixed os new_end old_guard_size w) (\<lambda>(failed, w).
        if failed then Returned (NULL, ra, w)
        else
          let new_guard_end = new_end + old_guard_size in
          bind_o (regions_quarantine_deallocate_pages cfg os ra new_guard_end (old_size - sz) 0 w) (\<lambda>(ra, w).
            bind_o (regions_find ra old) (\<lambda>region.
              case region of
                None \<Rightarrow> Aborted ''invalid realloc''
              | Some i \<Rightarrow>
                  let ra = ra\<lparr>ra_regions := (ra_regions ra)(i := (ra_regions ra i)\<lparr>rm_size := sz\<rparr>)\<rparr>
                  in Returned (old, stats_large_deallocate cfg ra (old_size - sz), w)))))"

definition move_region ::
    "config \<Rightarrow> kernel \<Rightarrow> region_allocator \<Rightarrow> ptr \<Rightarrow> size_t \<Rightarrow> size_t \<Rightarrow> size_t \<Rightarrow> world \<Rightarrow>
     (ptr \<times> region_allocator \<times> world) outcome" where
  "move_region cfg os ra old old_size old_guard_size sz w =
     bind_o (allocate_large cfg os ra sz w) (\<lambda>(new, ra, w).
       if new = NULL then Returned (NULL, ra, w)
       else
         bind_o (regions_find ra old) (\<lambda>region.
           case region of
             None \<Rightarrow> Aborted ''invalid realloc''
           | Some i \<Rightarrow>
               bind_o (regions_delete ra i) (\<lambda>ra.
                 let ra = stats_large_deallocate cfg ra old_size; copy_size = min sz old_size in
                 bind_o (memory_remap_fixed os old old_size new sz w) (\<lambda>(failed, w).
                   if failed then
                     bind_o (deallocate_pages os old old_size old_guard_size
                               (w\<lparr>w_mem := memcpy new old (unat copy_size) (w_mem w)\<rparr>)) (\<lambda>w.
                       Returned (new, ra, w))
                   else
                     bind_o (memory_unmap os (old - old_guard_size) old_guard_size w) (\<lambda>(_, w).
                     bind_o (memory_unmap os (old + page_align old_size) old_guard_size w) (\<lambda>(_, w).
                       Returned (new, ra, w)))))))"

end
