(* ===== verification/Large_Correct.thy ===== *)
theory Large_Correct
  imports Large
begin

text \<open>
  Correctness of large allocations: the table, the quarantine and the address space agree. Every entry of the table
  and every quarantined mapping is an extent the allocator owns, with its guards; operations move extents between
  the two, add fresh ones and unmap what they give up.
\<close>

section \<open>The invariant\<close>

definition extent :: "region_metadata \<Rightarrow> quarantine_info" where
  "extent e = \<lparr>qi_p = rm_p e - rm_guard_size e, qi_size = rm_size e + rm_guard_size e * 2\<rparr>"

definition region_shape :: "region_metadata \<Rightarrow> bool" where
  "region_shape e \<longleftrightarrow>
     rm_p e - rm_guard_size e \<noteq> NULL \<and> rm_size e \<noteq> 0 \<and> 4096 dvd unat (rm_p e) \<and> 4096 dvd unat (rm_guard_size e) \<and>
     unat (rm_size e) + 2 * unat (rm_guard_size e) < 2 ^ 64 \<and>
     unat (rm_p e - rm_guard_size e) + page_round (rm_size e + rm_guard_size e * 2) < 2 ^ 64"

definition owned :: "region_allocator \<Rightarrow> quarantine_info multiset" where
  "owned ra = image_mset extent (mset_set (ran (region_map ra))) + quarantined_regions ra"

text \<open>\<open>X\<close> are the extents that other parts of the allocator own.\<close>

text \<open>The statistics: \<^verbatim>\<open>allocated\<close> is the sum of the sizes of the entries, in the arithmetic of its machine word.\<close>

definition region_total :: "(ptr \<rightharpoonup> region_metadata) \<Rightarrow> size_t" where
  "region_total m = (\<Sum>p \<in> dom m. rm_size (the (m p)))"

definition regions_counted :: "config \<Rightarrow> region_allocator \<Rightarrow> bool" where
  "regions_counted cfg ra \<longleftrightarrow> (CONFIG_STATS cfg \<longrightarrow> ra_allocated ra = region_total (region_map ra))"

lemma region_total_put: "finite (dom m) \<Longrightarrow> m p = None \<Longrightarrow> region_total (m(p \<mapsto> e)) = region_total m + rm_size e"
  unfolding region_total_def
  by (subst dom_fun_upd) (simp, subst sum.insert, auto simp: domIff intro!: sum.cong)

lemma region_total_del: "finite (dom m) \<Longrightarrow> m p = Some e \<Longrightarrow> region_total (m(p := None)) = region_total m - rm_size e"
proof -
  assume "finite (dom m)" "m p = Some e"
  then have "region_total ((m(p := None))(p \<mapsto> e)) = region_total (m(p := None)) + rm_size e" by (intro region_total_put) auto
  moreover have "(m(p := None))(p \<mapsto> e) = m" using \<open>m p = Some e\<close> by auto
  ultimately show ?thesis by simp
qed

lemma region_total_replace:
  "finite (dom m) \<Longrightarrow> m p = Some e \<Longrightarrow> region_total (m(p \<mapsto> e')) = region_total m - rm_size e + rm_size e'"
  using region_total_put [of "m(p := None)" p e'] region_total_del [of m p e] by simp

definition large_inv :: "config \<Rightarrow> quarantine_info multiset \<Rightarrow> region_allocator \<Rightarrow> world \<Rightarrow> bool" where
  "large_inv cfg X ra w \<longleftrightarrow>
     config_valid cfg \<and> regions_ok cfg ra \<and> (\<forall>e \<in> ran (region_map ra). region_shape e) \<and> owns w (owned ra + X) \<and>
     regions_counted cfg ra"

lemma large_invD:
  assumes "large_inv cfg X ra w"
  shows "config_valid cfg" "regions_ok cfg ra" "\<And>e. e \<in> ran (region_map ra) \<Longrightarrow> region_shape e" "owns w (owned ra + X)"
    "regions_counted cfg ra"
  using assms by (simp_all add: large_inv_def)

lemma large_inv_updates [simp]:
  "large_inv cfg X ra (w\<lparr>w_mem := m\<rparr>) = large_inv cfg X ra w" "large_inv cfg X ra (set_errno e w) = large_inv cfg X ra w"
  by (simp_all add: large_inv_def)

lemma large_inv_keeps: "large_inv cfg X ra w \<Longrightarrow> keeps_maps w w' \<Longrightarrow> large_inv cfg X ra w'"
  by (auto simp: large_inv_def intro: owns_keeps)

text \<open>The table is the same whatever the random state and the statistics are.\<close>

lemma region_map_updates [simp]:
  "region_map (ra\<lparr>ra_rng := r\<rparr>) = region_map ra"
  "region_map (stats_large_allocate cfg ra sz) = region_map ra"
  "region_map (stats_large_deallocate cfg ra sz) = region_map ra"
  by (rule ext, simp add: region_map_def stats_large_allocate_def stats_large_deallocate_def)+

lemma regions_ok_updates [simp]:
  "random_state_ok r \<Longrightarrow> regions_ok cfg ra \<Longrightarrow> regions_ok cfg (ra\<lparr>ra_rng := r\<rparr>)"
  "regions_ok cfg (stats_large_allocate cfg' ra sz) = regions_ok cfg ra"
  "regions_ok cfg (stats_large_deallocate cfg' ra sz) = regions_ok cfg ra"
  by (simp_all add: regions_ok_def stats_large_allocate_def stats_large_deallocate_def)

lemma quarantined_updates [simp]:
  "quarantined_regions (ra\<lparr>ra_rng := r\<rparr>) = quarantined_regions ra"
  "quarantined_regions (stats_large_allocate cfg ra sz) = quarantined_regions ra"
  "quarantined_regions (stats_large_deallocate cfg ra sz) = quarantined_regions ra"
  by (simp_all add: quarantined_regions_def stats_large_allocate_def stats_large_deallocate_def)

lemma owned_updates [simp]:
  "owned (ra\<lparr>ra_rng := r\<rparr>) = owned ra" "owned (stats_large_allocate cfg ra sz) = owned ra"
  "owned (stats_large_deallocate cfg ra sz) = owned ra"
  by (simp_all add: owned_def)

lemma regions_counted_updates [simp]:
  "regions_counted cfg (ra\<lparr>ra_rng := r\<rparr>) = regions_counted cfg ra"
  by (simp add: regions_counted_def)

lemma stats_large_allocated:
  "CONFIG_STATS cfg \<Longrightarrow> ra_allocated (stats_large_allocate cfg ra n) = ra_allocated ra + n"
  "CONFIG_STATS cfg \<Longrightarrow> ra_allocated (stats_large_deallocate cfg ra n) = ra_allocated ra - n"
  by (simp_all add: stats_large_allocate_def stats_large_deallocate_def)

section \<open>Extents of the table\<close>

lemma ran_region_map: "regions_ok cfg ra \<Longrightarrow> ran (region_map ra) = ra_ents ra"
  unfolding ran_def by (auto simp: region_map_Some)

lemma finite_ran_region_map: "regions_ok cfg ra \<Longrightarrow> finite (ran (region_map ra))"
  by (simp add: ran_region_map)

lemma finite_dom_region_map: "regions_ok cfg ra \<Longrightarrow> finite (dom (region_map ra))"
proof -
  assume ok: "regions_ok cfg ra"
  have "dom (region_map ra) \<subseteq> rm_p ` ra_ents ra" using ok by (auto simp: region_map_Some image_iff)
  then show ?thesis by (rule finite_subset) simp
qed

lemma region_map_key: "regions_ok cfg ra \<Longrightarrow> region_map ra p = Some e \<Longrightarrow> rm_p e = p"
  by (simp add: region_map_Some)

lemma owned_put:
  assumes "regions_ok cfg ra" "region_map ra (rm_p e) = None" "region_map ra' = (region_map ra)(rm_p e \<mapsto> e)"
    and "quarantined_regions ra' = quarantined_regions ra"
  shows "owned ra' = add_mset (extent e) (owned ra)"
proof -
  have "ran (region_map ra') = insert e (ran (region_map ra))" using assms(2,3) by simp
  moreover have "e \<notin> ran (region_map ra)"
    using region_map_key [OF assms(1)] assms(2) by (auto simp: ran_def)
  ultimately show ?thesis using finite_ran_region_map [OF assms(1)] assms(4) by (simp add: owned_def)
qed

lemma owned_del:
  assumes "regions_ok cfg ra" "region_map ra p = Some e" "region_map ra' = (region_map ra)(p := None)"
    and "quarantined_regions ra' = quarantined_regions ra"
  shows "owned ra = add_mset (extent e) (owned ra')"
proof -
  note key = region_map_key [OF assms(1)]
  have "ran (region_map ra) = insert e (ran (region_map ra'))"
  proof (rule set_eqI)
    fix x
    show "x \<in> ran (region_map ra) \<longleftrightarrow> x \<in> insert e (ran (region_map ra'))"
      unfolding assms(3) ran_def using assms(2) key by (auto, metis option.inject)
  qed
  moreover have "e \<notin> ran (region_map ra')"
    unfolding assms(3) ran_def using assms(2) key by (auto split: if_splits)
  moreover have "finite (ran (region_map ra'))"
    using finite_ran_region_map [OF assms(1)] calculation(1) by simp
  ultimately show ?thesis using assms(4) by (simp add: owned_def)
qed

lemma in_own_extent: "region_shape e \<Longrightarrow> in_extent (rm_p e) (extent e)"
proof -
  assume "region_shape e"
  then have "unat (rm_size e) + 2 * unat (rm_guard_size e) < 2 ^ 64" "0 < unat (rm_size e)"
    by (auto simp: region_shape_def unat_gt_0)
  then have "unat (rm_guard_size e) < unat (rm_size e + rm_guard_size e * 2)" by (simp add: add_guards_nat)
  with page_round_ge [of "rm_size e + rm_guard_size e * 2"] show ?thesis
    by (simp add: in_extent_def extent_def in_range_def)
qed

text \<open>An address whose extent is owned besides the table's has no entry.\<close>

lemma region_map_fresh:
  assumes "owns w (add_mset x (owned ra + X))" "in_extent p x" "regions_ok cfg ra" "\<forall>e \<in> ran (region_map ra). region_shape e"
  shows "region_map ra p = None"
proof (rule ccontr)
  assume "region_map ra p \<noteq> None"
  then obtain e where e: "region_map ra p = Some e" by blast
  then have r: "e \<in> ran (region_map ra)" by (auto simp: ran_def)
  then have "extent e \<in># owned ra + X"
    using finite_ran_region_map [OF assms(3)] by (simp add: owned_def)
  moreover have "in_extent p (extent e)"
    using in_own_extent [of e] assms(4) r region_map_key [OF assms(3) e] by auto
  ultimately show False using owns_disjoint [OF assms(1,2)] by blast
qed

section \<open>Steps that leave the extents alone\<close>

lemma regions_grow_frame:
  "all_o (\<lambda>(failed, ra', w'). quarantined_regions ra' = quarantined_regions ra \<and> keeps_maps w w') (regions_grow cfg os ra w)"
  by (rule all_oI)
    (auto simp: regions_grow_def Let_def outcome_simps quarantined_regions_def split: if_splits option.splits
      dest!: wrapper_keeps elim: keeps_maps_trans)

lemma regions_insert_frame:
  "all_o (\<lambda>(failed, ra', w'). quarantined_regions ra' = quarantined_regions ra \<and> keeps_maps w w')
     (regions_insert cfg os ra p sz g w)"
  unfolding regions_insert_def
proof (rule all_o_bind)
  show "all_o (\<lambda>(failed, ra', w'). quarantined_regions ra' = quarantined_regions ra \<and> keeps_maps w w')
      (if ra_free ra * 4 < ra_total ra then regions_grow cfg os ra w else Returned (False, ra, w))"
    using regions_grow_frame by simp
qed (auto simp: Let_def quarantined_regions_def split: option.splits)

text \<open>Nor do these steps touch the statistics.\<close>

lemma regions_grow_allocated: "all_o (\<lambda>(failed, ra', w'). ra_allocated ra' = ra_allocated ra) (regions_grow cfg os ra w)"
  by (rule all_oI) (auto simp: regions_grow_def Let_def outcome_simps split: if_splits option.splits)

lemma regions_insert_allocated: "all_o (\<lambda>(failed, ra', w'). ra_allocated ra' = ra_allocated ra) (regions_insert cfg os ra p sz g w)"
  unfolding regions_insert_def
proof (rule all_o_bind)
  show "all_o (\<lambda>(failed, ra', w'). ra_allocated ra' = ra_allocated ra)
      (if ra_free ra * 4 < ra_total ra then regions_grow cfg os ra w else Returned (False, ra, w))"
    using regions_grow_allocated by simp
qed (auto simp: Let_def split: option.splits)

lemma regions_delete_allocated: "regions_delete ra i = Returned ra' \<Longrightarrow> ra_allocated ra' = ra_allocated ra"
  by (auto simp: regions_delete_def Let_def split: option.splits)

lemma quarantine_deallocate_allocated:
  "all_o (\<lambda>(ra', w'). ra_allocated ra' = ra_allocated ra) (regions_quarantine_deallocate_pages cfg os ra p sz g w)"
proof -
  have r: "all_o (\<lambda>(t, ra', w'). ra_allocated ra' = ra_allocated ra) (region_quarantine_random cfg os ra x w)" for x w
    by (rule all_oI) (auto simp: region_quarantine_random_def Let_def outcome_simps split: if_splits)
  have q: "ra_allocated (snd (region_quarantine_queue cfg ra x)) = ra_allocated ra" for ra :: region_allocator and x
    by (simp add: region_quarantine_queue_def Let_def)
  show ?thesis
  proof (rule all_oI, clarify)
    fix ra' w' assume d: "regions_quarantine_deallocate_pages cfg os ra p sz g w = Returned (ra', w')"
    show "ra_allocated ra' = ra_allocated ra"
    proof (cases "\<not> REGION_QUARANTINE cfg \<or> unat sz \<ge> REGION_QUARANTINE_SKIP_THRESHOLD cfg")
      case True
      then show ?thesis using d by (auto simp: regions_quarantine_deallocate_pages_def outcome_simps)
    next
      case False
      let ?x = "\<lparr>qi_p = p - g, qi_size = sz + g * 2\<rparr>"
      obtain w1 t ra1 w2 where p: "purge_region os p sz w = Returned w1"
        and t: "region_quarantine_random cfg os ra ?x w1 = Returned (t, ra1, w2)"
        using d False unfolding regions_quarantine_deallocate_pages_def Let_def
        by (cases "purge_region os p sz w"; cases "region_quarantine_random cfg os ra ?x (case purge_region os p sz w of Returned w \<Rightarrow> w)")
          (auto split: prod.splits)
      note ra1 = all_oD [OF r t]
      show ?thesis
      proof (cases t)
        case None
        then show ?thesis using d False p t ra1 by (simp add: regions_quarantine_deallocate_pages_def)
      next
        case (Some y)
        obtain z ra2 where z: "region_quarantine_queue cfg ra1 y = (z, ra2)" by (cases "region_quarantine_queue cfg ra1 y")
        have "ra' = ra2"
          using d False p t Some z by (auto simp: regions_quarantine_deallocate_pages_def outcome_simps split: if_splits)
        then show ?thesis using ra1 q [of ra1 y] z by simp
      qed
    qed
  qed
qed

lemma regions_delete_frame: "regions_delete ra i = Returned ra' \<Longrightarrow> quarantined_regions ra' = quarantined_regions ra"
  by (auto simp: regions_delete_def Let_def quarantined_regions_def split: option.splits)

lemma get_guard_size_ok:
  assumes "get_guard_size cfg os state sz w = Returned (g, state', w')" "random_state_ok state"
  shows "random_state_ok state'" "same_memory w w'" "4096 dvd unat g"
proof -
  obtain r where r: "get_random_u64_uniform os state (sz div PAGE_SIZE div of_nat (GUARD_SIZE_DIVISOR cfg)) w
      = Returned (r, state', w')" and g: "g = (r + 1) * PAGE_SIZE"
    using assms(1) unfolding get_guard_size_def by (auto simp: outcome_simps)
  show "random_state_ok state'" "same_memory w w'" using get_random_u64_uniform_ok [OF r assms(2)] by simp_all
  have "unat g = unat (r + 1) * unat PAGE_SIZE mod 2 ^ 64" unfolding g unat_word_ariths(2) by simp
  then have "unat g = unat (r + 1) * 4096 mod 2 ^ 64" by simp
  also have "\<dots> = (unat (r + 1) mod 2 ^ 52) * 4096" using mult_mod_right [of 4096 "unat (r + 1)" "2 ^ 52"] by (simp add: mult.commute)
  finally show "4096 dvd unat g" by simp
qed

section \<open>Allocation\<close>

lemma track_region_ok:
  fixes p sz g :: u64
  defines "e \<equiv> \<lparr>rm_p = p, rm_size = sz, rm_guard_size = g\<rparr>"
  assumes "track_region cfg os ra p sz g w = Returned (q, ra', w')" "config_valid cfg" "regions_ok cfg ra"
    and "\<forall>e \<in> ran (region_map ra). region_shape e" "owns w (add_mset (extent e) (owned ra + X))" "region_shape e" "p \<noteq> NULL" "regions_counted cfg ra"
  shows "large_inv cfg X ra' w' \<and> region_map ra p = None \<and>
    (q = NULL \<and> region_map ra' = region_map ra \<or> q = p \<and> region_map ra' = (region_map ra)(p \<mapsto> e))"
proof -
  have key: "rm_p e = p" by (simp add: e_def)
  have none: "region_map ra p = None"
    using region_map_fresh [OF assms(6) _ assms(4,5)] in_own_extent [OF assms(7)] key by simp
  obtain failed ra1 w1 where ins: "regions_insert cfg os ra p sz g w = Returned (failed, ra1, w1)"
    using assms(2) unfolding track_region_def by (auto simp only: outcome_steps)
  note ok = regions_insert_ok [OF ins assms(4,3,8) none, folded e_def]
  have fr: "quarantined_regions ra1 = quarantined_regions ra" "keeps_maps w w1"
    using all_oD [OF regions_insert_frame ins] by simp_all
  note own1 = owns_keeps [OF assms(6) fr(2)]
  have al: "ra_allocated ra1 = ra_allocated ra" using all_oD [OF regions_insert_allocated ins] by simp
  show ?thesis
  proof (cases failed)
    case True
    then have d: "deallocate_pages os p sz g w1 = Returned w'" "q = NULL" "ra' = ra1"
      using assms(2) ins unfolding track_region_def by (auto simp: outcome_simps)
    have "region_map ra1 = region_map ra" using ok(2) True by simp
    then have "owned ra1 = owned ra" using fr(1) by (simp add: owned_def)
    moreover have "owns w' (owned ra + X)"
      using owns_deallocate_pages [OF d(1)] own1 by (simp add: extent_def e_def)
    moreover have "regions_counted cfg ra1" using al ok(2) True assms(9) by (simp add: regions_counted_def)
    ultimately show ?thesis using ok True d none assms(3,5) by (simp add: large_inv_def)
  next
    case False
    then have r: "q = p" "ra' = stats_large_allocate cfg ra1 sz" "w' = w1"
      using assms(2) ins unfolding track_region_def by auto
    have m: "region_map ra1 = (region_map ra)(p \<mapsto> e)" using ok(2) False by simp
    have "owned ra1 = add_mset (extent e) (owned ra)"
      using owned_put [OF assms(4), of e ra1] none m fr(1) key by simp
    moreover have "\<forall>e \<in> ran (region_map ra1). region_shape e" unfolding m using none assms(5,7) by simp
    moreover have "regions_counted cfg (stats_large_allocate cfg ra1 sz)"
      using al assms(9) region_total_put [OF finite_dom_region_map [OF assms(4)] none, of e]
      by (simp add: regions_counted_def stats_large_allocated m) (simp add: e_def)
    ultimately show ?thesis using ok(1) own1 m none assms(3) by (simp add: large_inv_def r)
  qed
qed

lemma allocate_large_ok:
  assumes "allocate_large cfg os ra sz w = Returned (p, ra', w')" "large_inv cfg X ra w" "\<And>n. fresh_mmap os w n"
  shows "large_inv cfg X ra' w'"
    "p = NULL \<and> region_map ra' = region_map ra \<or>
     p \<noteq> NULL \<and> region_map ra p = None \<and>
     (\<exists>g. region_map ra' = (region_map ra)(p \<mapsto> \<lparr>rm_p = p, rm_size = get_large_size_class cfg sz, rm_guard_size = g\<rparr>))"
proof -
  note inv = large_invD [OF assms(2)]
  let ?sz = "get_large_size_class cfg sz"
  have "large_inv cfg X ra' w' \<and> (p = NULL \<and> region_map ra' = region_map ra \<or>
     p \<noteq> NULL \<and> region_map ra p = None \<and> (\<exists>g. region_map ra' = (region_map ra)(p \<mapsto> \<lparr>rm_p = p, rm_size = ?sz, rm_guard_size = g\<rparr>)))"
  proof (cases "?sz = 0")
    case True
    then show ?thesis using assms(1,2) by (auto simp: allocate_large_def)
  next
    case False
    then obtain g rng w1 q w2 where g: "get_guard_size cfg os (ra_rng ra) ?sz w = Returned (g, rng, w1)"
      and pg: "allocate_pages os ?sz g True w1 = Returned (q, w2)"
      and rest: "(if q = NULL then Returned (NULL, ra\<lparr>ra_rng := rng\<rparr>, w2)
        else bind_o (track_region cfg os (ra\<lparr>ra_rng := rng\<rparr>) q ?sz g w2) (\<lambda>(p, ra, w).
          Returned (p, ra, if p = NULL then set_errno ENOMEM w else w))) = Returned (p, ra', w')"
      using assms(1) unfolding allocate_large_def Let_def by (auto simp only: outcome_steps if_False)
    have "random_state_ok (ra_rng ra)" using inv(2) by (simp add: regions_ok_def)
    note g = get_guard_size_ok [OF g this]
    let ?ra = "ra\<lparr>ra_rng := rng\<rparr>"
    have fresh: "fresh_mmap os w1 n" for n using assms(3) same_memory_fresh [OF g(2)] by simp
    have ok1: "regions_ok cfg ?ra" using inv(2) g(1) by simp
    have inv1: "large_inv cfg X ?ra w1"
      using inv ok1 owns_keeps [OF inv(4) same_memory_keeps [OF g(2)]] by (simp add: large_inv_def)
    show ?thesis
    proof (cases "q = NULL")
      case True
      then show ?thesis
        using rest large_inv_keeps [OF inv1] all_oD [OF allocate_pages_keeps [OF fresh] pg] by auto
    next
      case nn: False
      let ?e = "\<lparr>rm_p = q, rm_size = ?sz, rm_guard_size = g\<rparr>"
      note fr = allocate_pages_fresh [OF pg nn fresh]
      have sh: "region_shape ?e" using fr(1-3,5) g(3) False by (simp add: region_shape_def)
      have own: "owns w2 (add_mset (extent ?e) (owned ?ra + X))"
        using owns_allocate_pages [OF pg nn g(3) fresh] large_invD(4) [OF inv1] by (simp add: extent_def)
      obtain w3 where t: "track_region cfg os ?ra q ?sz g w2 = Returned (p, ra', w3)"
        and w': "w' = (if p = NULL then set_errno ENOMEM w3 else w3)"
        using rest nn by (auto simp: outcome_simps)
      have "\<forall>e \<in> ran (region_map ?ra). region_shape e" using inv(3) by simp
      from track_region_ok [OF t inv(1) ok1 this own sh nn] inv(5) show ?thesis by (auto simp: w' nn)
    qed
  qed
  then show "large_inv cfg X ra' w'" "p = NULL \<and> region_map ra' = region_map ra \<or>
     p \<noteq> NULL \<and> region_map ra p = None \<and>
     (\<exists>g. region_map ra' = (region_map ra)(p \<mapsto> \<lparr>rm_p = p, rm_size = ?sz, rm_guard_size = g\<rparr>))" by blast+
qed

lemma allocate_large_aligned_ok:
  assumes "allocate_large_aligned cfg os ra alignment sz w = Returned (p, ra', w')" "large_inv cfg X ra w"
    and k: "alignment = 2 ^ k" "12 \<le> k" "k < 64" and "\<And>n. fresh_mmap os w n"
  shows "large_inv cfg X ra' w'"
    "p = NULL \<and> region_map ra' = region_map ra \<or>
     p \<noteq> NULL \<and> 2 ^ k dvd unat p \<and> region_map ra p = None \<and>
     (\<exists>g. region_map ra' = (region_map ra)(p \<mapsto> \<lparr>rm_p = p, rm_size = get_large_size_class cfg sz, rm_guard_size = g\<rparr>))"
proof -
  note inv = large_invD [OF assms(2)]
  let ?sz = "get_large_size_class cfg sz"
  have "large_inv cfg X ra' w' \<and> (p = NULL \<and> region_map ra' = region_map ra \<or>
     p \<noteq> NULL \<and> 2 ^ k dvd unat p \<and> region_map ra p = None \<and>
     (\<exists>g. region_map ra' = (region_map ra)(p \<mapsto> \<lparr>rm_p = p, rm_size = ?sz, rm_guard_size = g\<rparr>)))"
  proof (cases "?sz = 0")
    case True
    then show ?thesis using assms(1,2) by (auto simp: allocate_large_aligned_def)
  next
    case False
    then obtain g rng w1 q w2 where g: "get_guard_size cfg os (ra_rng ra) ?sz w = Returned (g, rng, w1)"
      and pg: "allocate_pages_aligned os ?sz alignment g w1 = Returned (q, w2)"
      and rest: "(if q = NULL then Returned (NULL, ra\<lparr>ra_rng := rng\<rparr>, w2)
        else track_region cfg os (ra\<lparr>ra_rng := rng\<rparr>) q ?sz g w2) = Returned (p, ra', w')"
      using assms(1) unfolding allocate_large_aligned_def Let_def by (auto simp only: outcome_steps if_False)
    have "random_state_ok (ra_rng ra)" using inv(2) by (simp add: regions_ok_def)
    note g = get_guard_size_ok [OF g this]
    let ?ra = "ra\<lparr>ra_rng := rng\<rparr>"
    have fresh: "fresh_mmap os w1 n" for n using assms(6) same_memory_fresh [OF g(2)] by simp
    have ok1: "regions_ok cfg ?ra" using inv(2) g(1) by simp
    have inv1: "large_inv cfg X ?ra w1"
      using inv ok1 owns_keeps [OF inv(4) same_memory_keeps [OF g(2)]] by (simp add: large_inv_def)
    show ?thesis
    proof (cases "q = NULL")
      case True
      then show ?thesis
        using rest large_inv_keeps [OF inv1] all_oD [OF allocate_pages_aligned_keeps [OF k g(3) fresh] pg] by auto
    next
      case nn: False
      let ?e = "\<lparr>rm_p = q, rm_size = ?sz, rm_guard_size = g\<rparr>"
      note own = owns_allocate_pages_aligned [OF pg nn k g(3) fresh large_invD(4) [OF inv1]]
      have al: "2 ^ k dvd unat q" by (rule allocate_pages_aligned_view(1) [OF pg nn k g(3) fresh])
      have "2 ^ 12 dvd (2 ^ k :: nat)" using k(2) by (rule le_imp_power_dvd)
      with al have "4096 dvd unat q" by (auto elim: dvd_trans)
      then have sh: "region_shape ?e" using own(2-4) g(3) False by (simp add: region_shape_def)
      have own': "owns w2 (add_mset (extent ?e) (owned ?ra + X))" using own(1) by (simp add: extent_def)
      have t: "track_region cfg os ?ra q ?sz g w2 = Returned (p, ra', w')" using rest nn by simp
      have "\<forall>e \<in> ran (region_map ?ra). region_shape e" using inv(3) by simp
      then show ?thesis using al track_region_ok [OF t inv(1) ok1 _ own' sh nn] inv(5) nn by auto
    qed
  qed
  then show "large_inv cfg X ra' w'" "p = NULL \<and> region_map ra' = region_map ra \<or>
     p \<noteq> NULL \<and> 2 ^ k dvd unat p \<and> region_map ra p = None \<and>
     (\<exists>g. region_map ra' = (region_map ra)(p \<mapsto> \<lparr>rm_p = p, rm_size = ?sz, rm_guard_size = g\<rparr>))" by blast+
qed

section \<open>Deallocation\<close>

text \<open>
  Whatever extent is handed to the quarantine besides those that are owned is owned by the quarantine or unmapped
  afterwards.
\<close>

lemma quarantine_deallocate_owned:
  assumes "regions_quarantine_deallocate_pages cfg os ra p sz g w = Returned (ra', w')" "regions_ok cfg ra" "config_valid cfg"
    and "owns w (add_mset \<lparr>qi_p = p - g, qi_size = sz + g * 2\<rparr> (quarantined_regions ra + Y))" "p - g \<noteq> NULL"
  shows "regions_ok cfg ra' \<and> region_map ra' = region_map ra \<and> owns w' (quarantined_regions ra' + Y)"
proof (cases "\<not> REGION_QUARANTINE cfg \<or> unat sz \<ge> REGION_QUARANTINE_SKIP_THRESHOLD cfg")
  case True
  then have "ra' = ra" "deallocate_pages os p sz g w = Returned w'"
    using assms(1) by (auto simp: regions_quarantine_deallocate_pages_def outcome_simps)
  then show ?thesis using assms(2) owns_deallocate_pages [OF _ assms(4)] by simp
next
  case False
  let ?x = "\<lparr>qi_p = p - g, qi_size = sz + g * 2\<rparr>"
  obtain us w2 where st: "regions_ok cfg ra'" "region_map ra' = region_map ra" "keeps_maps w w2"
      "us = [] \<and> w' = w2 \<or> (\<exists>q f. us = [q] \<and> memory_unmap os (qi_p q) (qi_size q) w2 = Returned (f, w'))"
      "quarantined_regions ra' + mset us = quarantined_regions ra + {#?x#}"
    using regions_quarantine_stages [OF assms(1-3)] False assms(5) by auto
  have eq: "quarantined_regions ra' + Y + mset us = add_mset ?x (quarantined_regions ra + Y)"
    using st(5) by (metis (no_types, lifting) add_mset_add_single union_assoc union_commute)
  have own: "owns w2 (quarantined_regions ra' + Y + mset us)" unfolding eq by (rule owns_keeps [OF assms(4) st(3)])
  from st(4) have "owns w' (quarantined_regions ra' + Y)"
  proof (elim disjE conjE exE)
    fix q f assume "us = [q]" "memory_unmap os (qi_p q) (qi_size q) w2 = Returned (f, w')"
    then show ?thesis using owns_unmap [of os q w2 f w' "quarantined_regions ra' + Y"] own by simp
  qed (use own in simp)
  with st show ?thesis by blast
qed

text \<open>The extents besides the quarantined ones.\<close>

definition table_extents :: "region_allocator \<Rightarrow> quarantine_info multiset" where
  "table_extents ra = image_mset extent (mset_set (ran (region_map ra)))"

lemma owned_split: "owned ra + X = quarantined_regions ra + (table_extents ra + X)"
  by (simp add: owned_def table_extents_def union_ac)

lemma table_extents_cong: "region_map ra' = region_map ra \<Longrightarrow> table_extents ra' = table_extents ra"
  by (simp add: table_extents_def)

lemma release_region_ok:
  assumes "release_region cfg os ra p expected w = Returned (ra', w')" "large_inv cfg X ra w"
  shows "large_inv cfg X ra' w'" "region_map ra p \<noteq> None" "region_map ra' = (region_map ra)(p := None)"
proof -
  note inv = large_invD [OF assms(2)]
  obtain i where i: "regions_find ra p = Returned (Some i)"
    using assms(1) unfolding release_region_def by (auto simp: outcome_simps split: option.splits)
  obtain ra1 where d: "regions_delete ra i = Returned ra1" "regions_ok cfg ra1"
      "region_map ra1 = (region_map ra)(p := None)" "region_map ra p = Some (ra_regions ra i)"
    by (rule regions_find_delete [OF i inv(2)]) (rule that)
  let ?e = "ra_regions ra i"
  have key: "rm_p ?e = p" by (rule region_map_key [OF inv(2) d(4)])
  have q: "regions_quarantine_deallocate_pages cfg os (stats_large_deallocate cfg ra1 (rm_size ?e)) p (rm_size ?e) (rm_guard_size ?e) w
      = Returned (ra', w')"
    using assms(1) i d(1) unfolding release_region_def Let_def by (auto split: if_splits)
  have sh: "region_shape ?e" using inv(3) d(4) by (auto simp: ran_def)
  have "owned ra = add_mset (extent ?e) (owned ra1)"
    by (rule owned_del [OF inv(2) d(4,3) regions_delete_frame [OF d(1)]])
  then have "owns w (add_mset \<lparr>qi_p = p - rm_guard_size ?e, qi_size = rm_size ?e + rm_guard_size ?e * 2\<rparr>
      (quarantined_regions (stats_large_deallocate cfg ra1 (rm_size ?e)) + (table_extents ra1 + X)))"
    using inv(4) key owned_split [of ra1 X] by (simp add: extent_def)
  from quarantine_deallocate_owned [OF q _ inv(1) this] d(2) sh key
  have ra': "regions_ok cfg ra'" "region_map ra' = region_map ra1" "owns w' (owned ra' + X)"
    using table_extents_cong [of ra' ra1] by (simp_all add: region_shape_def owned_split)
  show "region_map ra p \<noteq> None" "region_map ra' = (region_map ra)(p := None)" using d ra' by simp_all
  have "ran (region_map ra') \<subseteq> ran (region_map ra)" using d(3) ra'(2) by (auto simp: ran_def split: if_splits)
  moreover have "regions_counted cfg ra'"
    using inv(5) all_oD [OF quarantine_deallocate_allocated q] regions_delete_allocated [OF d(1)]
      region_total_del [OF finite_dom_region_map [OF inv(2)] d(4)]
    by (simp add: regions_counted_def stats_large_deallocate_def ra'(2) d(3))
  ultimately show "large_inv cfg X ra' w'" using ra' inv by (auto simp: large_inv_def)
qed

lemma release_region_rejects:
  assumes "regions_ok cfg ra" "region_map ra p = None"
  shows "release_region cfg os ra p expected w = Aborted ''invalid free''"
proof -
  obtain r where r: "regions_find ra p = Returned r" "map_option (ra_regions ra) r = region_map ra p"
    by (rule regions_find_ok [OF assms(1), of p]) (auto split: option.splits)
  then show ?thesis using assms(2) by (simp add: release_region_def)
qed

section \<open>Reallocation\<close>

text \<open>Changing the size of an entry in place.\<close>

lemma set_region_size_ok:
  fixes sz :: size_t
  assumes "regions_ok cfg ra" "regions_find ra p = Returned (Some i)"
  defines "ra' \<equiv> ra\<lparr>ra_regions := (ra_regions ra)(i := (ra_regions ra i)\<lparr>rm_size := sz\<rparr>)\<rparr>"
  shows "regions_ok cfg ra'" "region_map ra' = (region_map ra)(p \<mapsto> (ra_regions ra i)\<lparr>rm_size := sz\<rparr>)"
proof -
  let ?t = "(ra_regions ra)(i := (ra_regions ra i)\<lparr>rm_size := sz\<rparr>)" and ?n = "ra_total ra"
  have i: "i < ?n" "rm_p (ra_regions ra i) = p" "p \<noteq> NULL"
    using regions_find_ok [OF assms(1), of p] assms(2) by auto
  have same: "rm_p (?t j) = rm_p (ra_regions ra j)" for j by simp
  note ok = regions_okD [OF assms(1)]
  have t: "table_ok ?n (ra_mask ra) ?t"
    using ok(1) unfolding table_ok_def keys_distinct_def probe_ok_def same .
  then have kd: "keys_distinct ?n ?t" by (simp add: table_ok_def)
  have "card (ents ?n ?t) = card (ra_ents ra)" unfolding card_ents [OF kd] card_ents [OF ok(3)] same ..
  with t assms(1) show ok': "regions_ok cfg ra'" unfolding regions_ok_def ra'_def by (auto simp del: fun_upd_apply simp: same)
  show "region_map ra' = (region_map ra)(p \<mapsto> (ra_regions ra i)\<lparr>rm_size := sz\<rparr>)"
  proof (rule region_map_eqI [OF ok'])
    fix e
    have "e \<in> ra_ents ra' \<longleftrightarrow> (if rm_p e = p then e = (ra_regions ra i)\<lparr>rm_size := sz\<rparr> else e \<in> ra_ents ra)"
    proof (cases "rm_p e = p")
      case True
      then have "e \<in> ra_ents ra' \<longleftrightarrow> (\<exists>j < ?n. rm_p (ra_regions ra j) = p \<and> ?t j = e)"
        using i same by (auto simp: ents_def ra'_def simp del: fun_upd_apply)
      also have "\<dots> \<longleftrightarrow> ?t i = e" using ok(3) i by (auto simp: keys_distinct_def simp del: fun_upd_apply)
      finally show ?thesis using True by auto
    next
      case False
      then show ?thesis using i by (auto simp: ents_def ra'_def)
    qed
    then show "e \<in> ra_ents ra' \<longleftrightarrow> ((region_map ra)(p \<mapsto> (ra_regions ra i)\<lparr>rm_size := sz\<rparr>)) (rm_p e) = Some e"
      using region_map_Some [OF assms(1), of "rm_p e" e] by auto
  qed (use i region_map_Some [OF assms(1)] in \<open>auto split: if_splits\<close>)
qed

text \<open>A shrunk extent and the rest that is cut off make up the old extent.\<close>

lemma extent_cut:
  assumes "region_shape e" "unat sz < unat (rm_size e)" "4096 dvd unat sz" "4096 dvd unat (rm_size e)"
  defines "tail \<equiv> \<lparr>qi_p = rm_p e + sz + rm_guard_size e, qi_size = rm_size e - sz\<rparr>"
  shows "cover {#extent (e\<lparr>rm_size := sz\<rparr>), tail#} a = cover {#extent e#} a"
    and "qi_p tail \<noteq> NULL"
proof -
  let ?g = "rm_guard_size e" and ?s = "rm_p e - rm_guard_size e"
  have sh: "unat (rm_size e) + 2 * unat ?g < 2 ^ 64" "4096 dvd unat ?g" "?s \<noteq> NULL"
    using assms(1) by (simp_all add: region_shape_def)
  have old: "unat (rm_size e + ?g * 2) = unat (rm_size e) + 2 * unat ?g" by (rule add_guards_nat [OF sh(1)])
  have new: "unat (sz + ?g * 2) = unat sz + 2 * unat ?g" using assms(2) sh(1) by (intro add_guards_nat) linarith
  have diff: "unat (rm_size e - sz) = unat (rm_size e) - unat sz" using assms(2) by (simp add: unat_sub_if')
  have rounds: "page_round (rm_size e + ?g * 2) = unat (rm_size e) + 2 * unat ?g"
    "page_round (sz + ?g * 2) = unat sz + 2 * unat ?g" "page_round (rm_size e - sz) = unat (rm_size e) - unat sz"
    using assms(3,4) sh(2) by (simp_all add: page_round_aligned old new diff)
  have at: "rm_p e + sz + ?g = ?s + (sz + ?g * 2)" by simp
  have y: "in_extent a tail \<longleftrightarrow> unat sz + 2 * unat ?g \<le> unat (a - ?s) \<and> unat (a - ?s) < unat (rm_size e) + 2 * unat ?g" for a
    unfolding in_extent_def tail_def at
    using in_range_offset [of "sz + ?g * 2" "unat (rm_size e) - unat sz" ?s a] assms(2) sh(1)
    by (auto simp: rounds new)
  show "cover {#extent (e\<lparr>rm_size := sz\<rparr>), tail#} a = cover {#extent e#} a"
    using assms(2) by (auto simp: y) (auto simp: in_extent_def extent_def in_range_def rounds)
  have "unat ?s + (unat (rm_size e) + 2 * unat ?g) < 2 ^ 64" using assms(1) rounds(1) by (simp add: region_shape_def)
  then have "unat (?s + (sz + ?g * 2)) = unat ?s + unat (sz + ?g * 2)" using new assms(2) by (intro unat_add_lt) simp
  moreover have "0 < unat ?s" using sh(3) by (simp add: unat_gt_0)
  ultimately have "qi_p tail \<noteq> 0" unfolding tail_def at by (auto simp flip: unat_eq_zero)
  then show "qi_p tail \<noteq> NULL" .
qed

lemma owns_cong: "(\<And>a. cover X a = cover Y a) \<Longrightarrow> owns w X = owns w Y"
  by (simp add: owns_def)

lemma ran_replace:
  assumes "regions_ok cfg ra" "region_map ra p = Some e" "rm_p e' = p"
  shows "ran ((region_map ra)(p \<mapsto> e')) = insert e' (ran (region_map ra) - {e})" "e' \<notin> ran (region_map ra) - {e}"
proof -
  note key = region_map_key [OF assms(1)]
  have "ran ((region_map ra)(p := None)) = ran (region_map ra) - {e}"
  proof (rule set_eqI)
    fix x
    show "x \<in> ran ((region_map ra)(p := None)) \<longleftrightarrow> x \<in> ran (region_map ra) - {e}"
      unfolding ran_def using assms(2) key by (auto, metis option.inject)
  qed
  moreover have "(region_map ra)(p \<mapsto> e') = ((region_map ra)(p := None))(p \<mapsto> e')" by simp
  ultimately show "ran ((region_map ra)(p \<mapsto> e')) = insert e' (ran (region_map ra) - {e})"
    by (simp only: ran_map_upd fun_upd_same)
  show "e' \<notin> ran (region_map ra) - {e}"
    using key assms(2,3) by (auto simp: ran_def)
qed

lemma shrink_region_ok:
  assumes "shrink_region cfg os ra old (rm_size e) (rm_guard_size e) sz w = Returned (p, ra', w')"
    and "large_inv cfg X ra w" "region_map ra old = Some e" "sz \<noteq> 0"
    and cut: "unat sz < unat (rm_size e)" "4096 dvd unat sz" "4096 dvd unat (rm_size e)"
  shows "large_inv cfg X ra' w'"
    "p = NULL \<and> region_map ra' = region_map ra \<or> p = old \<and> region_map ra' = (region_map ra)(old \<mapsto> e\<lparr>rm_size := sz\<rparr>)"
proof -
  note inv = large_invD [OF assms(2)]
  let ?e = "e\<lparr>rm_size := sz\<rparr>" and ?T = "image_mset extent (mset_set (ran (region_map ra) - {e}))"
  have e: "e \<in> ran (region_map ra)" "rm_p e = old" using assms(3) region_map_key [OF inv(2)] by (auto simp: ran_def)
  then have sh: "region_shape e" using inv(3) by simp
  let ?tail = "\<lparr>qi_p = rm_p e + sz + rm_guard_size e, qi_size = rm_size e - sz\<rparr>"
  note tail = extent_cut [OF sh cut]
  obtain failed w1 where mf: "memory_map_fixed os (old + sz) (rm_guard_size e) w = Returned (failed, w1)"
    using assms(1) unfolding shrink_region_def Let_def by (auto simp only: outcome_steps)
  note k1 = wrapper_keeps(1) [OF mf]
  have "large_inv cfg X ra' w' \<and> (p = NULL \<and> region_map ra' = region_map ra \<or>
      p = old \<and> region_map ra' = (region_map ra)(old \<mapsto> ?e))"
  proof (cases failed)
    case True
    then show ?thesis using assms(1) mf large_inv_keeps [OF assms(2) k1] by (auto simp: shrink_region_def)
  next
    case False
    then obtain ra1 w2 where q: "regions_quarantine_deallocate_pages cfg os ra (old + sz + rm_guard_size e) (rm_size e - sz) 0 w1
        = Returned (ra1, w2)"
      and rest: "bind_o (regions_find ra1 old) (\<lambda>region. case region of None \<Rightarrow> Aborted ''invalid realloc''
        | Some i \<Rightarrow> Returned (old, stats_large_deallocate cfg
            (ra1\<lparr>ra_regions := (ra_regions ra1)(i := (ra_regions ra1 i)\<lparr>rm_size := sz\<rparr>)\<rparr>) (rm_size e - sz), w2))
        = Returned (p, ra', w')"
      using assms(1) mf unfolding shrink_region_def Let_def by (auto simp: outcome_steps)
    have fin: "finite (ran (region_map ra))" by (rule finite_ran_region_map [OF inv(2)])
    have eq: "owned ra + X = add_mset (extent e) (quarantined_regions ra + (?T + X))"
      using mset_set.remove [OF fin e(1)] by (simp add: owned_def union_ac)
    have "owns w1 (add_mset (extent e) (quarantined_regions ra + (?T + X)))"
      using owns_keeps [OF inv(4) k1] by (simp only: eq)
    moreover have "owns w1 (add_mset (extent e) Z) = owns w1 (add_mset ?tail (add_mset (extent ?e) Z))" for Z
    proof (rule owns_cong)
      fix a
      show "cover (add_mset (extent e) Z) a = cover (add_mset ?tail (add_mset (extent ?e) Z)) a" using tail(1) [of a] by simp
    qed
    ultimately have "owns w1 (add_mset ?tail (add_mset (extent ?e) (quarantined_regions ra + (?T + X))))" by blast
    then have "owns w1 (add_mset \<lparr>qi_p = old + sz + rm_guard_size e - 0, qi_size = rm_size e - sz + 0 * 2\<rparr>
        (quarantined_regions ra + add_mset (extent ?e) (?T + X)))" using e(2) by simp
    from quarantine_deallocate_owned [OF q inv(2,1) this] tail(2) e(2)
    have ra1: "regions_ok cfg ra1" "region_map ra1 = region_map ra" "owns w2 (quarantined_regions ra1 + add_mset (extent ?e) (?T + X))"
      by simp_all
    obtain i where i: "regions_find ra1 old = Returned (Some i)" "w' = w2" "p = old"
      and ra': "ra' = stats_large_deallocate cfg
        (ra1\<lparr>ra_regions := (ra_regions ra1)(i := (ra_regions ra1 i)\<lparr>rm_size := sz\<rparr>)\<rparr>) (rm_size e - sz)"
      using rest by (auto simp: outcome_simps split: option.splits)
    have ei: "ra_regions ra1 i = e"
      using regions_find_ok [OF ra1(1), of old] i(1) ra1(2) assms(3) by auto
    note set = set_region_size_ok [OF ra1(1) i(1), of sz, unfolded ei]
    have m: "region_map ra' = (region_map ra)(old \<mapsto> ?e)" "regions_ok cfg ra'"
      using set ra1(2) by (simp_all add: ra' ei)
    have qr: "quarantined_regions ra' = quarantined_regions ra1" by (simp add: ra' quarantined_regions_def stats_large_deallocate_def)
    note rr = ran_replace [OF inv(2) assms(3), of ?e]
    have "owned ra' + X = quarantined_regions ra1 + add_mset (extent ?e) (?T + X)"
      using fin e(2) rr by (simp add: owned_def qr m(1) union_ac)
    then have "owns w' (owned ra' + X)" using ra1(3) i(2) by (simp only:)
    moreover have "region_shape ?e"
    proof -
      have "unat (sz + rm_guard_size e * 2) \<le> unat (rm_size e + rm_guard_size e * 2)"
        using sh cut(1) by (simp add: region_shape_def add_guards_nat)
      then have "page_round (sz + rm_guard_size e * 2) \<le> page_round (rm_size e + rm_guard_size e * 2)"
        unfolding page_round_def by (intro mult_le_mono1 div_le_mono) simp
      then show ?thesis using sh cut(1) assms(4) by (simp add: region_shape_def)
    qed
    moreover have "regions_counted cfg ra'"
      using inv(5) all_oD [OF quarantine_deallocate_allocated q] region_total_replace [OF finite_dom_region_map [OF inv(2)] assms(3), of ?e]
      by (simp add: regions_counted_def m(1)) (simp add: ra' stats_large_deallocate_def)
    ultimately have "large_inv cfg X ra' w'"
      using inv(1,3) m rr e(2) by (auto simp: large_inv_def)
    then show ?thesis using m i(3) by blast
  qed
  then show "large_inv cfg X ra' w'" "p = NULL \<and> region_map ra' = region_map ra \<or>
      p = old \<and> region_map ra' = (region_map ra)(old \<mapsto> ?e)" by blast+
qed

text \<open>
  Moving pages with \<^verbatim>\<open>mremap\<close>: what is lost of the mappings, the old pages and their guards, lies in the old extent.
\<close>

lemma in_extent_pieces:
  assumes "region_shape e"
  shows "in_range (rm_p e) (page_round (rm_size e)) a \<Longrightarrow> in_extent a (extent e)"
    "in_range (rm_p e - rm_guard_size e) (page_round (rm_guard_size e)) a \<Longrightarrow> in_extent a (extent e)"
    "in_range (rm_p e + page_align (rm_size e)) (page_round (rm_guard_size e)) a \<Longrightarrow> in_extent a (extent e)"
proof -
  let ?g = "rm_guard_size e" and ?n = "page_round (rm_size e)" and ?s = "rm_p e - rm_guard_size e"
  have sh: "unat (rm_size e) + 2 * unat ?g < 2 ^ 64" "4096 dvd unat ?g"
    using assms by (simp_all add: region_shape_def)
  note r = page_round_guards [OF sh] page_round_aligned [OF sh(2)]
  have room: "?n + 2 * unat ?g < 2 ^ 64" using assms r(1) by (simp add: region_shape_def)
  have x: "in_extent a (extent e) \<longleftrightarrow> in_range ?s (?n + 2 * unat ?g) a"
    by (simp add: in_extent_def extent_def r)
  show "in_range (rm_p e) ?n a \<Longrightarrow> in_extent a (extent e)"
    unfolding x using in_range_shift [of ?s ?g ?n a "?n + 2 * unat ?g"] room by simp
  show "in_range ?s (page_round ?g) a \<Longrightarrow> in_extent a (extent e)"
    unfolding x r by (simp add: in_range_def)
  have "unat (rm_size e) + 4095 < 2 ^ 64"
  proof -
    have "unat (rm_size e) \<le> ?n" "4096 dvd ?n" "?n < 2 ^ 64" using page_round_ge room by auto
    moreover have "\<exists>k. ?n = 4096 * k" using calculation(2) by blast
    ultimately show ?thesis by auto
  qed
  then have pa: "unat (page_align (rm_size e)) = ?n" by (rule page_align_no_overflow)
  have d: "unat (?g + page_align (rm_size e)) = unat ?g + ?n" using room pa by (subst unat_add_lt) simp_all
  have at: "rm_p e + page_align (rm_size e) = ?s + (?g + page_align (rm_size e))" by simp
  show "in_range (rm_p e + page_align (rm_size e)) (page_round ?g) a \<Longrightarrow> in_extent a (extent e)"
    unfolding x r at using in_range_shift [of ?s "?g + page_align (rm_size e)" "unat ?g" a "?n + 2 * unat ?g"] room d by simp
qed

lemma remap_mapped:
  assumes "memory_remap_fixed os p n q m w = Returned (False, w')" "mapped w p" "mapped w a" "\<not> in_range p (page_round n) a"
  shows "mapped w' a"
  using sys_bool_view [of "''non-ENOMEM MREMAP_FIXED mremap failure''" os "Mremap_fixed p n q m" w False w'] assms
  by (auto simp: memory_remap_fixed_def mapped_def vm_apply_def)

lemma remap_failed_keeps: "memory_remap_fixed os p n q m w = Returned (True, w') \<Longrightarrow> keeps_maps w w'"
  using sys_bool_view [of "''non-ENOMEM MREMAP_FIXED mremap failure''" os "Mremap_fixed p n q m" w True w']
  by (auto simp: memory_remap_fixed_def mapped_def keeps_maps_def)

lemma move_region_ok:
  assumes "move_region cfg os ra old (rm_size e) (rm_guard_size e) sz w = Returned (p, ra', w')"
    and "large_inv cfg X ra w" "region_map ra old = Some e" "\<And>n. fresh_mmap os w n"
  shows "large_inv cfg X ra' w'"
    "p = NULL \<and> region_map ra' = region_map ra \<or>
     p \<noteq> NULL \<and> region_map ra p = None \<and> (\<exists>g. region_map ra' =
       (region_map ra)(p \<mapsto> \<lparr>rm_p = p, rm_size = get_large_size_class cfg sz, rm_guard_size = g\<rparr>, old := None))"
proof -
  obtain new ra1 w1 where al: "allocate_large cfg os ra sz w = Returned (new, ra1, w1)"
    using assms(1) unfolding move_region_def by (auto simp only: outcome_steps)
  note ok1 = allocate_large_ok [OF al assms(2,4)]
  note inv = large_invD [OF ok1(1)]
  have "large_inv cfg X ra' w' \<and> (p = NULL \<and> region_map ra' = region_map ra \<or>
     p \<noteq> NULL \<and> region_map ra p = None \<and> (\<exists>g. region_map ra' =
       (region_map ra)(p \<mapsto> \<lparr>rm_p = p, rm_size = get_large_size_class cfg sz, rm_guard_size = g\<rparr>, old := None)))"
  proof (cases "new = NULL")
    case True
    then show ?thesis using assms(1) al ok1 by (auto simp: move_region_def)
  next
    case False
    then obtain g where new: "region_map ra new = None"
      "region_map ra1 = (region_map ra)(new \<mapsto> \<lparr>rm_p = new, rm_size = get_large_size_class cfg sz, rm_guard_size = g\<rparr>)"
      using ok1(2) by blast
    have old: "region_map ra1 old = Some e" using new assms(3) by auto
    have e: "rm_p e = old" "region_shape e" using region_map_key [OF inv(2) old] inv(3) old by (auto simp: ran_def)
    obtain i where i: "regions_find ra1 old = Returned (Some i)"
      using assms(1) al False unfolding move_region_def by (auto simp: outcome_simps split: option.splits)
    obtain ra2 where d: "regions_delete ra1 i = Returned ra2" "regions_ok cfg ra2" "region_map ra2 = (region_map ra1)(old := None)"
      by (rule regions_find_delete [OF i inv(2)]) (rule that)
    have own: "owned ra1 = add_mset (extent e) (owned ra2)"
      by (rule owned_del [OF inv(2) old d(3) regions_delete_frame [OF d(1)]])
    have o1: "owns w1 (add_mset (extent e) (owned ra2 + X))" using inv(4) own by simp
    obtain failed w2 where rm: "memory_remap_fixed os old (rm_size e) new sz w1 = Returned (failed, w2)"
      using assms(1) al False i d(1) unfolding move_region_def Let_def by (auto simp: outcome_steps)
    have "owns w' (owned ra2 + X) \<and> p = new \<and> ra' = stats_large_deallocate cfg ra2 (rm_size e)"
    proof (cases failed)
      case True
      let ?w = "w2\<lparr>w_mem := memcpy new old (unat (min sz (rm_size e))) (w_mem w2)\<rparr>"
      have dp: "deallocate_pages os old (rm_size e) (rm_guard_size e) ?w = Returned w'"
        and "p = new \<and> ra' = stats_large_deallocate cfg ra2 (rm_size e)"
        using assms(1) al False i d(1) rm True unfolding move_region_def Let_def by (auto simp: outcome_simps)
      moreover have "owns ?w (add_mset (extent e) (owned ra2 + X))"
        using owns_keeps [OF o1 remap_failed_keeps] rm True by simp
      ultimately show ?thesis using owns_deallocate_pages [OF dp, of "owned ra2 + X"] e(1) by (simp add: extent_def)
    next
      case ok: False
      obtain f3 w3 f4 where um: "memory_unmap os (old - rm_guard_size e) (rm_guard_size e) w2 = Returned (f3, w3)"
          "memory_unmap os (old + page_align (rm_size e)) (rm_guard_size e) w3 = Returned (f4, w')"
        and p: "p = new \<and> ra' = stats_large_deallocate cfg ra2 (rm_size e)"
        using assms(1) al False i d(1) rm ok unfolding move_region_def Let_def by (auto simp: outcome_simps)
      have "mapped w1 old" by (rule owns_mapped [OF o1]) (use in_own_extent [OF e(2)] e(1) in auto)
      note lost = in_extent_pieces [OF e(2), unfolded e(1)]
      have "mapped w' a" if "mapped w1 a" "\<not> in_extent a (extent e)" for a
      proof -
        have "mapped w2 a" by (rule remap_mapped [OF _ \<open>mapped w1 old\<close> that(1)]) (use rm ok that(2) lost(1) in auto)
        then have "mapped w3 a" using unmap_mapped [OF um(1)] lost(2) that(2) by blast
        then show ?thesis using unmap_mapped [OF um(2)] lost(3) that(2) by blast
      qed
      then show ?thesis using owns_drop [OF o1] p by blast
    qed
    moreover have "region_shape x" if "x \<in> ran (region_map ra2)" for x
      using that d(3) inv(3) [of x] by (auto simp: ran_def split: if_splits)
    moreover have "regions_counted cfg (stats_large_deallocate cfg ra2 (rm_size e))"
      using inv(5) regions_delete_allocated [OF d(1)] region_total_del [OF finite_dom_region_map [OF inv(2)] old]
      by (simp add: regions_counted_def stats_large_allocated d(3))
    ultimately show ?thesis using inv(1) d(2,3) new False by (auto simp: large_inv_def)
  qed
  then show "large_inv cfg X ra' w'" "p = NULL \<and> region_map ra' = region_map ra \<or>
     p \<noteq> NULL \<and> region_map ra p = None \<and> (\<exists>g. region_map ra' =
       (region_map ra)(p \<mapsto> \<lparr>rm_p = p, rm_size = get_large_size_class cfg sz, rm_guard_size = g\<rparr>, old := None))" by blast+
qed

end
