(* ===== verification/Malloc_State.thy ===== *)
theory Malloc_State
  imports Slab_Allocator Large
begin

text \<open>
  The state that the operations of \<^verbatim>\<open>src/h_malloc.c\<close> share, and the choice between slabs and large allocations by
  size and by address. The locks and the sealing of the metadata leave no trace in the state; each operation here is
  one call, and calls on the same class or table exclude each other through their locks. Pointers carry no tags in
  the modelled build, so \<^verbatim>\<open>untag_pointer\<close> is the identity.
\<close>

section \<open>State\<close>

text \<open>
  \<^verbatim>\<open>ro\<close> and the state it points to, with the thread's \<^verbatim>\<open>thread_arena\<close> and the counter that hands out arenas.
\<close>

record state =
  st_slab_region_start :: ptr
  st_slab_region_end :: ptr
  st_size_class_metadata :: "nat \<Rightarrow> nat \<Rightarrow> size_class"   \<comment> \<open>arena, class\<close>
  st_region_allocator :: region_allocator
  st_thread_arena :: nat
  st_thread_arena_counter :: u32

definition upd_class :: "nat \<Rightarrow> nat \<Rightarrow> size_class \<Rightarrow> state \<Rightarrow> state" where
  "upd_class a k c st =
     st\<lparr>st_size_class_metadata :=
        (st_size_class_metadata st)(a := (st_size_class_metadata st a)(k := c))\<rparr>"

definition slab_region_size :: "config \<Rightarrow> size_t" where
  "slab_region_size cfg = ARENA_SIZE cfg * of_nat (N_ARENA cfg)"

definition is_init :: "state \<Rightarrow> bool" where
  "is_init st \<longleftrightarrow> st_slab_region_end st \<noteq> NULL"

definition enforce_init :: "state \<Rightarrow> unit outcome" where
  "enforce_init st = (if \<not> is_init st then Aborted ''invalid uninitialized allocator usage'' else Returned ())"

text \<open>\<^verbatim>\<open>p < get_slab_region_end() && p >= ro.slab_region_start\<close>\<close>

definition in_slab_region :: "state \<Rightarrow> ptr \<Rightarrow> bool" where
  "in_slab_region st p \<longleftrightarrow> p < st_slab_region_end st \<and> p \<ge> st_slab_region_start st"

record slab_size_class_info =
  ssci_arena :: nat
  ssci_class :: nat

definition slab_size_class :: "config \<Rightarrow> state \<Rightarrow> ptr \<Rightarrow> slab_size_class_info" where
  "slab_size_class cfg st p =
     (let offset = p - st_slab_region_start st;
          arena = (if N_ARENA cfg > 1 then ucast (offset div ARENA_SIZE cfg) else 0 :: u32);
          offset = (if N_ARENA cfg > 1 then offset - ucast arena * ARENA_SIZE cfg else offset)
      in \<lparr>ssci_arena = unat arena, ssci_class = unat (offset div REAL_CLASS_REGION_SIZE cfg)\<rparr>)"

definition slab_usable_size :: "config \<Rightarrow> state \<Rightarrow> ptr \<Rightarrow> size_t" where
  "slab_usable_size cfg st p = ucast (size_classes cfg ! ssci_class (slab_size_class cfg st p))"

section \<open>Allocation and deallocation by size and address\<close>

definition allocate_small ::
    "config \<Rightarrow> kernel \<Rightarrow> state \<Rightarrow> nat \<Rightarrow> size_t \<Rightarrow> world \<Rightarrow> (ptr \<times> state \<times> world) outcome" where
  "allocate_small cfg os st arena requested_size w =
     (let info = get_size_info requested_size;
          sz = (if si_size info \<noteq> 0 then si_size info else 16);
          k = unat (si_class info) in
      bind_o (allocate_small_class cfg os (st_size_class_metadata st arena k) requested_size sz w)
        (\<lambda>(p, c, w). Returned (p, upd_class arena k c st, w)))"

definition deallocate_small ::
    "config \<Rightarrow> kernel \<Rightarrow> state \<Rightarrow> ptr \<Rightarrow> size_t option \<Rightarrow> world \<Rightarrow> (state \<times> world) outcome" where
  "deallocate_small cfg os st p expected_size w =
     (let info = slab_size_class cfg st p; a = ssci_arena info; k = ssci_class info in
      bind_o (deallocate_small_class cfg os (st_size_class_metadata st a k) k p expected_size w)
        (\<lambda>(c, w). Returned (upd_class a k c st, w)))"

definition allocate ::
    "config \<Rightarrow> kernel \<Rightarrow> state \<Rightarrow> nat \<Rightarrow> size_t \<Rightarrow> world \<Rightarrow> (ptr \<times> state \<times> world) outcome" where
  "allocate cfg os st arena sz w =
     (if sz \<le> max_slab_size_class cfg then allocate_small cfg os st arena sz w
      else bind_o (allocate_large cfg os (st_region_allocator st) sz w)
        (\<lambda>(p, ra, w). Returned (p, st\<lparr>st_region_allocator := ra\<rparr>, w)))"

definition deallocate_large ::
    "config \<Rightarrow> kernel \<Rightarrow> state \<Rightarrow> ptr \<Rightarrow> size_t option \<Rightarrow> world \<Rightarrow> (state \<times> world) outcome" where
  "deallocate_large cfg os st p expected_size w =
     bind_o (enforce_init st) (\<lambda>_.
       bind_o (release_region cfg os (st_region_allocator st) p expected_size w) (\<lambda>(ra, w).
         Returned (st\<lparr>st_region_allocator := ra\<rparr>, w)))"

text \<open>The result of the aligned allocators: an error number, or an address stored through \<^verbatim>\<open>memptr\<close>.\<close>

definition allocate_aligned ::
    "config \<Rightarrow> kernel \<Rightarrow> state \<Rightarrow> nat \<Rightarrow> size_t \<Rightarrow> size_t \<Rightarrow> size_t \<Rightarrow> world \<Rightarrow>
     ((errno + ptr) \<times> state \<times> world) outcome" where
  "allocate_aligned cfg os st arena alignment sz min_alignment w =
     (if (alignment - 1) AND alignment \<noteq> 0 \<or> alignment < min_alignment then Returned (Inl EINVAL, st, w)
      else if alignment \<le> PAGE_SIZE then
        bind_o (if sz \<le> max_slab_size_class cfg \<and> alignment > min_align
                then bind_o (get_size_info_align cfg sz alignment) (\<lambda>info. Returned (si_size info))
                else Returned sz) (\<lambda>sz.
          bind_o (allocate cfg os st arena sz w) (\<lambda>(p, st, w).
            Returned (if p = NULL then Inl ENOMEM else Inr p, st, w)))
      else
        bind_o (allocate_large_aligned cfg os (st_region_allocator st) alignment sz w) (\<lambda>(p, ra, w).
          Returned (if p = NULL then Inl ENOMEM else Inr p, st\<lparr>st_region_allocator := ra\<rparr>, w)))"

end
