(* ===== verification/Init.thy ===== *)
theory Init
  imports Malloc_State
begin

text \<open>
  Initialisation: \<^verbatim>\<open>init_slow_path\<close>, which lays out the metadata and the slab region behind random guards, the
  choice of a thread's arena in \<^verbatim>\<open>init\<close>, and \<^verbatim>\<open>post_fork_child\<close>.
\<close>

section \<open>The platform\<close>

text \<open>
  What the platform decides: the page size at run time, where \<^verbatim>\<open>ro\<close> is, the layout of \<^verbatim>\<open>struct allocator_state\<close>
  (it contains the mutexes of the C library), and whether \<^verbatim>\<open>pthread_atfork\<close> fails.
\<close>

record platform =
  pl_page_size :: nat
  pl_ro :: ptr
  pl_sizeof_allocator_state :: size_t
  pl_regions_a :: size_t
  pl_regions_b :: size_t
  pl_slab_info :: "nat \<Rightarrow> nat \<Rightarrow> size_t"
  pl_atfork_fails :: bool

definition sizeof_random_state :: size_t where
  "sizeof_random_state = 4 + 4 + 16 * 4 + 256"

section \<open>Setting up\<close>

text \<open>The state before the first call: all of it is zero, and the thread has no arena yet.\<close>

definition initial_state :: "config \<Rightarrow> state" where
  "initial_state cfg =
     \<lparr>st_slab_region_start = NULL, st_slab_region_end = NULL,
      st_size_class_metadata = (\<lambda>_ _. zero_size_class cfg),
      st_region_allocator = zero_region_allocator cfg,
      st_thread_arena = (if N_ARENA cfg > 1 then N_ARENA cfg else 0), st_thread_arena_counter = 0\<rparr>"

definition all_classes :: "config \<Rightarrow> (nat \<times> nat) list" where
  "all_classes cfg = List.product [0..<N_ARENA cfg] [0..<N_SIZE_CLASSES cfg]"

text \<open>The loop over arenas and classes.\<close>

primrec init_classes ::
    "config \<Rightarrow> kernel \<Rightarrow> platform \<Rightarrow> ptr \<Rightarrow> ptr \<Rightarrow> (nat \<times> nat) list \<Rightarrow> state \<Rightarrow> random_state \<Rightarrow> world \<Rightarrow>
     (state \<times> random_state \<times> world) outcome" where
  "init_classes cfg os pl allocator_state slab_region_start [] st rng w = Returned (st, rng, w)"
| "init_classes cfg os pl allocator_state slab_region_start (ak # aks) st rng w =
     (case ak of (a, k) \<Rightarrow>
        bind_o (init_size_class cfg os slab_region_start a k (allocator_state + pl_slab_info pl a k)
                  (st_size_class_metadata st a k) rng w) (\<lambda>(c, rng, w).
          init_classes cfg os pl allocator_state slab_region_start aks (upd_class a k c st) rng w))"

text \<open>What follows the reservation of the allocator state.\<close>

definition init_allocator_state ::
    "config \<Rightarrow> kernel \<Rightarrow> platform \<Rightarrow> ptr \<Rightarrow> state \<Rightarrow> random_state \<Rightarrow> world \<Rightarrow> (state \<times> random_state \<times> world) outcome" where
  "init_allocator_state cfg os pl allocator_state st rng w =
     bind_o (memory_protect_rw_metadata os allocator_state (pl_regions_a pl) w) (\<lambda>(failed, w).
       if failed then Aborted ''failed to unprotect allocator state''
       else
         bind_o (init_region_allocator os (allocator_state + pl_regions_a pl) (allocator_state + pl_regions_b pl)
                   (st_region_allocator st) rng w) (\<lambda>(ra, rng, w).
         bind_o (memory_map os (slab_region_size cfg) w) (\<lambda>(slab_region_start, w).
           if slab_region_start = NULL then Aborted ''failed to allocate slab region''
           else
             init_classes cfg os pl allocator_state slab_region_start (all_classes cfg)
               (st\<lparr>st_region_allocator := ra, st_slab_region_start := slab_region_start\<rparr>) rng w)))"

definition init_slow_path ::
    "config \<Rightarrow> kernel \<Rightarrow> platform \<Rightarrow> state \<Rightarrow> world \<Rightarrow> (state \<times> world) outcome" where
  "init_slow_path cfg os pl st w =
     (if is_init st then Returned (st, w)
      else if pl_page_size pl \<noteq> unat PAGE_SIZE
      then Aborted ''runtime page size does not match compile-time page size which is not supported''
      else
        bind_o (allocate_pages os sizeof_random_state PAGE_SIZE True w) (\<lambda>(rng_p, w).
          if rng_p = NULL then Aborted ''failed to allocate init rng''
          else
            bind_o (random_state_init os blank_random_state w) (\<lambda>(rng, w).
            bind_o (get_random_u64_uniform os rng (REAL_CLASS_REGION_SIZE cfg div PAGE_SIZE) w) (\<lambda>(r, rng, w).
              let metadata_guard_size = (r + 1) * PAGE_SIZE in
              bind_o (allocate_pages os (pl_sizeof_allocator_state pl) metadata_guard_size False w) (\<lambda>(allocator_state, w).
                if allocator_state = NULL then Aborted ''failed to reserve allocator state''
                else
                  bind_o (init_allocator_state cfg os pl allocator_state st rng w) (\<lambda>(st, rng, w).
                    let slab_region_end = st_slab_region_start st + slab_region_size cfg in
                    bind_o (deallocate_pages os rng_p sizeof_random_state PAGE_SIZE w) (\<lambda>w.
                    bind_o (memory_protect_ro os (pl_ro pl) PAGE_SIZE w) (\<lambda>(failed, w).
                      if failed then Aborted ''failed to protect allocator data''
                      else if pl_atfork_fails pl then Aborted ''pthread_atfork failed''
                      else Returned (st\<lparr>st_slab_region_end := slab_region_end\<rparr>, w)))))))))"

definition init ::
    "config \<Rightarrow> kernel \<Rightarrow> platform \<Rightarrow> state \<Rightarrow> world \<Rightarrow> (nat \<times> state \<times> world) outcome" where
  "init cfg os pl st w =
     (if N_ARENA cfg > 1 \<and> st_thread_arena st < N_ARENA cfg then Returned (st_thread_arena st, st, w)
      else
        let arena = (if N_ARENA cfg > 1 then unat (st_thread_arena_counter st) mod N_ARENA cfg else st_thread_arena st);
            st = (if N_ARENA cfg > 1
                  then st\<lparr>st_thread_arena := arena, st_thread_arena_counter := st_thread_arena_counter st + 1\<rparr>
                  else st) in
        bind_o (if \<not> is_init st then init_slow_path cfg os pl st w else Returned (st, w)) (\<lambda>(st, w).
          Returned (arena, st, w)))"

section \<open>After a fork\<close>

primrec reseed_classes ::
    "kernel \<Rightarrow> (nat \<times> nat) list \<Rightarrow> state \<Rightarrow> world \<Rightarrow> (state \<times> world) outcome" where
  "reseed_classes os [] st w = Returned (st, w)"
| "reseed_classes os (ak # aks) st w =
     (case ak of (a, k) \<Rightarrow>
        let c = st_size_class_metadata st a k in
        bind_o (random_state_init os (sc_rng c) w) (\<lambda>(rng, w).
          reseed_classes os aks (upd_class a k (c\<lparr>sc_rng := rng\<rparr>) st) w))"

definition post_fork_child :: "config \<Rightarrow> kernel \<Rightarrow> state \<Rightarrow> world \<Rightarrow> (state \<times> world) outcome" where
  "post_fork_child cfg os st w =
     bind_o (random_state_init os (ra_rng (st_region_allocator st)) w) (\<lambda>(rng, w).
       reseed_classes os (all_classes cfg)
         (st\<lparr>st_region_allocator := (st_region_allocator st)\<lparr>ra_rng := rng\<rparr>\<rparr>) w)"

end
