(* ===== verification/Api.thy ===== *)
theory Api
  imports Init
begin

text \<open>
  The exported functions of \<^verbatim>\<open>src/h_malloc.c\<close> on the state of the allocator.
\<close>

section \<open>Allocation\<close>

definition alloc ::
    "config \<Rightarrow> kernel \<Rightarrow> platform \<Rightarrow> state \<Rightarrow> size_t \<Rightarrow> world \<Rightarrow> (ptr \<times> state \<times> world) outcome" where
  "alloc cfg os pl st sz w =
     bind_o (init cfg os pl st w) (\<lambda>(arena, st, w). allocate cfg os st arena sz w)"

definition h_malloc ::
    "config \<Rightarrow> kernel \<Rightarrow> platform \<Rightarrow> state \<Rightarrow> size_t \<Rightarrow> world \<Rightarrow> (ptr \<times> state \<times> world) outcome" where
  "h_malloc cfg os pl st sz w = alloc cfg os pl st (adjust_size_for_canary cfg sz) w"

text \<open>\<^verbatim>\<open>__builtin_mul_overflow\<close>: whether the product wraps, and the wrapped product.\<close>

definition builtin_mul_overflow :: "size_t \<Rightarrow> size_t \<Rightarrow> bool \<times> size_t" where
  "builtin_mul_overflow a b = (unat a * unat b \<ge> 2 ^ 64, a * b)"

definition h_calloc ::
    "config \<Rightarrow> kernel \<Rightarrow> platform \<Rightarrow> state \<Rightarrow> size_t \<Rightarrow> size_t \<Rightarrow> world \<Rightarrow> (ptr \<times> state \<times> world) outcome" where
  "h_calloc cfg os pl st nmemb sz w =
     (let (overflow, total_size) = builtin_mul_overflow nmemb sz in
      if overflow then Returned (NULL, st, set_errno ENOMEM w)
      else
        let total_size = adjust_size_for_canary cfg total_size in
        bind_o (alloc cfg os pl st total_size w) (\<lambda>(p, st, w).
          Returned (p, st,
            if \<not> ZERO_ON_FREE cfg \<and> p \<noteq> NULL \<and> total_size \<noteq> 0 \<and> total_size \<le> max_slab_size_class cfg
            then w\<lparr>w_mem := memset p 0 (unat (total_size - canary_size cfg)) (w_mem w)\<rparr> else w)))"

section \<open>Reallocation\<close>

text \<open>The last part of \<^verbatim>\<open>h_realloc\<close>: a new allocation, a copy and a deallocation.\<close>

definition realloc_copy ::
    "config \<Rightarrow> kernel \<Rightarrow> platform \<Rightarrow> state \<Rightarrow> ptr \<Rightarrow> size_t \<Rightarrow> bool \<Rightarrow> size_t \<Rightarrow> world \<Rightarrow>
     (ptr \<times> state \<times> world) outcome" where
  "realloc_copy cfg os pl st old old_size old_in_slab_region sz w =
     bind_o (init cfg os pl st w) (\<lambda>(arena, st, w).
     bind_o (allocate cfg os st arena sz w) (\<lambda>(new, st, w).
       if new = NULL then Returned (NULL, st, w)
       else
         let copy_size = min sz old_size;
             copy_size = (if copy_size > 0 \<and> copy_size \<le> max_slab_size_class cfg
                          then copy_size - canary_size cfg else copy_size);
             w = w\<lparr>w_mem := memcpy new old (unat copy_size) (w_mem w)\<rparr> in
         bind_o (if old_in_slab_region then deallocate_small cfg os st old None w
                 else deallocate_large cfg os st old None w) (\<lambda>(st, w).
           Returned (new, st, w))))"

text \<open>The branch of \<^verbatim>\<open>h_realloc\<close> for a large allocation.\<close>

definition realloc_large ::
    "config \<Rightarrow> kernel \<Rightarrow> platform \<Rightarrow> state \<Rightarrow> ptr \<Rightarrow> size_t \<Rightarrow> world \<Rightarrow> (ptr \<times> state \<times> world) outcome" where
  "realloc_large cfg os pl st old sz w =
     bind_o (enforce_init st) (\<lambda>_.
       let ra = st_region_allocator st in
       bind_o (regions_find ra old) (\<lambda>region.
         case region of
           None \<Rightarrow> Aborted ''invalid realloc''
         | Some i \<Rightarrow>
             let old_size = rm_size (ra_regions ra i); old_guard_size = rm_guard_size (ra_regions ra i) in
             if old_size = sz then Returned (old, st, w)
             else if sz > max_slab_size_class cfg \<and> sz < old_size then
               bind_o (shrink_region cfg os ra old old_size old_guard_size sz w) (\<lambda>(p, ra, w).
                 Returned (p, st\<lparr>st_region_allocator := ra\<rparr>, w))
             else if sz > max_slab_size_class cfg \<and> min sz old_size \<ge> MREMAP_MOVE_THRESHOLD then
               bind_o (move_region cfg os ra old old_size old_guard_size sz w) (\<lambda>(p, ra, w).
                 Returned (p, st\<lparr>st_region_allocator := ra\<rparr>, w))
             else realloc_copy cfg os pl st old old_size False sz w))"

definition h_realloc ::
    "config \<Rightarrow> kernel \<Rightarrow> platform \<Rightarrow> state \<Rightarrow> ptr \<Rightarrow> size_t \<Rightarrow> world \<Rightarrow> (ptr \<times> state \<times> world) outcome" where
  "h_realloc cfg os pl st old sz w =
     (let sz = adjust_size_for_canary cfg sz in
      if old = NULL then alloc cfg os pl st sz w
      else
        let large = sz > max_slab_size_class cfg;
            sz = (if large then get_large_size_class cfg sz else sz) in
        if large \<and> sz = 0 then Returned (NULL, st, set_errno ENOMEM w)
        else if in_slab_region st old then
          let old_size = slab_usable_size cfg st old in
          if sz \<le> max_slab_size_class cfg \<and> si_size (get_size_info sz) = old_size then Returned (old, st, w)
          else realloc_copy cfg os pl st old old_size True sz w
        else realloc_large cfg os pl st old sz w)"

definition h_reallocarray ::
    "config \<Rightarrow> kernel \<Rightarrow> platform \<Rightarrow> state \<Rightarrow> ptr \<Rightarrow> size_t \<Rightarrow> size_t \<Rightarrow> world \<Rightarrow>
     (ptr \<times> state \<times> world) outcome" where
  "h_reallocarray cfg os pl st p nmemb sz w =
     (let (overflow, total_size) = builtin_mul_overflow nmemb sz in
      if overflow then Returned (NULL, st, set_errno ENOMEM w)
      else h_realloc cfg os pl st p total_size w)"

section \<open>Aligned allocation\<close>

definition alloc_aligned ::
    "config \<Rightarrow> kernel \<Rightarrow> platform \<Rightarrow> state \<Rightarrow> size_t \<Rightarrow> size_t \<Rightarrow> size_t \<Rightarrow> world \<Rightarrow>
     ((errno + ptr) \<times> state \<times> world) outcome" where
  "alloc_aligned cfg os pl st alignment sz min_alignment w =
     bind_o (init cfg os pl st w) (\<lambda>(arena, st, w).
       allocate_aligned cfg os st arena alignment (adjust_size_for_canary cfg sz) min_alignment w)"

definition alloc_aligned_simple ::
    "config \<Rightarrow> kernel \<Rightarrow> platform \<Rightarrow> state \<Rightarrow> size_t \<Rightarrow> size_t \<Rightarrow> world \<Rightarrow> (ptr \<times> state \<times> world) outcome" where
  "alloc_aligned_simple cfg os pl st alignment sz w =
     bind_o (alloc_aligned cfg os pl st alignment sz 1 w) (\<lambda>(ret, st, w).
       case ret of Inl e \<Rightarrow> Returned (NULL, st, set_errno e w) | Inr p \<Rightarrow> Returned (p, st, w))"

definition h_posix_memalign ::
    "config \<Rightarrow> kernel \<Rightarrow> platform \<Rightarrow> state \<Rightarrow> size_t \<Rightarrow> size_t \<Rightarrow> world \<Rightarrow>
     ((errno + ptr) \<times> state \<times> world) outcome" where
  "h_posix_memalign cfg os pl st alignment sz w = alloc_aligned cfg os pl st alignment sz 8 w"

definition h_aligned_alloc ::
    "config \<Rightarrow> kernel \<Rightarrow> platform \<Rightarrow> state \<Rightarrow> size_t \<Rightarrow> size_t \<Rightarrow> world \<Rightarrow> (ptr \<times> state \<times> world) outcome" where
  "h_aligned_alloc cfg os pl st alignment sz w = alloc_aligned_simple cfg os pl st alignment sz w"

definition h_valloc ::
    "config \<Rightarrow> kernel \<Rightarrow> platform \<Rightarrow> state \<Rightarrow> size_t \<Rightarrow> world \<Rightarrow> (ptr \<times> state \<times> world) outcome" where
  "h_valloc cfg os pl st sz w = alloc_aligned_simple cfg os pl st PAGE_SIZE sz w"

definition h_pvalloc ::
    "config \<Rightarrow> kernel \<Rightarrow> platform \<Rightarrow> state \<Rightarrow> size_t \<Rightarrow> world \<Rightarrow> (ptr \<times> state \<times> world) outcome" where
  "h_pvalloc cfg os pl st sz w =
     (if sz = 0 then alloc_aligned_simple cfg os pl st PAGE_SIZE 0 w
      else
        let sz = page_align sz in
        if sz = 0 then Returned (NULL, st, set_errno ENOMEM w)
        else alloc_aligned_simple cfg os pl st PAGE_SIZE sz w)"

section \<open>Deallocation\<close>

text \<open>\<^verbatim>\<open>deallocate_large\<close> between saving and restoring \<^verbatim>\<open>errno\<close>.\<close>

definition free_large ::
    "config \<Rightarrow> kernel \<Rightarrow> state \<Rightarrow> ptr \<Rightarrow> size_t option \<Rightarrow> world \<Rightarrow> (state \<times> world) outcome" where
  "free_large cfg os st p expected_size w =
     (let saved_errno = w_errno w in
      bind_o (deallocate_large cfg os st p expected_size w) (\<lambda>(st, w).
        Returned (st, set_errno saved_errno w)))"

definition h_free :: "config \<Rightarrow> kernel \<Rightarrow> state \<Rightarrow> ptr \<Rightarrow> world \<Rightarrow> (state \<times> world) outcome" where
  "h_free cfg os st p w =
     (if p = NULL then Returned (st, w)
      else if in_slab_region st p then deallocate_small cfg os st p None w
      else free_large cfg os st p None w)"

definition h_free_sized ::
    "config \<Rightarrow> kernel \<Rightarrow> state \<Rightarrow> ptr \<Rightarrow> size_t \<Rightarrow> world \<Rightarrow> (state \<times> world) outcome" where
  "h_free_sized cfg os st p expected_size w =
     (if p = NULL then Returned (st, w)
      else
        let expected_size = adjust_size_for_canary cfg expected_size in
        if in_slab_region st p then
          if expected_size > max_slab_size_class cfg then Aborted ''sized deallocation mismatch (small)''
          else deallocate_small cfg os st p (Some (si_size (get_size_info expected_size))) w
        else free_large cfg os st p (Some expected_size) w)"

definition h_free_aligned_sized ::
    "config \<Rightarrow> kernel \<Rightarrow> state \<Rightarrow> ptr \<Rightarrow> size_t \<Rightarrow> size_t \<Rightarrow> world \<Rightarrow> (state \<times> world) outcome" where
  "h_free_aligned_sized cfg os st p alignment expected_size w =
     (if p = NULL then Returned (st, w)
      else
        let expected_size = adjust_size_for_canary cfg expected_size in
        if in_slab_region st p then
          if (alignment - 1) AND alignment \<noteq> 0 \<or> alignment > PAGE_SIZE
          then Aborted ''invalid sized deallocation alignment (small)''
          else if expected_size > max_slab_size_class cfg then Aborted ''sized deallocation mismatch (small)''
          else
            bind_o (if alignment > min_align then get_size_info_align cfg expected_size alignment
                    else Returned (get_size_info expected_size)) (\<lambda>info.
              deallocate_small cfg os st p (Some (si_size info)) w)
        else free_large cfg os st p (Some expected_size) w)"

section \<open>Inspection\<close>

definition memory_corruption_check_small ::
    "config \<Rightarrow> state \<Rightarrow> ptr \<Rightarrow> world \<Rightarrow> unit outcome" where
  "memory_corruption_check_small cfg st p w =
     (let info = slab_size_class cfg st p; k = ssci_class info;
          c = st_size_class_metadata st (ssci_arena info) k;
          sz = ucast (sc_size c) :: size_t; slab_size = ucast (sc_slab_size c) :: size_t in
      bind_o (get_metadata c p) (\<lambda>i.
        let slab = get_slab c slab_size i; slot = slot_of c p slab in
        if slot_pointer sz slab slot \<noteq> p then Aborted ''invalid unaligned malloc_usable_size''
        else if \<not> is_used_slot (sc_slab_info c i) slot then Aborted ''invalid malloc_usable_size''
        else
          bind_o (if k \<noteq> 0 then check_canary cfg (sc_slab_info c i) p sz w else Returned ()) (\<lambda>_.
            if SLAB_QUARANTINE cfg \<and> is_quarantine_slot (sc_slab_info c i) slot
            then Aborted ''invalid malloc_usable_size (quarantine)''
            else Returned ())))"

definition small_usable_size :: "config \<Rightarrow> state \<Rightarrow> ptr \<Rightarrow> size_t" where
  "small_usable_size cfg st p =
     (let sz = slab_usable_size cfg st p in if sz \<noteq> 0 then sz - canary_size cfg else 0)"

definition h_malloc_usable_size :: "config \<Rightarrow> state \<Rightarrow> ptr \<Rightarrow> world \<Rightarrow> size_t outcome" where
  "h_malloc_usable_size cfg st p w =
     (if p = NULL then Returned 0
      else if in_slab_region st p then
        bind_o (memory_corruption_check_small cfg st p w) (\<lambda>_. Returned (small_usable_size cfg st p))
      else
        bind_o (enforce_init st) (\<lambda>_.
        bind_o (regions_find (st_region_allocator st) p) (\<lambda>region.
          case region of
            None \<Rightarrow> Aborted ''invalid malloc_usable_size''
          | Some i \<Rightarrow> Returned (rm_size (ra_regions (st_region_allocator st) i)))))"

definition SIZE_MAX :: size_t where
  "SIZE_MAX = 0xFFFFFFFFFFFFFFFF"

definition h_malloc_object_size :: "config \<Rightarrow> state \<Rightarrow> ptr \<Rightarrow> size_t outcome" where
  "h_malloc_object_size cfg st p =
     (if p = NULL then Returned 0
      else if in_slab_region st p then
        let info = slab_size_class cfg st p; k = ssci_class info;
            c = st_size_class_metadata st (ssci_arena info) k;
            size_class = ucast (sc_size c) :: size_t in
        bind_o (get_metadata c p) (\<lambda>i.
          let slab = get_slab c (ucast (sc_slab_size c)) i; slot = slot_of c p slab in
          if \<not> is_used_slot (sc_slab_info c i) slot then Aborted ''invalid malloc_object_size''
          else if SLAB_QUARANTINE cfg \<and> is_quarantine_slot (sc_slab_info c i) slot
          then Aborted ''invalid malloc_object_size (quarantine)''
          else
            let start = slot_pointer size_class slab slot; offset = p - start;
                usable = small_usable_size cfg st p in
            if offset > usable then Aborted ''invalid malloc_object_size (canary)''
            else Returned (usable - offset))
      else if st_slab_region_end st = NULL then Returned SIZE_MAX
      else
        bind_o (regions_find (st_region_allocator st) p) (\<lambda>region.
          Returned (case region of None \<Rightarrow> SIZE_MAX | Some i \<Rightarrow> rm_size (ra_regions (st_region_allocator st) i))))"

definition h_malloc_object_size_fast :: "config \<Rightarrow> state \<Rightarrow> ptr \<Rightarrow> size_t" where
  "h_malloc_object_size_fast cfg st p =
     (if p = NULL then 0
      else if in_slab_region st p then small_usable_size cfg st p
      else if st_slab_region_end st = NULL then 0
      else SIZE_MAX)"

end
