(* ===== verification/Heap_Invariant.thy ===== *)
theory Heap_Invariant
  imports Slab_Properties Slab_Counters Slab_Mappings Large_Correct Api
begin

text \<open>
  The invariant of the whole allocator, above that of its size classes and of its region table: every class has its
  own part of the slab region, so the address alone determines arena and class, and the slab region, the large
  allocations and the quarantine do not overlap in the address space.
\<close>

section \<open>The slab region\<close>

lemma unat_ARENA_SIZE:
  assumes "config_valid cfg"
  shows "unat (ARENA_SIZE cfg) = 2 * CONFIG_CLASS_REGION_SIZE cfg * N_SIZE_CLASSES cfg"
    and "2 * CONFIG_CLASS_REGION_SIZE cfg * N_SIZE_CLASSES cfg \<le> 2 ^ 47"
proof -
  have c: "CONFIG_CLASS_REGION_SIZE cfg \<le> 2 ^ 40" using assms by (simp add: config_valid_def)
  have n: "N_SIZE_CLASSES cfg \<le> 2 ^ 6" by (simp add: N_SIZE_CLASSES_eq)
  have "2 * CONFIG_CLASS_REGION_SIZE cfg * N_SIZE_CLASSES cfg \<le> 2 * 2 ^ 40 * 2 ^ 6"
    using c n by (intro mult_le_mono) simp_all
  then show le: "2 * CONFIG_CLASS_REGION_SIZE cfg * N_SIZE_CLASSES cfg \<le> 2 ^ 47" by simp
  have "unat (of_nat (N_SIZE_CLASSES cfg) :: size_t) = N_SIZE_CLASSES cfg"
    using n by (intro unat_of_nat_lt) simp
  then show "unat (ARENA_SIZE cfg) = 2 * CONFIG_CLASS_REGION_SIZE cfg * N_SIZE_CLASSES cfg"
    unfolding ARENA_SIZE_def using le unat_REAL_CLASS_REGION_SIZE [OF assms]
    by (subst unat_mult_lt) (simp_all add: mult.commute)
qed

lemma unat_slab_region_size:
  assumes "config_valid cfg"
  shows "unat (slab_region_size cfg) = 2 * CONFIG_CLASS_REGION_SIZE cfg * N_SIZE_CLASSES cfg * N_ARENA cfg"
    and "unat (slab_region_size cfg) \<le> 2 ^ 55"
proof -
  have n: "N_ARENA cfg \<le> 2 ^ 8" using assms by (simp add: config_valid_def)
  have le: "2 * CONFIG_CLASS_REGION_SIZE cfg * N_SIZE_CLASSES cfg * N_ARENA cfg \<le> 2 ^ 47 * 2 ^ 8"
    using unat_ARENA_SIZE(2) [OF assms] n by (intro mult_le_mono)
  have "unat (of_nat (N_ARENA cfg) :: size_t) = N_ARENA cfg" using n by (intro unat_of_nat_lt) simp
  then show eq: "unat (slab_region_size cfg) = 2 * CONFIG_CLASS_REGION_SIZE cfg * N_SIZE_CLASSES cfg * N_ARENA cfg"
    unfolding slab_region_size_def using le unat_ARENA_SIZE(1) [OF assms]
    by (subst unat_mult_lt) simp_all
  show "unat (slab_region_size cfg) \<le> 2 ^ 55" using le unfolding eq by simp
qed

text \<open>Where the part of class \<open>k\<close> of arena \<open>a\<close> begins, as an offset into the slab region.\<close>

definition class_offset :: "config \<Rightarrow> nat \<Rightarrow> nat \<Rightarrow> nat" where
  "class_offset cfg a k = a * (2 * CONFIG_CLASS_REGION_SIZE cfg * N_SIZE_CLASSES cfg) + k * (2 * CONFIG_CLASS_REGION_SIZE cfg)"

lemma class_offset_bound:
  assumes "a < N_ARENA cfg" "k < N_SIZE_CLASSES cfg"
  shows "class_offset cfg a k + 2 * CONFIG_CLASS_REGION_SIZE cfg
    \<le> 2 * CONFIG_CLASS_REGION_SIZE cfg * N_SIZE_CLASSES cfg * N_ARENA cfg"
proof -
  let ?R = "2 * CONFIG_CLASS_REGION_SIZE cfg" and ?N = "N_SIZE_CLASSES cfg"
  have "(k + 1) * ?R \<le> ?N * ?R" "(a + 1) * (?R * ?N) \<le> N_ARENA cfg * (?R * ?N)"
    using assms by (intro mult_le_mono1; simp)+
  then have k: "k * ?R + ?R \<le> ?R * ?N" and a: "a * (?R * ?N) + ?R * ?N \<le> ?R * ?N * N_ARENA cfg"
    by (simp_all add: algebra_simps)
  from add_left_mono [OF k, of "a * (?R * ?N)"] a show ?thesis unfolding class_offset_def by linarith
qed

text \<open>Address to class.\<close>

lemma slab_size_class_offset:
  assumes "config_valid cfg" "a < N_ARENA cfg" "k < N_SIZE_CLASSES cfg"
    and off: "unat (p - st_slab_region_start st) = class_offset cfg a k + d" "d < 2 * CONFIG_CLASS_REGION_SIZE cfg"
  shows "slab_size_class cfg st p = \<lparr>ssci_arena = a, ssci_class = k\<rparr>"
proof -
  let ?R = "2 * CONFIG_CLASS_REGION_SIZE cfg" and ?N = "N_SIZE_CLASSES cfg"
  let ?o = "p - st_slab_region_start st"
  have R: "unat (REAL_CLASS_REGION_SIZE cfg) = ?R" by (rule unat_REAL_CLASS_REGION_SIZE [OF assms(1)])
  have A: "unat (ARENA_SIZE cfg) = ?R * ?N" by (rule unat_ARENA_SIZE(1) [OF assms(1)])
  have a256: "a < 256" using assms(1,2) by (simp add: config_valid_def)
  have "(k + 1) * ?R \<le> ?N * ?R" using assms(3) by (intro mult_le_mono1) simp
  then have in_arena: "k * ?R + d < ?R * ?N" using off(2) by (simp add: algebra_simps)
  have o: "unat ?o = a * (?R * ?N) + (k * ?R + d)" using off(1) by (simp add: class_offset_def)
  then have da: "unat ?o div (?R * ?N) = a" using in_arena by (intro div_nat_eqI) (simp_all add: algebra_simps)
  have dk: "(k * ?R + d) div ?R = k" using off(2) by (intro div_nat_eqI) (simp_all add: algebra_simps)
  show ?thesis
  proof (cases "N_ARENA cfg > 1")
    case True
    have ua: "unat (ucast (?o div ARENA_SIZE cfg) :: u32) = a"
      using da a256 by (simp add: unat_ucast unat_div A)
    have "unat (ucast (ucast (?o div ARENA_SIZE cfg) :: u32) * ARENA_SIZE cfg) = a * (?R * ?N)"
    proof -
      have "a * (?R * ?N) \<le> unat ?o" using o by simp
      also have "\<dots> < 2 ^ 64" by (rule unat_lt_pow) simp
      finally show ?thesis by (subst unat_mult_lt) (simp_all add: ua A)
    qed
    then have "unat (?o - ucast (ucast (?o div ARENA_SIZE cfg) :: u32) * ARENA_SIZE cfg) = k * ?R + d"
      using o by (simp add: unat_sub_if')
    then show ?thesis using True ua dk by (simp add: slab_size_class_def Let_def unat_div R)
  next
    case False
    then have "a = 0" using assms(2) by simp
    then show ?thesis using False o dk by (simp add: slab_size_class_def Let_def unat_div R)
  qed
qed

section \<open>The invariant\<close>

abbreviation the_class :: "state \<Rightarrow> nat \<Rightarrow> nat \<Rightarrow> size_class" where
  "the_class st a k \<equiv> st_size_class_metadata st a k"

definition slab_extent :: "config \<Rightarrow> state \<Rightarrow> quarantine_info" where
  "slab_extent cfg st = \<lparr>qi_p = st_slab_region_start st, qi_size = slab_region_size cfg\<rparr>"

text \<open>The slab region does not wrap, and a class's slabs lie in the part of the region that is the class's.\<close>

definition region_placed :: "config \<Rightarrow> state \<Rightarrow> bool" where
  "region_placed cfg st \<longleftrightarrow>
     st_slab_region_start st \<noteq> NULL \<and> 4096 dvd unat (st_slab_region_start st) \<and>
     unat (st_slab_region_start st) + unat (slab_region_size cfg) < 2 ^ 64"

definition class_placed :: "config \<Rightarrow> state \<Rightarrow> nat \<Rightarrow> nat \<Rightarrow> bool" where
  "class_placed cfg st a k \<longleftrightarrow>
     unat (st_slab_region_start st) + class_offset cfg a k \<le> unat (sc_class_region_start (the_class st a k)) \<and>
     unat (sc_class_region_start (the_class st a k)) + CONFIG_CLASS_REGION_SIZE cfg
       \<le> unat (st_slab_region_start st) + class_offset cfg a k + 2 * CONFIG_CLASS_REGION_SIZE cfg"

text \<open>
  Beyond 16 KiB the size of a large allocation is a whole number of pages, which \<^verbatim>\<open>h_realloc\<close> relies on when it
  shrinks one in place.
\<close>

definition whole_pages :: "region_metadata \<Rightarrow> bool" where
  "whole_pages e \<longleftrightarrow> (16384 < unat (rm_size e) \<longrightarrow> 4096 dvd unat (rm_size e))"

definition heap_inv :: "config \<Rightarrow> state \<Rightarrow> world \<Rightarrow> bool" where
  "heap_inv cfg st w \<longleftrightarrow>
     region_placed cfg st \<and> st_slab_region_end st = st_slab_region_start st + slab_region_size cfg \<and>
     (N_ARENA cfg = 1 \<longrightarrow> st_thread_arena st = 0) \<and>
     (\<forall>a < N_ARENA cfg. \<forall>k < N_SIZE_CLASSES cfg. class_ok cfg k (the_class st a k) \<and> class_placed cfg st a k \<and>
       counted cfg (the_class st a k)) \<and>
     (\<forall>e \<in> ran (region_map (st_region_allocator st)). whole_pages e) \<and>
     large_inv cfg {#slab_extent cfg st#} (st_region_allocator st) w"

lemma heap_invD:
  assumes "heap_inv cfg st w"
  shows "config_valid cfg" "region_placed cfg st" "st_slab_region_end st = st_slab_region_start st + slab_region_size cfg"
    "\<And>a k. a < N_ARENA cfg \<Longrightarrow> k < N_SIZE_CLASSES cfg \<Longrightarrow> class_ok cfg k (the_class st a k)"
    "\<And>a k. a < N_ARENA cfg \<Longrightarrow> k < N_SIZE_CLASSES cfg \<Longrightarrow> class_placed cfg st a k"
    "large_inv cfg {#slab_extent cfg st#} (st_region_allocator st) w"
    "\<forall>e \<in> ran (region_map (st_region_allocator st)). whole_pages e"
    "N_ARENA cfg = 1 \<Longrightarrow> st_thread_arena st = 0"
    "\<And>a k. a < N_ARENA cfg \<Longrightarrow> k < N_SIZE_CLASSES cfg \<Longrightarrow> counted cfg (the_class st a k)"
  using assms by (simp_all add: heap_inv_def large_inv_def)

lemma heap_inv_updates [simp]:
  "heap_inv cfg st (w\<lparr>w_mem := m\<rparr>) = heap_inv cfg st w" "heap_inv cfg st (set_errno e w) = heap_inv cfg st w"
  by (simp_all add: heap_inv_def)

text \<open>The addresses handed out: those of the classes and those of the large allocations.\<close>

definition slab_live :: "config \<Rightarrow> state \<Rightarrow> ptr set" where
  "slab_live cfg st = (\<Union>a < N_ARENA cfg. \<Union>k < N_SIZE_CLASSES cfg. live (the_class st a k))"

definition heap_live :: "config \<Rightarrow> state \<Rightarrow> ptr set" where
  "heap_live cfg st = slab_live cfg st \<union> dom (region_map (st_region_allocator st))"

section \<open>Addresses\<close>

lemma region_end_nat:
  assumes "config_valid cfg" "region_placed cfg st"
  shows "unat (st_slab_region_start st + slab_region_size cfg) = unat (st_slab_region_start st) + unat (slab_region_size cfg)"
  using assms(2) by (intro unat_add_lt) (simp add: region_placed_def)

lemma in_slab_region_nat:
  assumes "heap_inv cfg st w"
  shows "in_slab_region st p \<longleftrightarrow> unat (st_slab_region_start st) \<le> unat p \<and>
    unat p < unat (st_slab_region_start st) + unat (slab_region_size cfg)"
  using region_end_nat [OF heap_invD(1,2) [OF assms]] heap_invD(3) [OF assms]
  by (auto simp: in_slab_region_def word_less_nat_alt word_le_nat_alt)

lemma in_slab_region_extent:
  assumes "heap_inv cfg st w" "in_slab_region st p"
  shows "in_extent p (slab_extent cfg st)"
proof -
  have "unat (p - st_slab_region_start st) < unat (slab_region_size cfg)"
    using assms(2) unfolding in_slab_region_nat [OF assms(1)] by (auto simp: unat_sub_if')
  then show ?thesis
    using page_round_ge [of "slab_region_size cfg"] by (simp add: in_extent_def in_range_def slab_extent_def)
qed

text \<open>A large allocation is outside the slab region.\<close>

lemma large_not_slab:
  assumes "heap_inv cfg st w" "region_map (st_region_allocator st) p = Some e"
  shows "\<not> in_slab_region st p"
proof
  assume "in_slab_region st p"
  then have x: "in_extent p (slab_extent cfg st)" by (rule in_slab_region_extent [OF assms(1)])
  note inv = large_invD [OF heap_invD(6) [OF assms(1)]]
  have e: "e \<in> ran (region_map (st_region_allocator st))" using assms(2) by (auto simp: ran_def)
  then have "extent e \<in># owned (st_region_allocator st)"
    using finite_ran_region_map [OF inv(2)] by (simp add: owned_def)
  moreover have "in_extent p (extent e)"
    using in_own_extent [OF inv(3) [OF e]] region_map_key [OF inv(2) assms(2)] by simp
  moreover have "owns w (add_mset (slab_extent cfg st) (owned (st_region_allocator st)))" using inv(4) by simp
  ultimately show False using owns_disjoint x by blast
qed

text \<open>Every address of a class's region is in the slab region and leads back to the class.\<close>

lemma class_address:
  assumes "heap_inv cfg st w" "a < N_ARENA cfg" "k < N_SIZE_CLASSES cfg"
    and "unat (sc_class_region_start (the_class st a k)) \<le> unat p"
    and "unat p < unat (sc_class_region_start (the_class st a k)) + CONFIG_CLASS_REGION_SIZE cfg"
  shows "in_slab_region st p" "slab_size_class cfg st p = \<lparr>ssci_arena = a, ssci_class = k\<rparr>"
proof -
  note inv = heap_invD [OF assms(1)]
  let ?s = "st_slab_region_start st" and ?R = "2 * CONFIG_CLASS_REGION_SIZE cfg"
  have pl: "unat ?s + class_offset cfg a k \<le> unat p" "unat p < unat ?s + class_offset cfg a k + ?R"
    using inv(5) [OF assms(2,3)] assms(4,5) by (simp_all add: class_placed_def)
  have "class_offset cfg a k + ?R \<le> unat (slab_region_size cfg)"
    unfolding unat_slab_region_size(1) [OF inv(1)] by (rule class_offset_bound [OF assms(2,3)])
  with pl show "in_slab_region st p" unfolding in_slab_region_nat [OF assms(1)] by linarith
  define d where "d = unat p - (unat ?s + class_offset cfg a k)"
  have "unat (p - ?s) = class_offset cfg a k + d" "d < ?R" using pl by (auto simp: d_def unat_sub_if')
  then show "slab_size_class cfg st p = \<lparr>ssci_arena = a, ssci_class = k\<rparr>"
    by (rule slab_size_class_offset [OF inv(1) assms(2,3)])
qed

lemma held_in_class:
  assumes "class_ok cfg k c" "p \<in> held c"
  shows "unat (sc_class_region_start c) \<le> unat p" "unat p < unat (sc_class_region_start c) + CONFIG_CLASS_REGION_SIZE cfg"
proof -
  obtain ps es fs where "class_inv cfg k [] c ps es fs" using assms(1) by (auto simp: class_ok_def)
  note inv = class_invD [OF this]
  obtain i s where us: "(i, s) \<in> used_pairs c" "p = slot_ptr c i s" using assms(2) by (auto simp: held_def)
  note b = slot_ptr_bounds [OF inv(1) used_valid [OF inv(4) us(1)]]
  have "0 < csize c" using geometry_pos(1) [OF class_static_geometry [OF inv(1)]] .
  then show "unat (sc_class_region_start c) \<le> unat p" "unat p < unat (sc_class_region_start c) + CONFIG_CLASS_REGION_SIZE cfg"
    using b(1-3) unfolding us(2) by (auto simp: algebra_simps)
qed

lemma slab_live_address:
  assumes "heap_inv cfg st w" "a < N_ARENA cfg" "k < N_SIZE_CLASSES cfg" "p \<in> live (the_class st a k)"
  shows "in_slab_region st p" "slab_size_class cfg st p = \<lparr>ssci_arena = a, ssci_class = k\<rparr>"
  using class_address [OF assms(1-3)] held_in_class [OF heap_invD(4) [OF assms(1-3)]] assms(4) live_held by blast+

text \<open>So an address is handed out by one class only, and not also as a large allocation.\<close>

lemma slab_live_iff:
  assumes "heap_inv cfg st w" "a < N_ARENA cfg" "k < N_SIZE_CLASSES cfg" "slab_size_class cfg st p = \<lparr>ssci_arena = a, ssci_class = k\<rparr>"
  shows "p \<in> slab_live cfg st \<longleftrightarrow> p \<in> live (the_class st a k)"
  using slab_live_address(2) [OF assms(1)] assms(2-4) by (fastforce simp: slab_live_def)

lemma slab_live_region: "heap_inv cfg st w \<Longrightarrow> p \<in> slab_live cfg st \<Longrightarrow> in_slab_region st p"
  using slab_live_address(1) by (fastforce simp: slab_live_def)

lemma heap_live_iff:
  assumes "heap_inv cfg st w"
  shows "p \<in> heap_live cfg st \<longleftrightarrow>
    (if in_slab_region st p then p \<in> slab_live cfg st else region_map (st_region_allocator st) p \<noteq> None)"
  using large_not_slab [OF assms] slab_live_region [OF assms] by (auto simp: heap_live_def)

text \<open>Every address of the slab region belongs to some class.\<close>

lemma slab_address_class:
  assumes "heap_inv cfg st w" "in_slab_region st p"
  obtains a k where "a < N_ARENA cfg" "k < N_SIZE_CLASSES cfg" "slab_size_class cfg st p = \<lparr>ssci_arena = a, ssci_class = k\<rparr>"
proof -
  note inv = heap_invD [OF assms(1)]
  let ?R = "2 * CONFIG_CLASS_REGION_SIZE cfg" and ?N = "N_SIZE_CLASSES cfg"
  define x where "x = unat (p - st_slab_region_start st)"
  have R: "0 < ?R" using inv(1) by (simp add: config_valid_def)
  have "0 < ?N" by (simp add: N_SIZE_CLASSES_eq)
  with R have A: "0 < ?R * ?N" by simp
  have lt: "x < ?R * ?N * N_ARENA cfg"
    using assms(2) unfolding in_slab_region_nat [OF assms(1)] x_def unat_slab_region_size(1) [OF inv(1)]
    by (auto simp: unat_sub_if')
  define a k where "a = x div (?R * ?N)" and "k = x mod (?R * ?N) div ?R"
  have a: "a < N_ARENA cfg" unfolding a_def using lt A by (simp add: less_mult_imp_div_less mult.commute)
  have "x mod (?R * ?N) < ?N * ?R" using mod_less_divisor [OF A, of x] by (simp only: mult.commute)
  then have k: "k < ?N" unfolding k_def by (rule less_mult_imp_div_less)
  have "x = a * (?R * ?N) + (k * ?R + x mod (?R * ?N) mod ?R)" unfolding a_def k_def by (simp only: div_mult_mod_eq)
  then have "x = class_offset cfg a k + x mod (?R * ?N) mod ?R" by (simp add: class_offset_def)
  from slab_size_class_offset [OF inv(1) a k, of p st, folded x_def, OF this] R that [OF a k] show ?thesis by simp
qed

section \<open>Before initialisation\<close>

text \<open>All of the state is zero.\<close>

definition zeroed :: "config \<Rightarrow> state \<Rightarrow> bool" where
  "zeroed cfg st \<longleftrightarrow>
     st_slab_region_start st = NULL \<and> st_slab_region_end st = NULL \<and>
     st_size_class_metadata st = (\<lambda>_ _. zero_size_class cfg) \<and> st_region_allocator st = zero_region_allocator cfg \<and>
     (N_ARENA cfg = 1 \<longrightarrow> st_thread_arena st = 0)"

text \<open>
  A process that has not used the allocator yet: no thread has chosen an arena, since a thread does so in the call
  that would have initialised the allocator.
\<close>

definition uninitialised :: "config \<Rightarrow> state \<Rightarrow> bool" where
  "uninitialised cfg st \<longleftrightarrow> zeroed cfg st \<and> (1 < N_ARENA cfg \<longrightarrow> N_ARENA cfg \<le> st_thread_arena st)"

lemma uninitialised_initial: "config_valid cfg \<Longrightarrow> uninitialised cfg (initial_state cfg)"
  by (simp add: uninitialised_def zeroed_def initial_state_def config_valid_def)

text \<open>Before or after the first call.\<close>

definition ready :: "config \<Rightarrow> state \<Rightarrow> world \<Rightarrow> bool" where
  "ready cfg st w \<longleftrightarrow> heap_inv cfg st w \<or> config_valid cfg \<and> uninitialised cfg st"

lemma live_zero_class: "live (zero_size_class cfg) = {}"
  by (simp add: live_def used_pairs_def zero_size_class_def zero_metadata_slots)

lemma zeroed_live:
  assumes "zeroed cfg st"
  shows "heap_live cfg st = {}"
proof -
  have "region_map (zero_region_allocator cfg) = Map.empty"
    by (rule ext) (simp add: region_map_def zero_region_allocator_def)
  then show ?thesis using assms by (simp add: zeroed_def heap_live_def slab_live_def live_zero_class)
qed

lemma ready_updates [simp]:
  "ready cfg st (w\<lparr>w_mem := m\<rparr>) = ready cfg st w" "ready cfg st (set_errno e w) = ready cfg st w"
  by (simp_all add: ready_def)

lemma ready_live: "ready cfg st w \<Longrightarrow> p \<in> heap_live cfg st \<Longrightarrow> heap_inv cfg st w"
  using zeroed_live by (auto simp: ready_def uninitialised_def)

end
