(* ===== verification/Heap_Correct.thy ===== *)
theory Heap_Correct
  imports Heap_Invariant
begin

text \<open>
  The operations on the whole allocator keep its invariant, and change the set of addresses handed out as an
  allocator has to.
\<close>

section \<open>Changing one component\<close>

lemma upd_class_simps [simp]:
  "st_slab_region_start (upd_class a k c st) = st_slab_region_start st"
  "st_slab_region_end (upd_class a k c st) = st_slab_region_end st"
  "st_region_allocator (upd_class a k c st) = st_region_allocator st"
  "st_thread_arena (upd_class a k c st) = st_thread_arena st"
  "the_class (upd_class a k c st) a' k' = (if a' = a \<and> k' = k then c else the_class st a' k')"
  by (simp_all add: upd_class_def)

lemma class_update_inv:
  assumes "heap_inv cfg st w" "keeps_maps w w'" "class_ok cfg k c'" "same_static (the_class st a k) c'"
    and "counted cfg c'"
  shows "heap_inv cfg (upd_class a k c' st) w'"
  using assms large_inv_keeps [OF heap_invD(6) [OF assms(1)] assms(2)]
  by (auto simp: heap_inv_def region_placed_def class_placed_def slab_extent_def same_static_def)

lemma class_update_live:
  assumes "heap_inv cfg st w" "a < N_ARENA cfg" "k < N_SIZE_CLASSES cfg"
  shows "live c' = insert p (live (the_class st a k)) \<Longrightarrow> heap_live cfg (upd_class a k c' st) = insert p (heap_live cfg st)"
    "live c' = live (the_class st a k) \<Longrightarrow> heap_live cfg (upd_class a k c' st) = heap_live cfg st"
    "live c' = live (the_class st a k) - {p} \<Longrightarrow> p \<in> live (the_class st a k) \<Longrightarrow>
      heap_live cfg (upd_class a k c' st) = heap_live cfg st - {p}"
proof -
  let ?c = "the_class st a k" and ?st = "upd_class a k c' st"
  define R where "R = {x. \<exists>a' < N_ARENA cfg. \<exists>k' < N_SIZE_CLASSES cfg. (a', k') \<noteq> (a, k) \<and> x \<in> live (the_class st a' k')}"
  have split: "(\<Union>a' < N_ARENA cfg. \<Union>k' < N_SIZE_CLASSES cfg. F a' k')
      = F a k \<union> {x. \<exists>a' < N_ARENA cfg. \<exists>k' < N_SIZE_CLASSES cfg. (a', k') \<noteq> (a, k) \<and> x \<in> F a' k'}" for F :: "nat \<Rightarrow> nat \<Rightarrow> ptr set"
    using assms(2,3) by fastforce
  have old: "slab_live cfg st = live ?c \<union> R" unfolding slab_live_def R_def by (rule split)
  have "{x. \<exists>a' < N_ARENA cfg. \<exists>k' < N_SIZE_CLASSES cfg. (a', k') \<noteq> (a, k) \<and> x \<in> live (the_class ?st a' k')} = R"
    unfolding R_def by (intro Collect_cong) (metis upd_class_simps(5))
  then have new: "slab_live cfg ?st = live c' \<union> R" unfolding slab_live_def split by simp
  have ra: "st_region_allocator ?st = st_region_allocator st" by simp
  show "live c' = insert p (live ?c) \<Longrightarrow> heap_live cfg ?st = insert p (heap_live cfg st)"
    "live c' = live ?c \<Longrightarrow> heap_live cfg ?st = heap_live cfg st"
    unfolding heap_live_def new old ra by blast+
  assume d: "live c' = live ?c - {p}" and p: "p \<in> live ?c"
  have "p \<notin> R"
    using slab_live_address(2) [OF assms p] slab_live_address(2) [OF assms(1), of _ _ p] by (fastforce simp: R_def)
  moreover have "p \<notin> dom (region_map (st_region_allocator st))"
    using large_not_slab [OF assms(1), of p] slab_live_address(1) [OF assms p] by auto
  ultimately show "heap_live cfg ?st = heap_live cfg st - {p}"
    unfolding heap_live_def new old ra d by blast
qed

lemma regions_update_inv:
  assumes "heap_inv cfg st w" "large_inv cfg {#slab_extent cfg st#} ra w'" "\<forall>e \<in> ran (region_map ra). whole_pages e"
  shows "heap_inv cfg (st\<lparr>st_region_allocator := ra\<rparr>) w'"
  using assms by (simp add: heap_inv_def region_placed_def class_placed_def slab_extent_def)

lemma regions_update_live:
  "heap_live cfg (st\<lparr>st_region_allocator := ra\<rparr>) = slab_live cfg st \<union> dom (region_map ra)"
  by (simp add: heap_live_def slab_live_def)

text \<open>What an allocation promises.\<close>

definition allocated :: "config \<Rightarrow> state \<Rightarrow> ptr \<Rightarrow> state \<Rightarrow> bool" where
  "allocated cfg st p st' \<longleftrightarrow>
     p = NULL \<and> heap_live cfg st' = heap_live cfg st \<or>
     p \<noteq> NULL \<and> p \<notin> heap_live cfg st \<and> heap_live cfg st' = insert p (heap_live cfg st)"

definition sane_kernel :: "kernel \<Rightarrow> bool" where
  "sane_kernel os \<longleftrightarrow> (\<forall>w n. fresh_mmap os w n)"

lemma sane_bump: "sane_kernel bump_kernel"
  by (simp add: sane_kernel_def fresh_mmap_bump)

section \<open>Small allocations\<close>

lemma get_size_info_class:
  assumes "sz \<le> max_slab_size_class cfg"
  shows "unat (si_class (get_size_info sz)) < N_SIZE_CLASSES cfg"
    "unat (if si_size (get_size_info sz) \<noteq> 0 then si_size (get_size_info sz) else 16)
      = slot_size cfg (unat (si_class (get_size_info sz)))"
proof -
  have "unat (si_class (get_size_info sz)) < N_SIZE_CLASSES cfg \<and>
    unat (if si_size (get_size_info sz) \<noteq> 0 then si_size (get_size_info sz) else 16)
      = slot_size cfg (unat (si_class (get_size_info sz)))"
  proof (cases "sz = 0")
    case True
    then show ?thesis by (simp add: get_size_info_def slot_size_def class_size_def N_SIZE_CLASSES_eq size_classes_def Let_def)
  next
    case False
    then have pos: "0 < unat sz" by (simp add: unat_gt_0)
    note t = get_size_info_table [OF pos assms]
    have "class_size cfg 0 < class_size cfg (unat (si_class (get_size_info sz)))"
      using t(1,2) by (intro class_size_mono) simp_all
    then show ?thesis using t(2,3) by (auto simp: slot_size_def Let_def)
  qed
  then show "unat (si_class (get_size_info sz)) < N_SIZE_CLASSES cfg"
    "unat (if si_size (get_size_info sz) \<noteq> 0 then si_size (get_size_info sz) else 16)
      = slot_size cfg (unat (si_class (get_size_info sz)))" by blast+
qed

lemma allocate_small_class_step:
  assumes "allocate_small cfg os st a sz w = Returned (p, st', w')" "heap_inv cfg st w" "a < N_ARENA cfg"
    and "sz \<le> max_slab_size_class cfg"
  obtains k c' where "k = unat (si_class (get_size_info sz))" "k < N_SIZE_CLASSES cfg" "st' = upd_class a k c' st" "keeps_maps w w'"
    "class_static cfg k (the_class st a k)" "allocated_from cfg k (the_class st a k) p c'" "counted cfg c'"
proof -
  let ?i = "get_size_info sz"
  define k where "k = unat (si_class ?i)"
  define n where "n = (if si_size ?i \<noteq> 0 then si_size ?i else 16)"
  let ?c = "the_class st a k"
  note info = get_size_info_class [OF assms(4), folded k_def n_def]
  have ok: "class_ok cfg k ?c" by (rule heap_invD(4) [OF assms(2,3) info(1)])
  then obtain ps es fs where ci: "class_inv cfg k [] ?c ps es fs" by (auto simp: class_ok_def)
  note st = class_invD(1) [OF ci]
  have "n = ucast (sc_size ?c)" using st info(2) by (simp add: class_static_def word_unat_eq_iff)
  then obtain c' where al: "allocate_small_class cfg os ?c sz (ucast (sc_size ?c)) w = Returned (p, c', w')"
    and st': "st' = upd_class a k c' st"
    using assms(1) unfolding allocate_small_def Let_def k_def [symmetric] n_def [symmetric] by (auto simp: outcome_simps)
  have "keeps_maps w w'" using all_oD [OF allocate_small_class_keeps [OF keeps_maps_refl] al] by simp
  from that [OF k_def info(1) st' this st allocate_small_class_ok(1) [OF al ok] allocate_counted [OF al ok heap_invD(9) [OF assms(2,3) info(1)]]] show ?thesis .
qed

text \<open>The slots of a class are in its part of the slab region.\<close>

lemma slot_address:
  assumes "heap_inv cfg st w" "a < N_ARENA cfg" "k < N_SIZE_CLASSES cfg" "class_static cfg k (the_class st a k)"
    and "valid_pair cfg (the_class st a k) (i, s)" "p = slot_ptr (the_class st a k) i s"
  shows "in_slab_region st p" "slab_size_class cfg st p = \<lparr>ssci_arena = a, ssci_class = k\<rparr>"
proof -
  let ?c = "the_class st a k"
  note b = slot_ptr_bounds [OF assms(4,5)]
  have "0 < csize ?c" using geometry_pos(1) [OF class_static_geometry [OF assms(4)]] .
  then have "unat (sc_class_region_start ?c) \<le> unat p" "unat p < unat (sc_class_region_start ?c) + CONFIG_CLASS_REGION_SIZE cfg"
    using b(1-3) unfolding assms(6) by (auto simp: algebra_simps)
  from class_address [OF assms(1-3) this]
  show "in_slab_region st p" "slab_size_class cfg st p = \<lparr>ssci_arena = a, ssci_class = k\<rparr>" by blast+
qed

lemma allocate_small_ok:
  assumes "allocate_small cfg os st a sz w = Returned (p, st', w')" "heap_inv cfg st w" "a < N_ARENA cfg"
    and "sz \<le> max_slab_size_class cfg"
  shows "heap_inv cfg st' w'" "allocated cfg st p st'"
proof -
  obtain k c' where k: "k < N_SIZE_CLASSES cfg" and st': "st' = upd_class a k c' st" and kp: "keeps_maps w w'"
    and static: "class_static cfg k (the_class st a k)" and from_c: "allocated_from cfg k (the_class st a k) p c'"
    and cnt: "counted cfg c'"
    by (rule allocate_small_class_step [OF assms])
  let ?c = "the_class st a k"
  note from_c = from_c [unfolded allocated_from_def]
  show "heap_inv cfg st' w'" unfolding st' using class_update_inv [OF assms(2) kp] from_c cnt by blast
  note upd = class_update_live [OF assms(2,3) k]
  show "allocated cfg st p st'"
  proof (cases "p = NULL")
    case True
    then show ?thesis using from_c upd(2) by (auto simp: allocated_def st')
  next
    case False
    then obtain i s where v: "valid_pair cfg ?c (i, s)" "p = slot_ptr ?c i s" "p \<notin> held ?c" "live c' = insert p (live ?c)"
      using from_c by blast
    note addr = slot_address [OF assms(2,3) k static v(1,2)]
    have "p \<notin> live ?c" using v(3) live_held by blast
    then have "p \<notin> heap_live cfg st"
      using heap_live_iff [OF assms(2), of p] slab_live_iff [OF assms(2,3) k addr(2)] addr(1) by simp
    then show ?thesis using False upd(1) [OF v(4)] by (simp add: allocated_def st')
  qed
qed

lemma deallocate_small_ok:
  assumes "deallocate_small cfg os st p e w = Returned (st', w')" "heap_inv cfg st w" "in_slab_region st p"
  shows "heap_inv cfg st' w'" "p \<in> heap_live cfg st" "heap_live cfg st' = heap_live cfg st - {p}"
proof -
  obtain a k where ak: "a < N_ARENA cfg" "k < N_SIZE_CLASSES cfg" "slab_size_class cfg st p = \<lparr>ssci_arena = a, ssci_class = k\<rparr>"
    by (rule slab_address_class [OF assms(2,3)])
  obtain c' where d: "deallocate_small_class cfg os (the_class st a k) k p e w = Returned (c', w')"
    and st': "st' = upd_class a k c' st"
    using assms(1) unfolding deallocate_small_def Let_def by (auto simp: outcome_simps ak(3))
  note ok = deallocate_small_class_ok [OF d heap_invD(4) [OF assms(2) ak(1,2)]]
  have kp: "keeps_maps w w'" using all_oD [OF deallocate_small_class_keeps [OF keeps_maps_refl] d] by simp
  show "heap_inv cfg st' w'" unfolding st' 
    using class_update_inv [OF assms(2) kp] ok deallocate_counted [OF d heap_invD(4) [OF assms(2) ak(1,2)] heap_invD(9) [OF assms(2) ak(1,2)]] by blast
  show "heap_live cfg st' = heap_live cfg st - {p}"
    unfolding st' using class_update_live(3) [OF assms(2) ak(1,2)] ok by blast
  show "p \<in> heap_live cfg st"
    using ok ak(1,2) by (auto simp: heap_live_def slab_live_def)
qed

section \<open>Large allocations\<close>

lemma size_info_small:
  assumes "0 < unat sz" "unat sz \<le> 16384"
  shows "unat (si_size (get_size_info sz)) \<le> 16384"
proof -
  have le: "sz \<le> max_slab_size_class (default_config\<lparr>CONFIG_EXTENDED_SIZE_CLASSES := False\<rparr>)"
    using assms(2) by (simp add: max_slab_size_class_def word_le_nat_alt)
  note t = get_size_info_table [OF assms(1) le]
  from class_size_max [OF t(2)] show ?thesis unfolding t(3) by (simp add: max_slab_size_class_def)
qed

lemma large_size_whole_pages: "whole_pages \<lparr>rm_p = p, rm_size = get_large_size_class cfg sz, rm_guard_size = g\<rparr>"
proof (cases "16384 < unat sz \<or> get_large_size_class cfg sz = 0")
  case True
  then show ?thesis using large_class(2) [of cfg sz] by (cases "get_large_size_class cfg sz = 0") (auto simp: whole_pages_def)
next
  case False
  let ?m = "max sz PAGE_SIZE"
  have "0 < unat ?m" "unat ?m \<le> 16384" using False by (auto simp: max_def word_le_nat_alt)
  from size_info_small [OF this] show ?thesis by (auto simp: whole_pages_def get_large_size_class_def)
qed

text \<open>The entries of a table after an update.\<close>

lemma whole_pages_put:
  "\<forall>e \<in> ran m. whole_pages e \<Longrightarrow> whole_pages e \<Longrightarrow> \<forall>e \<in> ran (m(p \<mapsto> e)). whole_pages e"
  by (auto simp: ran_def)

lemma whole_pages_del: "\<forall>e \<in> ran m. whole_pages e \<Longrightarrow> \<forall>e \<in> ran (m(p := None)). whole_pages e"
  by (auto simp: ran_def)

lemma large_result:
  assumes "heap_inv cfg st w"
    and "p = NULL \<and> region_map ra = region_map (st_region_allocator st) \<or>
      p \<noteq> NULL \<and> region_map (st_region_allocator st) p = None \<and> 
        (\<exists>e. whole_pages e \<and> region_map ra = (region_map (st_region_allocator st))(p \<mapsto> e))"
    and "large_inv cfg {#slab_extent cfg st#} ra w'"
  shows "heap_inv cfg (st\<lparr>st_region_allocator := ra\<rparr>) w'" "allocated cfg st p (st\<lparr>st_region_allocator := ra\<rparr>)"
proof -
  have "\<forall>e \<in> ran (region_map ra). whole_pages e"
    using assms(2) whole_pages_put [OF heap_invD(7) [OF assms(1)]] heap_invD(7) [OF assms(1)] by auto
  with assms(1,3) show inv': "heap_inv cfg (st\<lparr>st_region_allocator := ra\<rparr>) w'" by (rule regions_update_inv)
  show "allocated cfg st p (st\<lparr>st_region_allocator := ra\<rparr>)"
    using assms(2)
  proof (elim disjE conjE exE)
    fix e assume p: "p \<noteq> NULL" "region_map (st_region_allocator st) p = None"
      and m: "region_map ra = (region_map (st_region_allocator st))(p \<mapsto> e)"
    have "\<not> in_slab_region (st\<lparr>st_region_allocator := ra\<rparr>) p" by (rule large_not_slab [OF inv', of _ e]) (simp add: m)
    then have "\<not> in_slab_region st p" by (simp add: in_slab_region_def)
    then show ?thesis
      using p heap_live_iff [OF assms(1), of p] by (simp add: allocated_def regions_update_live m) (simp add: heap_live_def)
  qed (simp add: allocated_def regions_update_live, simp add: heap_live_def)
qed

lemma allocate_ok:
  assumes "allocate cfg os st a sz w = Returned (p, st', w')" "heap_inv cfg st w" "a < N_ARENA cfg" "sane_kernel os"
  shows "heap_inv cfg st' w'" "allocated cfg st p st'"
proof -
  have "heap_inv cfg st' w' \<and> allocated cfg st p st'"
  proof (cases "sz \<le> max_slab_size_class cfg")
    case True
    then show ?thesis using assms allocate_small_ok [of cfg os st a sz w p st' w'] by (simp add: allocate_def)
  next
    case False
    then obtain ra where al: "allocate_large cfg os (st_region_allocator st) sz w = Returned (p, ra, w')"
      and st': "st' = st\<lparr>st_region_allocator := ra\<rparr>"
      using assms(1) unfolding allocate_def by (auto simp: outcome_simps)
    have fresh: "\<And>n. fresh_mmap os w n" using assms(4) by (simp add: sane_kernel_def)
    note ok = allocate_large_ok [OF al heap_invD(6) [OF assms(2)] fresh]
    show ?thesis unfolding st' using large_result [OF assms(2) _ ok(1), of p] ok(2) large_size_whole_pages by blast
  qed
  then show "heap_inv cfg st' w'" "allocated cfg st p st'" by blast+
qed

lemma deallocate_large_ok:
  assumes "deallocate_large cfg os st p e w = Returned (st', w')" "heap_inv cfg st w"
  shows "heap_inv cfg st' w'" "p \<in> heap_live cfg st" "heap_live cfg st' = heap_live cfg st - {p}"
proof -
  obtain ra where r: "release_region cfg os (st_region_allocator st) p e w = Returned (ra, w')"
    and st': "st' = st\<lparr>st_region_allocator := ra\<rparr>"
    using assms(1) unfolding deallocate_large_def by (auto simp: outcome_simps)
  note ok = release_region_ok [OF r heap_invD(6) [OF assms(2)]]
  show "heap_inv cfg st' w'" 
    unfolding st' by (rule regions_update_inv [OF assms(2) ok(1)]) (unfold ok(3), rule whole_pages_del [OF heap_invD(7) [OF assms(2)]])
  show p: "p \<in> heap_live cfg st" using ok(2) by (auto simp: heap_live_def)
  have "p \<notin> slab_live cfg st" using ok(2) large_not_slab [OF assms(2), of p] slab_live_region [OF assms(2), of p] by auto
  then show "heap_live cfg st' = heap_live cfg st - {p}"
    unfolding st' regions_update_live ok(3) by (auto simp: heap_live_def)
qed

end
