(* ===== verification/Heap_Blocks.thy ===== *)
theory Heap_Blocks
  imports Heap_Correct
begin

text \<open>
  The memory behind an address that has been handed out: its size, its alignment, and that it overlaps no other.
\<close>

section \<open>Blocks\<close>

text \<open>
  The size is the one that \<^verbatim>\<open>h_malloc_usable_size\<close> reads, the canary included: the size of the class, or the size
  in the region table.
\<close>

definition block_size :: "config \<Rightarrow> state \<Rightarrow> ptr \<Rightarrow> nat" where
  "block_size cfg st p =
     (if in_slab_region st p then unat (slab_usable_size cfg st p)
      else case region_map (st_region_allocator st) p of None \<Rightarrow> 0 | Some e \<Rightarrow> unat (rm_size e))"

definition block :: "config \<Rightarrow> state \<Rightarrow> ptr \<Rightarrow> ptr set" where
  "block cfg st p = {x. unat p \<le> unat x \<and> unat x < unat p + block_size cfg st p}"

lemma class_size_le_slot: "class_size cfg k \<le> slot_size cfg k"
  by (simp add: slot_size_def)

lemma slab_usable_size_class:
  assumes "slab_size_class cfg st p = \<lparr>ssci_arena = a, ssci_class = k\<rparr>"
  shows "unat (slab_usable_size cfg st p) = class_size cfg k"
  using assms by (simp add: slab_usable_size_def class_size_def)

lemma live_slot:
  assumes "class_ok cfg k c" "p \<in> live c"
  obtains i s where "(i, s) \<in> used_pairs c" "p = slot_ptr c i s" "valid_pair cfg c (i, s)" "class_static cfg k c"
proof -
  obtain ps es fs where "class_inv cfg k [] c ps es fs" using assms(1) by (auto simp: class_ok_def)
  note inv = class_invD [OF this]
  from assms(2) inv show ?thesis by (auto simp: live_def intro: that used_valid)
qed

lemma slot_in_region:
  assumes "class_static cfg k c" "valid_pair cfg c (i, s)"
    and "unat (slot_ptr c i s) \<le> unat x" "unat x < unat (slot_ptr c i s) + csize c"
  shows "unat (sc_class_region_start c) \<le> unat x" "unat x < unat (sc_class_region_start c) + CONFIG_CLASS_REGION_SIZE cfg"
  using slot_ptr_bounds [OF assms(1,2)] assms(3,4) by (auto simp: algebra_simps)

text \<open>The block of a small allocation is in its slot, and its addresses lead back to the class.\<close>

lemma small_block:
  assumes "heap_inv cfg st w" "a < N_ARENA cfg" "k < N_SIZE_CLASSES cfg" "p \<in> live (the_class st a k)" "x \<in> block cfg st p"
  shows "unat p \<le> unat x" "unat x < unat p + csize (the_class st a k)"
    "in_slab_region st x" "slab_size_class cfg st x = \<lparr>ssci_arena = a, ssci_class = k\<rparr>"
proof -
  let ?c = "the_class st a k"
  obtain i s where sl: "p = slot_ptr ?c i s" "valid_pair cfg ?c (i, s)" "class_static cfg k ?c"
    by (rule live_slot [OF heap_invD(4) [OF assms(1-3)] assms(4)])
  have "block_size cfg st p = class_size cfg k"
    using slab_live_address [OF assms(1-4)] slab_usable_size_class by (simp add: block_size_def)
  moreover have "csize ?c = slot_size cfg k" using sl(3) by (simp add: class_static_def)
  ultimately show b: "unat p \<le> unat x" "unat x < unat p + csize ?c"
    using assms(5) class_size_le_slot [of cfg k] by (auto simp: block_def)
  from class_address [OF assms(1-3) slot_in_region [OF sl(3,2) b [unfolded sl(1)]]]
  show "in_slab_region st x" "slab_size_class cfg st x = \<lparr>ssci_arena = a, ssci_class = k\<rparr>" by blast+
qed

text \<open>The block of a large allocation is in its extent.\<close>

lemma large_block:
  assumes "heap_inv cfg st w" "region_map (st_region_allocator st) p = Some e" "x \<in> block cfg st p"
  shows "in_extent x (extent e)" "\<not> in_slab_region st x"
proof -
  note inv = large_invD [OF heap_invD(6) [OF assms(1)]]
  have e: "e \<in> ran (region_map (st_region_allocator st))" using assms(2) by (auto simp: ran_def)
  have sh: "region_shape e" by (rule inv(3) [OF e])
  have p: "rm_p e = p" by (rule region_map_key [OF inv(2) assms(2)])
  have "block_size cfg st p = unat (rm_size e)"
    using large_not_slab [OF assms(1,2)] assms(2) by (simp add: block_size_def)
  then have "unat (x - p) < unat (rm_size e)" using assms(3) by (auto simp: block_def unat_sub_if')
  then have "in_range p (unat (rm_size e)) x" by (simp add: in_range_def)
  moreover have "unat (rm_size e) \<le> page_round (rm_size e)" by (rule page_round_ge)
  ultimately have "in_range (rm_p e) (page_round (rm_size e)) x" unfolding p by (auto simp: in_range_def)
  from in_extent_pieces(1) [OF sh this] show x: "in_extent x (extent e)" .
  have "extent e \<in># owned (st_region_allocator st)"
    using e finite_ran_region_map [OF inv(2)] by (simp add: owned_def)
  moreover have "owns w (add_mset (slab_extent cfg st) (owned (st_region_allocator st)))" using inv(4) by simp
  ultimately show "\<not> in_slab_region st x" using owns_disjoint in_slab_region_extent [OF assms(1)] x by blast
qed

text \<open>Two blocks in use have no address in common.\<close>

lemma heap_live_cases:
  assumes "p \<in> heap_live cfg st"
  obtains (small) a k where "a < N_ARENA cfg" "k < N_SIZE_CLASSES cfg" "p \<in> live (the_class st a k)"
  | (large) e where "region_map (st_region_allocator st) p = Some e"
  using assms by (auto simp: heap_live_def slab_live_def)

lemma small_blocks_disjoint:
  assumes "heap_inv cfg st w" "a < N_ARENA cfg" "k < N_SIZE_CLASSES cfg" "p \<in> live (the_class st a k)"
    and "a' < N_ARENA cfg" "k' < N_SIZE_CLASSES cfg" "q \<in> live (the_class st a' k')"
    and "x \<in> block cfg st p" "x \<in> block cfg st q"
  shows "p = q"
proof (rule ccontr)
  assume "p \<noteq> q"
  note b = small_block [OF assms(1-4,8)] and b' = small_block [OF assms(1,5-7,9)]
  have same: "a' = a" "k' = k" using b(4) b'(4) by auto
  let ?c = "the_class st a k"
  note ok = heap_invD(4) [OF assms(1-3)]
  obtain i s where sl: "p = slot_ptr ?c i s" "valid_pair cfg ?c (i, s)" "class_static cfg k ?c"
    by (rule live_slot [OF ok assms(4)])
  obtain j t where sl': "q = slot_ptr ?c j t" "valid_pair cfg ?c (j, t)"
    by (rule live_slot [OF ok assms(7) [unfolded same]])
  have "(i, s) \<noteq> (j, t)" using \<open>p \<noteq> q\<close> sl(1) sl'(1) by auto
  from slots_apart [OF sl(3,2) sl'(2) this] b(1,2) b'(1,2) show False unfolding sl(1) sl'(1) same by linarith
qed

lemma large_blocks_disjoint:
  assumes "heap_inv cfg st w" "region_map (st_region_allocator st) p = Some e" "region_map (st_region_allocator st) q = Some e'"
    and "x \<in> block cfg st p" "x \<in> block cfg st q"
  shows "p = q"
proof (rule ccontr)
  assume "p \<noteq> q"
  note inv = large_invD [OF heap_invD(6) [OF assms(1)]]
  let ?M = "ran (region_map (st_region_allocator st))"
  have "e \<noteq> e'" using region_map_key [OF inv(2)] assms(2,3) \<open>p \<noteq> q\<close> by blast
  moreover have "e \<in> ?M" "e' \<in> ?M" using assms(2,3) by (auto simp: ran_def)
  moreover have fin: "finite ?M" by (rule finite_ran_region_map [OF inv(2)])
  ultimately have "mset_set ?M = add_mset e (mset_set (?M - {e}))" "e' \<in># mset_set (?M - {e})"
    using mset_set.remove [OF fin] by auto
  then have "mset_set ?M = add_mset e (add_mset e' (mset_set (?M - {e}) - {#e'#}))" by (simp only: insert_DiffM)
  then have "\<exists>Y. owned (st_region_allocator st) + {#slab_extent cfg st#} = add_mset (extent e) (add_mset (extent e') Y)"
    unfolding owned_def by (simp only: image_mset_add_mset union_mset_add_mset_left) blast
  then obtain Y where "owns w (add_mset (extent e) (add_mset (extent e') Y))" using inv(4) by auto
  then show False
    using owns_disjoint [of w "extent e" "add_mset (extent e') Y" x "extent e'"]
      large_block(1) [OF assms(1,2,4)] large_block(1) [OF assms(1,3,5)] by simp
qed

lemma blocks_disjoint:
  assumes "heap_inv cfg st w" "p \<in> heap_live cfg st" "q \<in> heap_live cfg st" "p \<noteq> q"
  shows "block cfg st p \<inter> block cfg st q = {}"
proof (rule ccontr)
  assume "block cfg st p \<inter> block cfg st q \<noteq> {}"
  then obtain x where x: "x \<in> block cfg st p" "x \<in> block cfg st q" by blast
  show False
    using assms(2)
  proof (cases rule: heap_live_cases)
    case p: (small a k)
    from assms(3) show False
      by (cases rule: heap_live_cases)
        (use small_blocks_disjoint [OF assms(1) p _ _ _ x] small_block(3) [OF assms(1) p x(1)]
          large_block(2) [OF assms(1) _ x(2)] assms(4) in blast)+
  next
    case p: (large e)
    from assms(3) show False
      by (cases rule: heap_live_cases)
        (use large_blocks_disjoint [OF assms(1) p _ x] small_block(3) [OF assms(1) _ _ _ x(2)]
          large_block(2) [OF assms(1) p x(1)] assms(4) in blast)+
  qed
qed

section \<open>The block that an allocation returns\<close>

text \<open>A block that can hold \<open>n\<close> bytes at an address that is a multiple of \<open>2 ^ k\<close>.\<close>

definition fits :: "config \<Rightarrow> state \<Rightarrow> ptr \<Rightarrow> nat \<Rightarrow> nat \<Rightarrow> bool" where
  "fits cfg st p n k \<longleftrightarrow> p = NULL \<or> n \<le> block_size cfg st p \<and> 2 ^ k dvd unat p"

text \<open>The blocks of the other addresses stay as they are.\<close>

definition keeps_blocks :: "config \<Rightarrow> state \<Rightarrow> state \<Rightarrow> bool" where
  "keeps_blocks cfg st st' \<longleftrightarrow>
     (is_init st \<longrightarrow> is_init st' \<and> in_slab_region st' = in_slab_region st) \<and>
     (\<forall>q \<in> heap_live cfg st \<inter> heap_live cfg st'. block_size cfg st' q = block_size cfg st q)"

lemma in_slab_region_updates [simp]:
  "in_slab_region (upd_class a k c st) = in_slab_region st" "in_slab_region (st\<lparr>st_region_allocator := ra\<rparr>) = in_slab_region st"
  "is_init (upd_class a k c st) = is_init st" "is_init (st\<lparr>st_region_allocator := ra\<rparr>) = is_init st"
  by (simp_all add: in_slab_region_def is_init_def fun_eq_iff)

lemma block_size_upd_class [simp]: "block_size cfg (upd_class a k c st) p = block_size cfg st p"
  by (simp add: block_size_def in_slab_region_def slab_usable_size_def slab_size_class_def)

lemma block_size_regions:
  "block_size cfg (st\<lparr>st_region_allocator := ra\<rparr>) p =
    (if in_slab_region st p then unat (slab_usable_size cfg st p)
     else case region_map ra p of None \<Rightarrow> 0 | Some e \<Rightarrow> unat (rm_size e))"
  by (simp add: block_size_def in_slab_region_def slab_usable_size_def slab_size_class_def)

lemma slot_ptr_aligned:
  assumes "class_static cfg k c" "valid_pair cfg c (i, s)" "j \<le> 12" "2 ^ j dvd csize c"
  shows "2 ^ j dvd unat (slot_ptr c i s)"
proof -
  have "(2::nat) ^ j dvd 2 ^ 12" by (rule le_imp_power_dvd [OF assms(3)])
  moreover have "4096 dvd unat (sc_class_region_start c)" "4096 dvd cslab c"
    using assms(1) class_static_geometry [OF assms(1)] by (simp_all add: class_static_def geometry_def)
  ultimately have "2 ^ j dvd unat (sc_class_region_start c)" "2 ^ j dvd cslab c" by (auto elim: dvd_trans)
  then show ?thesis unfolding slot_ptr_bounds(1) [OF assms(1,2)] using assms(4) by simp
qed

lemma allocate_small_block:
  assumes "allocate_small cfg os st a sz w = Returned (p, st', w')" "heap_inv cfg st w" "a < N_ARENA cfg"
    and "sz \<le> max_slab_size_class cfg" "j \<le> 12" "2 ^ j dvd (if sz = 0 then 16 else unat (si_size (get_size_info sz)))"
  shows "fits cfg st' p (unat sz) j" "keeps_blocks cfg st st'"
proof -
  obtain k c' where k: "k = unat (si_class (get_size_info sz))" "k < N_SIZE_CLASSES cfg" and st': "st' = upd_class a k c' st"
    and static: "class_static cfg k (the_class st a k)" and from_c: "allocated_from cfg k (the_class st a k) p c'"
    by (rule allocate_small_class_step [OF assms(1-4)])
  let ?c = "the_class st a k"
  show "keeps_blocks cfg st st'" by (simp add: keeps_blocks_def st')
  have sz: "csize ?c = unat (if si_size (get_size_info sz) \<noteq> 0 then si_size (get_size_info sz) else 16)"
    using get_size_info_class(2) [OF assms(4)] static by (simp add: k(1) class_static_def)
  have pos: "class_size cfg k = unat (si_size (get_size_info sz)) \<and> unat sz \<le> class_size cfg k \<and> si_size (get_size_info sz) \<noteq> 0"
    if "sz \<noteq> 0"
  proof -
    have "0 < unat sz" using that by (simp add: unat_gt_0)
    from get_size_info_table(3,4) [OF this assms(4)] this show ?thesis by (auto simp: k(1))
  qed
  show "fits cfg st' p (unat sz) j"
  proof (cases "p = NULL")
    case False
    then obtain i s where v: "valid_pair cfg ?c (i, s)" "p = slot_ptr ?c i s"
      using from_c by (auto simp: allocated_from_def)
    note addr = slot_address [OF assms(2,3) k(2) static v]
    have "block_size cfg st' p = class_size cfg k"
      using addr(1) slab_usable_size_class [OF addr(2)] by (simp add: st') (simp add: block_size_def)
    moreover have "2 ^ j dvd csize ?c"
      using assms(6) sz pos by (cases "sz = 0") (auto simp: get_size_info_def Let_def)
    ultimately show ?thesis
      using pos slot_ptr_aligned [OF static v(1) assms(5)] v(2) by (cases "sz = 0") (auto simp: fits_def)
  qed (simp add: fits_def)
qed

lemma region_put_block:
  assumes "heap_inv cfg (st\<lparr>st_region_allocator := ra\<rparr>) w" "heap_inv cfg st w0"
    and "p = NULL \<and> region_map ra = region_map (st_region_allocator st) \<or>
      p \<noteq> NULL \<and> region_map (st_region_allocator st) p = None \<and> region_map ra = (region_map (st_region_allocator st))(p \<mapsto> e)"
    and "n \<le> unat (rm_size e)" "p = NULL \<or> 2 ^ k dvd unat p"
  shows "fits cfg (st\<lparr>st_region_allocator := ra\<rparr>) p n k" "keeps_blocks cfg st (st\<lparr>st_region_allocator := ra\<rparr>)"
proof -
  let ?st = "st\<lparr>st_region_allocator := ra\<rparr>"
  have "block_size cfg ?st p = unat (rm_size e)" if "p \<noteq> NULL"
  proof -
    have m: "region_map ra p = Some e" using assms(3) that by auto
    then have "\<not> in_slab_region ?st p" using large_not_slab [OF assms(1), of p e] by simp
    then have "\<not> in_slab_region st p" by (simp add: in_slab_region_def)
    with m show ?thesis by (simp add: block_size_regions)
  qed
  then show "fits cfg ?st p n k" using assms(4,5) by (auto simp: fits_def)
  show "keeps_blocks cfg st ?st"
    unfolding keeps_blocks_def
  proof (intro conjI impI ballI)
    fix q assume q: "q \<in> heap_live cfg st \<inter> heap_live cfg ?st"
    have "region_map ra q = region_map (st_region_allocator st) q \<or> region_map (st_region_allocator st) q = None"
      using assms(3) by auto
    moreover have "in_slab_region st q \<or> region_map (st_region_allocator st) q \<noteq> None" 
      using q heap_live_iff [OF assms(2), of q] by (simp split: if_splits)
    ultimately show "block_size cfg ?st q = block_size cfg st q"
      unfolding block_size_regions by (auto simp: block_size_def)
  qed simp_all
qed

text \<open>
  All that a call that allocates \<open>n\<close> bytes aligned to \<open>2 ^ k\<close> promises: the invariant, a null pointer or a new
  address, enough room behind it, and no other block touched.
\<close>

definition alloc_result :: "config \<Rightarrow> state \<Rightarrow> nat \<Rightarrow> nat \<Rightarrow> ptr \<times> state \<times> world \<Rightarrow> bool" where
  "alloc_result cfg st n k r \<longleftrightarrow>
     (case r of (p, st', w') \<Rightarrow>
        ready cfg st' w' \<and> allocated cfg st p st' \<and> keeps_blocks cfg st st' \<and> fits cfg st' p n k)"

lemma alloc_result_mono: "alloc_result cfg st n k r \<Longrightarrow> m \<le> n \<Longrightarrow> j \<le> k \<Longrightarrow> alloc_result cfg st m j r"
  using le_imp_power_dvd [of j k "2::nat"]
  by (auto simp: alloc_result_def fits_def split: prod.splits elim: dvd_trans)

text \<open>A step that changes nothing for the client, such as initialisation, may come first.\<close>

definition continues :: "config \<Rightarrow> state \<Rightarrow> state \<Rightarrow> bool" where
  "continues cfg st st' \<longleftrightarrow> heap_live cfg st' = heap_live cfg st \<and> keeps_blocks cfg st st'"

lemma continues_trans: "continues cfg st st1 \<Longrightarrow> continues cfg st1 st2 \<Longrightarrow> continues cfg st st2"
  by (auto simp: continues_def keeps_blocks_def)

lemma continues_alloc:
  assumes "continues cfg st st'" "alloc_result cfg st' n k r"
  shows "alloc_result cfg st n k r"
  using assms by (fastforce simp: alloc_result_def continues_def allocated_def keeps_blocks_def split: prod.splits)

lemma alloc_result_fail:
  "ready cfg st w \<Longrightarrow> alloc_result cfg st n k (NULL, st, w)"
  by (simp add: alloc_result_def allocated_def fits_def keeps_blocks_def)

lemma allocate_large_block:
  assumes "region_map ra = (region_map ra0)(p \<mapsto> \<lparr>rm_p = p, rm_size = get_large_size_class cfg sz, rm_guard_size = g\<rparr>)"
    and "large_inv cfg X ra w"
  shows "unat sz \<le> unat (get_large_size_class cfg sz)" "4096 dvd unat p"
proof -
  have "region_shape \<lparr>rm_p = p, rm_size = get_large_size_class cfg sz, rm_guard_size = g\<rparr>"
    by (rule large_invD(3) [OF assms(2)]) (auto simp: assms(1) ran_def)
  then show "unat sz \<le> unat (get_large_size_class cfg sz)" "4096 dvd unat p"
    using large_class(1) [of cfg sz] by (simp_all add: region_shape_def)
qed

text \<open>A change of the region table that adds the entry of a new large allocation, or none.\<close>

lemma large_alloc_result:
  assumes "heap_inv cfg st w" "large_inv cfg {#slab_extent cfg st#} ra w'"
    and "p = NULL \<and> region_map ra = region_map (st_region_allocator st) \<or>
      p \<noteq> NULL \<and> 2 ^ k dvd unat p \<and> region_map (st_region_allocator st) p = None \<and>
      (\<exists>g. region_map ra = (region_map (st_region_allocator st))
         (p \<mapsto> \<lparr>rm_p = p, rm_size = get_large_size_class cfg sz, rm_guard_size = g\<rparr>))"
  shows "alloc_result cfg st (unat sz) k (p, st\<lparr>st_region_allocator := ra\<rparr>, w')"
proof (cases "p = NULL")
  case True
  then have m: "region_map ra = region_map (st_region_allocator st)" using assms(3) by simp
  have "heap_inv cfg (st\<lparr>st_region_allocator := ra\<rparr>) w'" "allocated cfg st p (st\<lparr>st_region_allocator := ra\<rparr>)"
    using large_result [OF assms(1) _ assms(2), of p] True m by blast+
  with True m show ?thesis by (simp add: alloc_result_def ready_def fits_def keeps_blocks_def block_size_regions) (simp add: block_size_def)
next
  case False
  then obtain g where m: "region_map (st_region_allocator st) p = None" "2 ^ k dvd unat p"
    "region_map ra = (region_map (st_region_allocator st)) (p \<mapsto> \<lparr>rm_p = p, rm_size = get_large_size_class cfg sz, rm_guard_size = g\<rparr>)"
    using assms(3) by blast
  have res: "heap_inv cfg (st\<lparr>st_region_allocator := ra\<rparr>) w'" "allocated cfg st p (st\<lparr>st_region_allocator := ra\<rparr>)"
    using large_result [OF assms(1) _ assms(2), of p] False m large_size_whole_pages by blast+
  have "unat sz \<le> unat (rm_size \<lparr>rm_p = p, rm_size = get_large_size_class cfg sz, rm_guard_size = g\<rparr>)"
    using allocate_large_block(1) [OF m(3) assms(2)] by simp
  from region_put_block [OF res(1) assms(1) _ this, where p = p and k = k] False m res show ?thesis by (simp add: alloc_result_def ready_def)
qed

lemma allocate_result:
  assumes "allocate cfg os st a sz w = Returned r" "heap_inv cfg st w" "a < N_ARENA cfg" "sane_kernel os"
    and "j \<le> 12" "sz \<le> max_slab_size_class cfg \<Longrightarrow> 2 ^ j dvd (if sz = 0 then 16 else unat (si_size (get_size_info sz)))"
  shows "alloc_result cfg st (unat sz) j r"
proof -
  obtain p st' w' where r: "r = (p, st', w')" by (cases r)
  show ?thesis
  proof (cases "sz \<le> max_slab_size_class cfg")
    case True
    then have "allocate_small cfg os st a sz w = Returned (p, st', w')" using assms(1) by (simp add: allocate_def r)
    from allocate_small_ok [OF this assms(2,3) True] allocate_small_block [OF this assms(2,3) True assms(5) assms(6) [OF True]]
    show ?thesis by (simp add: alloc_result_def ready_def r)
  next
    case False
    then obtain ra where al: "allocate_large cfg os (st_region_allocator st) sz w = Returned (p, ra, w')"
      and st': "st' = st\<lparr>st_region_allocator := ra\<rparr>"
      using assms(1) unfolding allocate_def r by (auto simp: outcome_simps)
    have fresh: "\<And>n. fresh_mmap os w n" using assms(4) by (simp add: sane_kernel_def)
    note ok = allocate_large_ok [OF al heap_invD(6) [OF assms(2)] fresh]
    have "(2::nat) ^ j dvd 2 ^ 12" by (rule le_imp_power_dvd [OF assms(5)])
    then have "p \<noteq> NULL \<Longrightarrow> 2 ^ j dvd unat p" using ok(2) allocate_large_block(2) [OF _ ok(1)] by (auto elim: dvd_trans)
    with ok show ?thesis unfolding r st' by (intro large_alloc_result [OF assms(2)]) auto
  qed
qed

end
