(* ===== verification/Heap_Init.thy ===== *)
theory Heap_Init
  imports Heap_Blocks
begin

text \<open>
  Initialisation establishes the invariant: \<^verbatim>\<open>init_slow_path\<close>, started on the zeroed state of a new process, leaves
  every class with its own part of the slab region and an empty region table.
\<close>

section \<open>One size class\<close>

text \<open>A class as \<^verbatim>\<open>init_slow_path\<close> leaves it.\<close>

definition fresh_class :: "config \<Rightarrow> ptr \<Rightarrow> nat \<Rightarrow> nat \<Rightarrow> size_class \<Rightarrow> bool" where
  "fresh_class cfg s a k c \<longleftrightarrow>
     (\<exists>rng start base. random_state_ok rng \<and>
        setup_size_class cfg k start base ((zero_size_class cfg)\<lparr>sc_rng := rng\<rparr>) = Returned c \<and>
        unat s + class_offset cfg a k < unat start \<and> 4096 dvd unat start \<and>
        unat start + CONFIG_CLASS_REGION_SIZE cfg \<le> unat s + class_offset cfg a k + 2 * CONFIG_CLASS_REGION_SIZE cfg)"

lemma class_start_nat:
  fixes s gap :: u64
  assumes "config_valid cfg" "a < N_ARENA cfg" "k < N_SIZE_CLASSES cfg"
    and "unat s + unat (slab_region_size cfg) < 2 ^ 64" "unat gap \<le> CONFIG_CLASS_REGION_SIZE cfg"
  shows "unat (s + ARENA_SIZE cfg * of_nat a + REAL_CLASS_REGION_SIZE cfg * of_nat k + gap) = unat s + class_offset cfg a k + unat gap"
proof -
  let ?R = "2 * CONFIG_CLASS_REGION_SIZE cfg" and ?N = "N_SIZE_CLASSES cfg"
  have lt: "unat s + class_offset cfg a k + ?R < 2 ^ 64"
    using class_offset_bound [OF assms(2,3)] assms(4) unfolding unat_slab_region_size(1) [OF assms(1)] by simp
  have "a < 2 ^ 64" "k < 2 ^ 64" using assms(1-3) by (auto simp: config_valid_def N_SIZE_CLASSES_eq split: if_splits)
  then have ak: "unat (of_nat a :: u64) = a" "unat (of_nat k :: u64) = k" by (simp_all add: unat_of_nat)
  have bounds: "a * (?R * ?N) < 2 ^ 64" "k * ?R < 2 ^ 64" using lt by (simp_all add: class_offset_def)
  have A: "unat (ARENA_SIZE cfg * of_nat a) = a * (?R * ?N)"
    using bounds(1) by (subst unat_mult_lt) (simp_all add: unat_ARENA_SIZE(1) [OF assms(1)] ak mult.commute mult.left_commute)
  have K: "unat (REAL_CLASS_REGION_SIZE cfg * of_nat k) = k * ?R"
    using bounds(2) by (subst unat_mult_lt) (simp_all add: unat_REAL_CLASS_REGION_SIZE [OF assms(1)] ak mult.commute mult.left_commute)
  have "unat (s + ARENA_SIZE cfg * of_nat a) = unat s + a * (?R * ?N)"
    using lt A by (subst unat_add_lt) (simp_all add: class_offset_def)
  then have "unat (s + ARENA_SIZE cfg * of_nat a + REAL_CLASS_REGION_SIZE cfg * of_nat k) = unat s + class_offset cfg a k"
    using lt K by (subst unat_add_lt) (simp_all add: class_offset_def)
  then show ?thesis using lt assms(5) by (subst unat_add_lt) simp_all
qed

lemma class_offset_pages: "4096 dvd CONFIG_CLASS_REGION_SIZE cfg \<Longrightarrow> 4096 dvd class_offset cfg a k"
  by (simp add: class_offset_def)

lemma class_gap:
  assumes "config_valid cfg" "r < (REAL_CLASS_REGION_SIZE cfg - CLASS_REGION_SIZE cfg) div PAGE_SIZE - 1"
  shows "unat ((r + 1) * PAGE_SIZE) = (unat r + 1) * 4096" "(unat r + 1) * 4096 \<le> CONFIG_CLASS_REGION_SIZE cfg"
proof -
  let ?C = "CONFIG_CLASS_REGION_SIZE cfg"
  have C: "33554432 \<le> ?C" "?C \<le> 2 ^ 40" using assms(1) by (simp_all add: config_valid_def)
  have "unat (REAL_CLASS_REGION_SIZE cfg - CLASS_REGION_SIZE cfg) = ?C"
    using unat_CLASS_REGION_SIZE [OF assms(1)] unat_REAL_CLASS_REGION_SIZE [OF assms(1)] by (simp add: unat_sub_if')
  then have d: "unat ((REAL_CLASS_REGION_SIZE cfg - CLASS_REGION_SIZE cfg) div PAGE_SIZE) = ?C div 4096" by (simp add: unat_div)
  have "0 < ?C div 4096" using C(1) by (simp add: div_greater_zero_iff)
  then have "unat r < ?C div 4096 - 1" using assms(2) d by (simp add: word_less_nat_alt unat_sub_if')
  then have "(unat r + 1) * 4096 \<le> ?C div 4096 * 4096" by (intro mult_le_mono1) simp
  also have "\<dots> \<le> ?C" by (rule div_times_less_eq_dividend)
  finally show le: "(unat r + 1) * 4096 \<le> ?C" .
  with C(2) have "unat (r + 1) = unat r + 1" by (intro trans [OF unat_add_lt]) simp_all
  with le C(2) show "unat ((r + 1) * PAGE_SIZE) = (unat r + 1) * 4096" by (intro trans [OF unat_mult_lt]) simp_all
qed

lemma init_size_class_ok:
  assumes "init_size_class cfg os s a k base (zero_size_class cfg) rng w = Returned (c, rng', w')"
    and "random_state_ok rng" "config_valid cfg" "4096 dvd CONFIG_CLASS_REGION_SIZE cfg" "a < N_ARENA cfg" "k < N_SIZE_CLASSES cfg"
    and "4096 dvd unat s" "unat s + unat (slab_region_size cfg) < 2 ^ 64"
  shows "fresh_class cfg s a k c" "random_state_ok rng'" "same_memory w w'"
proof -
  let ?bound = "(REAL_CLASS_REGION_SIZE cfg - CLASS_REGION_SIZE cfg) div PAGE_SIZE - 1"
  obtain crng rng1 w1 r where
    i: "random_state_init_from_random_state os blank_random_state rng w = Returned (crng, rng1, w1)"
    and g: "get_random_u64_uniform os rng1 ?bound w1 = Returned (r, rng', w')"
    and su: "setup_size_class cfg k (s + ARENA_SIZE cfg * of_nat a + REAL_CLASS_REGION_SIZE cfg * of_nat k + (r + 1) * PAGE_SIZE)
      base ((zero_size_class cfg)\<lparr>sc_rng := crng\<rparr>) = Returned c"
    using assms(1) unfolding init_size_class_def Let_def by (auto simp: outcome_simps zero_size_class_def)
  have ok: "random_state_ok crng" "random_state_ok rng1" "same_memory w w1"
    using random_state_init_from_random_state_ok [OF i _ _ assms(2)] by (simp_all add: blank_random_state_def)
  note g = get_random_u64_uniform_ok [OF g ok(2)]
  show "random_state_ok rng'" "same_memory w w'" using g ok(3) same_memory_trans by blast+
  have "?bound \<noteq> 0"
  proof
    assume z: "?bound = 0"
    have "33554432 \<le> CONFIG_CLASS_REGION_SIZE cfg" using assms(3) by (simp add: config_valid_def)
    then have "1 < CONFIG_CLASS_REGION_SIZE cfg div 4096" by (simp add: less_eq_div_iff_mult_less_eq Suc_le_eq [symmetric])
    moreover have "unat (REAL_CLASS_REGION_SIZE cfg - CLASS_REGION_SIZE cfg) = CONFIG_CLASS_REGION_SIZE cfg"
      using unat_CLASS_REGION_SIZE [OF assms(3)] unat_REAL_CLASS_REGION_SIZE [OF assms(3)] by (simp add: unat_sub_if')
    ultimately show False using z by (simp add: word_unat_eq_iff unat_sub_if' unat_div split: if_splits)
  qed
  then have "r < ?bound" using g by simp
  note gap = class_gap [OF assms(3) this]
  define start where "start = s + ARENA_SIZE cfg * of_nat a + REAL_CLASS_REGION_SIZE cfg * of_nat k + (r + 1) * PAGE_SIZE"
  note su = su [folded start_def]
  note start = class_start_nat [OF assms(3,5,6,8), of "(r + 1) * PAGE_SIZE", unfolded gap(1), OF gap(2), folded start_def]
  have "4096 dvd unat s + class_offset cfg a k + (unat r + 1) * 4096"
    using assms(7) class_offset_pages [OF assms(4)] by simp
  then have "4096 dvd unat start" by (simp only: start)
  with su ok(1) start gap(2) show "fresh_class cfg s a k c"
    unfolding fresh_class_def by (intro exI [of _ crng] exI [of _ start] exI [of _ base]) simp
qed

lemma fresh_class_ok:
  assumes "fresh_class cfg s a k c" "config_valid cfg" "a < N_ARENA cfg" "k < N_SIZE_CLASSES cfg"
    and "unat s + unat (slab_region_size cfg) < 2 ^ 64"
  shows "class_ok cfg k c" "live c = {}"
    "counted cfg c"
    "unat s + class_offset cfg a k \<le> unat (sc_class_region_start c)"
    "unat (sc_class_region_start c) + CONFIG_CLASS_REGION_SIZE cfg
      \<le> unat s + class_offset cfg a k + 2 * CONFIG_CLASS_REGION_SIZE cfg"
proof -
  obtain rng start base where f: "random_state_ok rng"
    "setup_size_class cfg k start base ((zero_size_class cfg)\<lparr>sc_rng := rng\<rparr>) = Returned c"
    "unat s + class_offset cfg a k < unat start" "4096 dvd unat start"
    "unat start + CONFIG_CLASS_REGION_SIZE cfg \<le> unat s + class_offset cfg a k + 2 * CONFIG_CLASS_REGION_SIZE cfg"
    using assms(1) by (auto simp: fresh_class_def)
  have "unat s + class_offset cfg a k + 2 * CONFIG_CLASS_REGION_SIZE cfg < 2 ^ 64"
    using class_offset_bound [OF assms(3,4)] assms(5) unfolding unat_slab_region_size(1) [OF assms(2)] by simp
  with f(5) have "unat start + CONFIG_CLASS_REGION_SIZE cfg < 2 ^ 64" by simp
  moreover have "0 < unat start" using f(3) by simp
  ultimately have c: "class_inv cfg k [] c [] [] []" "live c = {}" "sc_class_region_start c = start"
    using setup_size_class_ok [OF f(2) assms(2,4) f(1)] f(4) by blast+
  then show "class_ok cfg k c" "live c = {}" by (auto simp: class_ok_def)
  have "counters c = (0, 0, 0)"
    using f(2) by (auto simp: setup_size_class_def Let_def outcome_simps counters_def zero_size_class_def)
  then show "counted cfg c" using c(2) by (simp add: counted_def) (simp add: counters_def)
  show "unat s + class_offset cfg a k \<le> unat (sc_class_region_start c)"
    "unat (sc_class_region_start c) + CONFIG_CLASS_REGION_SIZE cfg
      \<le> unat s + class_offset cfg a k + 2 * CONFIG_CLASS_REGION_SIZE cfg"
    using f(3,5) by (simp_all add: c(3))
qed

section \<open>All size classes\<close>

lemma init_classes_ok:
  assumes "init_classes cfg os pl p s aks st rng w = Returned (st', rng', w')" "random_state_ok rng" "distinct aks"
    and "\<And>a k. (a, k) \<in> set aks \<Longrightarrow> a < N_ARENA cfg \<and> k < N_SIZE_CLASSES cfg \<and> the_class st a k = zero_size_class cfg"
    and "config_valid cfg" "4096 dvd CONFIG_CLASS_REGION_SIZE cfg" "4096 dvd unat s" "unat s + unat (slab_region_size cfg) < 2 ^ 64"
  shows "random_state_ok rng' \<and> same_memory w w' \<and>
    st' = st\<lparr>st_size_class_metadata := st_size_class_metadata st'\<rparr> \<and>
    (\<forall>a k. if (a, k) \<in> set aks then fresh_class cfg s a k (the_class st' a k) else the_class st' a k = the_class st a k)"
  using assms(1-4)
proof (induction aks arbitrary: st rng w)
  case (Cons ak aks)
  obtain a k where ak: "ak = (a, k)" by (cases ak)
  have z: "a < N_ARENA cfg" "k < N_SIZE_CLASSES cfg" "the_class st a k = zero_size_class cfg"
    using Cons.prems(4) [of a k] by (simp_all add: ak)
  obtain c rng1 w1 where i: "init_size_class cfg os s a k (p + pl_slab_info pl a k) (zero_size_class cfg) rng w = Returned (c, rng1, w1)"
    and rest: "init_classes cfg os pl p s aks (upd_class a k c st) rng1 w1 = Returned (st', rng', w')"
    using Cons.prems(1) by (auto simp: ak z(3) outcome_simps)
  note c = init_size_class_ok [OF i Cons.prems(2) assms(5,6) z(1,2) assms(7,8)]
  have ih: "random_state_ok rng' \<and> same_memory w1 w' \<and>
    st' = (upd_class a k c st)\<lparr>st_size_class_metadata := st_size_class_metadata st'\<rparr> \<and>
    (\<forall>a' k'. if (a', k') \<in> set aks then fresh_class cfg s a' k' (the_class st' a' k')
      else the_class st' a' k' = the_class (upd_class a k c st) a' k')"
  proof (rule Cons.IH [OF rest c(2)])
    show "distinct aks" using Cons.prems(3) by simp
    fix a' k' assume in': "(a', k') \<in> set aks"
    then have "\<not> (a' = a \<and> k' = k)" using Cons.prems(3) by (auto simp: ak)
    with in' Cons.prems(4) [of a' k'] show "a' < N_ARENA cfg \<and> k' < N_SIZE_CLASSES cfg \<and> the_class (upd_class a k c st) a' k' = zero_size_class cfg"
      by auto
  qed
  have "same_memory w w'" using ih c(3) same_memory_trans by blast
  moreover have "if (a', k') \<in> set (ak # aks) then fresh_class cfg s a' k' (the_class st' a' k') else the_class st' a' k' = the_class st a' k'" for a' k'
    using ih c(1) Cons.prems(3) by (auto simp: ak split: if_splits)
  moreover have "st' = st\<lparr>st_size_class_metadata := st_size_class_metadata st'\<rparr>" using ih by (simp add: upd_class_def)
  ultimately show ?case using ih by blast
qed simp

lemma all_classes_set: "set (all_classes cfg) = {0..<N_ARENA cfg} \<times> {0..<N_SIZE_CLASSES cfg}" "distinct (all_classes cfg)"
  by (simp_all add: all_classes_def distinct_product)

section \<open>The whole state\<close>

text \<open>The state that initialisation leaves, before any allocation.\<close>

definition fresh_state :: "config \<Rightarrow> state \<Rightarrow> bool" where
  "fresh_state cfg st \<longleftrightarrow>
     region_placed cfg st \<and>
     (\<forall>a < N_ARENA cfg. \<forall>k < N_SIZE_CLASSES cfg. fresh_class cfg (st_slab_region_start st) a k (the_class st a k)) \<and>
     (\<exists>rng a b. random_state_ok rng \<and> st_region_allocator st = fresh_regions cfg rng a b)"

lemma fresh_regions_quarantine: "quarantined_regions (fresh_regions cfg rng a b) = {#}"
  by (simp add: quarantined_regions_def fresh_regions_def zero_region_allocator_def)

lemma fresh_state_inv:
  assumes "fresh_state cfg st" "config_valid cfg" "st_slab_region_end st = st_slab_region_start st + slab_region_size cfg"
    and "N_ARENA cfg = 1 \<longrightarrow> st_thread_arena st = 0" "owns w {#slab_extent cfg st#}"
  shows "heap_inv cfg st w" "heap_live cfg st = {}"
proof -
  have placed: "region_placed cfg st" using assms(1) by (simp add: fresh_state_def)
  then have room: "unat (st_slab_region_start st) + unat (slab_region_size cfg) < 2 ^ 64" by (simp add: region_placed_def)
  obtain rng a b where ra: "random_state_ok rng" "st_region_allocator st = fresh_regions cfg rng a b"
    using assms(1) by (auto simp: fresh_state_def)
  note tab = fresh_regions_ok [OF assms(2) ra(1), of a b, folded ra(2)]
  have li: "large_inv cfg {#slab_extent cfg st#} (st_region_allocator st) w"
    using assms(2,5) tab fresh_regions_quarantine [of cfg rng a b, folded ra(2)]
    by (simp add: large_inv_def owned_def regions_counted_def region_total_def) (simp add: ra(2) fresh_regions_def zero_region_allocator_def)
  have cl: "fresh_class cfg (st_slab_region_start st) a k (the_class st a k)" if "a < N_ARENA cfg" "k < N_SIZE_CLASSES cfg" for a k
    using assms(1) that by (simp add: fresh_state_def)
  note cl = fresh_class_ok [OF cl assms(2) _ _ room]
  show "heap_inv cfg st w"
    using assms(3,4) placed li cl(1,3,4,5) tab(2) by (simp add: heap_inv_def class_placed_def)
  have "slab_live cfg st = {}" using cl(2) by (auto simp: slab_live_def)
  then show "heap_live cfg st = {}" using tab(2) by (simp add: heap_live_def)
qed

lemma init_region_allocator_fresh:
  assumes "random_state_ok rng" "config_valid cfg"
  shows "all_o (\<lambda>(ra, rng', w'). (\<exists>r. random_state_ok r \<and> ra = fresh_regions cfg r a b) \<and> random_state_ok rng' \<and> keeps_maps w w')
    (init_region_allocator os a b (zero_region_allocator cfg) rng w)"
proof (rule all_oI)
  fix x assume "init_region_allocator os a b (zero_region_allocator cfg) rng w = Returned x"
  then obtain r rng' w1 w' where i: "random_state_init_from_random_state os blank_random_state rng w = Returned (r, rng', w1)"
    and pr: "memory_protect_rw_metadata os a (of_nat (INITIAL_REGION_TABLE_SIZE * 24)) w1 = Returned (False, w')"
    and x: "x = (fresh_regions cfg r a b, rng', w')"
    unfolding init_region_allocator_def Let_def
    by (auto simp: outcome_simps fresh_regions_def zero_region_allocator_def split: if_splits)
  note ok = random_state_init_from_random_state_ok [OF i _ _ assms(1)]
  then have "keeps_maps w w1" using same_memory_keeps [of w w1] by (simp add: blank_random_state_def)
  then have "keeps_maps w w'" using wrapper_keeps(4) [OF pr] by (rule keeps_maps_trans)
  with ok show "case x of (ra, rng', w') \<Rightarrow> (\<exists>r. random_state_ok r \<and> ra = fresh_regions cfg r a b) \<and> random_state_ok rng' \<and> keeps_maps w w'"
    by (auto simp: x blank_random_state_def)
qed

text \<open>The mapping of the slab region is a new extent.\<close>

lemma slab_region_mapped:
  assumes "memory_map os n w = Returned (s, w')" "s \<noteq> NULL" "fresh_mmap os w n" "owns w X"
  shows "owns w' (add_mset \<lparr>qi_p = s, qi_size = n\<rparr> X)" "4096 dvd unat s" "unat s + page_round n < 2 ^ 64"
proof -
  note view = memory_map_view [OF assms(1,2)]
  from view obtain m where "k_syscall os (w_history w) (w_mem w) (Mmap n PROT_NONE) = (Sys_ok s, m)" by blast
  from assms(3) [unfolded fresh_mmap_def, rule_format, OF this]
  show "4096 dvd unat s" "unat s + page_round n < 2 ^ 64" by blast+
  show "owns w' (add_mset \<lparr>qi_p = s, qi_size = n\<rparr> X)"
  proof (rule owns_fresh [OF assms(4)])
    fix a assume a: "in_extent a \<lparr>qi_p = s, qi_size = n\<rparr>"
    show "\<not> mapped w a" using fresh_mapping [OF assms(1-3)] a by (auto simp: in_extent_def)
    show "mapped w' a" using view a by (simp add: mapped_def vm_apply_def in_extent_def)
  qed (rule memory_map_keeps [OF assms(1)])
qed

lemma init_allocator_state_ok:
  assumes "random_state_ok rng" "config_valid cfg" "4096 dvd CONFIG_CLASS_REGION_SIZE cfg" "sane_kernel os" "owns w X"
    and "st_region_allocator st = zero_region_allocator cfg" "st_size_class_metadata st = (\<lambda>_ _. zero_size_class cfg)"
  shows "all_o (\<lambda>(st', rng', w'). fresh_state cfg st' \<and> st_thread_arena st' = st_thread_arena st \<and>
      owns w' (add_mset (slab_extent cfg st') X))
    (init_allocator_state cfg os pl p st rng w)"
proof (rule all_oI)
  fix y assume ret: "init_allocator_state cfg os pl p st rng w = Returned y"
  obtain w1 ra rng2 w2 s w3 where pr: "memory_protect_rw_metadata os p (pl_regions_a pl) w = Returned (False, w1)"
    and ri: "init_region_allocator os (p + pl_regions_a pl) (p + pl_regions_b pl) (zero_region_allocator cfg) rng w1 = Returned (ra, rng2, w2)"
    and mm: "memory_map os (slab_region_size cfg) w2 = Returned (s, w3)" "s \<noteq> NULL"
    and ic: "init_classes cfg os pl p s (all_classes cfg) (st\<lparr>st_region_allocator := ra, st_slab_region_start := s\<rparr>) rng2 w3 = Returned y"
    using ret unfolding init_allocator_state_def assms(6) by (auto simp: outcome_simps split: if_splits)
  obtain st' rng' w' where y: "y = (st', rng', w')" by (cases y)
  note reg = all_oD [OF init_region_allocator_fresh [OF assms(1,2)] ri, unfolded prod.case]
  have "keeps_maps w w2" using keeps_maps_trans [OF wrapper_keeps(4) [OF pr]] reg by blast
  then have own: "owns w2 X" by (rule owns_keeps [OF assms(5)])
  have fresh: "fresh_mmap os w2 n" for n using assms(4) by (simp add: sane_kernel_def)
  note sm = slab_region_mapped [OF mm fresh own]
  have room: "unat s + unat (slab_region_size cfg) < 2 ^ 64" using sm(3) page_round_ge [of "slab_region_size cfg"] by linarith
  have rng: "random_state_ok rng2" using reg by blast
  note cl = init_classes_ok [OF ic [unfolded y] rng all_classes_set(2) _ assms(2,3) sm(2) room, unfolded all_classes_set(1)]
  have cl: "same_memory w3 w'" "st' = st\<lparr>st_region_allocator := ra, st_slab_region_start := s,
      st_size_class_metadata := st_size_class_metadata st'\<rparr>"
    "\<And>a k. a < N_ARENA cfg \<Longrightarrow> k < N_SIZE_CLASSES cfg \<Longrightarrow> fresh_class cfg s a k (the_class st' a k)"
    using cl assms(7) by auto
  have f: "st_slab_region_start st' = s" "st_thread_arena st' = st_thread_arena st" "st_region_allocator st' = ra"
    using arg_cong [OF cl(2), of st_slab_region_start] arg_cong [OF cl(2), of st_thread_arena]
      arg_cong [OF cl(2), of st_region_allocator] by simp_all
  have "owns w' (add_mset (slab_extent cfg st') X)"
    using owns_keeps [OF sm(1) same_memory_keeps [OF cl(1)]] by (simp add: slab_extent_def f(1))
  moreover have "fresh_state cfg st'"
    unfolding fresh_state_def region_placed_def f using cl(3) mm(2) reg sm(2) room by blast
  ultimately show "case y of (st', rng', w') \<Rightarrow> fresh_state cfg st' \<and> st_thread_arena st' = st_thread_arena st \<and>
      owns w' (add_mset (slab_extent cfg st') X)" by (simp add: y f(2))
qed

lemma init_slow_path_ok:
  assumes "zeroed cfg st" "config_valid cfg" "4096 dvd CONFIG_CLASS_REGION_SIZE cfg" "sane_kernel os"
  shows "all_o (\<lambda>(st', w'). fresh_state cfg st' \<and> heap_inv cfg st' w' \<and> heap_live cfg st' = {}) (init_slow_path cfg os pl st w)"
proof (rule all_oI)
  fix y assume ret: "init_slow_path cfg os pl st w = Returned y"
  have ni: "\<not> is_init st" using assms(1) by (simp add: zeroed_def is_init_def)
  obtain rng_p w1 rng1 w2 r rng2 w3 p w4 st1 rng3 w5 w6 w7 where
    a1: "allocate_pages os sizeof_random_state PAGE_SIZE True w = Returned (rng_p, w1)" "rng_p \<noteq> NULL"
    and i: "random_state_init os blank_random_state w1 = Returned (rng1, w2)"
    and g: "get_random_u64_uniform os rng1 (REAL_CLASS_REGION_SIZE cfg div PAGE_SIZE) w2 = Returned (r, rng2, w3)"
    and a2: "allocate_pages os (pl_sizeof_allocator_state pl) ((r + 1) * PAGE_SIZE) False w3 = Returned (p, w4)" "p \<noteq> NULL"
    and ia: "init_allocator_state cfg os pl p st rng2 w4 = Returned (st1, rng3, w5)"
    and d: "deallocate_pages os rng_p sizeof_random_state PAGE_SIZE w5 = Returned w6"
    and pr: "memory_protect_ro os (pl_ro pl) PAGE_SIZE w6 = Returned (False, w7)"
    and y: "y = (st1\<lparr>st_slab_region_end := st_slab_region_start st1 + slab_region_size cfg\<rparr>, w7)"
    using ret ni unfolding init_slow_path_def Let_def by (auto simp: outcome_simps split: if_splits)
  have fresh: "fresh_mmap os w n" for w n using assms(4) by (simp add: sane_kernel_def)
  let ?x = "\<lparr>qi_p = rng_p - PAGE_SIZE, qi_size = sizeof_random_state + PAGE_SIZE * 2\<rparr>"
  have "owns w1 {#?x#}" using owns_allocate_pages [OF a1 _ fresh owns_empty] by simp
  moreover have r1: "random_state_ok rng1" "same_memory w1 w2" using random_state_init_ok [OF i] by (simp_all add: blank_random_state_def)
  moreover have r2: "random_state_ok rng2" "same_memory w2 w3" using get_random_u64_uniform_ok [OF g r1(1)] by simp_all
  moreover have "keeps_maps w3 w4" using all_oD [OF allocate_pages_keeps [OF fresh] a2(1)] by simp
  ultimately have "owns w4 {#?x#}" by (meson owns_keeps same_memory_keeps)
  note st = init_allocator_state_ok [OF r2(1) assms(2-4) this, of st pl p]
  have st: "fresh_state cfg st1" "st_thread_arena st1 = st_thread_arena st" "owns w5 (add_mset (slab_extent cfg st1) {#?x#})"
    using st [THEN all_oD, OF _ _ ia] assms(1) by (simp_all add: zeroed_def)
  have "owns w5 (add_mset ?x {#slab_extent cfg st1#})" using st(3) by (simp add: add_mset_commute)
  then have "owns w6 {#slab_extent cfg st1#}" by (rule owns_deallocate_pages [OF d])
  then have own: "owns w7 {#slab_extent cfg st1#}" by (rule owns_keeps) (rule wrapper_keeps(3) [OF pr])
  let ?st = "st1\<lparr>st_slab_region_end := st_slab_region_start st1 + slab_region_size cfg\<rparr>"
  have fs: "fresh_state cfg ?st" using st(1) by (simp add: fresh_state_def region_placed_def)
  have "owns w7 {#slab_extent cfg ?st#}" using own by (simp add: slab_extent_def)
  from fresh_state_inv [OF fs assms(2) _ _ this] fs st(2) assms(1)
  show "case y of (st', w') \<Rightarrow> fresh_state cfg st' \<and> heap_inv cfg st' w' \<and> heap_live cfg st' = {}"
    by (simp add: y zeroed_def)
qed

section \<open>Choosing the arena\<close>

text \<open>States that differ in the bookkeeping of arenas only.\<close>

definition same_heap :: "state \<Rightarrow> state \<Rightarrow> bool" where
  "same_heap st st' \<longleftrightarrow>
     st_slab_region_start st' = st_slab_region_start st \<and> st_slab_region_end st' = st_slab_region_end st \<and>
     st_size_class_metadata st' = st_size_class_metadata st \<and> st_region_allocator st' = st_region_allocator st"

lemma same_heap_continues:
  assumes "same_heap st st'"
  shows "continues cfg st st'"
proof -
  have "heap_live cfg st' = heap_live cfg st" using assms by (simp add: same_heap_def heap_live_def slab_live_def)
  moreover have "is_init st' = is_init st" "in_slab_region st' = in_slab_region st" "block_size cfg st' q = block_size cfg st q" for q
    using assms by (simp_all add: same_heap_def is_init_def fun_eq_iff block_size_def in_slab_region_def slab_usable_size_def slab_size_class_def)
  ultimately show ?thesis by (simp add: continues_def keeps_blocks_def)
qed

lemma heap_inv_same:
  assumes "heap_inv cfg st w" "same_heap st st'" "N_ARENA cfg = 1 \<Longrightarrow> st_thread_arena st' = 0"
  shows "heap_inv cfg st' w"
  using assms
  by (simp add: heap_inv_def region_placed_def class_placed_def slab_extent_def same_heap_def)

lemma heap_inv_is_init:
  assumes "heap_inv cfg st w"
  shows "is_init st"
proof -
  note r = heap_invD(2,3) [OF assms]
  have "0 < unat (st_slab_region_start st)" using r(1) by (simp add: region_placed_def unat_gt_0)
  then have "unat (st_slab_region_end st) \<noteq> 0"
    using region_end_nat [OF heap_invD(1) [OF assms] r(1)] r(2) by simp
  then show ?thesis by (auto simp: is_init_def)
qed

lemma init_first:
  assumes "init cfg os pl st w = Returned (a, st', w')" "uninitialised cfg st" "config_valid cfg"
    and "4096 dvd CONFIG_CLASS_REGION_SIZE cfg" "sane_kernel os"
  shows "a < N_ARENA cfg" "heap_inv cfg st' w'" "continues cfg st st'"
proof -
  have z: "zeroed cfg st" "\<not> (1 < N_ARENA cfg \<and> st_thread_arena st < N_ARENA cfg)" "1 \<le> N_ARENA cfg"
    using assms(2,3) by (auto simp: uninitialised_def config_valid_def)
  obtain st0 where st0: "zeroed cfg st0" "init_slow_path cfg os pl st0 w = Returned (st', w')" and a: "a < N_ARENA cfg"
  proof (cases "1 < N_ARENA cfg")
    case True
    let ?a = "unat (st_thread_arena_counter st) mod N_ARENA cfg"
    let ?st = "st\<lparr>st_thread_arena := ?a, st_thread_arena_counter := st_thread_arena_counter st + 1\<rparr>"
    have "zeroed cfg ?st" using z(1) True by (simp add: zeroed_def)
    moreover from this have "init_slow_path cfg os pl ?st w = Returned (st', w')" "a = ?a"
      using assms(1) z(2) True by (auto simp: init_def Let_def is_init_def zeroed_def outcome_simps)
    moreover have "?a < N_ARENA cfg" using z(3) by simp
    ultimately show ?thesis using that by blast
  next
    case False
    then have n: "N_ARENA cfg = 1" using z(3) by simp
    then have "init_slow_path cfg os pl st w = Returned (st', w')" "a < N_ARENA cfg"
      using assms(1) z(1) by (auto simp: init_def Let_def is_init_def zeroed_def outcome_simps)
    then show ?thesis using that z(1) by blast
  qed
  note ok = all_oD [OF init_slow_path_ok [OF st0(1) assms(3-5)] st0(2), unfolded prod.case]
  show "a < N_ARENA cfg" by (rule a)
  show "heap_inv cfg st' w'" "continues cfg st st'"
    using ok zeroed_live [OF z(1)] z(1) by (simp_all add: continues_def keeps_blocks_def is_init_def zeroed_def)
qed

lemma init_next:
  assumes "init cfg os pl st w = Returned (a, st', w')" "heap_inv cfg st w"
  shows "a < N_ARENA cfg" "heap_inv cfg st' w'" "continues cfg st st'"
proof -
  have n: "1 \<le> N_ARENA cfg" using heap_invD(1) [OF assms(2)] by (simp add: config_valid_def)
  have "a < N_ARENA cfg \<and> w' = w \<and> same_heap st st' \<and> (N_ARENA cfg = 1 \<longrightarrow> st_thread_arena st' = 0)"
    using assms(1) n heap_inv_is_init [OF assms(2)] heap_invD(8) [OF assms(2)]
    by (auto simp: init_def Let_def same_heap_def is_init_def split: if_splits)
  then show "a < N_ARENA cfg" "heap_inv cfg st' w'" "continues cfg st st'"
    using heap_inv_same [OF assms(2)] same_heap_continues by blast+
qed

text \<open>A call that starts by choosing the arena.\<close>

lemma init_then:
  assumes "ready cfg st w" "4096 dvd CONFIG_CLASS_REGION_SIZE cfg" "sane_kernel os"
    and "\<And>a st' w'. a < N_ARENA cfg \<Longrightarrow> heap_inv cfg st' w' \<Longrightarrow> continues cfg st st' \<Longrightarrow> all_o P (f a st' w')"
  shows "all_o P (bind_o (init cfg os pl st w) (\<lambda>(a, st, w). f a st w))"
proof (rule all_o_bind [where P = "\<lambda>(a, st', w'). a < N_ARENA cfg \<and> heap_inv cfg st' w' \<and> continues cfg st st'"])
  show "all_o (\<lambda>(a, st', w'). a < N_ARENA cfg \<and> heap_inv cfg st' w' \<and> continues cfg st st') (init cfg os pl st w)"
    using assms(1) unfolding ready_def
    by (auto intro!: all_oI dest: init_next init_first [OF _ _ _ assms(2,3)])
qed (use assms(4) in auto)

end
