(* ===== verification/Heap_Api.thy ===== *)
theory Heap_Api
  imports Heap_Init
begin

text \<open>
  The exported functions on an initialised allocator: every allocating function meets one contract, every
  deallocating function another, and reallocation is the composition of the two.
\<close>

section \<open>Allocation\<close>

lemma adjust_size_room: "unat sz \<le> unat (adjust_size_for_canary cfg sz)"
  by (auto simp: adjust_size_for_canary_def max_slab_size_class_def canary_size_def word_le_nat_alt unat_word_ariths)

text \<open>What of a block is for the client: all of it less the canary at the end of a slot.\<close>

definition usable_size :: "config \<Rightarrow> state \<Rightarrow> ptr \<Rightarrow> nat" where
  "usable_size cfg st p = block_size cfg st p - (if in_slab_region st p then unat (canary_size cfg) else 0)"

text \<open>A block with room for the adjusted size has room for the request before its canary.\<close>

lemma adjusted_usable:
  assumes "heap_inv cfg st w" "unat (adjust_size_for_canary cfg sz) \<le> block_size cfg st p"
  shows "unat sz \<le> usable_size cfg st p"
proof (cases "in_slab_region st p")
  case True
  obtain a k where ak: "a < N_ARENA cfg" "k < N_SIZE_CLASSES cfg" "slab_size_class cfg st p = \<lparr>ssci_arena = a, ssci_class = k\<rparr>"
    by (rule slab_address_class [OF assms(1) True])
  have b: "block_size cfg st p = class_size cfg k" using True slab_usable_size_class [OF ak(3)] by (simp add: block_size_def)
  have m: "unat (adjust_size_for_canary cfg sz) \<le> unat (max_slab_size_class cfg)"
    using assms(2) class_size_max [OF ak(2)] unfolding b by linarith
  show ?thesis
  proof (cases "0 < sz \<and> sz \<le> max_slab_size_class cfg")
    case adj: True
    have "unat (adjust_size_for_canary cfg sz) = unat sz + unat (canary_size cfg)"
      using adj by (auto simp: adjust_size_for_canary_def max_slab_size_class_def canary_size_def word_le_nat_alt unat_word_ariths
        split: if_splits)
    with assms(2) True show ?thesis by (simp add: usable_size_def)
  next
    case False
    then have "adjust_size_for_canary cfg sz = sz" by (auto simp: adjust_size_for_canary_def)
    with m False have "sz = 0" by (auto simp: word_le_nat_alt word_less_nat_alt unat_gt_0)
    then show ?thesis by simp
  qed
qed (use assms(2) adjust_size_room [of sz cfg] in \<open>simp add: usable_size_def\<close>)

lemma alloc_result_usable:
  assumes "alloc_result cfg st (unat (adjust_size_for_canary cfg sz)) k (p, st', w')" "p \<noteq> NULL"
  shows "unat sz \<le> usable_size cfg st' p"
proof -
  have "ready cfg st' w'" "p \<in> heap_live cfg st'" "unat (adjust_size_for_canary cfg sz) \<le> block_size cfg st' p"
    using assms by (auto simp: alloc_result_def allocated_def fits_def)
  from adjusted_usable [OF ready_live [OF this(1,2)] this(3)] show ?thesis .
qed

lemma size_info_16:
  assumes "sz \<le> max_slab_size_class cfg"
  shows "2 ^ 4 dvd (if sz = 0 then 16 else unat (si_size (get_size_info sz)))"
proof (cases "sz = 0")
  case False
  then have pos: "0 < unat sz" by (simp add: unat_gt_0)
  note t = get_size_info_table [OF pos assms]
  have "16 dvd slot_size cfg (unat (si_class (get_size_info sz)))"
    using class_geometry(1) [OF t(2)] by (simp add: geometry_def)
  with t(3) t(4) pos False show ?thesis by (simp add: slot_size_def split: if_splits)
qed simp

lemma allocate_16:
  assumes "heap_inv cfg st w" "a < N_ARENA cfg" "sane_kernel os"
  shows "all_o (alloc_result cfg st (unat sz) 4) (allocate cfg os st a sz w)"
  using allocate_result [OF _ assms, of sz _ 4] size_info_16 [of sz cfg] by (auto intro!: all_oI)

lemma alloc_ok:
  assumes "ready cfg st w" "4096 dvd CONFIG_CLASS_REGION_SIZE cfg" "sane_kernel os"
  shows "all_o (alloc_result cfg st (unat sz) 4) (alloc cfg os pl st sz w)"
  unfolding alloc_def
  by (rule init_then [OF assms]) (rule all_o_mono [OF allocate_16 [OF _ _ assms(3)] continues_alloc])

lemma h_malloc_ok:
  assumes "ready cfg st w" "4096 dvd CONFIG_CLASS_REGION_SIZE cfg" "sane_kernel os"
  shows "all_o (alloc_result cfg st (unat (adjust_size_for_canary cfg sz)) 4) (h_malloc cfg os pl st sz w)"
  unfolding h_malloc_def by (rule alloc_ok [OF assms])

lemma alloc_result_mem [simp]: "alloc_result cfg st n k (p, st', w'\<lparr>w_mem := m\<rparr>) = alloc_result cfg st n k (p, st', w')"
  "alloc_result cfg st n k (p, st', set_errno e w') = alloc_result cfg st n k (p, st', w')"
  by (simp_all add: alloc_result_def)

lemma h_calloc_ok:
  assumes "ready cfg st w" "4096 dvd CONFIG_CLASS_REGION_SIZE cfg" "sane_kernel os"
  shows "all_o (\<lambda>(p, s). alloc_result cfg st (unat (adjust_size_for_canary cfg (nmemb * sz))) 4 (p, s) \<and>
      (p \<noteq> NULL \<longrightarrow> unat (nmemb * sz) = unat nmemb * unat sz)) (h_calloc cfg os pl st nmemb sz w)"
proof (cases "2 ^ 64 \<le> unat nmemb * unat sz")
  case True
  then show ?thesis using alloc_result_fail [OF assms(1)] by (simp add: h_calloc_def builtin_mul_overflow_def)
next
  case False
  then have "unat (nmemb * sz) = unat nmemb * unat sz" by (simp add: unat_mult_lt)
  with False show ?thesis
    by (auto simp: h_calloc_def builtin_mul_overflow_def Let_def intro!: all_o_bind [OF alloc_ok [OF assms]])
qed

lemma h_calloc_result:
  assumes "ready cfg st w" "4096 dvd CONFIG_CLASS_REGION_SIZE cfg" "sane_kernel os"
  shows "all_o (alloc_result cfg st (unat (adjust_size_for_canary cfg (nmemb * sz))) 4) (h_calloc cfg os pl st nmemb sz w)"
  by (rule all_o_mono [OF h_calloc_ok [OF assms]]) auto

section \<open>Aligned allocation\<close>

lemma power_of_two:
  fixes alignment :: size_t
  assumes "(alignment - 1) AND alignment = 0" "alignment \<noteq> 0"
  obtains k where "alignment = 2 ^ k" "k < 64"
proof -
  have "0 < unat alignment" using assms(2) by (simp add: unat_gt_0)
  then obtain k where k: "2 ^ k \<le> unat alignment" "unat alignment < 2 ^ Suc k" using ex_log2 by blast
  then have u: "unat alignment = 2 ^ k" using and_minus_1_eq_0_iff [OF k] assms(1) by (simp add: and.commute)
  have "(2::nat) ^ k < 2 ^ 64" unfolding u [symmetric] by (rule unat_lt_pow) simp
  from power_less_imp_less_exp [OF _ this] have "k < 64" by simp
  moreover have "alignment = 2 ^ k" using u \<open>k < 64\<close> by (simp add: word_unat_eq_iff unat_2p)
  ultimately show ?thesis using that by blast
qed

text \<open>
  The result of the aligned allocators: \<^verbatim>\<open>EINVAL\<close> exactly for an alignment that is no power of two or too small,
  \<^verbatim>\<open>ENOMEM\<close> with the heap as before, or an aligned address.
\<close>

definition valid_alignment :: "size_t \<Rightarrow> size_t \<Rightarrow> nat \<Rightarrow> bool" where
  "valid_alignment alignment min_alignment k \<longleftrightarrow> alignment = 2 ^ k \<and> k < 64 \<and> min_alignment \<le> alignment"

definition aligned_result ::
    "config \<Rightarrow> state \<Rightarrow> size_t \<Rightarrow> size_t \<Rightarrow> nat \<Rightarrow> (errno + ptr) \<times> state \<times> world \<Rightarrow> bool" where
  "aligned_result cfg st alignment min_alignment n r \<longleftrightarrow>
     (case r of
        (Inl e, st', w') \<Rightarrow>
          (if \<exists>k. valid_alignment alignment min_alignment k then e = ENOMEM else e = EINVAL) \<and>
          alloc_result cfg st 0 0 (NULL, st', w')
      | (Inr p, st', w') \<Rightarrow>
          p \<noteq> NULL \<and> (\<exists>k. valid_alignment alignment min_alignment k \<and> alloc_result cfg st n k (p, st', w')))"

lemma alloc_result_null: "alloc_result cfg st n k (NULL, st', w') \<longleftrightarrow> alloc_result cfg st 0 0 (NULL, st', w')"
  by (simp add: alloc_result_def fits_def)

lemma valid_alignment_iff:
  assumes "0 < min_alignment"
  shows "(\<exists>k. valid_alignment alignment min_alignment k) \<longleftrightarrow>
    \<not> ((alignment - 1) AND alignment \<noteq> 0 \<or> alignment < min_alignment)"
proof
  assume "\<exists>k. valid_alignment alignment min_alignment k"
  then obtain k where k: "alignment = 2 ^ k" "k < 64" "min_alignment \<le> alignment" by (auto simp: valid_alignment_def)
  have "unat alignment = 2 ^ k" using k by (simp add: unat_2p)
  then have "(alignment - 1) AND alignment = 0"
    using and_minus_1_eq_0_iff [of k alignment] by (simp add: and.commute)
  with k(3) show "\<not> ((alignment - 1) AND alignment \<noteq> 0 \<or> alignment < min_alignment)" by auto
next
  assume a: "\<not> ((alignment - 1) AND alignment \<noteq> 0 \<or> alignment < min_alignment)"
  then have "(alignment - 1) AND alignment = 0" "alignment \<noteq> 0" using assms by auto
  then obtain k where "alignment = 2 ^ k" "k < 64" by (rule power_of_two)
  with a show "\<exists>k. valid_alignment alignment min_alignment k" by (auto simp: valid_alignment_def)
qed

lemma aligned_resultI:
  assumes "valid_alignment alignment min_alignment k" "alloc_result cfg st n k (p, st', w')"
  shows "aligned_result cfg st alignment min_alignment n (if p = NULL then Inl ENOMEM else Inr p, st', w')"
  using assms alloc_result_null [of cfg st n k st' w'] by (auto simp: aligned_result_def)

lemma aligned_small_size:
  assumes "k \<le> 12"
  shows "all_o (\<lambda>n. unat sz \<le> unat n \<and>
      (n \<le> max_slab_size_class cfg \<longrightarrow> 2 ^ k dvd (if n = 0 then 16 else unat (si_size (get_size_info n)))))
    (if sz \<le> max_slab_size_class cfg \<and> 2 ^ k > min_align
     then bind_o (get_size_info_align cfg sz (2 ^ k)) (\<lambda>info. Returned (si_size info)) else Returned sz)"
proof (cases "sz \<le> max_slab_size_class cfg \<and> 2 ^ k > min_align")
  case True
  then obtain j where j: "1 \<le> j" "serves cfg sz k j"
    "get_size_info_align cfg sz (2 ^ k) = Returned \<lparr>si_size = of_nat (class_size cfg j), si_class = of_nat j\<rparr>"
    using get_size_info_align_finds [of sz cfg k] assms by blast
  have N: "j < N_SIZE_CLASSES cfg" using j(2) by (simp add: serves_def)
  have "class_size cfg j < 2 ^ 64" using class_size_max [OF N] by (auto simp: max_slab_size_class_def split: if_splits)
  then have u: "unat (of_nat (class_size cfg j) :: size_t) = class_size cfg j" by (simp add: unat_of_nat)
  have "class_size cfg 0 < class_size cfg j" using j(1) N by (intro class_size_mono) simp_all
  with True j get_size_info_class_size [OF j(1) N u] u show ?thesis
    by (auto simp: serves_def)
next
  case False
  show ?thesis
  proof (cases "sz \<le> max_slab_size_class cfg")
    case True
    with False have le: "2 ^ k \<le> min_align" by simp
    have "k \<le> 4"
    proof (rule ccontr)
      assume "\<not> k \<le> 4"
      then have "(2::nat) ^ 5 \<le> 2 ^ k" by (intro power_increasing) auto
      with le assms show False by (simp add: word_le_nat_alt unat_2p min_align_def)
    qed
    then have "(2::nat) ^ k dvd 2 ^ 4" by (rule le_imp_power_dvd)
    with False size_info_16 [of sz cfg] show ?thesis by (auto elim: dvd_trans)
  qed (use False in auto)
qed

lemma allocate_aligned_ok:
  assumes "heap_inv cfg st w" "a < N_ARENA cfg" "sane_kernel os" "0 < min_alignment"
  shows "all_o (aligned_result cfg st alignment min_alignment (unat sz))
    (allocate_aligned cfg os st a alignment sz min_alignment w)"
proof (cases "(alignment - 1) AND alignment \<noteq> 0 \<or> alignment < min_alignment")
  case True
  then show ?thesis
    using valid_alignment_iff [OF assms(4), of alignment] alloc_result_fail [of cfg st w] assms(1)
    by (simp add: allocate_aligned_def aligned_result_def ready_def)
next
  case False
  then obtain k where va: "valid_alignment alignment min_alignment k" using valid_alignment_iff [OF assms(4)] by blast
  then have k: "alignment = 2 ^ k" "k < 64" by (simp_all add: valid_alignment_def)
  have page: "alignment \<le> PAGE_SIZE \<longleftrightarrow> k \<le> 12"
    using k power_le_imp_le_exp [of "2::nat" k 12] power_increasing [of k 12 "2::nat"]
    by (auto simp: word_le_nat_alt unat_2p)
  show ?thesis
  proof (cases "k \<le> 12")
    case True
    show ?thesis
      unfolding allocate_aligned_def if_not_P [OF False] if_P [OF page [THEN iffD2, OF True]]
      unfolding k(1)
    proof (rule all_o_bind [OF aligned_small_size [OF True]])
      fix n assume n: "unat sz \<le> unat n \<and>
        (n \<le> max_slab_size_class cfg \<longrightarrow> 2 ^ k dvd (if n = 0 then 16 else unat (si_size (get_size_info n))))"
      have al: "all_o (alloc_result cfg st (unat n) k) (allocate cfg os st a n w)"
        by (rule all_oI) (use allocate_result [OF _ assms(1-3) True] n in auto)
      show "all_o (aligned_result cfg st (2 ^ k) min_alignment (unat sz))
        (bind_o (allocate cfg os st a n w) (\<lambda>(p, st, w). Returned (if p = NULL then Inl ENOMEM else Inr p, st, w)))"
        by (rule all_o_bind [OF al])
          (use aligned_resultI [OF va [unfolded k(1)] alloc_result_mono] n in auto)
    qed
  next
    case big: False
    have fresh: "\<And>n. fresh_mmap os w n" using assms(3) by (simp add: sane_kernel_def)
    have np: "\<not> alignment \<le> PAGE_SIZE" using page big by simp
    have "12 \<le> k" using big by simp
    then have al: "all_o (\<lambda>(p, ra, w'). alloc_result cfg st (unat sz) k (p, st\<lparr>st_region_allocator := ra\<rparr>, w'))
      (allocate_large_aligned cfg os (st_region_allocator st) alignment sz w)"
      using allocate_large_aligned_ok [OF _ heap_invD(6) [OF assms(1)] k(1) _ k(2) fresh]
        large_alloc_result [OF assms(1)] by (intro all_oI) fastforce
    show ?thesis
      unfolding allocate_aligned_def if_not_P [OF False] if_not_P [OF np]
      by (rule all_o_bind [OF al]) (use aligned_resultI [OF va] in auto)
  qed
qed

lemma aligned_result_mono:
  "aligned_result cfg st alignment min_alignment n r \<Longrightarrow> m \<le> n \<Longrightarrow> aligned_result cfg st alignment min_alignment m r"
  using alloc_result_mono [of cfg st n _ _ m]
  by (fastforce simp: aligned_result_def split: prod.splits sum.splits)

lemma continues_aligned:
  "continues cfg st st' \<Longrightarrow> aligned_result cfg st' alignment min_alignment n r \<Longrightarrow> aligned_result cfg st alignment min_alignment n r"
  using continues_alloc by (fastforce simp: aligned_result_def split: prod.splits sum.splits)

lemma alloc_aligned_ok:
  assumes "ready cfg st w" "4096 dvd CONFIG_CLASS_REGION_SIZE cfg" "sane_kernel os" "0 < min_alignment"
  shows "all_o (aligned_result cfg st alignment min_alignment (unat (adjust_size_for_canary cfg sz)))
    (alloc_aligned cfg os pl st alignment sz min_alignment w)"
  unfolding alloc_aligned_def
  by (rule init_then [OF assms(1-3)], rule all_o_mono [OF allocate_aligned_ok [OF _ _ assms(3,4)]], assumption+)
    (erule continues_aligned, assumption)

text \<open>The functions that return a pointer and set \<^verbatim>\<open>errno\<close>.\<close>

lemma alloc_aligned_simple_ok:
  assumes "ready cfg st w" "4096 dvd CONFIG_CLASS_REGION_SIZE cfg" "sane_kernel os" "alignment = 2 ^ k" "k < 64"
  shows "all_o (alloc_result cfg st (unat (adjust_size_for_canary cfg sz)) k) (alloc_aligned_simple cfg os pl st alignment sz w)"
proof -
  have va: "valid_alignment alignment 1 j \<longleftrightarrow> j = k" for j
  proof
    assume "valid_alignment alignment 1 j"
    then have "unat (2 ^ j :: size_t) = unat (2 ^ k :: size_t)" "j < 64" using assms(4) by (simp_all add: valid_alignment_def)
    then have "(2::nat) ^ j = 2 ^ k" using assms(5) by (simp add: unat_2p)
    then show "j = k" by simp
  next
    assume "j = k"
    then show "valid_alignment alignment 1 j"
      using assms(4,5) unat_2p [of k, where 'a = 64] by (simp add: valid_alignment_def word_le_nat_alt)
  qed
  show ?thesis
    unfolding alloc_aligned_simple_def
    by (rule all_o_bind [OF alloc_aligned_ok [OF assms(1-3), of 1 alignment sz]])
      (auto simp: aligned_result_def va alloc_result_null [of cfg st "unat (adjust_size_for_canary cfg sz)" k] split: sum.splits)
qed

lemma alloc_aligned_simple_invalid:
  assumes "ready cfg st w" "4096 dvd CONFIG_CLASS_REGION_SIZE cfg" "sane_kernel os" "\<nexists>k. alignment = 2 ^ k \<and> k < 64"
  shows "all_o (\<lambda>(p, st', w'). p = NULL \<and> w_errno w' = EINVAL \<and> alloc_result cfg st 0 0 (p, st', w'))
    (alloc_aligned_simple cfg os pl st alignment sz w)"
proof -
  have errno: "w_errno (set_errno e w) = e" for e w by (simp add: set_errno_def)
  have va: "\<not> valid_alignment alignment 1 j" for j using assms(4) by (auto simp: valid_alignment_def)
  show ?thesis
    unfolding alloc_aligned_simple_def
    by (rule all_o_bind [OF alloc_aligned_ok [OF assms(1-3), of 1 alignment sz]])
      (auto simp: aligned_result_def va errno split: sum.splits)
qed

lemma h_pvalloc_ok:
  assumes "ready cfg st w" "4096 dvd CONFIG_CLASS_REGION_SIZE cfg" "sane_kernel os"
  shows "all_o (alloc_result cfg st (page_round sz) 12) (h_pvalloc cfg os pl st sz w)"
proof -
  have pg: "PAGE_SIZE = (2 ^ 12 :: size_t)" by simp
  have simple: "all_o (alloc_result cfg st (unat n) 12) (alloc_aligned_simple cfg os pl st PAGE_SIZE n w)" for n pl
    by (rule all_o_mono [OF alloc_aligned_simple_ok [OF assms pg]])
      (simp, rule alloc_result_mono, assumption, rule adjust_size_room, simp)
  consider "sz = 0" | "sz \<noteq> 0" "page_align sz = 0" | "page_align sz \<noteq> 0" by blast
  then show ?thesis
  proof cases
    case 1
    then show ?thesis using simple [of 0 pl] by (simp add: h_pvalloc_def page_round_def)
  next
    case 2
    then show ?thesis using alloc_result_fail [OF assms(1)] by (simp add: h_pvalloc_def)
  next
    case 3
    then have "sz \<noteq> 0" using page_align_nonzero(1) [of sz] by (auto simp: page_align_def align_def)
    then show ?thesis
      using 3 simple [of "page_align sz" pl] page_align_nonzero(1) [OF 3] by (simp add: h_pvalloc_def Let_def)
  qed
qed

section \<open>Deallocation\<close>

definition free_result :: "config \<Rightarrow> state \<Rightarrow> ptr \<Rightarrow> state \<times> world \<Rightarrow> bool" where
  "free_result cfg st p r \<longleftrightarrow>
     (case r of (st', w') \<Rightarrow>
        heap_inv cfg st' w' \<and> p \<in> heap_live cfg st \<and> heap_live cfg st' = heap_live cfg st - {p} \<and> keeps_blocks cfg st st')"

lemma free_result_errno [simp]: "free_result cfg st p (st', set_errno e w') = free_result cfg st p (st', w')"
  by (simp add: free_result_def)

lemma deallocate_small_result:
  assumes "heap_inv cfg st w" "in_slab_region st p"
  shows "all_o (free_result cfg st p) (deallocate_small cfg os st p e w)"
proof (rule all_oI)
  fix r assume "deallocate_small cfg os st p e w = Returned r"
  moreover obtain st' w' where r: "r = (st', w')" by (cases r)
  ultimately have d: "deallocate_small cfg os st p e w = Returned (st', w')" by simp
  then obtain a k c where "st' = upd_class a k c st"
    unfolding deallocate_small_def Let_def by (auto simp: outcome_simps)
  then have "keeps_blocks cfg st st'" by (simp add: keeps_blocks_def)
  with deallocate_small_ok [OF d assms] show "free_result cfg st p r" by (simp add: free_result_def r)
qed

lemma deallocate_large_result:
  assumes "heap_inv cfg st w"
  shows "all_o (free_result cfg st p) (deallocate_large cfg os st p e w)"
proof (rule all_oI)
  fix r assume "deallocate_large cfg os st p e w = Returned r"
  moreover obtain st' w' where r: "r = (st', w')" by (cases r)
  ultimately have d: "deallocate_large cfg os st p e w = Returned (st', w')" by simp
  then obtain ra where rel: "release_region cfg os (st_region_allocator st) p e w = Returned (ra, w')"
    and st': "st' = st\<lparr>st_region_allocator := ra\<rparr>"
    unfolding deallocate_large_def by (auto simp: outcome_simps)
  note m = release_region_ok(3) [OF rel heap_invD(6) [OF assms]]
  note ok = deallocate_large_ok [OF d assms]
  have "block_size cfg st' q = block_size cfg st q" if "q \<in> heap_live cfg st'" for q
    using that ok(3) unfolding st' block_size_regions m by (auto simp: block_size_def)
  with ok show "free_result cfg st p r" by (auto simp: free_result_def keeps_blocks_def r) (simp_all add: st')
qed

lemma uninitialised_free:
  assumes "ready cfg st w" "\<not> heap_inv cfg st w"
  shows "\<not> in_slab_region st p" "free_large cfg os st p e w = Aborted ''invalid uninitialized allocator usage''"
proof -
  have "zeroed cfg st" using assms by (simp add: ready_def uninitialised_def)
  then show "\<not> in_slab_region st p" "free_large cfg os st p e w = Aborted ''invalid uninitialized allocator usage''"
    by (simp_all add: zeroed_def in_slab_region_def free_large_def deallocate_large_def enforce_init_def is_init_def Let_def)
qed

lemma free_large_result: "ready cfg st w \<Longrightarrow> all_o (free_result cfg st p) (free_large cfg os st p e w)"
proof (cases "heap_inv cfg st w")
  case True
  then show ?thesis unfolding free_large_def Let_def by (intro all_o_bind [OF deallocate_large_result]) auto
qed (simp add: uninitialised_free)

lemma free_small_result:
  "ready cfg st w \<Longrightarrow> in_slab_region st p \<Longrightarrow> all_o (free_result cfg st p) (deallocate_small cfg os st p e w)"
  using deallocate_small_result uninitialised_free(1) by blast

lemma h_free_result: "ready cfg st w \<Longrightarrow> p \<noteq> NULL \<Longrightarrow> all_o (free_result cfg st p) (h_free cfg os st p w)"
  using free_small_result free_large_result by (simp add: h_free_def)

lemma h_free_sized_result:
  "ready cfg st w \<Longrightarrow> p \<noteq> NULL \<Longrightarrow> all_o (free_result cfg st p) (h_free_sized cfg os st p n w)"
  using free_small_result free_large_result by (simp add: h_free_sized_def Let_def)

lemma h_free_aligned_sized_result:
  assumes "ready cfg st w" "p \<noteq> NULL"
  shows "all_o (free_result cfg st p) (h_free_aligned_sized cfg os st p alignment n w)"
proof -
  have "all_o (free_result cfg st p) (bind_o m (\<lambda>info. deallocate_small cfg os st p (Some (si_size info)) w))"
    if "in_slab_region st p" for m
    by (cases m) (simp_all add: free_small_result [OF assms(1) that])
  then show ?thesis
    using assms free_large_result [OF assms(1)] free_small_result [OF assms(1)]
    by (auto simp: h_free_aligned_sized_def Let_def)
qed

text \<open>A null pointer is never live, and an address that is not live ends the process.\<close>

lemma heap_live_nonnull:
  assumes "heap_inv cfg st w"
  shows "NULL \<notin> heap_live cfg st"
proof
  assume "NULL \<in> heap_live cfg st"
  then show False
  proof (cases rule: heap_live_cases)
    case (small a k)
    then have "in_slab_region st NULL" using slab_live_address(1) [OF assms] by blast
    then show False
      unfolding in_slab_region_nat [OF assms] using heap_invD(2) [OF assms] by (auto simp: region_placed_def unat_eq_zero)
  next
    case (large e)
    note inv = large_invD [OF heap_invD(6) [OF assms]]
    show False by (rule regions_find_ok [OF inv(2), of NULL]) (use large in \<open>auto split: option.splits\<close>)
  qed
qed

text \<open>The messages with which an invalid address is refused.\<close>

definition free_errors :: "string set" where
  "free_errors =
     {''sized deallocation mismatch (small)'', ''invalid free within a slab yet to be used'', ''invalid unaligned free'',
      ''double free'', ''canary corrupted'', ''double free (quarantine)''}
     \<union> {''invalid free'', ''invalid uninitialized allocator usage'', ''invalid sized deallocation alignment (small)''}"

lemma free_errorsI:
  "''sized deallocation mismatch (small)'' \<in> free_errors" "''invalid free'' \<in> free_errors"
  "''invalid uninitialized allocator usage'' \<in> free_errors" "''invalid sized deallocation alignment (small)'' \<in> free_errors"
  unfolding free_errors_def
  by (rule UnI1, rule insertI1) (rule UnI2, rule insertI1, rule UnI2, rule insertI2, rule insertI1,
    rule UnI2, rule insertI2, rule insertI2, rule insertI1)

lemma deallocate_small_rejects:
  assumes "heap_inv cfg st w" "in_slab_region st p" "p \<notin> heap_live cfg st"
  shows "\<exists>msg \<in> free_errors. deallocate_small cfg os st p e w = Aborted msg"
proof -
  obtain a k where ak: "a < N_ARENA cfg" "k < N_SIZE_CLASSES cfg" "slab_size_class cfg st p = \<lparr>ssci_arena = a, ssci_class = k\<rparr>"
    by (rule slab_address_class [OF assms(1,2)])
  have "p \<notin> live (the_class st a k)" using assms(3) ak(1,2) by (auto simp: heap_live_def slab_live_def)
  from deallocate_small_class_rejects [OF heap_invD(4) [OF assms(1) ak(1,2)] this, of os k e w]
  show ?thesis
  proof (elim exE conjE)
    fix msg assume "deallocate_small_class cfg os (the_class st a k) k p e w = Aborted msg"
      and m: "msg \<in> {''sized deallocation mismatch (small)'', ''invalid free within a slab yet to be used'',
        ''invalid unaligned free'', ''double free'', ''canary corrupted'', ''double free (quarantine)''}"
    then have "deallocate_small cfg os st p e w = Aborted msg" by (simp only: deallocate_small_def Let_def ak(3)
      slab_size_class_info.simps bind_o.simps)
    moreover have "msg \<in> free_errors" unfolding free_errors_def by (rule UnI1 [OF m])
    ultimately show ?thesis by blast
  qed
qed

lemma free_large_rejects:
  assumes "ready cfg st w" "p \<notin> heap_live cfg st"
  shows "\<exists>msg \<in> free_errors. free_large cfg os st p e w = Aborted msg"
proof (cases "heap_inv cfg st w")
  case True
  have "region_map (st_region_allocator st) p = None" using assms(2) by (auto simp: heap_live_def)
  from release_region_rejects [OF large_invD(2) [OF heap_invD(6) [OF True]] this]
  have "free_large cfg os st p e w = Aborted ''invalid free''"
    using heap_inv_is_init [OF True] by (simp add: free_large_def deallocate_large_def enforce_init_def Let_def)
  with free_errorsI(2) show ?thesis by (rule bexI [rotated])
next
  case False
  from uninitialised_free(2) [OF assms(1) this] free_errorsI(3) show ?thesis by (rule bexI)
qed

lemma free_small_rejects:
  assumes "ready cfg st w" "in_slab_region st p" "p \<notin> heap_live cfg st"
  shows "\<exists>msg \<in> free_errors. deallocate_small cfg os st p e w = Aborted msg"
  using deallocate_small_rejects [OF _ assms(2,3)] uninitialised_free(1) [OF assms(1)] assms(2) by blast

lemma h_free_rejects:
  assumes "ready cfg st w" "p \<noteq> NULL" "p \<notin> heap_live cfg st"
  shows "\<exists>msg \<in> free_errors. h_free cfg os st p w = Aborted msg"
    "\<exists>msg \<in> free_errors. h_free_sized cfg os st p n w = Aborted msg"
  using free_small_rejects [OF assms(1) _ assms(3)] assms(2) free_errorsI free_large_rejects [OF assms(1,3)]
  unfolding h_free_def h_free_sized_def Let_def by (simp_all split: if_split)

section \<open>Reallocation\<close>

text \<open>
  A failed reallocation leaves the old block alone; otherwise the old address is exchanged for the new one, which
  may be the same, and every other block is as before.
\<close>

definition realloc_result :: "config \<Rightarrow> state \<Rightarrow> ptr \<Rightarrow> nat \<Rightarrow> ptr \<times> state \<times> world \<Rightarrow> bool" where
  "realloc_result cfg st old n r \<longleftrightarrow>
     (case r of (p, st', w') \<Rightarrow>
        heap_inv cfg st' w' \<and>
        (if p = NULL then heap_live cfg st' = heap_live cfg st \<and> keeps_blocks cfg st st'
         else (p = old \<or> p \<notin> heap_live cfg st) \<and> heap_live cfg st' = insert p (heap_live cfg st - {old}) \<and>
           (\<forall>q \<in> heap_live cfg st - {old}. block_size cfg st' q = block_size cfg st q) \<and> n \<le> block_size cfg st' p))"

lemma realloc_result_same:
  assumes "heap_inv cfg st w" "old \<in> heap_live cfg st" "n \<le> block_size cfg st old"
  shows "realloc_result cfg st old n (old, st, w)"
  using assms heap_live_nonnull [OF assms(1)] by (auto simp: realloc_result_def insert_absorb)

text \<open>A new allocation, then the release of the old one, whether or not the old address was live.\<close>

definition realloc_ok :: "config \<Rightarrow> state \<Rightarrow> ptr \<Rightarrow> nat \<Rightarrow> ptr \<times> state \<times> world \<Rightarrow> bool" where
  "realloc_ok cfg st old n r \<longleftrightarrow>
     (case r of (p, st', w') \<Rightarrow> ready cfg st' w') \<and> (old \<in> heap_live cfg st \<longrightarrow> realloc_result cfg st old n r)"

lemma free_after_alloc:
  assumes "allocated cfg st new st1" "keeps_blocks cfg st st1" "fits cfg st1 new n k" "new \<noteq> NULL"
    and "free_result cfg st1 old (st2, w2)"
  shows "realloc_ok cfg st old n (new, st2, w2)"
proof -
  have new: "new \<notin> heap_live cfg st" "heap_live cfg st1 = insert new (heap_live cfg st)"
    using assms(1,4) by (simp_all add: allocated_def)
  have inv2: "heap_inv cfg st2 w2" using assms(5) by (simp add: free_result_def)
  have "realloc_result cfg st old n (new, st2, w2)" if old: "old \<in> heap_live cfg st"
  proof -
    have live2: "heap_live cfg st2 = insert new (heap_live cfg st - {old})"
      using assms(5) new old by (auto simp: free_result_def)
    have bs: "block_size cfg st2 q = block_size cfg st1 q" if "q \<in> insert new (heap_live cfg st - {old})" for q
      using assms(5) that live2 new(2) by (auto simp: free_result_def keeps_blocks_def)
    have "n \<le> block_size cfg st2 new" using bs [of new] assms(3,4) by (simp add: fits_def)
    moreover have "block_size cfg st2 q = block_size cfg st q" if "q \<in> heap_live cfg st - {old}" for q
      using bs [of q] assms(2) that new(2) by (simp add: keeps_blocks_def)
    ultimately show ?thesis unfolding realloc_result_def using inv2 live2 new(1) assms(4) by simp
  qed
  then show ?thesis using inv2 by (simp add: realloc_ok_def ready_def)
qed

lemma allocate_copy_free:
  assumes "heap_inv cfg st w" "all_o (alloc_result cfg st n k) allocation"
  shows "all_o (realloc_ok cfg st old n) (bind_o allocation (\<lambda>(new, st', w').
    if new = NULL then Returned (NULL, st', w')
    else bind_o (if in_slab_region st old then deallocate_small cfg os st' old None (w'\<lparr>w_mem := m new w'\<rparr>)
            else deallocate_large cfg os st' old None (w'\<lparr>w_mem := m new w'\<rparr>)) (\<lambda>(st', w'). Returned (new, st', w'))))"
proof (rule all_o_bind [OF assms(2)])
  fix r assume "alloc_result cfg st n k r"
  moreover obtain new st1 w1 where r: "r = (new, st1, w1)" by (cases r)
  ultimately have al: "ready cfg st1 w1" "allocated cfg st new st1" "keeps_blocks cfg st st1" "fits cfg st1 new n k"
    by (simp_all add: alloc_result_def)
  show "all_o (realloc_ok cfg st old n) (case r of (new, st', w') \<Rightarrow>
    if new = NULL then Returned (NULL, st', w')
    else bind_o (if in_slab_region st old then deallocate_small cfg os st' old None (w'\<lparr>w_mem := m new w'\<rparr>)
            else deallocate_large cfg os st' old None (w'\<lparr>w_mem := m new w'\<rparr>)) (\<lambda>(st', w'). Returned (new, st', w')))"
  proof (cases "new = NULL")
    case True
    then show ?thesis using al ready_live [OF al(1), of old] by (simp add: r realloc_ok_def realloc_result_def allocated_def)
  next
    case False
    have "new \<in> heap_live cfg st1" using al(2) False by (simp add: allocated_def)
    then have inv1: "heap_inv cfg st1 (w1\<lparr>w_mem := m new w1\<rparr>)" using ready_live [OF al(1)] by simp
    have region: "in_slab_region st1 = in_slab_region st"
      using al(3) heap_inv_is_init [OF assms(1)] by (simp add: keeps_blocks_def)
    have free: "all_o (free_result cfg st1 old) (if in_slab_region st old then deallocate_small cfg os st1 old None (w1\<lparr>w_mem := m new w1\<rparr>)
      else deallocate_large cfg os st1 old None (w1\<lparr>w_mem := m new w1\<rparr>))"
      using deallocate_large_result [OF inv1] deallocate_small_result [OF inv1] region by auto
    have "all_o (realloc_ok cfg st old n) (bind_o (if in_slab_region st old
        then deallocate_small cfg os st1 old None (w1\<lparr>w_mem := m new w1\<rparr>)
        else deallocate_large cfg os st1 old None (w1\<lparr>w_mem := m new w1\<rparr>)) (\<lambda>(st', w'). Returned (new, st', w')))"
      by (intro all_o_bind [OF free]) (auto intro: free_after_alloc [OF al(2-4) False])
    then show ?thesis using False by (simp add: r)
  qed
qed

lemma realloc_copy_ok:
  assumes "heap_inv cfg st w" "4096 dvd CONFIG_CLASS_REGION_SIZE cfg" "sane_kernel os"
  shows "all_o (realloc_ok cfg st old (unat sz)) (realloc_copy cfg os pl st old old_size (in_slab_region st old) sz w)"
  unfolding realloc_copy_def Let_def
proof (rule init_then [OF _ assms(2,3)], simp add: ready_def assms(1), rule allocate_copy_free [OF assms(1), where k = 4])
  fix a st0 w0 assume a: "a < N_ARENA cfg" "heap_inv cfg st0 w0" "continues cfg st st0"
  show "all_o (alloc_result cfg st (unat sz) 4) (allocate cfg os st0 a sz w0)"
    by (rule all_o_mono [OF allocate_16 [OF a(2,1) assms(3)] continues_alloc [OF a(3)]])
qed

text \<open>In place, and by moving pages.\<close>

lemma slab_live_regions [simp]: "slab_live cfg (st\<lparr>st_region_allocator := ra\<rparr>) = slab_live cfg st"
  by (simp add: slab_live_def)

lemma region_set_size_result:
  assumes "heap_inv cfg st w" "region_map (st_region_allocator st) old = Some e"
    and "large_inv cfg {#slab_extent cfg st#} ra w'" "4096 dvd unat sz"
    and "region_map ra = (region_map (st_region_allocator st))(old \<mapsto> e\<lparr>rm_size := sz\<rparr>)"
  shows "realloc_result cfg st old (unat sz) (old, st\<lparr>st_region_allocator := ra\<rparr>, w')"
proof -
  let ?st = "st\<lparr>st_region_allocator := ra\<rparr>"
  have old: "old \<in> heap_live cfg st" "old \<noteq> NULL" "\<not> in_slab_region st old"
    using assms(2) heap_live_nonnull [OF assms(1)] large_not_slab [OF assms(1,2)] by (auto simp: heap_live_def)
  have "whole_pages (e\<lparr>rm_size := sz\<rparr>)" using assms(4) by (simp add: whole_pages_def)
  then have "heap_inv cfg ?st w'"
    using regions_update_inv [OF assms(1,3)] whole_pages_put [OF heap_invD(7) [OF assms(1)]] assms(5) by simp
  moreover have "heap_live cfg ?st = heap_live cfg st"
    using assms(2,5) by (auto simp: regions_update_live heap_live_def)
  moreover have "block_size cfg ?st q = block_size cfg st q" if "q \<noteq> old" for q
    using that by (simp add: block_size_regions assms(5)) (simp add: block_size_def)
  moreover have "block_size cfg ?st old = unat sz" using old(3) by (simp add: block_size_regions assms(5))
  ultimately show ?thesis using old(1,2) by (auto simp: realloc_result_def insert_absorb)
qed

lemma region_replace_result:
  assumes "heap_inv cfg st w" "region_map (st_region_allocator st) old = Some e"
    and "large_inv cfg {#slab_extent cfg st#} ra w'" "p \<noteq> NULL" "region_map (st_region_allocator st) p = None"
    and "region_map ra = (region_map (st_region_allocator st))
      (p \<mapsto> \<lparr>rm_p = p, rm_size = get_large_size_class cfg sz, rm_guard_size = g\<rparr>, old := None)"
  shows "realloc_result cfg st old (unat sz) (p, st\<lparr>st_region_allocator := ra\<rparr>, w')"
proof -
  let ?st = "st\<lparr>st_region_allocator := ra\<rparr>" and ?e = "\<lparr>rm_p = p, rm_size = get_large_size_class cfg sz, rm_guard_size = g\<rparr>"
  have old: "old \<in> heap_live cfg st" "\<not> in_slab_region st old" "p \<noteq> old"
    using assms(2,5) large_not_slab [OF assms(1,2)] by (auto simp: heap_live_def)
  have e: "region_map ra p = Some ?e" using old(3) assms(6) by simp
  have "\<forall>e \<in> ran (region_map ra). whole_pages e"
    unfolding assms(6) by (intro whole_pages_del whole_pages_put heap_invD(7) [OF assms(1)] large_size_whole_pages)
  then have inv: "heap_inv cfg ?st w'" by (rule regions_update_inv [OF assms(1,3)])
  then have p: "\<not> in_slab_region st p" using large_not_slab [of cfg ?st w' p ?e] e by simp
  have "slab_live cfg st \<inter> {p, old} = {}" using slab_live_region [OF assms(1)] p old(2) by blast
  then have "heap_live cfg ?st = insert p (heap_live cfg st - {old})" "p \<notin> heap_live cfg st"
    using assms(2,5,6) old(3) unfolding heap_live_def by auto
  moreover have "block_size cfg ?st q = block_size cfg st q" if "q \<noteq> old" "q \<noteq> p" for q
    using that by (simp add: block_size_regions assms(6)) (simp add: block_size_def)
  moreover have "unat sz \<le> block_size cfg ?st p"
  proof -
    have "region_shape ?e" using large_invD(3) [OF assms(3)] e by (auto simp: ran_def)
    then show ?thesis using large_class(1) [of cfg sz] p e by (simp add: block_size_regions region_shape_def)
  qed
  ultimately show ?thesis using inv assms(4) by (auto simp: realloc_result_def)
qed

lemma realloc_result_fail:
  assumes "heap_inv cfg st w" "large_inv cfg {#slab_extent cfg st#} ra w'" "region_map ra = region_map (st_region_allocator st)"
  shows "realloc_result cfg st old n (NULL, st\<lparr>st_region_allocator := ra\<rparr>, w')"
  using regions_update_inv [OF assms(1,2)] heap_invD(7) [OF assms(1)] assms(3)
  by (simp add: realloc_result_def regions_update_live keeps_blocks_def block_size_regions)
    (simp add: heap_live_def block_size_def)

lemma realloc_okI: "realloc_result cfg st old n r \<Longrightarrow> realloc_ok cfg st old n r"
  by (auto simp: realloc_ok_def realloc_result_def ready_def split: prod.splits)

lemma shrink_region_result:
  assumes "heap_inv cfg st w" "region_map (st_region_allocator st) old = Some e"
    and "max_slab_size_class cfg < sz" "sz < rm_size e" "4096 dvd unat sz"
  shows "all_o (\<lambda>(p, ra, w'). realloc_result cfg st old (unat sz) (p, st\<lparr>st_region_allocator := ra\<rparr>, w'))
    (shrink_region cfg os (st_region_allocator st) old (rm_size e) (rm_guard_size e) sz w)"
proof (rule all_oI)
  fix r assume "shrink_region cfg os (st_region_allocator st) old (rm_size e) (rm_guard_size e) sz w = Returned r"
  moreover obtain p ra w' where r: "r = (p, ra, w')" by (cases r)
  ultimately have s: "shrink_region cfg os (st_region_allocator st) old (rm_size e) (rm_guard_size e) sz w = Returned (p, ra, w')"
    by simp
  have lt: "sz \<noteq> 0" "unat sz < unat (rm_size e)" "16384 < unat (rm_size e)"
    using assms(3,4) by (auto simp: word_less_nat_alt max_slab_size_class_def split: if_splits)
  have "whole_pages e" using heap_invD(7) [OF assms(1)] assms(2) by (auto simp: ran_def)
  with lt(3) have "4096 dvd unat (rm_size e)" by (simp add: whole_pages_def)
  from shrink_region_ok [OF s heap_invD(6) [OF assms(1)] assms(2) lt(1,2) assms(5) this]
  show "case r of (p, ra, w') \<Rightarrow> realloc_result cfg st old (unat sz) (p, st\<lparr>st_region_allocator := ra\<rparr>, w')"
    using realloc_result_fail [OF assms(1)] region_set_size_result [OF assms(1,2) _ assms(5)] by (auto simp: r)
qed

lemma move_region_result:
  assumes "heap_inv cfg st w" "region_map (st_region_allocator st) old = Some e" "sane_kernel os"
  shows "all_o (\<lambda>(p, ra, w'). realloc_result cfg st old (unat sz) (p, st\<lparr>st_region_allocator := ra\<rparr>, w'))
    (move_region cfg os (st_region_allocator st) old (rm_size e) (rm_guard_size e) sz w)"
proof (rule all_oI)
  fix r assume "move_region cfg os (st_region_allocator st) old (rm_size e) (rm_guard_size e) sz w = Returned r"
  moreover obtain p ra w' where r: "r = (p, ra, w')" by (cases r)
  ultimately have m: "move_region cfg os (st_region_allocator st) old (rm_size e) (rm_guard_size e) sz w = Returned (p, ra, w')"
    by simp
  have "\<And>n. fresh_mmap os w n" using assms(3) by (simp add: sane_kernel_def)
  from move_region_ok [OF m heap_invD(6) [OF assms(1)] assms(2) this]
  show "case r of (p, ra, w') \<Rightarrow> realloc_result cfg st old (unat sz) (p, st\<lparr>st_region_allocator := ra\<rparr>, w')"
    using realloc_result_fail [OF assms(1)] region_replace_result [OF assms(1,2)] by (auto simp: r)
qed

lemma realloc_large_ok:
  assumes "heap_inv cfg st w" "4096 dvd CONFIG_CLASS_REGION_SIZE cfg" "sane_kernel os" "\<not> in_slab_region st old"
    and "max_slab_size_class cfg < sz \<Longrightarrow> 4096 dvd unat sz"
  shows "all_o (realloc_ok cfg st old (unat sz)) (realloc_large cfg os pl st old sz w)"
proof -
  let ?ra = "st_region_allocator st"
  have init: "is_init st" by (rule heap_inv_is_init [OF assms(1)])
  obtain r where r: "regions_find ?ra old = Returned r" "case r of None \<Rightarrow> True | Some i \<Rightarrow> region_map ?ra old = Some (ra_regions ?ra i)"
    by (rule regions_find_ok [OF large_invD(2) [OF heap_invD(6) [OF assms(1)]], of old]) (auto split: option.splits)
  show ?thesis
  proof (cases r)
    case None
    then show ?thesis using r init by (simp add: realloc_large_def enforce_init_def Let_def)
  next
    case (Some i)
    let ?e = "ra_regions ?ra i"
    have e: "region_map ?ra old = Some ?e" using r(2) Some by simp
    have "old \<in> heap_live cfg st" "block_size cfg st old = unat (rm_size ?e)"
      using e assms(4) by (auto simp: block_size_def heap_live_def)
    then have same: "realloc_ok cfg st old (unat (rm_size ?e)) (old, st, w)"
      using realloc_okI [OF realloc_result_same [OF assms(1)]] by simp
    have copy: "all_o (realloc_ok cfg st old (unat sz)) (realloc_copy cfg os pl st old (rm_size ?e) False sz w)"
      using realloc_copy_ok [OF assms(1-3), of old sz pl "rm_size ?e"] assms(4) by simp
    note move = move_region_result [OF assms(1) e assms(3), of sz]
    have shrink: "all_o (\<lambda>(p, ra, w'). realloc_result cfg st old (unat sz) (p, st\<lparr>st_region_allocator := ra\<rparr>, w'))
        (shrink_region cfg os ?ra old (rm_size ?e) (rm_guard_size ?e) sz w)"
      if "max_slab_size_class cfg < sz" "sz < rm_size ?e"
      using shrink_region_result [OF assms(1) e that assms(5) [OF that(1)]] .
    show ?thesis
      using init copy same
      by (auto simp: realloc_large_def enforce_init_def r(1) Some Let_def
          intro!: all_o_bind [OF shrink] all_o_bind [OF move] intro: realloc_okI)
  qed
qed

lemma realloc_ok_mono: "realloc_ok cfg st old n r \<Longrightarrow> m \<le> n \<Longrightarrow> realloc_ok cfg st old m r"
  by (auto simp: realloc_ok_def realloc_result_def split: prod.splits if_splits)

lemma h_realloc_init_ok:
  assumes "heap_inv cfg st w" "4096 dvd CONFIG_CLASS_REGION_SIZE cfg" "sane_kernel os" "old \<noteq> NULL"
  shows "all_o (realloc_ok cfg st old (unat (adjust_size_for_canary cfg sz))) (h_realloc cfg os pl st old sz w)"
proof -
  let ?sz = "adjust_size_for_canary cfg sz"
  let ?n = "if max_slab_size_class cfg < ?sz then get_large_size_class cfg ?sz else ?sz"
  show ?thesis
  proof (cases "max_slab_size_class cfg < ?sz \<and> ?n = 0")
    case True
    then show ?thesis
      unfolding h_realloc_def Let_def if_not_P [OF assms(4)] if_P [OF True]
      using assms(1) by (simp add: realloc_ok_def realloc_result_def ready_def keeps_blocks_def)
  next
    case ok: False
    have le: "unat ?sz \<le> unat ?n" using large_class(1) [of cfg ?sz] ok by (auto split: if_splits)
    have pages: "4096 dvd unat ?n" if "max_slab_size_class cfg < ?n"
      using large_class(2) [of cfg ?sz] that ok
      by (auto simp: max_slab_size_class_def word_less_nat_alt split: if_splits)
    have "all_o (realloc_ok cfg st old (unat ?n)) (h_realloc cfg os pl st old sz w)"
    proof (cases "in_slab_region st old")
      case True
      have "unat ?n \<le> block_size cfg st old" if "?n \<le> max_slab_size_class cfg" "si_size (get_size_info ?n) = slab_usable_size cfg st old"
      proof (cases "?n = 0")
        case False
        then have "0 < unat ?n" by (simp add: unat_gt_0)
        from get_size_info_table(3,4) [OF this that(1)] that(2) True show ?thesis by (simp add: block_size_def)
      qed simp
      then have "realloc_ok cfg st old (unat ?n) (old, st, w)"
        if "?n \<le> max_slab_size_class cfg \<and> si_size (get_size_info ?n) = slab_usable_size cfg st old"
        using that realloc_result_same [OF assms(1)] assms(1) by (simp add: realloc_ok_def ready_def)
      then show ?thesis
        unfolding h_realloc_def Let_def if_not_P [OF assms(4)] if_not_P [OF ok] if_P [OF True]
        using realloc_copy_ok [OF assms(1-3), of old ?n pl "slab_usable_size cfg st old"] True by (simp split del: if_split split: if_splits)
    next
      case False
      show ?thesis
        unfolding h_realloc_def Let_def if_not_P [OF assms(4)] if_not_P [OF ok] if_not_P [OF False]
        by (rule realloc_large_ok [OF assms(1-3) False pages])
    qed
    then show ?thesis by (rule all_o_mono) (erule realloc_ok_mono [OF _ le])
  qed
qed

lemma h_realloc_ok:
  assumes "ready cfg st w" "4096 dvd CONFIG_CLASS_REGION_SIZE cfg" "sane_kernel os" "old \<noteq> NULL"
  shows "all_o (realloc_ok cfg st old (unat (adjust_size_for_canary cfg sz))) (h_realloc cfg os pl st old sz w)"
proof (cases "heap_inv cfg st w")
  case True
  then show ?thesis by (rule h_realloc_init_ok [OF _ assms(2-4)])
next
  case False
  then have z: "zeroed cfg st" "ready cfg st w" using assms(1) by (auto simp: ready_def uninitialised_def)
  then have "heap_live cfg st = {}" "\<not> is_init st" "\<not> in_slab_region st old"
    using zeroed_live by (auto simp: zeroed_def is_init_def in_slab_region_def)
  then show ?thesis using assms(4) z(2)
    by (auto simp: h_realloc_def Let_def realloc_large_def enforce_init_def realloc_ok_def)
qed

lemma realloc_ok_usable:
  assumes "realloc_ok cfg st old (unat (adjust_size_for_canary cfg sz)) (p, st', w')" "old \<in> heap_live cfg st" "p \<noteq> NULL"
  shows "unat sz \<le> usable_size cfg st' p"
proof -
  have "heap_inv cfg st' w'" "unat (adjust_size_for_canary cfg sz) \<le> block_size cfg st' p"
    using assms by (auto simp: realloc_ok_def realloc_result_def)
  from adjusted_usable [OF this] show ?thesis .
qed

lemma h_realloc_null: "h_realloc cfg os pl st NULL sz w = h_malloc cfg os pl st sz w"
  by (simp add: h_realloc_def h_malloc_def Let_def)

end
