(* ===== verification/Trim.thy ===== *)
theory Trim
  imports Init
begin

text \<open>
  \<^verbatim>\<open>h_malloc_trim\<close> of \<^verbatim>\<open>src/h_malloc.c\<close>: returning the memory of cached empty slabs, and of slots
  that wait in the quarantine, to the operating system.
\<close>

section \<open>Empty slabs\<close>

text \<open>
  The loop over the list of empty slabs. The head \<^verbatim>\<open>c->empty_slabs\<close> is only written after the loop, with the
  iterator at which it stopped.
\<close>

partial_function (option) trim_loop ::
    "config \<Rightarrow> kernel \<Rightarrow> size_class \<Rightarrow> nat option \<Rightarrow> bool \<Rightarrow> world \<Rightarrow>
     ((size_class \<times> nat option \<times> bool \<times> world) outcome) option" where
  "trim_loop cfg os c iterator is_trimmed w =
     (case iterator of
        None \<Rightarrow> Some (Returned (c, None, is_trimmed, w))
      | Some i \<Rightarrow>
          let slab_size = ucast (sc_slab_size c) :: size_t; slab = get_slab c slab_size i in
          (case memory_map_fixed os slab slab_size w of
             Returned (failed, w') \<Rightarrow>
               if failed then Some (Returned (c, Some i, is_trimmed, w'))
               else
                 let c1 = stats_slab_deallocate cfg c slab_size;
                     next_slab = md_next (sc_slab_info c1 i);
                     c2 = c1\<lparr>sc_empty_slabs_total := sc_empty_slabs_total c1 - slab_size\<rparr> in
                 (case enqueue_free_slab cfg os c2 i w' of
                    Returned (c3, w'') \<Rightarrow> trim_loop cfg os c3 next_slab True w''
                  | Aborted msg \<Rightarrow> Some (Aborted msg)
                  | Diverged \<Rightarrow> None)
           | Aborted msg \<Rightarrow> Some (Aborted msg)
           | Diverged \<Rightarrow> None))"

section \<open>Quarantined slots\<close>

primrec purge_slots :: "kernel \<Rightarrow> size_t \<Rightarrow> ptr list \<Rightarrow> world \<Rightarrow> world outcome" where
  "purge_slots os sz [] w = Returned w"
| "purge_slots os sz (p # ps) w =
     (if p \<noteq> NULL then bind_o (memory_purge os p sz w) (\<lambda>(_, w). purge_slots os sz ps w)
      else purge_slots os sz ps w)"

definition purge_quarantine :: "config \<Rightarrow> kernel \<Rightarrow> size_class \<Rightarrow> world \<Rightarrow> world outcome" where
  "purge_quarantine cfg os c w =
     (let sz = ucast (sc_size c) :: size_t in
      if SLAB_QUARANTINE cfg \<and> CONFIG_EXTENDED_SIZE_CLASSES cfg \<and> sz \<ge> min_extended_size_class then
        let shift = quarantine_shift cfg sz in
        bind_o
          (purge_slots os sz (take (SLAB_QUARANTINE_RANDOM_LENGTH cfg * 2 ^ shift) (sc_quarantine_random c)) w) (\<lambda>w.
           purge_slots os sz (take (SLAB_QUARANTINE_QUEUE_LENGTH cfg * 2 ^ shift) (sc_quarantine_queue c)) w)
      else Returned w)"

section \<open>All classes\<close>

definition trim_class ::
    "config \<Rightarrow> kernel \<Rightarrow> size_class \<Rightarrow> bool \<Rightarrow> world \<Rightarrow> (size_class \<times> bool \<times> world) outcome" where
  "trim_class cfg os c is_trimmed w =
     bind_o (join_o (trim_loop cfg os c (sc_empty_slabs c) is_trimmed w)) (\<lambda>(c, iterator, is_trimmed, w).
       let c = c\<lparr>sc_empty_slabs := iterator\<rparr> in
       bind_o (purge_quarantine cfg os c w) (\<lambda>w. Returned (c, is_trimmed, w)))"

primrec trim_classes ::
    "config \<Rightarrow> kernel \<Rightarrow> (nat \<times> nat) list \<Rightarrow> state \<Rightarrow> bool \<Rightarrow> world \<Rightarrow> (bool \<times> state \<times> world) outcome" where
  "trim_classes cfg os [] st is_trimmed w = Returned (is_trimmed, st, w)"
| "trim_classes cfg os (ak # aks) st is_trimmed w =
     (case ak of (a, k) \<Rightarrow>
        bind_o (trim_class cfg os (st_size_class_metadata st a k) is_trimmed w) (\<lambda>(c, is_trimmed, w).
          trim_classes cfg os aks (upd_class a k c st) is_trimmed w))"

text \<open>The result is \<^verbatim>\<open>is_trimmed\<close>, converted to \<^verbatim>\<open>int\<close> by the code.\<close>

definition h_malloc_trim :: "config \<Rightarrow> kernel \<Rightarrow> state \<Rightarrow> world \<Rightarrow> (bool \<times> state \<times> world) outcome" where
  "h_malloc_trim cfg os st w =
     (if \<not> is_init st then Returned (False, st, w)
      else trim_classes cfg os (List.product [0..<N_ARENA cfg] [1..<N_SIZE_CLASSES cfg]) st False w)"

end
