(* ===== verification/Heap_Trim.thy ===== *)
theory Heap_Trim
  imports Heap_Api Trim
begin

text \<open>
  \<^verbatim>\<open>h_malloc_trim\<close> keeps the invariant, the live addresses and the contents of every block; and it returns.
\<close>

section \<open>Memory that a call may change\<close>

text \<open>
  What Linux documents of \<^verbatim>\<open>MAP_FIXED\<close> mappings and of \<^verbatim>\<open>MADV_DONTNEED\<close>: the contents of the pages they are called
  on are lost, and no other byte changes; and of \<^verbatim>\<open>mprotect\<close>: it changes no byte.
\<close>

definition confined :: "kernel \<Rightarrow> bool" where
  "confined os \<longleftrightarrow>
     (\<forall>h m p n pr r m' x. k_syscall os h m (Mmap_fixed p n pr) = (r, m') \<longrightarrow> \<not> in_range p (page_round n) x \<longrightarrow> m' x = m x) \<and>
     (\<forall>h m p n r m' x. k_syscall os h m (Madvise_dontneed p n) = (r, m') \<longrightarrow> \<not> in_range p (page_round n) x \<longrightarrow> m' x = m x) \<and>
     (\<forall>h m p n pr r m' x. k_syscall os h m (Mprotect p n pr) = (r, m') \<longrightarrow> m' x = m x)"

definition same_outside :: "ptr set \<Rightarrow> world \<Rightarrow> world \<Rightarrow> bool" where
  "same_outside S w w' \<longleftrightarrow> (\<forall>x. x \<notin> S \<longrightarrow> w_mem w' x = w_mem w x)"

lemma same_outside_refl [simp]: "same_outside S w w"
  by (simp add: same_outside_def)

lemma same_outside_trans: "same_outside S w w' \<Longrightarrow> same_outside T w' w'' \<Longrightarrow> S \<subseteq> U \<Longrightarrow> T \<subseteq> U \<Longrightarrow> same_outside U w w''"
  unfolding same_outside_def by (metis subsetD)

lemma same_memory_outside: "same_memory w w' \<Longrightarrow> same_outside S w w'"
  by (simp add: same_memory_def same_outside_def)

lemma confined_wrappers:
  assumes "confined os"
  shows "memory_map_fixed os p n w = Returned (failed, w') \<Longrightarrow> same_outside {x. in_range p (page_round n) x} w w'"
    and "memory_purge os p n w = Returned (failed, w') \<Longrightarrow> same_outside {x. in_range p (page_round n) x} w w'"
    and "memory_protect_rw os p n w = Returned (failed, w') \<Longrightarrow> same_outside {} w w'"
    and "memory_protect_rw_metadata os p n w = Returned (failed, w') \<Longrightarrow> same_outside {} w w'"
  using assms
  by (auto simp: confined_def same_outside_def memory_wrapper_defs sys_bool_def sys_def Let_def
      split: prod.splits sysret.splits if_splits)

section \<open>Empty slabs\<close>

text \<open>\<^verbatim>\<open>enqueue_free_slab\<close> does not look at the list of empty slabs.\<close>

lemma append_free_empty: "append_free (c\<lparr>sc_empty_slabs := x\<rparr>) i = (append_free c i)\<lparr>sc_empty_slabs := x\<rparr>"
  by (simp add: append_free_def upd_info_def Let_def split: option.split)

lemma enqueue_free_slab_empty:
  assumes "enqueue_free_slab cfg os c i w = Returned (c', w')"
  shows "enqueue_free_slab cfg os (c\<lparr>sc_empty_slabs := x\<rparr>) i w = Returned (c'\<lparr>sc_empty_slabs := x\<rparr>, w')"
proof (cases "FREE_SLABS_QUARANTINE_RANDOM_LENGTH cfg > 0")
  case False
  with assms append_free_empty [where c = "upd_info i (md_next_update (\<lambda>_. None)) c" and x = x and i = i] show ?thesis
    by (cases c) (auto simp: enqueue_free_slab_def Let_def upd_info_def)
next
  case True
  with assms obtain r rng where r: "get_random_u16_uniform os (sc_rng c) (of_nat (FREE_SLABS_QUARANTINE_RANDOM_LENGTH cfg)) w = Returned (r, rng, w')"
    by (auto simp: enqueue_free_slab_def Let_def upd_info_def outcome_simps)
  let ?c = "(upd_info i (md_next_update (\<lambda>_. None)) c)\<lparr>sc_rng := rng, sc_free_slabs_quarantine := (sc_free_slabs_quarantine c)[unat r := Some i]\<rparr>"
  show ?thesis using True r assms append_free_empty [where c = ?c and x = x]
    by (cases c) (auto simp: enqueue_free_slab_def Let_def upd_info_def split: option.splits)
qed

lemma empty_slabs_update [simp]:
  "touch I c (c'\<lparr>sc_empty_slabs := x\<rparr>) = touch I c c'" "touch I (c\<lparr>sc_empty_slabs := x\<rparr>) c' = touch I c c'"
  "touch I c (c'\<lparr>sc_empty_slabs_total := n\<rparr>) = touch I c c'" "touch I (c\<lparr>sc_empty_slabs_total := n\<rparr>) c' = touch I c c'"
  by (simp_all add: touch_def same_static_def)

lemma touch_stats [simp]: "touch I c (stats_slab_deallocate cfg c' n) = touch I c c'"
  by (simp add: touch_def same_static_def stats_slab_deallocate_def)

lemma trim_slab_ok:
  assumes "class_inv cfg k [] (c\<lparr>sc_empty_slabs := it\<rparr>) ps (i # es) fs"
    and "enqueue_free_slab cfg os ((stats_slab_deallocate cfg c n)
          \<lparr>sc_empty_slabs_total := sc_empty_slabs_total c - ucast (sc_slab_size c)\<rparr>) i w = Returned (c', w')"
  obtains fs' where "class_inv cfg k [] (c'\<lparr>sc_empty_slabs := md_next (sc_slab_info c i)\<rparr>) ps es fs'" "touch {} c c'" "same_memory w w'"
proof -
  let ?c = "c\<lparr>sc_empty_slabs := it\<rparr>" and ?nx = "md_next (sc_slab_info c i)"
  note inv = class_invD [OF assms(1)]
  define d where "d = (stats_slab_deallocate cfg c n)
    \<lparr>sc_empty_slabs_total := sc_empty_slabs_total c - ucast (sc_slab_size c), sc_empty_slabs := ?nx\<rparr>"
  have e: "enqueue_free_slab cfg os d i w = Returned (c'\<lparr>sc_empty_slabs := ?nx\<rparr>, w')"
    using enqueue_free_slab_empty [OF assms(2), of ?nx] by (simp add: d_def)
  have d: "lists_ok cfg d ps es fs" "i \<notin> set (listed d ps es fs)" "live_slab d i" "random_state_ok (sc_rng d)"
    "touch {} c d" "fq_slabs d = fq_slabs c"
    using inv(2,3) by (auto simp: d_def lists_ok_def stats_slab_deallocate_def live_slab_def touch_def same_static_def
        same_slots_def algebra_simps simp del: set_somes)
  have cv: "config_valid cfg" using inv(1) by (simp add: class_static_def)
  obtain fs' where l: "lists_ok cfg (c'\<lparr>sc_empty_slabs := ?nx\<rparr>) ps es fs'" "touch {} d (c'\<lparr>sc_empty_slabs := ?nx\<rparr>)"
    "random_state_ok (sc_rng (c'\<lparr>sc_empty_slabs := ?nx\<rparr>))"
    "set fs' \<union> set (fq_slabs (c'\<lparr>sc_empty_slabs := ?nx\<rparr>)) = insert i (set fs \<union> set (fq_slabs d))" "same_memory w w'"
    by (rule lists_enqueue_free_slab [OF e d(1-4) cv])
  let ?c' = "c'\<lparr>sc_empty_slabs := ?nx\<rparr>"
  have t: "touch {} c c'" using touch_trans [OF d(5) l(2)] by simp
  then have tc: "touch {} ?c ?c'" by simp
  have u: "used_of ?c' i = {}" using touch_slots(1) [OF tc, of i] slots_okD(4) [OF inv(4), of i] by simp
  have "slots_ok cfg ?c' ps es fs'"
  proof (rule slots_ok_touch [OF inv(4)])
    show "touch {i} ?c ?c'" using touch_trans [OF tc touch_refl, of "{i}"] by simp
    show "live_slab ?c i" using inv(3) unfolding lists_ok_def by auto
    show "metadata_ok (cslots ?c) (sc_slab_info ?c' i)"
      using touch_slots(3) [OF tc, of i] slots_okD(1) [OF inv(4)] by simp
    show "set (es @ fs' @ fq_slabs ?c') - {i} = set ((i # es) @ fs @ fq_slabs ?c) - {i}"
      using l(4) d(6) by (auto simp del: set_somes)
    show "i \<in> set ps \<Longrightarrow> used_of ?c' i \<noteq> {} \<and> card (used_of ?c' i) < cslots ?c"
      using inv(3) by (auto simp: lists_ok_def)
  qed (use u in simp_all)
  then have "class_inv cfg k [] ?c' ps es fs'"
    using class_inv_touch [OF assms(1) tc l(1)] inv(5) quarantine_ok_touch [OF tc touch_links_pairs(2) [OF tc]] l(3) by simp
  with t l(5) show ?thesis by (rule that [rotated])
qed

section \<open>Bytes that no live address covers\<close>

lemma slot_interior:
  assumes "class_static cfg k c" "valid_pair cfg c (i, s)"
    and "unat (slot_ptr c i s) \<le> unat x" "unat x < unat (slot_ptr c i s) + csize c"
  shows "unat (x - sc_class_region_start c) div cslab c = i"
    and "unat (x - sc_class_region_start c) mod cslab c div csize c = s"
proof -
  note b = slot_ptr_bounds [OF assms(1,2)]
  note pos = geometry_pos [OF class_static_geometry [OF assms(1)]]
  define d where "d = unat x - unat (slot_ptr c i s)"
  have d: "d < csize c" "unat x = unat (sc_class_region_start c) + (i * cslab c + (s * csize c + d))"
    using assms(3,4) b(1) by (simp_all add: d_def)
  have off: "unat (x - sc_class_region_start c) = i * cslab c + (s * csize c + d)"
    using d(2) by (simp add: unat_sub_if')
  have lt: "s * csize c + d < cslab c" using b(2) d(1) by (simp add: algebra_simps)
  show "unat (x - sc_class_region_start c) div cslab c = i" unfolding off using lt by simp
  have "unat (x - sc_class_region_start c) mod cslab c = s * csize c + d" unfolding off using lt by simp
  then show "unat (x - sc_class_region_start c) mod cslab c div csize c = s" using d(1) pos(1) by simp
qed

definition spare :: "config \<Rightarrow> size_class \<Rightarrow> ptr set" where
  "spare cfg c =
     {x. unat (sc_class_region_start c) \<le> unat x \<and> unat x < unat (sc_class_region_start c) + CONFIG_CLASS_REGION_SIZE cfg \<and>
         (\<forall>p \<in> live c. \<not> (unat p \<le> unat x \<and> unat x < unat p + csize c))}"

lemma spare_touch: "touch {} c c' \<Longrightarrow> spare cfg c' = spare cfg c"
  using touch_links_pairs(3) [of c c'] touch_static [of "{}" c c'] by (simp add: spare_def same_static_def)

lemma in_range_no_wrap:
  assumes "in_range p n x" "unat p + n \<le> 2 ^ 64"
  shows "unat p \<le> unat x" "unat x < unat p + n"
proof -
  have "unat (x - p) < n" using assms(1) by (simp add: in_range_def)
  then have "unat p + unat (x - p) < 2 ^ 64" using assms(2) by simp
  then have "unat x = unat p + unat (x - p)" using unat_add_lt [of p "x - p"] by simp
  with \<open>unat (x - p) < n\<close> show "unat p \<le> unat x" "unat x < unat p + n" by simp_all
qed

lemma slab_spare:
  assumes "class_inv cfg k F c ps es fs" "used_of c i = {}" "i < sc_metadata_allocated c"
  shows "{x. in_range (get_slab c (ucast (sc_slab_size c)) i) (page_round (ucast (sc_slab_size c))) x} \<subseteq> spare cfg c"
proof
  note inv = class_invD [OF assms(1)]
  note geo = class_static_geometry [OF inv(1)] and pos = geometry_pos [OF class_static_geometry [OF inv(1)]]
  let ?slab = "get_slab c (ucast (sc_slab_size c)) i" and ?s0 = "sc_class_region_start c"
  fix x assume "x \<in> {x. in_range ?slab (page_round (ucast (sc_slab_size c))) x}"
  moreover have "page_round (ucast (sc_slab_size c)) = cslab c" using geo by (simp add: page_round_aligned geometry_def)
  ultimately have x: "in_range (slot_ptr c i 0) (cslab c) x" by (simp add: slot_pointer_slot_ptr [symmetric] slot_pointer_def)
  have v: "valid_pair cfg c (i, 0)"
    using assms(3) slots_okD(8,9) [OF inv(4)] pos(2) by (simp add: valid_pair_def live_slab_def)
  note b = slot_ptr_bounds [OF inv(1) v]
  have room: "unat ?s0 + CONFIG_CLASS_REGION_SIZE cfg < 2 ^ 64" using inv(1) by (simp add: class_static_def)
  have r: "unat ?s0 + i * cslab c \<le> unat x" "unat x < unat ?s0 + i * cslab c + cslab c"
    using in_range_no_wrap [OF x] b(1,3) room by simp_all
  have off: "unat (x - ?s0) div cslab c = i"
  proof -
    have "unat (x - ?s0) = i * cslab c + (unat x - (unat ?s0 + i * cslab c))" using r(1) by (simp add: unat_sub_if')
    moreover have "unat x - (unat ?s0 + i * cslab c) < cslab c" using r by linarith
    ultimately show ?thesis by simp
  qed
  have "\<not> (unat p \<le> unat x \<and> unat x < unat p + csize c)" if pl: "p \<in> live c" for p
  proof
    assume a: "unat p \<le> unat x \<and> unat x < unat p + csize c"
    obtain j t where jt: "(j, t) \<in> used_pairs c" "p = slot_ptr c j t" using pl by (auto simp: live_def)
    from slot_interior(1) [OF inv(1) used_valid [OF inv(4) jt(1)]] a jt(2) have "j = i" using off by simp
    with jt(1) assms(2) show False by (simp add: used_pairs_def)
  qed
  then show "x \<in> spare cfg c" using r b(3) by (auto simp: spare_def)
qed

lemma quarantined_spare:
  assumes "class_inv cfg k F c ps es fs" "(i, s) \<in> quarantined c" "4096 dvd csize c"
  shows "{x. in_range (slot_ptr c i s) (page_round (ucast (sc_size c))) x} \<subseteq> spare cfg c"
proof
  note inv = class_invD [OF assms(1)]
  fix x assume "x \<in> {x. in_range (slot_ptr c i s) (page_round (ucast (sc_size c))) x}"
  then have x: "in_range (slot_ptr c i s) (csize c) x" using assms(3) by (simp add: page_round_aligned)
  have v: "valid_pair cfg c (i, s)" by (rule quarantined_valid [OF inv(4) assms(2)])
  note b = slot_ptr_bounds [OF inv(1) v]
  have room: "unat (sc_class_region_start c) + CONFIG_CLASS_REGION_SIZE cfg < 2 ^ 64" using inv(1) by (simp add: class_static_def)
  have le: "unat (slot_ptr c i s) + csize c \<le> unat (sc_class_region_start c) + CONFIG_CLASS_REGION_SIZE cfg"
    using b(1-3) by simp
  note r = in_range_no_wrap [OF x]
  have "\<not> (unat p \<le> unat x \<and> unat x < unat p + csize c)" if pl: "p \<in> live c" for p
  proof
    assume a: "unat p \<le> unat x \<and> unat x < unat p + csize c"
    obtain j t where jt: "(j, t) \<in> used_pairs c" "(j, t) \<notin> quarantined c" "p = slot_ptr c j t"
      using pl by (auto simp: live_def)
    note A = slot_interior [OF inv(1) v] and B = slot_interior [OF inv(1) used_valid [OF inv(4) jt(1)]]
    have "j = i" "t = s" using A [of x] B [of x] r le room a jt(3) by simp_all
    with jt(2) assms(2) show False by simp
  qed
  then show "x \<in> spare cfg c" using r le room b(1) by (auto simp: spare_def)
qed

section \<open>The loop\<close>

text \<open>
  What trimming a class leaves: the class invariant, the same slots in use, and memory that is the same wherever a
  live address covers it.
\<close>

definition trimmed :: "config \<Rightarrow> kernel \<Rightarrow> size_class \<Rightarrow> world \<Rightarrow> size_class \<Rightarrow> world \<Rightarrow> bool" where
  "trimmed cfg os c w c' w' \<longleftrightarrow> touch {} c c' \<and> counters c' = counters c \<and> keeps_maps w w' \<and> (confined os \<longrightarrow> same_outside (spare cfg c) w w')"

lemma trimmed_refl: "trimmed cfg os c w c w"
  by (simp add: trimmed_def)

lemma trimmed_trans:
  assumes "trimmed cfg os c w c' w'" "trimmed cfg os c' w' c'' w''"
  shows "trimmed cfg os c w c'' w''"
proof -
  have t: "touch {} c c''" using touch_trans [of "{}" c c' "{}" c''] assms by (simp add: trimmed_def)
  have "spare cfg c' = spare cfg c" using spare_touch assms(1) by (simp add: trimmed_def)
  then show ?thesis using assms t by (auto simp: trimmed_def elim: keeps_maps_trans same_outside_trans [of "spare cfg c" w w' "spare cfg c"])
qed

lemma trimmed_counted: "trimmed cfg os c w c' w' \<Longrightarrow> counted cfg c \<Longrightarrow> counted cfg c'"
proof -
  assume t: "trimmed cfg os c w c' w'" and n: "counted cfg c"
  then have "touch {} c c'" by (simp add: trimmed_def)
  then have "live c' = live c" "sc_size c' = sc_size c"
    using touch_links_pairs(3) touch_static by (auto simp: same_static_def)
  then show ?thesis using counted_cong [of c' c] t n by (simp add: trimmed_def)
qed

lemma trim_loop_ok:
  assumes "class_inv cfg k [] (c\<lparr>sc_empty_slabs := it\<rparr>) ps es fs"
  shows "all_o (\<lambda>(c', it', t', w'). trimmed cfg os c w c' w' \<and>
      (\<exists>es' fs'. class_inv cfg k [] (c'\<lparr>sc_empty_slabs := it'\<rparr>) ps es' fs'))
    (join_o (trim_loop cfg os c it t w))"
  using assms
proof (induction es arbitrary: c it fs t w)
  case Nil
  then have "it = None" using class_invD(3) by (fastforce simp: lists_ok_def)
  then show ?case using Nil trimmed_refl by (auto simp: trim_loop.simps)
next
  case (Cons i es)
  let ?c = "c\<lparr>sc_empty_slabs := it\<rparr>" and ?n = "ucast (sc_slab_size c) :: size_t"
  note inv = class_invD [OF Cons.prems]
  have it: "it = Some i" "live_slab ?c i" using inv(3) by (auto simp: lists_ok_def)
  have u: "used_of ?c i = {}" using slots_okD(4) [OF inv(4), of i] by simp
  have sp: "spare cfg ?c = spare cfg c" by (rule spare_touch) simp
  have sub: "{x. in_range (get_slab c ?n i) (page_round ?n) x} \<subseteq> spare cfg c"
    using slab_spare [OF Cons.prems u] it(2) by (simp add: sp get_slab_def live_slab_def)
  show ?case
  proof (cases "memory_map_fixed os (get_slab c ?n i) ?n w")
    case (Returned r)
    obtain failed w1 where r: "r = (failed, w1)" by (cases r)
    note m = Returned [unfolded r]
    have km: "keeps_maps w w1" using wrappers_keep(1) [OF keeps_maps_refl] m by (auto dest!: all_oD)
    have so: "confined os \<longrightarrow> same_outside (spare cfg c) w w1"
      using confined_wrappers(1) [OF _ m] sub by (auto simp: same_outside_def)
    show ?thesis
    proof (cases failed)
      case True
      then show ?thesis using m km so Cons.prems it(1)
        by (auto simp: trim_loop.simps [of cfg os c "Some i"] Let_def trimmed_def)
    next
      case False
      define c2 where "c2 = (stats_slab_deallocate cfg c ?n)\<lparr>sc_empty_slabs_total := sc_empty_slabs_total c - ?n\<rparr>"
      have st: "sc_slab_info (stats_slab_deallocate cfg c ?n) = sc_slab_info c"
        "sc_empty_slabs_total (stats_slab_deallocate cfg c ?n) = sc_empty_slabs_total c"
        by (simp_all add: stats_slab_deallocate_def)
      have step: "join_o (trim_loop cfg os c it t w) = (case enqueue_free_slab cfg os c2 i w1 of
          Returned (c3, w'') \<Rightarrow> join_o (trim_loop cfg os c3 (md_next (sc_slab_info c i)) True w'')
        | Aborted msg \<Rightarrow> Aborted msg | Diverged \<Rightarrow> Diverged)"
        using m False it(1)
        by (simp add: trim_loop.simps [of cfg os c "Some i"] Let_def st c2_def split: outcome.splits prod.splits)
      show ?thesis
      proof (cases "enqueue_free_slab cfg os c2 i w1")
        case (Returned q)
        obtain c3 w2 where q: "q = (c3, w2)" by (cases q)
        obtain fs' where n: "class_inv cfg k [] (c3\<lparr>sc_empty_slabs := md_next (sc_slab_info c i)\<rparr>) ps es fs'" "touch {} c c3" "same_memory w1 w2"
          by (rule trim_slab_ok [OF Cons.prems Returned [unfolded q c2_def]])
        have "counters c2 = counters c" by (simp add: c2_def)
        then have "counters c3 = counters c"
          using all_oD [OF enqueue_free_slab_counters Returned [unfolded q]] by simp
        then have t1: "trimmed cfg os c w c3 w2"
          using n(2) km so keeps_maps_trans [OF km same_memory_keeps [OF n(3)]] same_memory_outside [OF n(3)]
          by (auto simp: trimmed_def elim: same_outside_trans)
        show ?thesis unfolding step Returned q outcome.case prod.case
          by (rule all_o_mono [OF Cons.IH [OF n(1)]]) (auto intro: trimmed_trans [OF t1])
      qed (simp_all add: step)
    qed
  qed (simp_all add: it(1) trim_loop.simps [of cfg os c "Some i"] Let_def)
qed

section \<open>A class\<close>

lemma extended_pages:
  assumes "class_static cfg k c" "min_extended_size_class \<le> ucast (sc_size c)"
  shows "4096 dvd csize c"
proof -
  have "\<forall>x \<in> set (size_classes cfg). 20480 \<le> unat x \<longrightarrow> 4096 dvd unat x" by (auto simp: size_classes_def)
  moreover have "k < length (size_classes cfg)" using assms(1) by (simp add: class_static_def N_SIZE_CLASSES_def)
  ultimately have "20480 \<le> class_size cfg k \<longrightarrow> 4096 dvd class_size cfg k" by (simp add: class_size_def)
  moreover have "20480 \<le> csize c" using assms(2) by (simp add: word_le_nat_alt min_extended_size_class_def)
  ultimately show ?thesis using assms(1) by (auto simp: class_static_def slot_size_def split: if_splits)
qed

lemma purge_slots_ok:
  assumes "class_inv cfg k F c ps es fs" "4096 dvd csize c" "set qs - {NULL} \<subseteq> set (quarantine_ptrs c)"
    and "set (F @ quarantine_ptrs c) = (\<lambda>(i, s). slot_ptr c i s) ` quarantined c"
  shows "all_o (\<lambda>w'. trimmed cfg os c w c w') (purge_slots os (ucast (sc_size c)) qs w)"
  using assms(3)
proof (induction qs arbitrary: w)
  case (Cons p qs)
  show ?case
  proof (cases "p = NULL")
    case True
    then show ?thesis using Cons by simp
  next
    case False
    then have "p \<in> (\<lambda>(i, s). slot_ptr c i s) ` quarantined c" using Cons.prems assms(4) by auto
    then obtain i s where is': "(i, s) \<in> quarantined c" "p = slot_ptr c i s" by auto
    note sub = quarantined_spare [OF assms(1) is'(1) assms(2), folded is'(2)]
    have 1: "all_o (\<lambda>(_, w'). trimmed cfg os c w c w') (memory_purge os p (ucast (sc_size c)) w)"
    proof (rule all_oI)
      fix r assume r: "memory_purge os p (ucast (sc_size c)) w = Returned r"
      obtain f w' where f: "r = (f, w')" by (cases r)
      have "keeps_maps w w'" using all_oD [OF wrappers_keep(5) [OF keeps_maps_refl] r] f by simp
      then show "case r of (_, w') \<Rightarrow> trimmed cfg os c w c w'"
        using confined_wrappers(2) [OF _ r [unfolded f]] sub by (auto simp: f trimmed_def same_outside_def)
    qed
    have "all_o (\<lambda>w'. trimmed cfg os c w c w') (purge_slots os (ucast (sc_size c)) qs w1)" if "trimmed cfg os c w c w1" for w1
      using Cons by (intro all_o_mono [OF Cons.IH] trimmed_trans [OF that]) auto
    then show ?thesis using False by (auto intro!: all_o_bind [OF 1])
  qed
qed (simp add: trimmed_refl)

lemma purge_quarantine_ok:
  assumes "class_inv cfg k [] c ps es fs"
  shows "all_o (\<lambda>w'. trimmed cfg os c w c w') (purge_quarantine cfg os c w)"
proof (cases "SLAB_QUARANTINE cfg \<and> CONFIG_EXTENDED_SIZE_CLASSES cfg \<and> min_extended_size_class \<le> ucast (sc_size c)")
  case True
  note inv = class_invD [OF assms]
  have d: "4096 dvd csize c" using extended_pages [OF inv(1)] True by blast
  have q: "set ([] @ quarantine_ptrs c) = (\<lambda>(i, s). slot_ptr c i s) ` quarantined c" using inv(5) by (simp add: quarantine_ok_def)
  have "set (take n (sc_quarantine_random c)) - {NULL} \<subseteq> set (quarantine_ptrs c)"
    "set (take n (sc_quarantine_queue c)) - {NULL} \<subseteq> set (quarantine_ptrs c)" for n
    by (auto simp: quarantine_ptrs_def dest: in_set_takeD)
  note p = this [THEN purge_slots_ok [OF assms d _ q]]
  have "all_o (\<lambda>w'. trimmed cfg os c w c w') (purge_slots os (ucast (sc_size c)) (take n (sc_quarantine_queue c)) w1)"
    if "trimmed cfg os c w c w1" for w1 n
    by (rule all_o_mono [OF p(2)]) (rule trimmed_trans [OF that])
  then show ?thesis using True by (simp add: purge_quarantine_def Let_def all_o_bind [OF p(1)])
qed (auto simp: purge_quarantine_def Let_def trimmed_refl)

lemma trim_class_ok:
  assumes "class_ok cfg k c"
  shows "all_o (\<lambda>(c', t', w'). class_ok cfg k c' \<and> trimmed cfg os c w c' w') (trim_class cfg os c t w)"
proof -
  obtain ps es fs where "class_inv cfg k [] c ps es fs" using assms by (auto simp: class_ok_def)
  then have "class_inv cfg k [] (c\<lparr>sc_empty_slabs := sc_empty_slabs c\<rparr>) ps es fs" by simp
  note loop = trim_loop_ok [OF this, of os w t]
  have "all_o (\<lambda>(c', t', w'). class_ok cfg k c' \<and> trimmed cfg os c w c' w')
      (bind_o (purge_quarantine cfg os (c1\<lparr>sc_empty_slabs := it\<rparr>) w1) (\<lambda>w. Returned (c1\<lparr>sc_empty_slabs := it\<rparr>, t1, w)))"
    if "trimmed cfg os c w c1 w1" "class_inv cfg k [] (c1\<lparr>sc_empty_slabs := it\<rparr>) ps es' fs'" for c1 it t1 w1 es' fs'
  proof (rule all_o_bind [OF purge_quarantine_ok [OF that(2)]])
    fix w2 assume "trimmed cfg os (c1\<lparr>sc_empty_slabs := it\<rparr>) w1 (c1\<lparr>sc_empty_slabs := it\<rparr>) w2"
    moreover have "trimmed cfg os c w (c1\<lparr>sc_empty_slabs := it\<rparr>) w1" using that(1) by (simp add: trimmed_def)
    ultimately have "trimmed cfg os c w (c1\<lparr>sc_empty_slabs := it\<rparr>) w2" by (rule trimmed_trans [rotated])
    then show "all_o (\<lambda>(c', t', w'). class_ok cfg k c' \<and> trimmed cfg os c w c' w') (Returned (c1\<lparr>sc_empty_slabs := it\<rparr>, t1, w2))"
      using that(2) by (auto simp: class_ok_def)
  qed
  then show ?thesis unfolding trim_class_def Let_def by (auto intro!: all_o_bind [OF loop])
qed

section \<open>The heap\<close>

definition same_blocks :: "config \<Rightarrow> kernel \<Rightarrow> state \<Rightarrow> world \<Rightarrow> state \<Rightarrow> world \<Rightarrow> bool" where
  "same_blocks cfg os st w st' w' \<longleftrightarrow>
     heap_live cfg st' = heap_live cfg st \<and> block_size cfg st' = block_size cfg st \<and>
     (confined os \<longrightarrow> (\<forall>p \<in> heap_live cfg st. \<forall>x \<in> block cfg st p. w_mem w' x = w_mem w x))"

lemma same_blocks_trans:
  "same_blocks cfg os st w st' w' \<Longrightarrow> same_blocks cfg os st' w' st'' w'' \<Longrightarrow> same_blocks cfg os st w st'' w''"
  by (auto simp: same_blocks_def block_def)

lemma spare_not_block:
  assumes "heap_inv cfg st w" "a < N_ARENA cfg" "k < N_SIZE_CLASSES cfg" "p \<in> heap_live cfg st" "x \<in> block cfg st p"
  shows "x \<notin> spare cfg (the_class st a k)"
proof
  assume s: "x \<in> spare cfg (the_class st a k)"
  then have ca: "in_slab_region st x" "slab_size_class cfg st x = \<lparr>ssci_arena = a, ssci_class = k\<rparr>"
    using class_address [OF assms(1-3), of x] by (auto simp: spare_def)
  from assms(4) show False
  proof (cases rule: heap_live_cases)
    case (small a' k')
    note b = small_block [OF assms(1) small assms(5)]
    have "a' = a" "k' = k" using b(4) ca(2) by auto
    then show False using s b(1,2) small(3) by (auto simp: spare_def)
  next
    case (large e)
    then show False using large_block(2) [OF assms(1) large assms(5)] ca(1) by simp
  qed
qed

lemma trim_classes_ok:
  assumes "heap_inv cfg st w" "set aks \<subseteq> {..<N_ARENA cfg} \<times> {..<N_SIZE_CLASSES cfg}"
  shows "all_o (\<lambda>(t', st', w'). heap_inv cfg st' w' \<and> same_blocks cfg os st w st' w') (trim_classes cfg os aks st t w)"
  using assms
proof (induction aks arbitrary: st t w)
  case Nil
  then show ?case by (simp add: same_blocks_def)
next
  case (Cons ak aks)
  obtain a k where ak: "ak = (a, k)" "a < N_ARENA cfg" "k < N_SIZE_CLASSES cfg" using Cons.prems(2) by (cases ak) auto
  let ?c = "the_class st a k"
  note ok = heap_invD(4) [OF Cons.prems(1) ak(2,3)]
  have "all_o (\<lambda>(t', st', w'). heap_inv cfg st' w' \<and> same_blocks cfg os st w st' w')
      (trim_classes cfg os aks (upd_class a k c' st) t1 w1)"
    if c': "class_ok cfg k c'" "trimmed cfg os ?c w c' w1" for c' t1 w1
  proof -
    have tr: "touch {} ?c c'" "keeps_maps w w1" "confined os \<longrightarrow> same_outside (spare cfg ?c) w w1" using c'(2) by (simp_all add: trimmed_def)
    have inv: "heap_inv cfg (upd_class a k c' st) w1"
      by (rule class_update_inv [OF Cons.prems(1) tr(2) c'(1) touch_static [OF tr(1)] trimmed_counted [OF c'(2) heap_invD(9) [OF Cons.prems(1) ak(2,3)]]])
    have "same_blocks cfg os st w (upd_class a k c' st) w1"
      using class_update_live(2) [OF Cons.prems(1) ak(2,3) touch_links_pairs(3) [OF tr(1)]] tr(3)
        spare_not_block [OF Cons.prems(1) ak(2,3)]
      by (auto simp: same_blocks_def same_outside_def block_size_def in_slab_region_def slab_usable_size_def slab_size_class_def)
    then show ?thesis
      using Cons.prems(2) by (intro all_o_mono [OF Cons.IH [OF inv]]) (auto intro: same_blocks_trans)
  qed
  then show ?case unfolding ak(1) trim_classes.simps prod.case by (auto intro!: all_o_bind [OF trim_class_ok [OF ok]])
qed

lemma h_malloc_trim_ok:
  assumes "ready cfg st w"
  shows "all_o (\<lambda>(t', st', w'). ready cfg st' w' \<and> same_blocks cfg os st w st' w') (h_malloc_trim cfg os st w)"
proof (cases "is_init st")
  case True
  then have inv: "heap_inv cfg st w" using assms by (auto simp: ready_def uninitialised_def zeroed_def is_init_def)
  show ?thesis using True unfolding h_malloc_trim_def
    by (auto intro!: all_o_mono [OF trim_classes_ok [OF inv]] simp: ready_def)
qed (use assms in \<open>simp add: h_malloc_trim_def same_blocks_def\<close>)

section \<open>Trimming ends\<close>

text \<open>
  The loop follows a list, so it ends; without the random quarantine of free slabs no random numbers are drawn, and a
  kernel that only fails for lack of memory lets the whole call return.
\<close>

lemma trim_loop_returns:
  assumes "class_inv cfg k [] (c\<lparr>sc_empty_slabs := it\<rparr>) ps es fs" "only_ENOMEM os" "FREE_SLABS_QUARANTINE_RANDOM_LENGTH cfg = 0"
  shows "returns (join_o (trim_loop cfg os c it t w))"
  using assms(1)
proof (induction es arbitrary: c it fs t w)
  case Nil
  then have "it = None" using class_invD(3) by (fastforce simp: lists_ok_def)
  then show ?case by (simp add: trim_loop.simps)
next
  case (Cons i es)
  let ?n = "ucast (sc_slab_size c) :: size_t"
  have it: "it = Some i" using class_invD(3) [OF Cons.prems] by (simp add: lists_ok_def)
  obtain failed w1 where m: "memory_map_fixed os (get_slab c ?n i) ?n w = Returned (failed, w1)"
    using memory_wrapper_returns(3) [OF assms(2), of "get_slab c ?n i" ?n w] by (auto simp: returns_def)
  define c2 where "c2 = (stats_slab_deallocate cfg c ?n)\<lparr>sc_empty_slabs_total := sc_empty_slabs_total c - ?n\<rparr>"
  have st: "sc_slab_info (stats_slab_deallocate cfg c ?n) = sc_slab_info c"
    "sc_empty_slabs_total (stats_slab_deallocate cfg c ?n) = sc_empty_slabs_total c"
    by (simp_all add: stats_slab_deallocate_def)
  obtain c3 where e: "enqueue_free_slab cfg os c2 i w1 = Returned (c3, w1)" using assms(3) by (simp add: enqueue_free_slab_def Let_def)
  obtain fs' where "class_inv cfg k [] (c3\<lparr>sc_empty_slabs := md_next (sc_slab_info c i)\<rparr>) ps es fs'"
    by (rule trim_slab_ok [OF Cons.prems e [unfolded c2_def]])
  from Cons.IH [OF this, of True w1] m e show ?case
    by (cases failed) (simp_all add: it trim_loop.simps [of cfg os c "Some i"] Let_def st c2_def [symmetric])
qed

lemma purge_slots_returns: "only_ENOMEM os \<Longrightarrow> returns (purge_slots os n qs w)"
proof (induction qs arbitrary: w)
  case (Cons p qs)
  then show ?case by (auto intro!: returns_bind memory_wrapper_returns(11) split: prod.splits)
qed simp

lemma trim_class_returns:
  assumes "class_ok cfg k c" "only_ENOMEM os" "FREE_SLABS_QUARANTINE_RANDOM_LENGTH cfg = 0"
  shows "returns (trim_class cfg os c t w)"
proof -
  obtain ps es fs where "class_inv cfg k [] c ps es fs" using assms(1) by (auto simp: class_ok_def)
  then have "class_inv cfg k [] (c\<lparr>sc_empty_slabs := sc_empty_slabs c\<rparr>) ps es fs" by simp
  from trim_loop_returns [OF this assms(2,3)] show ?thesis
    unfolding trim_class_def Let_def purge_quarantine_def
    by (auto intro!: returns_bind purge_slots_returns [OF assms(2)] split: prod.splits)
qed

lemma trim_classes_returns:
  assumes "heap_inv cfg st w" "set aks \<subseteq> {..<N_ARENA cfg} \<times> {..<N_SIZE_CLASSES cfg}"
    and "only_ENOMEM os" "FREE_SLABS_QUARANTINE_RANDOM_LENGTH cfg = 0"
  shows "returns (trim_classes cfg os aks st t w)"
  using assms(1,2)
proof (induction aks arbitrary: st t w)
  case (Cons ak aks)
  obtain a k where ak: "ak = (a, k)" "a < N_ARENA cfg" "k < N_SIZE_CLASSES cfg" using Cons.prems(2) by (cases ak) auto
  note ok = heap_invD(4) [OF Cons.prems(1) ak(2,3)]
  obtain c' t1 w1 where c': "trim_class cfg os (the_class st a k) t w = Returned (c', t1, w1)"
    using trim_class_returns [OF ok assms(3,4), of t w] by (auto simp: returns_def)
  have "class_ok cfg k c'" "trimmed cfg os (the_class st a k) w c' w1"
    using all_oD [OF trim_class_ok [OF ok, of os w t] c'] by auto
  moreover from this have "counted cfg c'" using trimmed_counted [OF _ heap_invD(9) [OF Cons.prems(1) ak(2,3)]] by blast
  ultimately have "heap_inv cfg (upd_class a k c' st) w1"
    by (intro class_update_inv [OF Cons.prems(1)]) (auto simp: trimmed_def touch_static)
  from Cons.IH [OF this, of t1] Cons.prems(2) show ?case by (simp add: ak(1) c')
qed simp

lemma h_malloc_trim_returns:
  assumes "ready cfg st w" "only_ENOMEM os" "FREE_SLABS_QUARANTINE_RANDOM_LENGTH cfg = 0"
  shows "returns (h_malloc_trim cfg os st w)"
proof (cases "is_init st")
  case True
  then have inv: "heap_inv cfg st w" using assms(1) by (auto simp: ready_def uninitialised_def zeroed_def is_init_def)
  show ?thesis using True unfolding h_malloc_trim_def
    by (auto intro!: trim_classes_returns [OF inv _ assms(2,3)])
qed (simp add: h_malloc_trim_def)

end
