(* ===== verification/Heap_Reach.thy ===== *)
theory Heap_Reach
  imports Heap_Trim
begin

text \<open>
  The states that a process can bring the allocator into: calls of the exported functions with any arguments, valid
  or not, in any order and by any thread, interleaved with the rest of the program, which may write anywhere in its
  memory and change every mapping but those that the allocator owns. All of them satisfy the invariant.
\<close>

section \<open>After a fork\<close>

lemma reseed_class_ok:
  assumes "class_ok cfg k c" "random_state_ok r"
  shows "class_ok cfg k (c\<lparr>sc_rng := r\<rparr>)" "live (c\<lparr>sc_rng := r\<rparr>) = live c" "same_static c (c\<lparr>sc_rng := r\<rparr>)"
    "counted cfg c \<Longrightarrow> counted cfg (c\<lparr>sc_rng := r\<rparr>)"
  using assms by (auto simp: class_ok_def class_inv_def same_static_def) (simp add: counted_def)

lemma reseed_classes_ok:
  assumes "heap_inv cfg st w" "\<And>a k. (a, k) \<in> set aks \<Longrightarrow> a < N_ARENA cfg \<and> k < N_SIZE_CLASSES cfg"
  shows "all_o (\<lambda>(st', w'). heap_inv cfg st' w' \<and> continues cfg st st') (reseed_classes os aks st w)"
  using assms
proof (induction aks arbitrary: st w)
  case (Cons ak aks)
  obtain a k where ak: "ak = (a, k)" by (cases ak)
  then have lt: "a < N_ARENA cfg" "k < N_SIZE_CLASSES cfg" using Cons.prems(2) [of a k] by simp_all
  let ?c = "the_class st a k"
  note ok = heap_invD(4) [OF Cons.prems(1) lt]
  have len: "length (rs_ctx (sc_rng ?c)) = 16" "length (rs_cache (sc_rng ?c)) = 256"
    using ok by (auto simp: class_ok_def class_inv_def random_state_ok_def)
  have step: "heap_inv cfg (upd_class a k (?c\<lparr>sc_rng := r\<rparr>) st) w' \<and> continues cfg st (upd_class a k (?c\<lparr>sc_rng := r\<rparr>) st)"
    if "random_state_init os (sc_rng ?c) w = Returned (r, w')" for r w'
  proof -
    have r: "random_state_ok r" "same_memory w w'" using random_state_init_ok [OF that len] by simp_all
    note c = reseed_class_ok [OF ok r(1)]
    show ?thesis
      using class_update_inv [OF Cons.prems(1) same_memory_keeps [OF r(2)] c(1,3) c(4) [OF heap_invD(9) [OF Cons.prems(1) lt]]] class_update_live(2) [OF Cons.prems(1) lt c(2)]
      by (simp add: continues_def keeps_blocks_def)
  qed
  show ?case
    unfolding ak reseed_classes.simps prod.case Let_def
  proof (rule all_o_bind [where P = "\<lambda>(r, w'). random_state_init os (sc_rng ?c) w = Returned (r, w')"])
    fix x assume "case x of (r, w') \<Rightarrow> random_state_init os (sc_rng ?c) w = Returned (r, w')"
    then obtain r w' where x: "x = (r, w')" and i: "random_state_init os (sc_rng ?c) w = Returned (r, w')" by (cases x) simp
    note s = step [OF i]
    have "all_o (\<lambda>(st', w'). heap_inv cfg st' w' \<and> continues cfg (upd_class a k (?c\<lparr>sc_rng := r\<rparr>) st) st')
        (reseed_classes os aks (upd_class a k (?c\<lparr>sc_rng := r\<rparr>) st) w')"
      by (rule Cons.IH) (use s Cons.prems(2) in auto)
    then have "all_o (\<lambda>(st', w'). heap_inv cfg st' w' \<and> continues cfg st st')
        (reseed_classes os aks (upd_class a k (?c\<lparr>sc_rng := r\<rparr>) st) w')"
      by (rule all_o_mono) (use s continues_trans in auto)
    then show "all_o (\<lambda>(st', w'). heap_inv cfg st' w' \<and> continues cfg st st')
        (case x of (rng, w) \<Rightarrow> reseed_classes os aks (upd_class a k (?c\<lparr>sc_rng := rng\<rparr>) st) w)" by (simp add: x)
  qed (simp add: all_o_def)
qed (simp add: continues_def keeps_blocks_def)

lemma post_fork_child_ok:
  assumes "heap_inv cfg st w"
  shows "all_o (\<lambda>(st', w'). heap_inv cfg st' w' \<and> continues cfg st st') (post_fork_child cfg os st w)"
proof -
  let ?ra = "st_region_allocator st"
  note li = heap_invD(6) [OF assms]
  note inv = large_invD [OF li]
  have len: "length (rs_ctx (ra_rng ?ra)) = 16" "length (rs_cache (ra_rng ?ra)) = 256"
    using inv(2) by (simp_all add: regions_ok_def random_state_ok_def)
  have step: "heap_inv cfg (st\<lparr>st_region_allocator := ?ra\<lparr>ra_rng := r\<rparr>\<rparr>) w' \<and>
      continues cfg st (st\<lparr>st_region_allocator := ?ra\<lparr>ra_rng := r\<rparr>\<rparr>)"
    if "random_state_init os (ra_rng ?ra) w = Returned (r, w')" for r w'
  proof -
    have r: "random_state_ok r" "same_memory w w'" using random_state_init_ok [OF that len] by simp_all
    have "large_inv cfg {#slab_extent cfg st#} (?ra\<lparr>ra_rng := r\<rparr>) w'"
      using large_inv_keeps [OF li same_memory_keeps [OF r(2)]] r(1) by (simp add: large_inv_def)
    with heap_invD(7) [OF assms] show ?thesis
      by (simp add: regions_update_inv [OF assms] continues_def keeps_blocks_def regions_update_live block_size_regions)
        (simp add: heap_live_def block_size_def)
  qed
  show ?thesis
    unfolding post_fork_child_def
  proof (rule all_o_bind [where P = "\<lambda>(r, w'). random_state_init os (ra_rng ?ra) w = Returned (r, w')"])
    fix x assume "case x of (r, w') \<Rightarrow> random_state_init os (ra_rng ?ra) w = Returned (r, w')"
    then obtain r w' where x: "x = (r, w')" and i: "random_state_init os (ra_rng ?ra) w = Returned (r, w')" by (cases x) simp
    note s = step [OF i]
    have "all_o (\<lambda>(st', w'). heap_inv cfg st' w' \<and> continues cfg (st\<lparr>st_region_allocator := ?ra\<lparr>ra_rng := r\<rparr>\<rparr>) st')
        (reseed_classes os (all_classes cfg) (st\<lparr>st_region_allocator := ?ra\<lparr>ra_rng := r\<rparr>\<rparr>) w')"
      by (rule reseed_classes_ok) (use s all_classes_set(1) [of cfg] in auto)
    then show "all_o (\<lambda>(st', w'). heap_inv cfg st' w' \<and> continues cfg st st')
        (case x of (rng, w) \<Rightarrow> reseed_classes os (all_classes cfg) (st\<lparr>st_region_allocator := ?ra\<lparr>ra_rng := rng\<rparr>\<rparr>) w)"
      unfolding x prod.case by (rule all_o_mono) (use s continues_trans in auto)
  qed (simp add: all_o_def)
qed

section \<open>The rest of the program\<close>

text \<open>What the allocator owns stays mapped.\<close>

definition leaves_alone :: "config \<Rightarrow> state \<Rightarrow> world \<Rightarrow> bool" where
  "leaves_alone cfg st w' \<longleftrightarrow>
     (\<forall>x \<in># owned (st_region_allocator st) + {#slab_extent cfg st#}. \<forall>a. in_extent a x \<longrightarrow> mapped w' a)"

lemma owns_elsewhere: "owns w X \<Longrightarrow> (\<And>x a. x \<in># X \<Longrightarrow> in_extent a x \<Longrightarrow> mapped w' a) \<Longrightarrow> owns w' X"
proof (rule ownsI)
  assume o: "owns w X" "\<And>x a. x \<in># X \<Longrightarrow> in_extent a x \<Longrightarrow> mapped w' a"
  show "cover X a \<le> 1" for a by (rule ownsD(1) [OF o(1)])
  fix a assume "\<not> mapped w' a"
  then have "set_mset (filter_mset (in_extent a) X) = {}" using o(2) by auto
  then show "cover X a = 0" by (simp add: cover_def)
qed

lemma heap_inv_elsewhere:
  assumes "heap_inv cfg st w" "leaves_alone cfg st w'"
  shows "heap_inv cfg st w'"
proof -
  have "owns w' (owned (st_region_allocator st) + {#slab_extent cfg st#})"
    using large_invD(4) [OF heap_invD(6) [OF assms(1)]] by (rule owns_elsewhere) (use assms(2) in \<open>auto simp: leaves_alone_def\<close>)
  with assms(1) show ?thesis by (simp add: heap_inv_def large_inv_def)
qed

text \<open>Another thread, with its own choice of arena: none before the allocator has been initialised.\<close>

definition thread_ok :: "config \<Rightarrow> state \<Rightarrow> nat \<Rightarrow> bool" where
  "thread_ok cfg st t \<longleftrightarrow> (if N_ARENA cfg = 1 then t = 0 else \<not> is_init st \<longrightarrow> N_ARENA cfg \<le> t)"

lemma ready_client:
  assumes "ready cfg st w" "is_init st \<Longrightarrow> leaves_alone cfg st w'" "thread_ok cfg st t"
  shows "ready cfg (st\<lparr>st_thread_arena := t\<rparr>) w'"
proof (cases "heap_inv cfg st w")
  case True
  then have inv: "heap_inv cfg st w'" using assms(2) heap_inv_is_init heap_inv_elsewhere by blast
  have "heap_inv cfg (st\<lparr>st_thread_arena := t\<rparr>) w'"
    by (rule heap_inv_same [OF inv]) (use assms(3) in \<open>simp_all add: same_heap_def thread_ok_def\<close>)
  then show ?thesis by (simp add: ready_def)
next
  case False
  then show ?thesis using assms(1,3) by (auto simp: ready_def uninitialised_def zeroed_def thread_ok_def is_init_def)
qed

section \<open>Reachable states\<close>

inductive reach :: "config \<Rightarrow> kernel \<Rightarrow> platform \<Rightarrow> state \<Rightarrow> world \<Rightarrow> bool" for cfg os pl where
  start: "reach cfg os pl (initial_state cfg) w"
| malloc: "reach cfg os pl st w \<Longrightarrow> h_malloc cfg os pl st sz w = Returned (p, st', w') \<Longrightarrow> reach cfg os pl st' w'"
| calloc: "reach cfg os pl st w \<Longrightarrow> h_calloc cfg os pl st nmemb sz w = Returned (p, st', w') \<Longrightarrow> reach cfg os pl st' w'"
| realloc: "reach cfg os pl st w \<Longrightarrow> h_realloc cfg os pl st old sz w = Returned (p, st', w') \<Longrightarrow> reach cfg os pl st' w'"
| reallocarray: "reach cfg os pl st w \<Longrightarrow> h_reallocarray cfg os pl st old nmemb sz w = Returned (p, st', w') \<Longrightarrow> reach cfg os pl st' w'"
| posix_memalign: "reach cfg os pl st w \<Longrightarrow> h_posix_memalign cfg os pl st alignment sz w = Returned (r, st', w') \<Longrightarrow> reach cfg os pl st' w'"
| aligned_alloc: "reach cfg os pl st w \<Longrightarrow> h_aligned_alloc cfg os pl st alignment sz w = Returned (p, st', w') \<Longrightarrow> reach cfg os pl st' w'"
| valloc: "reach cfg os pl st w \<Longrightarrow> h_valloc cfg os pl st sz w = Returned (p, st', w') \<Longrightarrow> reach cfg os pl st' w'"
| pvalloc: "reach cfg os pl st w \<Longrightarrow> h_pvalloc cfg os pl st sz w = Returned (p, st', w') \<Longrightarrow> reach cfg os pl st' w'"
| free: "reach cfg os pl st w \<Longrightarrow> h_free cfg os st p w = Returned (st', w') \<Longrightarrow> reach cfg os pl st' w'"
| free_sized: "reach cfg os pl st w \<Longrightarrow> h_free_sized cfg os st p n w = Returned (st', w') \<Longrightarrow> reach cfg os pl st' w'"
| free_aligned_sized: "reach cfg os pl st w \<Longrightarrow> h_free_aligned_sized cfg os st p alignment n w = Returned (st', w') \<Longrightarrow> reach cfg os pl st' w'"
| trim: "reach cfg os pl st w \<Longrightarrow> h_malloc_trim cfg os st w = Returned (t, st', w') \<Longrightarrow> reach cfg os pl st' w'"
| fork: "reach cfg os pl st w \<Longrightarrow> is_init st \<Longrightarrow> post_fork_child cfg os st w = Returned (st', w') \<Longrightarrow> reach cfg os pl st' w'"
| client: "reach cfg os pl st w \<Longrightarrow> (is_init st \<Longrightarrow> leaves_alone cfg st w') \<Longrightarrow> thread_ok cfg st t \<Longrightarrow>
    reach cfg os pl (st\<lparr>st_thread_arena := t\<rparr>) w'"

text \<open>Every call leaves the allocator ready for the next one.\<close>

lemma alloc_result_ready: "alloc_result cfg st n k (p, st', w') \<Longrightarrow> ready cfg st' w'"
  by (simp add: alloc_result_def)

lemma aligned_result_ready: "aligned_result cfg st al m n (r, st', w') \<Longrightarrow> ready cfg st' w'"
  by (cases r) (auto simp: aligned_result_def alloc_result_def)

lemma free_result_ready: "free_result cfg st p (st', w') \<Longrightarrow> ready cfg st' w'"
  by (simp add: free_result_def ready_def)

lemma aligned_simple_ready:
  assumes "ready cfg st w" "4096 dvd CONFIG_CLASS_REGION_SIZE cfg" "sane_kernel os"
  shows "all_o (\<lambda>(p, st', w'). ready cfg st' w') (alloc_aligned_simple cfg os pl st alignment sz w)"
  unfolding alloc_aligned_simple_def
  by (rule all_o_bind [OF alloc_aligned_ok [OF assms, of 1 alignment sz]])
    (auto dest: aligned_result_ready split: sum.splits)

lemma h_realloc_ready:
  assumes "ready cfg st w" "4096 dvd CONFIG_CLASS_REGION_SIZE cfg" "sane_kernel os"
  shows "all_o (\<lambda>(p, st', w'). ready cfg st' w') (h_realloc cfg os pl st old sz w)"
proof (cases "old = NULL")
  case True
  then show ?thesis
    by (simp only: h_realloc_null) (rule all_o_mono [OF h_malloc_ok [OF assms]], auto dest: alloc_result_ready)
next
  case False
  then show ?thesis by (rule all_o_mono [OF h_realloc_ok [OF assms]]) (auto simp: realloc_ok_def)
qed

lemma reach_ready:
  assumes "reach cfg os pl st w" "config_valid cfg" "4096 dvd CONFIG_CLASS_REGION_SIZE cfg" "sane_kernel os"
  shows "ready cfg st w"
  using assms(1)
proof (induction rule: reach.induct)
  case (start w)
  then show ?case using assms(2) by (simp add: ready_def uninitialised_initial)
next
  case (malloc st w sz p st' w')
  from all_oD [OF h_malloc_ok [OF malloc.IH assms(3,4)] malloc.hyps(2)] show ?case by (rule alloc_result_ready)
next
  case (calloc st w nmemb sz p st' w')
  from all_oD [OF h_calloc_result [OF calloc.IH assms(3,4)] calloc.hyps(2)] show ?case by (rule alloc_result_ready)
next
  case (realloc st w old sz p st' w')
  from all_oD [OF h_realloc_ready [OF realloc.IH assms(3,4)] realloc.hyps(2)] show ?case by simp
next
  case (reallocarray st w old nmemb sz p st' w')
  from all_oD [OF h_realloc_ready [OF reallocarray.IH assms(3,4)], of pl old "nmemb * sz" "(p, st', w')"] reallocarray.hyps(2) reallocarray.IH
  show ?case by (auto simp: h_reallocarray_def builtin_mul_overflow_def split: if_splits)
next
  case (posix_memalign st w alignment sz r st' w')
  from all_oD [OF alloc_aligned_ok [OF posix_memalign.IH assms(3,4)] posix_memalign.hyps(2) [unfolded h_posix_memalign_def]]
  show ?case by (auto dest: aligned_result_ready)
next
  case (aligned_alloc st w alignment sz p st' w')
  from all_oD [OF aligned_simple_ready [OF aligned_alloc.IH assms(3,4)] aligned_alloc.hyps(2) [unfolded h_aligned_alloc_def]]
  show ?case by simp
next
  case (valloc st w sz p st' w')
  from all_oD [OF aligned_simple_ready [OF valloc.IH assms(3,4)] valloc.hyps(2) [unfolded h_valloc_def]] show ?case by simp
next
  case (pvalloc st w sz p st' w')
  from all_oD [OF h_pvalloc_ok [OF pvalloc.IH assms(3,4)] pvalloc.hyps(2)] show ?case by (rule alloc_result_ready)
next
  case (trim st w t st' w')
  from all_oD [OF h_malloc_trim_ok [OF trim.IH] trim.hyps(2)] show ?case by simp
next
  case (free st w p st' w')
  then show ?case
    using all_oD [OF h_free_result [OF free.IH] free.hyps(2)] by (cases "p = NULL") (auto simp: h_free_def dest: free_result_ready)
next
  case (free_sized st w p n st' w')
  then show ?case
    using all_oD [OF h_free_sized_result [OF free_sized.IH] free_sized.hyps(2)]
    by (cases "p = NULL") (auto simp: h_free_sized_def dest: free_result_ready)
next
  case (free_aligned_sized st w p alignment n st' w')
  then show ?case
    using all_oD [OF h_free_aligned_sized_result [OF free_aligned_sized.IH] free_aligned_sized.hyps(2)]
    by (cases "p = NULL") (auto simp: h_free_aligned_sized_def dest: free_result_ready)
next
  case (fork st w st' w')
  have "heap_inv cfg st w" using fork.IH fork.hyps(2) by (auto simp: ready_def uninitialised_def zeroed_def is_init_def)
  from all_oD [OF post_fork_child_ok [OF this] fork.hyps(3)] show ?case by (simp add: ready_def)
next
  case (client st w w' t)
  from ready_client [OF client.IH client.hyps(2,3)] show ?case .
qed

end
