(* ===== verification/Heap_Example.thy ===== *)
theory Heap_Example
  imports Heap_Reach
begin

text \<open>
  A run of the allocator from the start of a process, on the kernel that hands out mappings one after the other:
  initialisation returns, a small request is served from a slab and freed again. The theorems on reachable states
  are instantiated with it.
\<close>

section \<open>Random numbers that return\<close>

text \<open>A kernel that always delivers the bytes asked for.\<close>

definition entropy :: "kernel \<Rightarrow> bool" where
  "entropy os \<longleftrightarrow> (\<forall>i n. \<exists>bs. k_getrandom os i n = Got_bytes bs \<and> length bs = n)"

lemma entropy_bump: "entropy bump_kernel"
  by (simp add: entropy_def bump_kernel_def)

lemma get_random_seed_returns:
  assumes "entropy os"
  shows "\<exists>bs. get_random_seed os n w = Returned (bs, w\<lparr>w_seeds := w_seeds w + (if n = 0 then 0 else 1)\<rparr>)"
proof -
  obtain bs where bs: "k_getrandom os (w_seeds w) n = Got_bytes bs" "length bs = n" using assms by (auto simp: entropy_def)
  then have "n \<noteq> 0 \<Longrightarrow> bs \<noteq> []" by auto
  with bs show ?thesis
    by (auto simp: get_random_seed_def get_random_seed_loop.simps getrandom_def)
qed

lemma random_state_init_returns: "entropy os \<Longrightarrow> returns (random_state_init os state w)"
  using get_random_seed_returns [of os "CHACHA_KEY_SIZE + CHACHA_IV_SIZE" w] by (auto simp: random_state_init_def returns_def)

lemma refill_returns: "entropy os \<Longrightarrow> returns (refill os state w)"
  unfolding refill_def by (auto intro!: returns_bind random_state_init_returns split: prod.splits)

lemma get_random_u64_returns: "entropy os \<Longrightarrow> returns (get_random_u64 os state w)"
  unfolding get_random_u64_def get_random_word_def Let_def by (auto intro!: returns_bind refill_returns)

lemma get_random_bytes_loop_returns:
  "entropy os \<Longrightarrow> random_state_ok state \<Longrightarrow> returns (get_random_bytes_loop os state buf n w)"
proof (induction n arbitrary: state buf w rule: less_induct)
  case (less n)
  show ?case
  proof (cases "n = 0")
    case False
    have step: "returns (get_random_bytes_loop os (st\<lparr>rs_index := rs_index st + min n (256 - rs_index st)\<rparr>)
        (buf @ take (min n (256 - rs_index st)) (drop (rs_index st) (rs_cache st))) (n - min n (256 - rs_index st)) v)"
      if "random_state_ok st" "rs_index st < 256" for st v
      using that False less.prems(1) by (intro less.IH) (auto simp: random_state_ok_def)
    show ?thesis
    proof (cases "rs_index state = 256")
      case True
      obtain st v where st: "refill os state w = Returned (st, v)"
        using refill_returns [OF less.prems(1), of state w] by (auto simp: returns_def)
      have "random_state_ok st" using refill_ok [OF st less.prems(2)] by simp
      moreover have "rs_index st = 0" using st unfolding refill_def by (auto simp: outcome_simps case_prod_unfold Let_def)
      ultimately show ?thesis
        using step [of st v] True False st by (subst get_random_bytes_loop.simps) (simp add: Let_def)
    next
      case idx: False
      then have "rs_index state < 256" using less.prems(2) by (simp add: random_state_ok_def)
      with step [OF less.prems(2) this, of w] idx False show ?thesis
        by (subst get_random_bytes_loop.simps) (simp add: Let_def)
    qed
  qed (simp add: get_random_bytes_loop.simps)
qed

lemma random_state_init_from_random_state_returns:
  assumes "entropy os" "random_state_ok source"
  shows "returns (random_state_init_from_random_state os state source w)"
  unfolding random_state_init_from_random_state_def get_random_bytes_def
  using get_random_bytes_loop_returns [OF assms] by (auto intro!: returns_bind split: prod.splits)

lemma get_random_u64_uniform_returns:
  assumes "entropy os" "unat bound dvd 2 ^ 64"
  shows "returns (get_random_u64_uniform os state bound w)"
proof -
  obtain x st v where d: "get_random_u64 os state w = Returned (x, st, v)"
    using get_random_u64_returns [OF assms(1), of state w] by (auto simp: returns_def)
  then have "(case (state, w) of (state, w) \<Rightarrow> get_random_u64 os state w) = Returned (x, (st, v))" by simp
  from u64_sampler.uniform_one_draw [OF this, of bound] assms(2)
  obtain v' where "uniform TYPE(128) (\<lambda>(state, w). get_random_u64 os state w) bound (state, w) = Returned (v', (st, v))"
    by auto
  then show ?thesis unfolding get_random_u64_uniform_def by (simp add: returns_def)
qed

section \<open>Mappings that succeed\<close>

text \<open>The kernel of the examples, as long as the addresses in use are below a bound.\<close>

definition below :: "nat \<Rightarrow> world \<Rightarrow> bool" where
  "below T w \<longleftrightarrow> vm_top (w_history w) \<le> T"

lemma below_start: "below (2 ^ 44) start_world"
  by (simp add: below_def start_world_def)

lemma below_same_memory: "same_memory w w' \<Longrightarrow> below T w' = below T w"
  by (simp add: below_def same_memory_def)

lemma bump_map:
  assumes "below T w" "T + 4096 + page_round n < 2 ^ 64"
  shows "\<exists>p w'. memory_map bump_kernel n w = Returned (p, w') \<and> p \<noteq> NULL \<and> below (T + 4096 + page_round n) w' \<and>
    w_seeds w' = w_seeds w"
proof -
  define a where "a = (vm_top (w_history w) + 4095) div 4096 * 4096"
  have "a \<le> vm_top (w_history w) + 4095" unfolding a_def by (rule div_times_less_eq_dividend)
  then have a: "a + page_round n < T + 4096 + page_round n" using assms(1) by (simp add: below_def)
  then have lt: "a + page_round n < 2 ^ 64" using assms(2) by linarith
  have "0 < a" using round_up_ge [of "vm_top (w_history w)"] vm_top_pos [of "w_history w"] unfolding a_def by linarith
  then have p: "(of_nat a :: ptr) \<noteq> NULL" "unat (of_nat a :: ptr) = a" using lt by (simp_all add: unat_of_nat word_unat_eq_iff)
  let ?w = "w\<lparr>w_history := (Mmap n PROT_NONE, Sys_ok (of_nat a)) # w_history w\<rparr>"
  have "memory_map bump_kernel n w = Returned (of_nat a, ?w)"
    using lt by (simp add: memory_map_def memory_map_prot_def sys_def bump_kernel_def Let_def a_def)
  moreover have "below (T + 4096 + page_round n) ?w"
    using a assms(1) lt p(2) by (simp add: below_def call_top_def range_top_def)
  ultimately show ?thesis using p(1) by (intro exI [of _ "of_nat a"] exI [of _ ?w]) simp
qed

lemma bump_protect:
  "memory_protect_rw bump_kernel p n w = Returned (False, w\<lparr>w_history := (Mprotect p n PROT_READ_WRITE, Sys_ok 0) # w_history w\<rparr>)"
  "memory_protect_rw_metadata bump_kernel p n w = Returned (False, w\<lparr>w_history := (Mprotect p n PROT_READ_WRITE, Sys_ok 0) # w_history w\<rparr>)"
  "memory_protect_ro bump_kernel p n w = Returned (False, w\<lparr>w_history := (Mprotect p n PROT_READ, Sys_ok 0) # w_history w\<rparr>)"
  "memory_unmap bump_kernel p n w = Returned (False, w\<lparr>w_history := (Munmap p n, Sys_ok 0) # w_history w\<rparr>)"
  by (simp_all add: memory_wrapper_defs sys_bool_def sys_def bump_kernel_def)

lemma below_protect [simp]:
  "below T (w\<lparr>w_history := (Mprotect p n pr, Sys_ok r) # w_history w\<rparr>) = below T w"
  "below T (w\<lparr>w_history := (Munmap p n, Sys_ok r) # w_history w\<rparr>) = below T w"
  by (simp_all add: below_def call_top_def)

lemma bump_allocate_pages:
  assumes "below T w" "unat n + 2 * unat g < 2 ^ 64" "T + 4096 + page_round (n + g * 2) < 2 ^ 64" "unat g < 2 ^ 32"
  shows "\<exists>p w'. allocate_pages bump_kernel n g u w = Returned (p, w') \<and> p \<noteq> NULL \<and> below (T + 4096 + page_round (n + g * 2)) w' \<and>
    w_seeds w' = w_seeds w"
proof -
  have ag: "add_guards n g = (False, n + g * 2)"
    using add_guards_iff [of n g "n + g * 2"] assms(2) by (cases "add_guards n g") auto
  obtain p w' where m: "memory_map bump_kernel (n + g * 2) w = Returned (p, w')" "p \<noteq> NULL"
    "below (T + 4096 + page_round (n + g * 2)) w'" "w_seeds w' = w_seeds w" using bump_map [OF assms(1,3)] by blast
  have fresh: "fresh_mmap bump_kernel w (n + g * 2)" by (rule fresh_mmap_bump)
  have room: "unat p + page_round (n + g * 2) < 2 ^ 64"
    using memory_map_view [OF m(1,2)] fresh by (auto simp: fresh_mmap_def)
  have "unat (n + g * 2) = unat n + 2 * unat g" by (rule add_guards_nat [OF assms(2)])
  then have "unat p + unat g < 2 ^ LENGTH(64)" using room page_round_ge [of "n + g * 2"] by simp
  then have "unat (p + g) = unat p + unat g" by (rule unat_add_lt)
  moreover have "0 < unat p" using m(2) by (simp add: unat_gt_0)
  ultimately have "p + g \<noteq> NULL" by auto
  then have "allocate_pages bump_kernel n g u w = Returned (p + g,
      if u then w'\<lparr>w_history := (Mprotect (p + g) n PROT_READ_WRITE, Sys_ok 0) # w_history w'\<rparr> else w')"
    using m(1,2) by (cases u) (simp_all add: allocate_pages_def ag bump_protect Let_def)
  with \<open>p + g \<noteq> NULL\<close> m(3,4) show ?thesis by (cases u) simp_all
qed

section \<open>The first random number\<close>

definition zero_seeded :: random_state where
  "zero_seeded = blank_random_state\<lparr>rs_ctx := chacha_ivsetup (chacha_keysetup (replicate 16 0) (replicate 40 0))
     (drop CHACHA_KEY_SIZE (replicate 40 0)), rs_index := 256, rs_reseed := 0\<rparr>"

lemma random_state_init_bump:
  "random_state_init bump_kernel blank_random_state w = Returned (zero_seeded, w\<lparr>w_seeds := Suc (w_seeds w)\<rparr>)"
  by (simp add: random_state_init_def get_random_seed_def get_random_seed_loop.simps getrandom_def bump_kernel_def
      zero_seeded_def blank_random_state_def)

lemma first_bytes: "take 8 (chacha_block (rs_ctx zero_seeded)) = [0x3e, 0x00, 0xef, 0x2f, 0x89, 0x5f, 0x40, 0xd6]"
proof -
  have "rs_ctx zero_seeded = chacha_ivsetup (chacha_keysetup (replicate 16 0) (replicate 32 0)) (replicate 8 0)"
    by (simp add: zero_seeded_def chacha_ivsetup_def chacha_keysetup_def U8TO32_LITTLE_def blank_random_state_def)
  then show ?thesis by (simp add: chacha8_zero_block)
qed

lemma first_draw: "\<exists>st. get_random_u64 bump_kernel zero_seeded w = Returned (0xd6405f892fef003e, st, w)"
proof -
  have len: "length (chacha_block (rs_ctx zero_seeded)) = 64"
    by (simp add: length_chacha_block zero_seeded_def chacha_ivsetup_def chacha_keysetup_def blank_random_state_def)
  obtain ctx rest where ks: "chacha_keystream_bytes (rs_ctx zero_seeded) 256 = (ctx, chacha_block (rs_ctx zero_seeded) @ rest)"
    by (cases "keystream_loop (chacha_next (rs_ctx zero_seeded)) 192")
      (simp add: chacha_keystream_bytes_def keystream_loop.simps [of _ 256])
  have st: "rs_index zero_seeded = 256" "rs_reseed zero_seeded = 0" by (simp_all add: zero_seeded_def)
  have "le_word (take 8 (chacha_block (rs_ctx zero_seeded))) = (0xd6405f892fef003e :: u64)"
    unfolding first_bytes by simp
  then show ?thesis
    using len by (simp add: get_random_u64_def get_random_word_def refill_def st ks)
qed

lemma first_uniform: "returns (get_random_u64_uniform bump_kernel zero_seeded 16386 w)"
proof -
  obtain st where d: "get_random_u64 bump_kernel zero_seeded w = Returned (0xd6405f892fef003e, st, w)" using first_draw by blast
  have "\<exists>v. lemire_draw TYPE(128) (16386 :: u64) 0xd6405f892fef003e = Some v"
    by (simp add: lemire_draw_def Let_def)
  then show ?thesis
    unfolding get_random_u64_uniform_def by (subst u64_sampler.uniform_unfold) (auto simp: d)
qed

section \<open>Initialisation\<close>

definition example_config :: config where
  "example_config = plain_config\<lparr>CONFIG_CLASS_REGION_SIZE := 33558528, N_ARENA := 1, CONFIG_STATS := True\<rparr>"

definition example_platform :: platform where
  "example_platform = \<lparr>pl_page_size = 4096, pl_ro = 0x1000, pl_sizeof_allocator_state = 0x100000, pl_regions_a = 0x1000,
     pl_regions_b = 0x2000, pl_slab_info = (\<lambda>a k. 0x10000 + of_nat k * 0x1000), pl_atfork_fails = False\<rparr>"

lemma example_config_simps [simp]:
  "\<not> SLOT_RANDOMIZE example_config" "\<not> SLAB_CANARY example_config" "CONFIG_STATS example_config"
  "\<not> SLAB_QUARANTINE example_config" "FREE_SLABS_QUARANTINE_RANDOM_LENGTH example_config = 0"
  "CONFIG_CLASS_REGION_SIZE example_config = 33558528" "CONFIG_EXTENDED_SIZE_CLASSES example_config"
  "N_ARENA example_config = 1" "config_valid example_config"
  by (simp_all add: example_config_def plain_config_def light_config_def default_config_def SLAB_QUARANTINE_def config_valid_def
      MREMAP_MOVE_THRESHOLD_def)

lemma example_bounds:
  "REAL_CLASS_REGION_SIZE example_config div PAGE_SIZE = 16386"
  "(REAL_CLASS_REGION_SIZE example_config - CLASS_REGION_SIZE example_config) div PAGE_SIZE - 1 = 8192"
  by (simp_all add: REAL_CLASS_REGION_SIZE_def CLASS_REGION_SIZE_def)

lemma init_size_class_returns:
  assumes "k < N_SIZE_CLASSES example_config" "random_state_ok rng" 
  shows "returns (init_size_class example_config bump_kernel s a k base c rng w)"
proof -
  have "returns (setup_size_class example_config k start base c)" for start c
    by (rule setup_size_class_eq [OF assms(1), of start base c]) simp
  moreover have "returns (get_random_u64_uniform bump_kernel st 8192 w)" for st w
    by (rule get_random_u64_uniform_returns [OF entropy_bump]) simp
  moreover have "returns (random_state_init_from_random_state bump_kernel (sc_rng c) rng w)"
    by (rule random_state_init_from_random_state_returns [OF entropy_bump assms(2)])
  ultimately show ?thesis unfolding init_size_class_def Let_def example_bounds by (auto intro!: returns_bind)
qed

lemma init_classes_returns:
  assumes "random_state_ok rng" "4096 dvd unat s" "unat s + unat (slab_region_size example_config) < 2 ^ 64"
    and "distinct aks" "\<And>a k. (a, k) \<in> set aks \<Longrightarrow> a < 1 \<and> k < N_SIZE_CLASSES example_config \<and> the_class st a k = zero_size_class example_config"
  shows "returns (init_classes example_config bump_kernel pl p s aks st rng w)"
  using assms(1,4,5)
proof (induction aks arbitrary: st rng w)
  case (Cons ak aks)
  obtain a k where ak: "ak = (a, k)" by (cases ak)
  have z: "a < 1" "k < N_SIZE_CLASSES example_config" "the_class st a k = zero_size_class example_config"
    using Cons.prems(3) [of a k] by (auto simp: ak)
  obtain c rng1 w1 where i: "init_size_class example_config bump_kernel s a k (p + pl_slab_info pl a k) (zero_size_class example_config) rng w
      = Returned (c, rng1, w1)"
    using init_size_class_returns [OF z(2) Cons.prems(1), of s a "p + pl_slab_info pl a k" "zero_size_class example_config" w]
    by (auto simp: returns_def)
  have ok: "random_state_ok rng1"
    using init_size_class_ok(2) [OF i Cons.prems(1)] z(1,2) assms(2,3) by simp
  have "returns (init_classes example_config bump_kernel pl p s aks (upd_class a k c st) rng1 w1)"
  proof (rule Cons.IH [OF ok])
    show "distinct aks" using Cons.prems(2) by simp
    fix a' k' assume in': "(a', k') \<in> set aks"
    then have "\<not> (a' = a \<and> k' = k)" using Cons.prems(2) by (auto simp: ak)
    with in' Cons.prems(3) [of a' k']
    show "a' < 1 \<and> k' < N_SIZE_CLASSES example_config \<and> the_class (upd_class a k c st) a' k' = zero_size_class example_config" by auto
  qed
  then show ?case by (simp add: ak z(3) i)
qed simp

lemma init_allocator_state_returns:
  assumes "random_state_ok rng" "below (2 ^ 45) w"
  shows "returns (init_allocator_state example_config bump_kernel pl p (initial_state example_config) rng w)"
proof -
  let ?w = "w\<lparr>w_history := (Mprotect p (pl_regions_a pl) PROT_READ_WRITE, Sys_ok 0) # w_history w\<rparr>"
  obtain r rng1 w1 where i: "random_state_init_from_random_state bump_kernel blank_random_state rng ?w = Returned (r, rng1, w1)"
    using random_state_init_from_random_state_returns [OF entropy_bump assms(1), of blank_random_state ?w] by (auto simp: returns_def)
  have ok: "random_state_ok rng1" "same_memory ?w w1"
    using random_state_init_from_random_state_ok [OF i _ _ assms(1)] by (simp_all add: blank_random_state_def)
  have "\<exists>ra w2. init_region_allocator bump_kernel (p + pl_regions_a pl) (p + pl_regions_b pl) (zero_region_allocator example_config) rng ?w
      = Returned (ra, rng1, w2) \<and> below (2 ^ 45) w2"
    using i assms(2) below_same_memory [OF ok(2), of "2 ^ 45"]
    by (simp add: init_region_allocator_def zero_region_allocator_def bump_protect Let_def)
  then obtain ra w2 where ra: "init_region_allocator bump_kernel (p + pl_regions_a pl) (p + pl_regions_b pl)
      (zero_region_allocator example_config) rng ?w = Returned (ra, rng1, w2)" "below (2 ^ 45) w2" by blast
  have size: "unat (slab_region_size example_config) \<le> 2 ^ 33" "4096 dvd unat (slab_region_size example_config)"
    using unat_slab_region_size(1) [of example_config] by (simp_all add: N_SIZE_CLASSES_eq)
  have "2 ^ 45 + 4096 + page_round (slab_region_size example_config) < 2 ^ 64"
    using size by (simp add: page_round_aligned)
  from bump_map [OF ra(2) this] obtain s w3 where m: "memory_map bump_kernel (slab_region_size example_config) w2 = Returned (s, w3)" "s \<noteq> NULL"
    by blast
  note sm = slab_region_mapped [OF m fresh_mmap_bump owns_empty]
  have "unat s + unat (slab_region_size example_config) < 2 ^ 64"
    using sm(3) size(2) by (simp add: page_round_aligned)
  then have "returns (init_classes example_config bump_kernel pl p s (all_classes example_config)
      ((initial_state example_config)\<lparr>st_region_allocator := ra, st_slab_region_start := s\<rparr>) rng1 w3)"
    by (intro init_classes_returns [OF ok(1) sm(2) _ all_classes_set(2)])
      (auto simp: all_classes_set(1) initial_state_def)
  moreover have "st_region_allocator (initial_state example_config) = zero_region_allocator example_config"
    by (simp add: initial_state_def)
  ultimately show ?thesis using ra(1) m by (simp add: init_allocator_state_def bump_protect)
qed

lemma init_slow_path_returns:
  "returns (init_slow_path example_config bump_kernel example_platform (initial_state example_config) start_world)"
proof -
  have sz: "page_round (sizeof_random_state + 8192) = 12288" "unat sizeof_random_state + 2 * unat PAGE_SIZE < 2 ^ 64"
    by (simp_all add: page_round_def sizeof_random_state_def)
  obtain p1 w1 where a1: "allocate_pages bump_kernel sizeof_random_state PAGE_SIZE True start_world = Returned (p1, w1)" "p1 \<noteq> NULL"
      "below (2 ^ 44 + 16384) w1"
    using bump_allocate_pages [OF below_start sz(2), of True] by (auto simp: sz(1))
  let ?w2 = "w1\<lparr>w_seeds := Suc (w_seeds w1)\<rparr>"
  obtain r rng w3 where g: "get_random_u64_uniform bump_kernel zero_seeded 16386 ?w2 = Returned (r, rng, w3)"
    using first_uniform [of ?w2] by (auto simp: returns_def)
  have "random_state_ok zero_seeded" by (simp add: random_state_ok_def zero_seeded_def chacha_ivsetup_def chacha_keysetup_def blank_random_state_def)
  note g_ok = get_random_u64_uniform_ok [OF g this]
  have b3: "below (2 ^ 44 + 16384) w3" using a1(3) g_ok below_same_memory [of ?w2 w3] by (simp add: below_def)
  have "unat r < 16386" using g_ok by (simp add: word_less_nat_alt)
  define gs where "gs = (r + 1) * PAGE_SIZE"
  have u: "unat gs = (unat r + 1) * 4096" using \<open>unat r < 16386\<close> by (simp add: gs_def unat_word_ariths)
  have n: "unat (0x100000 + gs * 2 :: size_t) = 0x100000 + 2 * unat gs"
    using \<open>unat r < 16386\<close> add_guards_nat [of "0x100000" gs] by (simp add: u)
  have round: "page_round (0x100000 + gs * 2) = 0x100000 + 2 * ((unat r + 1) * 4096)"
    using page_round_aligned [of "0x100000 + gs * 2"] n u by simp
  obtain p2 w4 where a2: "allocate_pages bump_kernel 0x100000 gs False w3 = Returned (p2, w4)" "p2 \<noteq> NULL" "below (2 ^ 45) w4"
  proof -
    have lim: "unat (0x100000 :: size_t) + 2 * unat gs < 2 ^ 64" "2 ^ 44 + 16384 + 4096 + page_round (0x100000 + gs * 2) < 2 ^ 64"
      "unat gs < 2 ^ 32" "2 ^ 44 + 16384 + 4096 + page_round (0x100000 + gs * 2) \<le> 2 ^ 45"
      using \<open>unat r < 16386\<close> u round by simp_all
    obtain p2 w4 where "allocate_pages bump_kernel 0x100000 gs False w3 = Returned (p2, w4)" "p2 \<noteq> NULL"
      "below (2 ^ 44 + 16384 + 4096 + page_round (0x100000 + gs * 2)) w4"
      using bump_allocate_pages [OF b3 lim(1-3), of False] by blast
    then show ?thesis using that lim(4) unfolding below_def by (meson le_trans)
  qed
  have rng: "random_state_ok rng" using g_ok by simp
  obtain st rng' w5 where s: "init_allocator_state example_config bump_kernel example_platform p2 (initial_state example_config) rng w4
      = Returned (st, rng', w5)"
    using init_allocator_state_returns [OF rng a2(3), of example_platform p2] by (auto simp: returns_def)
  have "\<not> is_init (initial_state example_config)" by (simp add: is_init_def initial_state_def)
  then show ?thesis
    using a1 g a2 s unfolding gs_def
    by (simp add: init_slow_path_def example_platform_def example_bounds(1) random_state_init_bump Let_def deallocate_pages_def bump_protect)
qed

section \<open>A request and its release\<close>

lemma fresh_class_allocates:
  assumes "fresh_class example_config s 0 k c" "k < N_SIZE_CLASSES example_config"
    and "unat s + unat (slab_region_size example_config) < 2 ^ 64"
  shows "\<exists>p c' w'. allocate_small_class example_config bump_kernel c rs (ucast (sc_size c)) w = Returned (p, c', w') \<and> p \<noteq> NULL"
proof -
  obtain rng start base where f: "random_state_ok rng" "unat s + class_offset example_config 0 k < unat start"
    "setup_size_class example_config k start base ((zero_size_class example_config)\<lparr>sc_rng := rng\<rparr>) = Returned c"
    using assms(1) by (auto simp: fresh_class_def)
  obtain sz slots slab d1 d2 where c: "c = (zero_size_class example_config)\<lparr>sc_rng := rng, sc_class_region_start := start, sc_size := sz,
      sc_slots := slots, sc_slab_size := slab, sc_size_divisor := d1, sc_slab_size_divisor := d2, sc_slab_info_base := base\<rparr>"
    by (rule setup_size_class_eq [OF assms(2), of start base "(zero_size_class example_config)\<lparr>sc_rng := rng\<rparr>"])
      (use f(3) in auto)
  have "class_ok example_config k c" using fresh_class_ok(1) [OF assms(1) _ _ assms(2,3)] by simp
  then obtain ps es fs where "class_inv example_config k [] c ps es fs" by (auto simp: class_ok_def)
  note st = class_invD(1) [OF this]
  note pos = geometry_pos [OF class_static_geometry [OF st]]
  have "cslab c \<le> CONFIG_CLASS_REGION_SIZE example_config" using pos(5) by simp
  then have "0 < CONFIG_CLASS_REGION_SIZE example_config div cslab c" using pos(4) by (simp only: div_greater_zero_iff)
  then have room: "0 < get_metadata_max example_config (ucast (sc_slab_size c))" by (simp only: metadata_max_nat [OF st])
  have "\<exists>c' w'. allocate_small_class example_config bump_kernel c rs (ucast (sc_size c)) w = Returned (sc_class_region_start c, c', w')"
    by (rule first_allocation) (use pos(2) room in \<open>simp_all add: c zero_size_class_def\<close>)
  moreover have "sc_class_region_start c \<noteq> NULL" using f(2) by (auto simp: c)
  ultimately show ?thesis by blast
qed

lemma h_free_small_returns:
  assumes "heap_inv cfg st w" "p \<in> heap_live cfg st" "in_slab_region st p"
    and "\<not> SLAB_QUARANTINE cfg" "FREE_SLABS_QUARANTINE_RANDOM_LENGTH cfg = 0" "\<not> SLAB_CANARY cfg" "only_ENOMEM os"
  shows "returns (h_free cfg os st p w)"
proof -
  obtain a k where ak: "a < N_ARENA cfg" "k < N_SIZE_CLASSES cfg" "slab_size_class cfg st p = \<lparr>ssci_arena = a, ssci_class = k\<rparr>"
    by (rule slab_address_class [OF assms(1,3)])
  have "p \<in> live (the_class st a k)"
    using heap_live_iff [OF assms(1), of p] slab_live_iff [OF assms(1) ak] assms(2,3) by simp
  then have "returns (deallocate_small_class cfg os (the_class st a k) k p None w)"
    by (rule deallocate_small_class_returns [OF heap_invD(4) [OF assms(1) ak(1,2)] _ assms(4,5,7)])
      (use assms(6) in \<open>simp add: check_canary_def\<close>)
  moreover have "p \<noteq> NULL" using assms(2) heap_live_nonnull [OF assms(1)] by blast
  ultimately show ?thesis
    using assms(3) by (auto simp: h_free_def deallocate_small_def Let_def ak(3) intro!: returns_bind)
qed

lemma example_sane: "sane_kernel bump_kernel" "4096 dvd CONFIG_CLASS_REGION_SIZE example_config"
  by (rule sane_bump) simp

text \<open>A request to a class that has not been used yet.\<close>

lemma example_malloc:
  assumes "heap_inv example_config st w" "sz \<le> 131072" "k = unat (si_class (get_size_info sz))"
    and "fresh_class example_config (st_slab_region_start st) 0 k (the_class st 0 k)"
  obtains p c' w' where "allocate example_config bump_kernel st 0 sz w = Returned (p, upd_class 0 k c' st, w')" "p \<noteq> NULL"
    "in_slab_region st p" "unat (slab_usable_size example_config st p) = class_size example_config k"
proof -
  let ?cfg = example_config
  have le: "sz \<le> max_slab_size_class ?cfg" using assms(2) by (simp add: max_slab_size_class_def)
  note k = get_size_info_class [OF le, folded assms(3)]
  have room: "unat (st_slab_region_start st) + unat (slab_region_size ?cfg) < 2 ^ 64"
    using heap_invD(2) [OF assms(1)] by (simp add: region_placed_def)
  obtain p c' w' where al: "allocate_small_class ?cfg bump_kernel (the_class st 0 k) sz (ucast (sc_size (the_class st 0 k))) w = Returned (p, c', w')"
    "p \<noteq> NULL" using fresh_class_allocates [OF assms(4) k(1) room, of sz w] by blast
  have ok: "class_ok ?cfg k (the_class st 0 k)" using fresh_class_ok(1) [OF assms(4) _ _ k(1) room] by simp
  then have "csize (the_class st 0 k) = slot_size ?cfg k" "class_static ?cfg k (the_class st 0 k)"
    by (auto simp: class_ok_def class_inv_def class_static_def)
  then have "ucast (sc_size (the_class st 0 k)) = (if si_size (get_size_info sz) \<noteq> 0 then si_size (get_size_info sz) else 16)"
    using k(2) by (simp add: word_unat_eq_iff)
  then have a: "allocate ?cfg bump_kernel st 0 sz w = Returned (p, upd_class 0 k c' st, w')"
    using al(1) le by (simp add: allocate_def allocate_small_def Let_def assms(3))
  obtain i s where "valid_pair ?cfg (the_class st 0 k) (i, s)" "p = slot_ptr (the_class st 0 k) i s"
    using allocate_small_class_ok [OF al(1) ok] al(2) by (auto simp: allocated_from_def)
  then have "in_slab_region st p" "unat (slab_usable_size ?cfg st p) = class_size ?cfg k"
    using slot_address [OF assms(1) _ k(1) \<open>class_static ?cfg k (the_class st 0 k)\<close>] slab_usable_size_class by simp_all
  with that a al(2) show ?thesis by blast
qed

lemma example_info:
  "unat (si_class (get_size_info 8)) = 1" "unat (si_class (get_size_info 100)) = 7"
  "unat (si_class (get_size_info 120)) = 8"
  by (simp_all add: get_size_info_def align_def)

text \<open>A first request, a second one from another class, and the release of the first.\<close>

lemma example_run:
  obtains p q st1 w1 st2 w2 st3 w3 where
    "h_malloc example_config bump_kernel example_platform (initial_state example_config) 8 start_world = Returned (p, st1, w1)"
    "h_malloc example_config bump_kernel example_platform st1 100 w1 = Returned (q, st2, w2)"
    "h_free example_config bump_kernel st2 p w2 = Returned (st3, w3)"
    "p \<noteq> NULL" "q \<noteq> NULL" "p \<noteq> q" "in_slab_region st2 p" "heap_inv example_config st2 w2"
    "heap_live example_config st1 = {p}" "heap_live example_config st2 = {p, q}" "heap_live example_config st3 = {q}"
    "unat (slab_usable_size example_config st2 p) = 16"
    "fresh_class example_config (st_slab_region_start st2) 0 8 (the_class st2 0 8)"
proof -
  let ?cfg = example_config and ?st = "initial_state example_config"
  have z: "zeroed ?cfg ?st" using uninitialised_initial [of ?cfg] by (simp add: uninitialised_def)
  obtain st w where i: "init_slow_path ?cfg bump_kernel example_platform ?st start_world = Returned (st, w)"
    using init_slow_path_returns by (auto simp: returns_def)
  have st: "fresh_state ?cfg st" "heap_inv ?cfg st w" "heap_live ?cfg st = {}"
    using all_oD [OF init_slow_path_ok [OF z _ example_sane(2,1)] i] by simp_all
  have fresh: "fresh_class ?cfg (st_slab_region_start st) 0 k (the_class st 0 k)" if "k < N_SIZE_CLASSES ?cfg" for k
    using st(1) that by (simp add: fresh_state_def)
  have N: "7 < N_SIZE_CLASSES ?cfg" "8 < N_SIZE_CLASSES ?cfg" by (simp_all add: N_SIZE_CLASSES_eq)
  obtain p c w1 where a1: "allocate ?cfg bump_kernel st 0 8 w = Returned (p, upd_class 0 1 c st, w1)" "p \<noteq> NULL" "in_slab_region st p"
      "unat (slab_usable_size ?cfg st p) = class_size ?cfg 1"
    by (rule example_malloc [OF st(2) _ example_info(1) [symmetric] fresh]) (use N in simp_all)
  let ?st1 = "upd_class 0 1 c st"
  have adj: "adjust_size_for_canary ?cfg sz = sz" for sz by (simp add: adjust_size_for_canary_def canary_size_def)
  have m1: "h_malloc ?cfg bump_kernel example_platform ?st 8 start_world = Returned (p, ?st1, w1)"
    using i a1(1) z by (simp add: h_malloc_def alloc_def init_def is_init_def zeroed_def adj)
  have "ready ?cfg ?st start_world" by (simp add: ready_def uninitialised_initial)
  from all_oD [OF h_malloc_ok [OF this example_sane(2,1)] m1] a1(2) zeroed_live [OF z]
  have r1: "ready ?cfg ?st1 w1" "heap_live ?cfg ?st1 = {p}" by (auto simp: alloc_result_def allocated_def)
  then have inv1: "heap_inv ?cfg ?st1 w1" using ready_live by blast
  have f7: "fresh_class ?cfg (st_slab_region_start ?st1) 0 7 (the_class ?st1 0 7)" using fresh [OF N(1)] by simp
  obtain q c2 w2 where a2: "allocate ?cfg bump_kernel ?st1 0 100 w1 = Returned (q, upd_class 0 7 c2 ?st1, w2)" "q \<noteq> NULL"
    by (rule example_malloc [OF inv1 _ example_info(2) [symmetric] f7]) simp_all
  let ?st2 = "upd_class 0 7 c2 ?st1"
  have m2: "h_malloc ?cfg bump_kernel example_platform ?st1 100 w1 = Returned (q, ?st2, w2)"
    using a2(1) heap_inv_is_init [OF inv1] heap_invD(8) [OF inv1] by (simp add: h_malloc_def alloc_def init_def adj)
  from all_oD [OF h_malloc_ok [OF r1(1) example_sane(2,1)] m2] a2(2) r1(2)
  have r2: "ready ?cfg ?st2 w2" "heap_live ?cfg ?st2 = {p, q}" "p \<noteq> q" by (auto simp: alloc_result_def allocated_def)
  then have inv2: "heap_inv ?cfg ?st2 w2" using ready_live by blast
  have slab: "in_slab_region ?st2 p" using a1(3) by simp
  have usable: "unat (slab_usable_size ?cfg ?st2 p) = 16"
    using a1(4) by (simp add: slab_usable_size_def slab_size_class_def class_size_def size_classes_def)
  have "returns (h_free ?cfg bump_kernel ?st2 p w2)"
    by (rule h_free_small_returns [OF inv2]) (use r2(2) slab bump_only_ENOMEM in simp_all)
  then obtain st3 w3 where f: "h_free ?cfg bump_kernel ?st2 p w2 = Returned (st3, w3)" by (auto simp: returns_def)
  from all_oD [OF h_free_result [OF r2(1) a1(2)] f] r2(2,3) have "heap_live ?cfg st3 = {q}" by (auto simp: free_result_def)
  moreover have "fresh_class ?cfg (st_slab_region_start ?st2) 0 8 (the_class ?st2 0 8)" using fresh [OF N(2)] by simp
  ultimately show ?thesis using that [OF m1 m2 f a1(2) a2(2) r2(3) slab inv2 r1(2) r2(2) _ usable] by blast
qed

end
