(* ===== verification/Heap_Inspect.thy ===== *)
theory Heap_Inspect
  imports Heap_Reach
begin

text \<open>
  What \<^verbatim>\<open>h_malloc_usable_size\<close> and \<^verbatim>\<open>h_malloc_object_size\<close> report, for addresses that have been handed out, for
  addresses inside blocks and for any other address.
\<close>

section \<open>Looking up an address inside a slot\<close>

lemma lookup_interior:
  assumes "class_inv cfg k F c ps es fs" "(i, s) \<in> used_pairs c"
    and "unat (slot_ptr c i s) \<le> unat x" "unat x < unat (slot_ptr c i s) + csize c"
  shows "get_metadata c x = Returned i" "slot_of c x (get_slab c (ucast (sc_slab_size c)) i) = s"
proof -
  note inv = class_invD [OF assms(1)]
  note i = slot_interior [OF inv(1) used_valid [OF inv(4) assms(2)] assms(3,4)]
  have "i < sc_metadata_allocated c"
    using slots_okD(6) [OF inv(4), of i] assms(2) by (auto simp: used_pairs_def live_slab_def)
  then show "get_metadata c x = Returned i" using i(1) by (simp add: get_metadata_eq [OF inv(1)] Let_def)
  show "slot_of c x (get_slab c (ucast (sc_slab_size c)) i) = s" using i(2) by (simp add: slot_of_eq [OF inv(1) i(1)])
qed

section \<open>The usable size of a block\<close>

lemma check_canary_cases:
  "check_canary cfg md p n w = Returned () \<or> check_canary cfg md p n w = Aborted ''canary corrupted''"
  by (simp add: check_canary_def Let_def)

lemma no_canary_check:
  assumes "\<not> SLAB_CANARY cfg"
  shows "memory_corruption_check_small cfg st p w \<noteq> Aborted ''canary corrupted''"
  using assms by (simp add: memory_corruption_check_small_def check_canary_def get_metadata_def Let_def)

lemma corruption_check_small:
  assumes "heap_inv cfg st w" "in_slab_region st p"
  shows "p \<in> heap_live cfg st \<Longrightarrow> memory_corruption_check_small cfg st p m = Returned () \<or>
      memory_corruption_check_small cfg st p m = Aborted ''canary corrupted''"
    and "p \<notin> heap_live cfg st \<Longrightarrow> \<exists>msg. memory_corruption_check_small cfg st p m = Aborted msg"
proof -
  obtain a k where ak: "a < N_ARENA cfg" "k < N_SIZE_CLASSES cfg" "slab_size_class cfg st p = \<lparr>ssci_arena = a, ssci_class = k\<rparr>"
    by (rule slab_address_class [OF assms])
  let ?c = "the_class st a k"
  obtain ps es fs where inv: "class_inv cfg k [] ?c ps es fs"
    using heap_invD(4) [OF assms(1) ak(1,2)] by (auto simp: class_ok_def)
  have live: "p \<in> heap_live cfg st \<longleftrightarrow> p \<in> live ?c"
    using assms(2) by (simp add: heap_live_iff [OF assms(1)] slab_live_iff [OF assms(1) ak])
  let ?slab = "\<lambda>i. get_slab ?c (ucast (sc_slab_size ?c)) i"
  have check: "memory_corruption_check_small cfg st p m = bind_o (get_metadata ?c p) (\<lambda>i.
      let slot = slot_of ?c p (?slab i) in
      if slot_pointer (ucast (sc_size ?c)) (?slab i) slot \<noteq> p then Aborted ''invalid unaligned malloc_usable_size''
      else if \<not> is_used_slot (sc_slab_info ?c i) slot then Aborted ''invalid malloc_usable_size''
      else bind_o (if k \<noteq> 0 then check_canary cfg (sc_slab_info ?c i) p (ucast (sc_size ?c)) m else Returned ()) (\<lambda>_.
        if SLAB_QUARANTINE cfg \<and> is_quarantine_slot (sc_slab_info ?c i) slot
        then Aborted ''invalid malloc_usable_size (quarantine)'' else Returned ()))"
    unfolding memory_corruption_check_small_def ak(3) Let_def slab_size_class_info.simps ..
  {
    assume "p \<in> heap_live cfg st"
    then have p: "p \<in> live ?c" using live by simp
    then obtain i s where u: "(i, s) \<in> used_pairs ?c" "(i, s) \<notin> quarantined ?c" "p = slot_ptr ?c i s" by (auto simp: live_def)
    note look = lookup_slot_ptr [OF inv u(1), folded u(3)]
    have al: "slot_pointer (ucast (sc_size ?c)) (?slab i) s = p" using u(3) by (simp only: slot_pointer_slot_ptr)
    note d = dealloc_lookup [OF inv look(1) look(2) [symmetric] al]
    show "memory_corruption_check_small cfg st p m = Returned () \<or>
      memory_corruption_check_small cfg st p m = Aborted ''canary corrupted''"
      unfolding check look(1) bind_o.simps look(2) Let_def
      using al d(2,3) u(1,2) check_canary_cases [of cfg "sc_slab_info ?c i" p "ucast (sc_size ?c)" m] by auto
  next
    assume "p \<notin> heap_live cfg st"
    then have p: "p \<notin> live ?c" using live by simp
    show "\<exists>msg. memory_corruption_check_small cfg st p m = Aborted msg"
    proof (cases "get_metadata ?c p")
      case (Returned i)
      let ?s = "slot_of ?c p (?slab i)"
      have "SLAB_QUARANTINE cfg \<and> is_quarantine_slot (sc_slab_info ?c i) ?s"
        if "slot_pointer (ucast (sc_size ?c)) (?slab i) ?s = p" "is_used_slot (sc_slab_info ?c i) ?s"
      proof -
        note d = dealloc_lookup [OF inv Returned refl that(1)]
        have q: "(i, ?s) \<in> quarantined ?c" using d(2,4) that(2) p by blast
        moreover from this have "SLAB_QUARANTINE cfg" using no_quarantine class_invD(5) [OF inv] by blast
        ultimately show ?thesis using d(3) by simp
      qed
      then show ?thesis
        unfolding check Returned bind_o.simps Let_def
        using check_canary_cases [of cfg "sc_slab_info ?c i" p "ucast (sc_size ?c)" m] by auto
    next
      case (Aborted msg)
      then show ?thesis unfolding check by simp
    qed (simp add: get_metadata_def Let_def split: if_splits)
  }
qed

lemma class_canary:
  assumes "k < N_SIZE_CLASSES cfg" "class_size cfg k \<noteq> 0"
  shows "unat (canary_size cfg) \<le> class_size cfg k"
proof -
  have "16 dvd slot_size cfg k" using class_geometry(1) [OF assms(1)] by (simp add: geometry_def)
  with assms(2) have "16 \<le> class_size cfg k" by (simp add: slot_size_def dvd_imp_le)
  then show ?thesis by (simp add: canary_size_def)
qed

lemma small_usable_size_nat:
  assumes "heap_inv cfg st w" "in_slab_region st p"
  shows "unat (small_usable_size cfg st p) = usable_size cfg st p"
proof -
  obtain a k where ak: "a < N_ARENA cfg" "k < N_SIZE_CLASSES cfg" "slab_size_class cfg st p = \<lparr>ssci_arena = a, ssci_class = k\<rparr>"
    by (rule slab_address_class [OF assms])
  note sz = slab_usable_size_class [OF ak(3)]
  show ?thesis
  proof (cases "class_size cfg k = 0")
    case True
    then have "slab_usable_size cfg st p = 0" using sz by (simp add: unat_eq_0)
    then show ?thesis using assms(2) by (simp add: small_usable_size_def usable_size_def block_size_def)
  next
    case False
    then have nz: "slab_usable_size cfg st p \<noteq> 0" using sz by auto
    have "canary_size cfg \<le> slab_usable_size cfg st p"
      using class_canary [OF ak(2) False] sz by (simp add: word_le_nat_alt)
    then show ?thesis using assms(2) nz
      by (simp add: small_usable_size_def usable_size_def block_size_def unat_sub)
  qed
qed

lemma h_malloc_usable_size_live:
  assumes "heap_inv cfg st w" "p \<in> heap_live cfg st"
  shows "(\<exists>n. h_malloc_usable_size cfg st p m = Returned n \<and> unat n = usable_size cfg st p) \<or>
    in_slab_region st p \<and> h_malloc_usable_size cfg st p m = Aborted ''canary corrupted''"
proof (cases "in_slab_region st p")
  case True
  then show ?thesis
    using corruption_check_small(1) [OF assms(1) True assms(2), of m] small_usable_size_nat [OF assms(1) True]
      heap_live_nonnull [OF assms(1)] assms(2)
    by (auto simp: h_malloc_usable_size_def)
next
  case False
  obtain r where r: "regions_find (st_region_allocator st) p = Returned r"
    "case r of None \<Rightarrow> region_map (st_region_allocator st) p = None
     | Some i \<Rightarrow> region_map (st_region_allocator st) p = Some (ra_regions (st_region_allocator st) i)"
    by (rule regions_find_ok [OF large_invD(2) [OF heap_invD(6) [OF assms(1)]], of p]) (auto split: option.splits)
  then show ?thesis
    using False assms(2) heap_live_nonnull [OF assms(1)] heap_inv_is_init [OF assms(1)]
    by (auto simp: h_malloc_usable_size_def enforce_init_def usable_size_def block_size_def heap_live_iff [OF assms(1)]
        split: option.splits)
qed

lemma h_malloc_usable_size_rejects:
  assumes "ready cfg st w" "p \<notin> heap_live cfg st" "p \<noteq> NULL"
  shows "\<exists>msg. h_malloc_usable_size cfg st p m = Aborted msg"
proof (cases "heap_inv cfg st w")
  case True
  show ?thesis
  proof (cases "in_slab_region st p")
    case slab: True
    then show ?thesis
      using corruption_check_small(2) [OF True slab assms(2), of m] assms(3) by (auto simp: h_malloc_usable_size_def)
  next
    case False
    obtain r where "regions_find (st_region_allocator st) p = Returned r"
      "case r of None \<Rightarrow> region_map (st_region_allocator st) p = None
       | Some i \<Rightarrow> region_map (st_region_allocator st) p = Some (ra_regions (st_region_allocator st) i)"
      by (rule regions_find_ok [OF large_invD(2) [OF heap_invD(6) [OF True]], of p]) (auto split: option.splits)
    then show ?thesis
      using False assms(2,3) heap_inv_is_init [OF True]
      by (auto simp: h_malloc_usable_size_def enforce_init_def heap_live_iff [OF True] split: option.splits)
  qed
next
  case False
  then have "uninitialised cfg st" using assms(1) by (simp add: ready_def)
  then show ?thesis using assms(3)
    by (simp add: h_malloc_usable_size_def enforce_init_def is_init_def in_slab_region_def uninitialised_def zeroed_def)
qed

section \<open>The object size at an address inside a block\<close>

lemma h_malloc_object_size_interior:
  assumes "heap_inv cfg st w" "p \<in> heap_live cfg st" "in_slab_region st p" "x \<in> block cfg st p"
  shows "h_malloc_object_size cfg st x =
    (if usable_size cfg st p < unat x - unat p then Aborted ''invalid malloc_object_size (canary)''
     else Returned (of_nat (usable_size cfg st p - (unat x - unat p))))"
proof -
  obtain a k where ak: "a < N_ARENA cfg" "k < N_SIZE_CLASSES cfg" "p \<in> live (the_class st a k)"
    using assms(2) large_not_slab [OF assms(1)] assms(3) by (cases rule: heap_live_cases) blast+
  let ?c = "the_class st a k"
  note b = small_block [OF assms(1) ak assms(4)]
  note pa = slab_live_address [OF assms(1) ak]
  obtain ps es fs where inv: "class_inv cfg k [] ?c ps es fs"
    using heap_invD(4) [OF assms(1) ak(1,2)] by (auto simp: class_ok_def)
  obtain i s where u: "(i, s) \<in> used_pairs ?c" "(i, s) \<notin> quarantined ?c" "p = slot_ptr ?c i s" using ak(3) by (auto simp: live_def)
  note look = lookup_interior [OF inv u(1), folded u(3), OF b(1,2)]
  let ?slab = "get_slab ?c (ucast (sc_slab_size ?c)) i"
  have al: "slot_pointer (ucast (sc_size ?c)) ?slab s = p" using u(3) by (simp only: slot_pointer_slot_ptr)
  note lp = lookup_slot_ptr [OF inv u(1), folded u(3)]
  note d = dealloc_lookup [OF inv lp(1) lp(2) [symmetric] al]
  have off: "unat (x - p) = unat x - unat p" using b(1) by (simp add: unat_sub_if')
  have us: "small_usable_size cfg st x = small_usable_size cfg st p"
    using b(4) pa(2) by (simp add: small_usable_size_def slab_usable_size_def)
  note n = small_usable_size_nat [OF assms(1,3)]
  have res: "small_usable_size cfg st p - (x - p) = of_nat (usable_size cfg st p - (unat x - unat p))"
    if "unat x - unat p \<le> usable_size cfg st p"
  proof -
    have "unat (small_usable_size cfg st p - (x - p)) = usable_size cfg st p - (unat x - unat p)"
      using that n off by (simp add: unat_sub word_le_nat_alt)
    then show ?thesis by (metis of_nat_unat ucast_id)
  qed
  have "x \<noteq> NULL" using b(1) heap_live_nonnull [OF assms(1)] assms(2) by (auto simp: unat_eq_0)
  then have "h_malloc_object_size cfg st x =
      (if x - p > small_usable_size cfg st p then Aborted ''invalid malloc_object_size (canary)''
       else Returned (small_usable_size cfg st p - (x - p)))"
    using b(3) look u(1,2) d(2,3) al by (simp add: h_malloc_object_size_def b(4) us Let_def)
  then show ?thesis using n off res by (simp add: word_less_nat_alt not_less)
qed

end
