(* ===== verification/Heap_Sized.thy ===== *)
theory Heap_Sized
  imports Heap_Reach
begin

text \<open>
  Sized deallocation: an address that was allocated with a size can be freed with that size.
\<close>

section \<open>The size that an allocation has\<close>

definition rounded :: "config \<Rightarrow> size_t \<Rightarrow> size_t" where
  "rounded cfg n = (if n \<le> max_slab_size_class cfg then si_size (get_size_info n) else get_large_size_class cfg n)"

definition sized :: "config \<Rightarrow> state \<Rightarrow> ptr \<Rightarrow> size_t \<Rightarrow> bool" where
  "sized cfg st p n \<longleftrightarrow>
     p \<in> heap_live cfg st \<and> (in_slab_region st p \<longleftrightarrow> n \<le> max_slab_size_class cfg) \<and> block_size cfg st p = unat (rounded cfg n)"

lemma size_info_class_size:
  assumes "sz \<le> max_slab_size_class cfg"
  shows "unat (si_size (get_size_info sz)) = class_size cfg (unat (si_class (get_size_info sz)))"
proof (cases "sz = 0")
  case True
  then show ?thesis by (simp add: get_size_info_def class_size_def size_classes_def)
next
  case False
  then have "0 < unat sz" by (simp add: unat_gt_0)
  from get_size_info_table(3) [OF this assms] show ?thesis .
qed

lemma allocate_small_sized:
  assumes "allocate_small cfg os st a sz w = Returned (p, st', w')" "heap_inv cfg st w" "a < N_ARENA cfg"
    and "sz \<le> max_slab_size_class cfg" "p \<noteq> NULL"
  shows "sized cfg st' p sz"
proof -
  obtain k c' where k: "k = unat (si_class (get_size_info sz))" "k < N_SIZE_CLASSES cfg" and st': "st' = upd_class a k c' st"
    and static: "class_static cfg k (the_class st a k)" and from_c: "allocated_from cfg k (the_class st a k) p c'"
    by (rule allocate_small_class_step [OF assms(1-4)])
  obtain i s where v: "valid_pair cfg (the_class st a k) (i, s)" "p = slot_ptr (the_class st a k) i s"
    using from_c assms(5) by (auto simp: allocated_from_def)
  note addr = slot_address [OF assms(2,3) k(2) static v]
  have "p \<in> heap_live cfg st'" using allocate_small_ok(2) [OF assms(1-4)] assms(5) by (auto simp: allocated_def)
  moreover have "block_size cfg st' p = unat (rounded cfg sz)"
    using addr(1) slab_usable_size_class [OF addr(2)] size_info_class_size [OF assms(4)] assms(4)
    by (simp add: st' rounded_def k(1)) (simp add: block_size_def)
  moreover have "in_slab_region st' p" using addr(1) by (simp add: st')
  ultimately show ?thesis using assms(4) by (simp add: sized_def)
qed

lemma allocate_sized:
  assumes "allocate cfg os st a sz w = Returned (p, st', w')" "heap_inv cfg st w" "a < N_ARENA cfg" "sane_kernel os" "p \<noteq> NULL"
  shows "sized cfg st' p sz"
proof (cases "sz \<le> max_slab_size_class cfg")
  case True
  then show ?thesis using allocate_small_sized [OF _ assms(2,3)] assms(1,5) by (simp add: allocate_def)
next
  case False
  then obtain ra where al: "allocate_large cfg os (st_region_allocator st) sz w = Returned (p, ra, w')"
    and st': "st' = st\<lparr>st_region_allocator := ra\<rparr>"
    using assms(1) unfolding allocate_def by (auto simp: outcome_simps)
  have fresh: "\<And>n. fresh_mmap os w n" using assms(4) by (simp add: sane_kernel_def)
  obtain g where m: "region_map ra p = Some \<lparr>rm_p = p, rm_size = get_large_size_class cfg sz, rm_guard_size = g\<rparr>"
    using allocate_large_ok(2) [OF al heap_invD(6) [OF assms(2)] fresh] assms(5) by auto
  have rm: "region_map (st_region_allocator st') p = Some \<lparr>rm_p = p, rm_size = get_large_size_class cfg sz, rm_guard_size = g\<rparr>"
    using m by (simp add: st')
  have "\<not> in_slab_region st' p" by (rule large_not_slab [OF allocate_ok(1) [OF assms(1-4)] rm])
  moreover have "p \<in> heap_live cfg st'" using rm by (auto simp: heap_live_def)
  ultimately show ?thesis using False rm by (simp add: sized_def block_size_def rounded_def)
qed

lemma h_malloc_sized:
  assumes "ready cfg st w" "4096 dvd CONFIG_CLASS_REGION_SIZE cfg" "sane_kernel os"
  shows "all_o (\<lambda>(p, st', w'). p \<noteq> NULL \<longrightarrow> heap_inv cfg st' w' \<and> sized cfg st' p (adjust_size_for_canary cfg sz))
    (h_malloc cfg os pl st sz w)"
  unfolding h_malloc_def alloc_def
proof (rule init_then [OF assms])
  fix a st1 w1 assume "a < N_ARENA cfg" "heap_inv cfg st1 w1"
  then show "all_o (\<lambda>(p, st', w'). p \<noteq> NULL \<longrightarrow> heap_inv cfg st' w' \<and> sized cfg st' p (adjust_size_for_canary cfg sz))
      (allocate cfg os st1 a (adjust_size_for_canary cfg sz) w1)"
    using allocate_sized allocate_ok(1) assms(3) by (fastforce intro!: all_oI)
qed

section \<open>Freeing with the right size\<close>

lemma expected_size_usable:
  assumes "heap_inv cfg st w" "a < N_ARENA cfg" "k < N_SIZE_CLASSES cfg" "slab_size_class cfg st p = \<lparr>ssci_arena = a, ssci_class = k\<rparr>"
  shows "(if k = 0 then 0 else ucast (sc_size (the_class st a k))) = slab_usable_size cfg st p"
proof -
  let ?c = "the_class st a k" and ?e = "slab_usable_size cfg st p"
  have cs: "class_static cfg k ?c" using heap_invD(4) [OF assms(1-3)] by (auto simp: class_ok_def dest: class_invD(1))
  have u: "unat ?e = class_size cfg k" by (rule slab_usable_size_class [OF assms(4)])
  show ?thesis
  proof (cases "k = 0")
    case True
    then have "unat ?e = 0" using u by (simp add: class_size_def size_classes_def)
    then show ?thesis using True by (simp add: unat_eq_0)
  next
    case False
    then have "class_size cfg 0 < class_size cfg k" using assms(3) by (intro class_size_mono) simp_all
    then have "csize ?c = unat ?e" using cs u by (simp add: class_static_def slot_size_def)
    then show ?thesis using False by (simp add: word_unat_eq_iff)
  qed
qed

lemma deallocate_small_right_size:
  assumes "heap_inv cfg st w" "in_slab_region st p" "slab_usable_size cfg st p = e"
  shows "deallocate_small cfg os st p (Some e) w' = deallocate_small cfg os st p None w'"
proof -
  obtain a k where ak: "a < N_ARENA cfg" "k < N_SIZE_CLASSES cfg" "slab_size_class cfg st p = \<lparr>ssci_arena = a, ssci_class = k\<rparr>"
    by (rule slab_address_class [OF assms(1,2)])
  let ?c = "the_class st a k"
  have "(if k = 0 then 0 else ucast (sc_size ?c)) = e" using expected_size_usable [OF assms(1) ak] assms(3) by simp
  then have "((if k = 0 then 0 else ucast (sc_size ?c)) \<noteq> e) = False" by simp
  then have "deallocate_small_class cfg os ?c k p (Some e) w' = deallocate_small_class cfg os ?c k p None w'"
    by (simp only: deallocate_small_class_def Let_def option.case)
  then show ?thesis by (simp only: deallocate_small_def ak(3) Let_def slab_size_class_info.simps)
qed

lemma free_large_right_size:
  assumes "heap_inv cfg st w" "region_map (st_region_allocator st) p = Some e" "rm_size e = get_large_size_class cfg n"
  shows "free_large cfg os st p (Some n) w' = free_large cfg os st p None w'"
proof -
  obtain i where "regions_find (st_region_allocator st) p = Returned (Some i)" "ra_regions (st_region_allocator st) i = e"
    by (rule regions_find_ok [OF large_invD(2) [OF heap_invD(6) [OF assms(1)]], of p]) (use assms(2) in \<open>auto split: option.splits\<close>)
  then show ?thesis using assms(3) by (simp add: free_large_def deallocate_large_def release_region_def)
qed

lemma h_free_sized_right_size:
  assumes "heap_inv cfg st w" "sized cfg st p (adjust_size_for_canary cfg sz)"
  shows "h_free_sized cfg os st p sz w' = h_free cfg os st p w'"
proof -
  let ?n = "adjust_size_for_canary cfg sz"
  have p: "p \<noteq> NULL" using assms heap_live_nonnull [OF assms(1)] by (auto simp: sized_def)
  show ?thesis
  proof (cases "in_slab_region st p")
    case True
    then have "slab_usable_size cfg st p = si_size (get_size_info ?n)" "?n \<le> max_slab_size_class cfg"
      using assms(2) by (auto simp: sized_def block_size_def rounded_def word_unat_eq_iff)
    moreover from this(2) have "\<not> max_slab_size_class cfg < ?n" by simp
    ultimately show ?thesis using True p deallocate_small_right_size [OF assms(1) True]
      by (simp add: h_free_sized_def h_free_def Let_def)
  next
    case False
    then obtain e where "region_map (st_region_allocator st) p = Some e"
      using assms by (auto simp: sized_def heap_live_iff [OF assms(1)])
    moreover from this False have "rm_size e = get_large_size_class cfg ?n"
      using assms(2) by (auto simp: sized_def block_size_def rounded_def word_unat_eq_iff)
    ultimately show ?thesis using False p free_large_right_size [OF assms(1)]
      by (simp add: h_free_sized_def h_free_def Let_def)
  qed
qed

section \<open>Freeing with a wrong size\<close>

lemma small_large_class:
  assumes "n \<le> max_slab_size_class cfg"
  shows "get_large_size_class cfg n \<le> max_slab_size_class cfg"
proof (cases "CONFIG_LARGE_SIZE_CLASSES cfg")
  case True
  let ?m = "max n PAGE_SIZE"
  have m: "0 < unat ?m" "?m \<le> max_slab_size_class cfg"
    using assms by (auto simp: max_def word_le_nat_alt max_slab_size_class_def)
  have "unat (si_size (get_size_info ?m)) \<le> unat (max_slab_size_class cfg)"
    using get_size_info_table(3) [OF m] class_size_max [OF get_size_info_table(2) [OF m]] by simp
  then show ?thesis using True by (simp add: get_large_size_class_def word_le_nat_alt)
next
  case False
  obtain k where k: "unat (max_slab_size_class cfg) = k * 4096" "k \<le> 32"
    by (cases "CONFIG_EXTENDED_SIZE_CLASSES cfg") (auto simp: max_slab_size_class_def intro: that [of 32] that [of 4])
  have n: "unat n \<le> k * 4096" using assms k(1) by (simp add: word_le_nat_alt)
  then have "unat (page_align n) = (unat n + 4095) div 4096 * 4096"
    using page_align_no_overflow [of n] k(2) by (simp add: page_round_def)
  also have "\<dots> \<le> k * 4096" by (rule mult_le_mono1, rule less_Suc_eq_le [THEN iffD1]) (use n in \<open>simp add: less_mult_imp_div_less\<close>)
  finally show ?thesis using False k(1) by (simp add: get_large_size_class_def word_le_nat_alt)
qed

lemma deallocate_small_wrong_size:
  assumes "heap_inv cfg st w" "in_slab_region st p" "slab_usable_size cfg st p \<noteq> e"
  shows "deallocate_small cfg os st p (Some e) w' = Aborted ''sized deallocation mismatch (small)''"
proof -
  obtain a k where ak: "a < N_ARENA cfg" "k < N_SIZE_CLASSES cfg" "slab_size_class cfg st p = \<lparr>ssci_arena = a, ssci_class = k\<rparr>"
    by (rule slab_address_class [OF assms(1,2)])
  let ?c = "the_class st a k"
  have "(if k = 0 then 0 else ucast (sc_size ?c)) = slab_usable_size cfg st p" by (rule expected_size_usable [OF assms(1) ak])
  with assms(3) have "((if k = 0 then 0 else ucast (sc_size ?c)) \<noteq> e) = True" by simp
  then have "deallocate_small_class cfg os ?c k p (Some e) w' = Aborted ''sized deallocation mismatch (small)''"
    by (simp only: deallocate_small_class_def Let_def option.case if_True)
  then show ?thesis by (simp add: deallocate_small_def ak(3) Let_def)
qed

lemma free_large_wrong_size:
  assumes "heap_inv cfg st w" "region_map (st_region_allocator st) p = Some e" "rm_size e \<noteq> get_large_size_class cfg n"
  shows "free_large cfg os st p (Some n) w' = Aborted ''sized deallocation mismatch (large)''"
proof -
  obtain i where "regions_find (st_region_allocator st) p = Returned (Some i)" "ra_regions (st_region_allocator st) i = e"
    by (rule regions_find_ok [OF large_invD(2) [OF heap_invD(6) [OF assms(1)]], of p]) (use assms(2) in \<open>auto split: option.splits\<close>)
  then show ?thesis using assms(3) heap_inv_is_init [OF assms(1)]
    by (simp add: free_large_def deallocate_large_def release_region_def is_init_def enforce_init_def)
qed

lemma h_free_sized_wrong_size:
  assumes "heap_inv cfg st w" "sized cfg st p m"
    and "rounded cfg (adjust_size_for_canary cfg n) \<noteq> rounded cfg m"
  shows "\<exists>msg. h_free_sized cfg os st p n w' = Aborted msg"
proof -
  let ?n = "adjust_size_for_canary cfg n"
  have p: "p \<noteq> NULL" using assms heap_live_nonnull [OF assms(1)] by (auto simp: sized_def)
  show ?thesis
  proof (cases "in_slab_region st p")
    case True
    then have "slab_usable_size cfg st p = rounded cfg m"
      using assms(2) by (auto simp: sized_def block_size_def word_unat_eq_iff)
    then show ?thesis using True p assms(3) deallocate_small_wrong_size [OF assms(1) True]
      by (auto simp: h_free_sized_def Let_def rounded_def not_less)
  next
    case False
    then obtain e where e: "region_map (st_region_allocator st) p = Some e"
      using assms by (auto simp: sized_def heap_live_iff [OF assms(1)])
    have m: "max_slab_size_class cfg < m" using False assms(2) by (auto simp: sized_def)
    have sz: "rm_size e = rounded cfg m" "rounded cfg m = get_large_size_class cfg m"
      using False e m assms(2) by (auto simp: sized_def block_size_def rounded_def word_unat_eq_iff)
    have "e \<in> ran (region_map (st_region_allocator st))" using e by (auto simp: ran_def)
    then have "region_shape e" by (rule large_invD(3) [OF heap_invD(6) [OF assms(1)]])
    then have "get_large_size_class cfg m \<noteq> 0" using sz by (auto simp: region_shape_def)
    from large_class(1) [OF this] m have "max_slab_size_class cfg < rounded cfg m" by (simp add: sz(2) word_less_nat_alt)
    then have "rm_size e \<noteq> get_large_size_class cfg ?n"
      using assms(3) small_large_class [of ?n cfg] sz(1) by (cases "?n \<le> max_slab_size_class cfg") (auto simp: rounded_def)
    from free_large_wrong_size [OF assms(1) e this] show ?thesis using False p by (simp add: h_free_sized_def Let_def)
  qed
qed

end
