(* ===== verification/Heap_Contents.thy ===== *)
theory Heap_Contents
  imports Heap_Reach
begin

text \<open>
  What the slab allocator does to the contents of memory: an allocation writes into the slot that it hands out and nowhere
  else, a deallocation into the slot that it takes back and into slabs without a live slot. So the contents of every other
  block are kept, and \<^verbatim>\<open>h_realloc\<close> finds what it copies.
\<close>

named_theorems quiet \<open>operations that change memory only where they may\<close>

section \<open>Steps that write nothing\<close>

abbreviation pair_out :: "ptr set \<Rightarrow> world \<Rightarrow> 'a \<times> world \<Rightarrow> bool" where
  "pair_out S w0 \<equiv> \<lambda>(_, w). same_outside S w0 w"

abbreviation triple_out :: "ptr set \<Rightarrow> world \<Rightarrow> 'a \<times> 'b \<times> world \<Rightarrow> bool" where
  "triple_out S w0 \<equiv> \<lambda>(_, _, w). same_outside S w0 w"

lemma same_outside_then: "same_outside S w0 w \<Longrightarrow> same_outside S w w' \<Longrightarrow> same_outside S w0 w'"
  by (simp add: same_outside_def)

lemma same_outside_errno [simp]: "same_outside S w0 (set_errno e w) = same_outside S w0 w"
  by (simp add: same_outside_def set_errno_def)

lemma bind_pair_out [quiet]:
  "all_o (pair_out S w0) m \<Longrightarrow> (\<And>a w. same_outside S w0 w \<Longrightarrow> all_o Q (f a w)) \<Longrightarrow> all_o Q (bind_o m (\<lambda>(a, w). f a w))"
  by (rule all_o_bind [of "pair_out S w0"]) auto

lemma bind_triple_out [quiet]:
  "all_o (triple_out S w0) m \<Longrightarrow> (\<And>a b w. same_outside S w0 w \<Longrightarrow> all_o Q (f a b w)) \<Longrightarrow>
   all_o Q (bind_o m (\<lambda>(a, b, w). f a b w))"
  by (rule all_o_bind [of "triple_out S w0"]) auto

lemmas bind_pure_out [quiet] = bind_pure_keeps

lemma protect_out [quiet]:
  assumes "confined os" "same_outside S w0 w"
  shows "all_o (pair_out S w0) (memory_protect_rw os p n w)" "all_o (pair_out S w0) (memory_protect_rw_metadata os p n w)"
  using confined_wrappers(3,4) [OF assms(1)] assms(2) by (fastforce intro!: all_oI simp: same_outside_def)+

lemma random_state_init_out [quiet]: "same_outside S w0 w \<Longrightarrow> all_o (pair_out S w0) (random_state_init os state w)"
  by (auto intro!: all_oI simp: random_state_init_def outcome_simps
      dest!: get_random_seed_same same_memory_outside [of _ _ S] elim: same_outside_then)

lemma refill_out [quiet]: "same_outside S w0 w \<Longrightarrow> all_o (pair_out S w0) (refill os state w)"
  unfolding refill_def by (auto intro!: quiet split: prod.splits)

lemma get_random_word_out [quiet]: "same_outside S w0 w \<Longrightarrow> all_o (triple_out S w0) (get_random_word n os state w)"
  unfolding get_random_word_def Let_def by (auto intro!: quiet)

lemma random_u64_out [quiet]: "same_outside S w0 w \<Longrightarrow> all_o (triple_out S w0) (get_random_u64 os state w)"
  unfolding get_random_u64_def by (rule quiet)

lemma uniform_out [quiet]:
  assumes "same_outside S w0 w"
  shows "all_o (triple_out S w0) (get_random_u16_uniform os state b w)"
    "all_o (triple_out S w0) (get_random_u32_uniform os state b' w)"
proof -
  have step: "same_outside S w0 (snd s')"
    if "same_outside S w0 (snd s)" "(case s of (state, w) \<Rightarrow> get_random_word n os state w) = Returned (x :: 'a::len word, s')"
    for n s s' x
    using all_oD [OF get_random_word_out [OF that(1), of n os "fst s"]] that(2) by (cases s; cases s') fastforce
  show "all_o (triple_out S w0) (get_random_u16_uniform os state b w)"
  proof (rule all_oI, clarify)
    fix v s w' assume "get_random_u16_uniform os state b w = Returned (v, s, w')"
    from u16_sampler.uniform_returns [OF this [unfolded get_random_u16_uniform_def], of "\<lambda>s. same_outside S w0 (snd s)"]
      step [of _ 2] assms show "same_outside S w0 w'" by (auto simp: get_random_u16_def)
  qed
  show "all_o (triple_out S w0) (get_random_u32_uniform os state b' w)"
  proof (rule all_oI, clarify)
    fix v s w' assume "get_random_u32_uniform os state b' w = Returned (v, s, w')"
    from u32_sampler.uniform_returns [OF this [unfolded get_random_u32_uniform_def], of "\<lambda>s. same_outside S w0 (snd s)"]
      step [of _ 4] assms show "same_outside S w0 w'" by (auto simp: get_random_u32_def)
  qed
qed

lemma take_slot_out [quiet]: "same_outside S w0 w \<Longrightarrow> all_o (triple_out S w0) (take_slot cfg os c i w)"
  unfolding take_slot_def get_free_slot_def Let_def by (auto intro!: quiet)

lemma set_class_canary_out [quiet]: "same_outside S w0 w \<Longrightarrow> all_o (pair_out S w0) (set_class_canary cfg os c i w)"
  unfolding set_class_canary_def set_slab_canary_value_def by (auto intro!: quiet)

lemma alloc_metadata_out [quiet]:
  "confined os \<Longrightarrow> same_outside S w0 w \<Longrightarrow> all_o (triple_out S w0) (alloc_metadata cfg os c slab_size nz w)"
  unfolding alloc_metadata_def grow_metadata_def Let_def by (auto intro!: quiet)

lemma enqueue_free_slab_out [quiet]: "same_outside S w0 w \<Longrightarrow> all_o (pair_out S w0) (enqueue_free_slab cfg os c i w)"
  unfolding enqueue_free_slab_def Let_def by (auto intro!: quiet)

lemma slab_quarantine_out [quiet]: "same_outside S w0 w \<Longrightarrow> all_o (triple_out S w0) (slab_quarantine cfg os c sz p w)"
  unfolding slab_quarantine_def quarantine_random_stage_def Let_def by (auto intro!: quiet split: prod.splits)

section \<open>Allocation\<close>

text \<open>The bytes of a slot of \<open>n\<close> bytes; nothing is written for a request of no bytes.\<close>

definition slot_bytes :: "size_t \<Rightarrow> ptr \<Rightarrow> size_t \<Rightarrow> ptr set" where
  "slot_bytes requested p n = {x. requested \<noteq> 0 \<and> unat (x - p) < unat n}"

lemma last_bytes:
  assumes "8 \<le> unat sz" "unat (x - (p + sz - 8)) < 8"
  shows "unat (x - p) < unat (sz :: size_t)"
proof -
  define d where "d = x - (p + sz - 8)"
  have s: "unat (sz - 8) = unat sz - 8" using assms(1) by (simp add: unat_sub word_le_nat_alt)
  have d: "unat d < 8" using assms(2) by (simp add: d_def)
  have "unat sz < 2 ^ 64" by (rule unat_lt_pow) simp
  then have "unat (sz - 8) + unat d < 2 ^ 64" unfolding s using d assms(1) by linarith
  then have "unat ((sz - 8) + d) = unat sz - 8 + unat d" using s by (subst unat_add_lt) simp_all
  moreover have "x - p = (sz - 8) + d" by (simp add: d_def)
  ultimately show ?thesis using assms(1) d by simp
qed

lemma set_canary_out:
  assumes "same_outside {} w0 w" "8 \<le> unat sz" "requested \<noteq> 0"
  shows "same_outside (slot_bytes requested p sz) w0 (set_canary cfg md p sz w)"
proof (cases "SLAB_CANARY cfg")
  case True
  have "w_mem (set_canary cfg md p sz w) x = w_mem w0 x" if "\<not> unat (x - p) < unat sz" for x
  proof -
    have "\<not> unat (x - (p + sz - 8)) < 8" using last_bytes [OF assms(2)] that by blast
    then show ?thesis using True assms(1) by (simp add: set_canary_def canary_size_def write_u64_def same_outside_def)
  qed
  with assms(3) show ?thesis by (simp add: same_outside_def slot_bytes_def)
qed (use assms(1) in \<open>simp add: set_canary_def same_outside_def\<close>)

lemma bind_prepare_out:
  assumes "same_outside {} w0 w" "8 \<le> unat sz" "\<And>w. same_outside (slot_bytes rs p sz) w0 w \<Longrightarrow> all_o Q (f w)"
  shows "all_o Q (bind_o (prepare_slot cfg reused rs md p sz w) f)"
proof (rule all_o_bind [OF _ assms(3)])
  have "same_outside (slot_bytes rs p sz) w0 w" if "rs = 0" using assms(1) that by (simp add: same_outside_def slot_bytes_def)
  then show "all_o (same_outside (slot_bytes rs p sz) w0) (prepare_slot cfg reused rs md p sz w)"
    unfolding prepare_slot_def using set_canary_out [OF assms(1,2)] by (auto intro!: bind_any_keeps)
qed

text \<open>
  Either nothing is written, or a slot is taken, which raises the count of its slab, and written to.
\<close>

abbreviation alloc_out :: "(nat \<Rightarrow> u16) \<Rightarrow> size_t \<Rightarrow> size_t \<Rightarrow> world \<Rightarrow> ptr \<times> size_class \<times> world \<Rightarrow> bool" where
  "alloc_out n rs sz w0 \<equiv>
     \<lambda>(p, c, w). same_outside {} w0 w \<or> same_outside (slot_bytes rs p sz) w0 w \<and> counts c \<noteq> n"

lemma counts_updates [simp]:
  "counts (unlink_empty c i) = counts c" "counts (unlink_free c i) = counts c" "counts (start_partial c i) = counts c"
  "counts (drop_full c i) = counts c" "counts (stats_small_allocate cfg c sz) = counts c"
  "counts (stats_slab_allocate cfg c sz) = counts c"
  by (auto simp: counts_def fun_eq_iff unlink_empty_def unlink_free_def start_partial_def drop_full_def upd_info_def
      stats_small_allocate_def stats_slab_allocate_def Let_def split: option.splits)

lemma bind_take_slot:
  assumes "same_outside {} w0 w" "counts c = n"
    and "\<And>slot c w. same_outside {} w0 w \<Longrightarrow> counts c \<noteq> n \<Longrightarrow> all_o Q (f slot c w)"
  shows "all_o Q (bind_o (take_slot cfg os c i w) (\<lambda>(slot, c, w). f slot c w))"
proof (rule all_o_bind [of "\<lambda>(slot, c, w). same_outside {} w0 w \<and> counts c \<noteq> n"])
  have "counts c' \<noteq> counts c" if "take_slot cfg os c i w = Returned (slot, c', w')" for slot c' w'
  proof -
    have "counts c' i = counts c i + 1"
      using that by (auto simp: take_slot_def outcome_simps counts_def upd_info_def set_used_slot_def)
    then show ?thesis by auto
  qed
  then show "all_o (\<lambda>(slot, c, w). same_outside {} w0 w \<and> counts c \<noteq> n) (take_slot cfg os c i w)"
    using all_oD [OF take_slot_out [OF assms(1), of cfg os c i]] assms(2) by (auto intro!: all_oI)
qed (auto intro: assms(3))

lemma bind_set_class_canary:
  assumes "same_outside {} w0 w" "counts c = n" "\<And>c w. same_outside {} w0 w \<Longrightarrow> counts c = n \<Longrightarrow> all_o Q (f c w)"
  shows "all_o Q (bind_o (set_class_canary cfg os c i w) (\<lambda>(c, w). f c w))"
proof (rule all_o_bind [of "\<lambda>(c, w). same_outside {} w0 w \<and> counts c = n"])
  show "all_o (\<lambda>(c, w). same_outside {} w0 w \<and> counts c = n) (set_class_canary cfg os c i w)"
  proof (rule all_oI, clarify)
    fix c' w' assume r: "set_class_canary cfg os c i w = Returned (c', w')"
    from all_oD [OF set_class_canary_out [OF assms(1)] r] set_class_canary_counters(2) [OF r] assms(2)
    show "same_outside {} w0 w' \<and> counts c' = n" by simp
  qed
qed (auto intro: assms(3))

lemma bind_alloc_metadata:
  assumes "confined os" "same_outside {} w0 w" "counts c = n"
    and "\<And>r c w. same_outside {} w0 w \<Longrightarrow> counts c = n \<Longrightarrow> all_o Q (f r c w)"
  shows "all_o Q (bind_o (alloc_metadata cfg os c m z w) (\<lambda>(r, c, w). f r c w))"
proof (rule all_o_bind [of "\<lambda>(r, c, w). same_outside {} w0 w \<and> counts c = n"])
  show "all_o (\<lambda>(r, c, w). same_outside {} w0 w \<and> counts c = n) (alloc_metadata cfg os c m z w)"
  proof (rule all_oI, clarify)
    fix a c' w' assume r: "alloc_metadata cfg os c m z w = Returned (a, c', w')"
    from all_oD [OF alloc_metadata_out [OF assms(1,2)] r] alloc_metadata_counters(2) [OF r] assms(3)
    show "same_outside {} w0 w' \<and> counts c' = n" by simp
  qed
qed (auto intro: assms(4))

lemma bind_protect:
  assumes "confined os" "same_outside {} w0 w" "\<And>b w. same_outside {} w0 w \<Longrightarrow> all_o Q (f b w)"
  shows "all_o Q (bind_o (if B then memory_protect_rw os p n w else Returned (False, w)) (\<lambda>(b, w). f b w))"
  using protect_out(1) [OF assms(1,2)] assms(2) by (auto intro!: bind_pair_out [of "{}" w0] assms(3))

lemma allocate_small_class_out:
  assumes "confined os" "8 \<le> unat sz"
  shows "all_o (alloc_out (counts c) rs sz w) (allocate_small_class cfg os c rs sz w)"
proof -
  note rules = bind_take_slot [where ?w0.0 = w and n = "counts c"] bind_set_class_canary [where ?w0.0 = w and n = "counts c"]
    bind_alloc_metadata [where ?w0.0 = w and n = "counts c", OF assms(1)] bind_protect [where ?w0.0 = w, OF assms(1)]
    bind_prepare_out [where ?w0.0 = w, OF _ assms(2)]
  show ?thesis
    unfolding allocate_small_class_def allocate_small_empty_def allocate_small_free_def allocate_small_new_def
      allocate_small_partial_def Let_def
    by (split option.split | intro conjI impI allI | rule rules | simp)+
qed

section \<open>Deallocation\<close>

text \<open>What places the slabs of a class, and with it the counts of used slots.\<close>

definition frame :: "size_class \<Rightarrow> ptr \<times> u32 \<times> nat" where
  "frame c = (sc_class_region_start c, sc_slab_size c, sc_metadata_allocated c)"

definition framed :: "size_class \<Rightarrow> (ptr \<times> u32 \<times> nat) \<times> (nat \<Rightarrow> u16)" where
  "framed c = (frame c, counts c)"

lemmas frame_defs = framed_def frame_def counts_def fun_eq_iff upd_info_def Let_def

lemma framed_updates [simp]:
  "framed (push_partial c i) = framed c" "framed (unlink_partial c i) = framed c" "framed (push_empty c n i) = framed c"
  "framed (append_free c i) = framed c" "framed (stats_slab_deallocate cfg c n) = framed c"
  "framed (stats_small_deallocate cfg c n) = framed c" "framed (c\<lparr>sc_rng := r\<rparr>) = framed c"
  "framed (c\<lparr>sc_free_slabs_quarantine := xs\<rparr>) = framed c" "framed (c\<lparr>sc_quarantine_random := ys\<rparr>) = framed c"
  "framed (c\<lparr>sc_quarantine_queue := ys\<rparr>) = framed c" "framed (c\<lparr>sc_quarantine_queue_index := n'\<rparr>) = framed c"
  "framed (upd_info i (md_next_update f) c) = framed c"
  "framed (upd_info i (\<lambda>md. set_quarantine_slot md s) c) = framed c"
  "framed (upd_info i (\<lambda>md. clear_quarantine_slot md s) c) = framed c"
  by (auto simp: frame_defs push_partial_def unlink_partial_def push_empty_def append_free_def stats_slab_deallocate_def
      stats_small_deallocate_def set_quarantine_slot_def clear_quarantine_slot_def split: option.splits)

lemma framed_frame: "framed c' = framed c \<Longrightarrow> frame c' = frame c"
  by (simp add: framed_def)

lemma enqueue_free_slab_framed: "all_o (\<lambda>(c', _). framed c' = framed c) (enqueue_free_slab cfg os c i w)"
proof -
  let ?c = "upd_info i (\<lambda>md. md\<lparr>md_next := None\<rparr>) c"
  have "framed (case q of None \<Rightarrow> d | Some s \<Rightarrow> append_free d s) = framed d" for q d by (cases q) simp_all
  then show ?thesis
    unfolding enqueue_free_slab_def Let_def
    by (intro all_o_bind [of "\<lambda>(_, d, _). framed d = framed c"])
      (auto simp: all_o_def outcome_simps)
qed

lemma quarantine_framed: "all_o (\<lambda>(_, c', _). framed c' = framed c) (slab_quarantine cfg os c sz p w)"
proof -
  have "all_o (\<lambda>(_, c', _). framed c' = framed c) (quarantine_random_stage cfg os c sz p w)"
  proof (rule all_oI, clarify)
    fix q c' w' assume "quarantine_random_stage cfg os c sz p w = Returned (q, c', w')"
    then have "c' = c \<or> (\<exists>rng xs. c' = c\<lparr>sc_rng := rng, sc_quarantine_random := xs\<rparr>)"
      unfolding quarantine_random_stage_def Let_def by (auto simp only: outcome_simps split: if_splits)
    then show "framed c' = framed c" by auto
  qed
  moreover have "framed (snd (quarantine_queue_stage cfg c' sz q)) = framed c'" for c' q
    by (simp add: quarantine_queue_stage_def Let_def)
  ultimately show ?thesis unfolding slab_quarantine_def
    by (intro all_o_bind [of "\<lambda>(_, c', _). framed c' = framed c"]) (auto split: prod.splits, metis snd_conv)
qed

text \<open>The bytes of slab \<open>i\<close>.\<close>

definition slab_bytes :: "size_class \<Rightarrow> nat \<Rightarrow> ptr set" where
  "slab_bytes c i = {x. in_range (get_slab c (ucast (sc_slab_size c)) i) (page_round (ucast (sc_slab_size c))) x}"

lemma slab_bytes_frame: "frame c' = frame c \<Longrightarrow> slab_bytes c' = slab_bytes c"
  by (simp add: fun_eq_iff slab_bytes_def frame_def get_slab_def)

lemma retire_slab_out:
  assumes "confined os" "retire_slab cfg os c (get_slab c (ucast (sc_slab_size c)) i) i w = Returned (c', w')"
  shows "framed c' = framed c" "same_outside (slab_bytes c i) w w'"
proof -
  let ?n = "ucast (sc_slab_size c) :: size_t" and ?c = "unlink_partial c i"
  have pe: "framed (push_empty ?c ?n i) = framed c" by simp
  have "framed c' = framed c \<and> same_outside (slab_bytes c i) w w'"
  proof (cases "sc_empty_slabs_total ?c + ?n > max_empty_slabs_total cfg")
    case False
    then show ?thesis using assms(2) pe by (auto simp: retire_slab_def Let_def)
  next
    case True
    obtain failed w1 where m: "memory_map_fixed os (get_slab c ?n i) ?n w = Returned (failed, w1)"
      using assms(2) True by (auto simp: retire_slab_def Let_def outcome_simps)
    have so: "same_outside (slab_bytes c i) w w1" unfolding slab_bytes_def by (rule confined_wrappers(1) [OF assms(1) m])
    show ?thesis
    proof (cases failed)
      case True
      then obtain b w2 where "memory_purge os (get_slab c ?n i) ?n w1 = Returned (b, w2)" "c' = push_empty ?c ?n i" "w' = set_errno (w_errno w) w2"
        using assms(2) m \<open>sc_empty_slabs_total ?c + ?n > _\<close> by (auto simp: retire_slab_def Let_def outcome_simps)
      moreover from confined_wrappers(2) [OF assms(1) this(1)] so have "same_outside (slab_bytes c i) w w2"
        unfolding slab_bytes_def by (rule same_outside_then [rotated])
      ultimately show ?thesis using pe by simp
    next
      case False
      then have e: "enqueue_free_slab cfg os (stats_slab_deallocate cfg ?c ?n) i w1 = Returned (c', w')"
        using assms(2) m \<open>sc_empty_slabs_total ?c + ?n > _\<close> by (simp add: retire_slab_def Let_def)
      from all_oD [OF enqueue_free_slab_framed e] all_oD [OF enqueue_free_slab_out [OF so] e] show ?thesis by simp
    qed
  qed
  then show "framed c' = framed c" "same_outside (slab_bytes c i) w w'" by simp_all
qed

text \<open>
  The release of a slot writes nothing, or into a slab that has no used slot left.
\<close>

definition released :: "size_class \<Rightarrow> world \<Rightarrow> size_class \<Rightarrow> world \<Rightarrow> bool" where
  "released c w c' w' \<longleftrightarrow> frame c' = frame c \<and>
     (same_outside {} w w' \<or> (\<exists>i < sc_metadata_allocated c. counts c' i = 0 \<and> same_outside (slab_bytes c i) w w'))"

lemma released_after:
  assumes "released c1 w1 c' w'" "frame c1 = frame c" "same_outside {} w w1"
  shows "released c w c' w'"
proof -
  have "sc_metadata_allocated c1 = sc_metadata_allocated c" using assms(2) by (simp add: frame_def)
  then show ?thesis using assms slab_bytes_frame [OF assms(2)] by (auto simp: released_def same_outside_def)
qed

lemma release_slot_out:
  assumes "confined os" "release_slot cfg os c (get_slab c (ucast (sc_slab_size c)) i) i s w = Returned (c', w')"
    and "i < sc_metadata_allocated c"
  shows "released c w c' w'"
proof -
  define c1 where "c1 = (if \<not> has_free_slots (unat (sc_slots c)) (sc_slab_info c i) then push_partial c i else c)"
  define c2 where "c2 = upd_info i (\<lambda>md. clear_used_slot md s) c1"
  have "framed c1 = framed c" by (simp add: c1_def)
  then have f: "frame c2 = frame c" by (simp add: c2_def framed_def frame_def upd_info_def)
  then have g: "get_slab c (ucast (sc_slab_size c)) i = get_slab c2 (ucast (sc_slab_size c2)) i" "slab_bytes c2 = slab_bytes c"
    by (simp add: frame_def get_slab_def) (rule slab_bytes_frame [OF f])
  have r: "(if is_free_slab (sc_slab_info c2 i) then retire_slab cfg os c2 (get_slab c2 (ucast (sc_slab_size c2)) i) i w
      else Returned (c2, w)) = Returned (c', w')"
    using assms(2) unfolding g(1) release_slot_def Let_def c1_def [symmetric] c2_def [symmetric] .
  show ?thesis
  proof (cases "is_free_slab (sc_slab_info c2 i)")
    case True
    with r have "retire_slab cfg os c2 (get_slab c2 (ucast (sc_slab_size c2)) i) i w = Returned (c', w')" by simp
    from retire_slab_out [OF assms(1) this] True assms(3) f g(2) show ?thesis
      by (auto simp: released_def framed_def counts_def is_free_slab_def)
  next
    case False
    with r have "c' = c2" "w' = w" by simp_all
    with f show ?thesis by (simp add: released_def)
  qed
qed

lemma finish_deallocate_out:
  assumes "confined os" "finish_deallocate cfg os c i s p w = Returned (c', w')" "i < sc_metadata_allocated c"
  shows "released c w c' w'"
proof (cases "SLAB_QUARANTINE cfg")
  case False
  with assms show ?thesis by (auto simp: finish_deallocate_def Let_def intro: release_slot_out)
next
  case True
  let ?c = "upd_info i (\<lambda>md. set_quarantine_slot md s) c"
  obtain q c1 w1 where q: "slab_quarantine cfg os ?c (ucast (sc_size c)) p w = Returned (q, c1, w1)"
    using assms(2) True by (auto simp: finish_deallocate_def Let_def outcome_simps split: if_splits)
  have w1: "same_outside {} w w1" using all_oD [OF slab_quarantine_out [OF same_outside_refl] q] by simp
  have f1: "frame c1 = frame c" using all_oD [OF quarantine_framed q] by (intro framed_frame) simp
  show ?thesis
  proof (cases "q = NULL")
    case True
    then have "c' = c1" "w' = w1"
      using assms(2) q \<open>SLAB_QUARANTINE cfg\<close> by (auto simp: finish_deallocate_def Let_def split: if_splits)
    with w1 f1 show ?thesis by (simp add: released_def)
  next
    case False
    define c2 where "c2 j = upd_info j (\<lambda>md. clear_quarantine_slot md (slot_of c1 q (get_slab c1 (ucast (sc_slab_size c)) j))) c1" for j
    obtain j where j: "get_metadata c1 q = Returned j"
      "release_slot cfg os (c2 j) (get_slab c1 (ucast (sc_slab_size c)) j) j (slot_of c1 q (get_slab c1 (ucast (sc_slab_size c)) j)) w1 = Returned (c', w')"
      using assms(2) q False \<open>SLAB_QUARANTINE cfg\<close> by (auto simp: c2_def finish_deallocate_def Let_def outcome_simps split: if_splits)
    have f2: "frame (c2 j) = frame c1" by (rule framed_frame) (simp add: c2_def)
    then have g: "get_slab c1 (ucast (sc_slab_size c)) j = get_slab (c2 j) (ucast (sc_slab_size (c2 j))) j"
      using f1 by (simp add: frame_def get_slab_def)
    have "j < sc_metadata_allocated (c2 j)" using j(1) f2 by (auto simp: get_metadata_def Let_def frame_def split: if_splits)
    from release_slot_out [OF assms(1) j(2) [unfolded g] this] have "released (c2 j) w1 c' w'" .
    then show ?thesis by (rule released_after) (use f1 f2 w1 in simp_all)
  qed
qed

lemma memset_outside: "\<not> unat (x - p) < n \<Longrightarrow> memset p v n m x = m x"
  by (simp add: memset_def)

text \<open>
  A deallocation writes into the slot that it is given and into slabs without a used slot.
\<close>

lemma deallocate_small_class_out:
  assumes "confined os" "deallocate_small_class cfg os c k p e w = Returned (c', w')" "canary_size cfg \<le> ucast (sc_size c)"
  obtains w1 where "same_outside {x. unat (x - p) < csize c} w w1" "released c w1 c' w'"
proof -
  let ?sz = "ucast (sc_size c) :: size_t"
  define c0 where "c0 = stats_small_deallocate cfg c (ucast (sc_size c))"
  obtain i s w1 where i: "get_metadata c0 p = Returned i"
    and w1: "w1 = w \<or> w1 = w\<lparr>w_mem := memset p 0 (unat (?sz - canary_size cfg)) (w_mem w)\<rparr>"
    and f: "finish_deallocate cfg os c0 i s p w1 = Returned (c', w')"
    using assms(2) unfolding deallocate_small_class_def Let_def c0_def [symmetric] by (auto simp: outcome_simps split: if_splits)
  have "unat (?sz - canary_size cfg) \<le> csize c" using assms(3) by (simp add: unat_sub)
  with w1 have o1: "same_outside {x. unat (x - p) < csize c} w w1" by (auto simp: same_outside_def memset_outside)
  have "i < sc_metadata_allocated c0" using i by (auto simp: get_metadata_def Let_def split: if_splits)
  from finish_deallocate_out [OF assms(1) f this] have "released c0 w1 c' w'" .
  moreover have "frame c0 = frame c" by (rule framed_frame) (simp add: c0_def)
  ultimately have "released c w1 c' w'" by (rule released_after) simp
  with o1 show ?thesis by (rule that)
qed

section \<open>Slots that are not live\<close>

lemma slot_spare:
  assumes "class_ok cfg k c" "valid_pair cfg c (i, s)" "slot_ptr c i s \<notin> live c"
  shows "{x. unat (x - slot_ptr c i s) < csize c} \<subseteq> spare cfg c"
proof
  fix x assume "x \<in> {x. unat (x - slot_ptr c i s) < csize c}"
  then have x: "in_range (slot_ptr c i s) (csize c) x" by (simp add: in_range_def)
  have st: "class_static cfg k c" using assms(1) class_invD(1) by (auto simp: class_ok_def)
  note b = slot_ptr_bounds [OF st assms(2)]
  have room: "unat (sc_class_region_start c) + CONFIG_CLASS_REGION_SIZE cfg < 2 ^ 64" using st by (simp add: class_static_def)
  have le: "unat (slot_ptr c i s) + csize c \<le> unat (sc_class_region_start c) + CONFIG_CLASS_REGION_SIZE cfg" using b by simp
  note r = in_range_no_wrap [OF x]
  have "\<not> (unat p \<le> unat x \<and> unat x < unat p + csize c)" if pl: "p \<in> live c" for p
  proof
    assume a: "unat p \<le> unat x \<and> unat x < unat p + csize c"
    obtain j t where jt: "valid_pair cfg c (j, t)" "p = slot_ptr c j t" by (rule live_slot [OF assms(1) pl])
    have "j = i" "t = s" using slot_interior [OF st assms(2), of x] slot_interior [OF st jt(1), of x] r le room a jt(2) by simp_all
    with jt(2) pl assms(3) show False by simp
  qed
  then show "x \<in> spare cfg c" using r le room b(1) by (auto simp: spare_def)
qed

lemma class_free_slab:
  assumes "class_ok cfg k c" "counts c i = 0" "i < sc_metadata_allocated c"
  shows "slab_bytes c i \<subseteq> spare cfg c"
proof -
  obtain ps es fs where ci: "class_inv cfg k [] c ps es fs" using assms(1) by (auto simp: class_ok_def)
  have "metadata_ok (cslots c) (sc_slab_info c i)" by (rule slots_okD(1) [OF class_invD(4) [OF ci]])
  then have "used_of c i = {}" using is_free_slab_iff assms(2) by (auto simp: is_free_slab_def counts_def)
  from slab_spare [OF ci this assms(3)] show ?thesis by (simp add: slab_bytes_def)
qed

lemma same_outside_mono: "same_outside S w w' \<Longrightarrow> S \<subseteq> T \<Longrightarrow> same_outside T w w'"
  by (auto simp: same_outside_def)

lemma slot_size_canary:
  assumes "class_static cfg k c"
  shows "canary_size cfg \<le> ucast (sc_size c)" "8 \<le> csize c"
proof -
  have "16 \<le> class_size cfg k" if "k \<noteq> 0"
    using class_size_mono [of 1 k cfg] that assms by (cases "k = 1") (auto simp: class_static_def class_size_def size_classes_def)
  moreover have "class_size cfg 0 = 0" by (simp add: class_size_def size_classes_def)
  ultimately have "16 \<le> csize c" using assms by (cases "k = 0") (simp_all add: class_static_def slot_size_def)
  then show "canary_size cfg \<le> ucast (sc_size c)" "8 \<le> csize c" by (auto simp: canary_size_def word_le_nat_alt)
qed

text \<open>
  Both operations on a class change only bytes that no live address covers: before an allocation, after a deallocation.
\<close>

lemma allocate_small_class_spare:
  assumes "confined os" "class_ok cfg k c" "allocate_small_class cfg os c rs (ucast (sc_size c)) w = Returned (p, c', w')"
  shows "same_outside (spare cfg c) w w'"
proof -
  have st: "class_static cfg k c" using assms(2) class_invD(1) by (auto simp: class_ok_def)
  have 8: "8 \<le> unat (ucast (sc_size c) :: size_t)" using slot_size_canary(2) [OF st] by simp
  note al = allocate_small_class_ok [OF assms(3,2)]
  from all_oD [OF allocate_small_class_out [OF assms(1) 8] assms(3)]
  consider "same_outside {} w w'" | "same_outside (slot_bytes rs p (ucast (sc_size c))) w w'" "counts c' \<noteq> counts c" by auto
  then show ?thesis
  proof cases
    case 1
    then show ?thesis by (rule same_outside_mono) simp
  next
    case 2
    then have "p \<noteq> NULL" using al(2) by auto
    then obtain i s where v: "valid_pair cfg c (i, s)" "p = slot_ptr c i s" "p \<notin> held c"
      using al(1) by (auto simp: allocated_from_def)
    have "p \<notin> live c" using v(3) live_held by blast
    then have "slot_bytes rs p (ucast (sc_size c)) \<subseteq> spare cfg c"
      using slot_spare [OF assms(2) v(1)] v(2) by (auto simp: slot_bytes_def)
    with 2(1) show ?thesis by (rule same_outside_mono)
  qed
qed

lemma deallocate_small_class_spare:
  assumes "confined os" "class_ok cfg k c" "deallocate_small_class cfg os c k p e w = Returned (c', w')"
  shows "same_outside (spare cfg c') w w'"
proof -
  have st: "class_static cfg k c" using assms(2) class_invD(1) by (auto simp: class_ok_def)
  note ok = deallocate_small_class_ok [OF assms(3,2)]
  obtain w1 where w1: "same_outside {x. unat (x - p) < csize c} w w1" "released c w1 c' w'"
    by (rule deallocate_small_class_out [OF assms(1,3) slot_size_canary(1) [OF st]])
  obtain i s where sl: "p = slot_ptr c i s" "valid_pair cfg c (i, s)" using live_slot [OF assms(2)] ok by metis
  have ss: "same_static c c'" "csize c' = csize c" using ok by (auto simp: same_static_def)
  have f: "frame c' = frame c" using w1(2) by (simp add: released_def)
  have "valid_pair cfg c' (i, s)" using sl(2) ss(1) by (simp add: valid_pair_def same_static_def)
  moreover have "slot_ptr c' i s \<notin> live c'" using ok sl(1) same_static_slot_ptr [OF ss(1)] by simp
  ultimately have "{x. unat (x - p) < csize c} \<subseteq> spare cfg c'"
    using slot_spare [of cfg k c' i s] ok sl(1) same_static_slot_ptr [OF ss(1)] ss(2) by simp
  with w1(1) have A: "same_outside (spare cfg c') w w1" by (rule same_outside_mono)
  have "same_outside (spare cfg c') w1 w'"
  proof (cases "same_outside {} w1 w'")
    case False
    then obtain j where j: "j < sc_metadata_allocated c" "counts c' j = 0" "same_outside (slab_bytes c j) w1 w'"
      using w1(2) by (auto simp: released_def)
    have "j < sc_metadata_allocated c'" "slab_bytes c' j = slab_bytes c j"
      using j(1) f slab_bytes_frame [OF f] by (simp_all add: frame_def)
    then show ?thesis using class_free_slab [of cfg k c' j] ok j(2,3) same_outside_mono by metis
  qed (auto elim: same_outside_mono)
  with A show ?thesis by (rule same_outside_then)
qed

section \<open>The heap\<close>

text \<open>The bytes of a block.\<close>

definition contents :: "config \<Rightarrow> state \<Rightarrow> world \<Rightarrow> ptr \<Rightarrow> u8 list" where
  "contents cfg st w p = map (\<lambda>i. w_mem w (p + of_nat i)) [0..<block_size cfg st p]"

definition keeps_contents :: "config \<Rightarrow> ptr set \<Rightarrow> state \<Rightarrow> world \<Rightarrow> state \<Rightarrow> world \<Rightarrow> bool" where
  "keeps_contents cfg L st w st' w' \<longleftrightarrow> (\<forall>q \<in> L. contents cfg st' w' q = contents cfg st w q)"

lemma keeps_contents_trans:
  "keeps_contents cfg L st w st1 w1 \<Longrightarrow> keeps_contents cfg L st1 w1 st' w' \<Longrightarrow> keeps_contents cfg L st w st' w'"
  by (simp add: keeps_contents_def)

lemma keeps_contents_mono: "keeps_contents cfg L st w st' w' \<Longrightarrow> M \<subseteq> L \<Longrightarrow> keeps_contents cfg M st w st' w'"
  by (auto simp: keeps_contents_def)

lemma region_no_wrap:
  assumes "region_shape e"
  shows "unat (rm_p e) + unat (rm_size e) \<le> 2 ^ 64"
proof -
  let ?g = "rm_guard_size e"
  have sh: "unat (rm_size e) + 2 * unat ?g < 2 ^ 64" "4096 dvd unat ?g" "unat (rm_p e - ?g) + page_round (rm_size e + ?g * 2) < 2 ^ 64"
    using assms by (simp_all add: region_shape_def)
  have "unat (rm_p e - ?g) + (unat (rm_size e) + 2 * unat ?g) < 2 ^ 64"
    using sh(3) page_round_guards [OF sh(1,2)] page_round_ge [of "rm_size e"] by simp
  moreover from this have "unat (rm_p e) = unat (rm_p e - ?g) + unat ?g"
    using unat_add_lt [of "rm_p e - ?g" ?g] by simp
  ultimately show ?thesis by simp
qed

lemma block_offset:
  assumes "heap_inv cfg st w" "p \<in> heap_live cfg st" "i < block_size cfg st p"
  shows "unat (p + of_nat i) = unat p + i" "p + of_nat i \<in> block cfg st p"
proof -
  have le: "unat p + block_size cfg st p \<le> 2 ^ 64"
    using assms(2)
  proof (cases rule: heap_live_cases)
    case (small a k)
    let ?c = "the_class st a k"
    obtain i s where sl: "p = slot_ptr ?c i s" "valid_pair cfg ?c (i, s)" "class_static cfg k ?c"
      by (rule live_slot [OF heap_invD(4) [OF assms(1) small(1,2)] small(3)])
    have "block_size cfg st p = class_size cfg k"
      using slab_live_address [OF assms(1) small] slab_usable_size_class by (simp add: block_size_def)
    then have "block_size cfg st p \<le> csize ?c" using sl(3) class_size_le_slot [of cfg k] by (simp add: class_static_def)
    then show ?thesis using slot_ptr_bounds [OF sl(3,2)] sl(1,3) by (simp add: class_static_def)
  next
    case (large e)
    note inv = large_invD [OF heap_invD(6) [OF assms(1)]]
    have "e \<in> ran (region_map (st_region_allocator st))" using large by (auto simp: ran_def)
    then have "region_shape e" by (rule inv(3))
    moreover have "rm_p e = p" by (rule region_map_key [OF inv(2) large])
    moreover have "block_size cfg st p = unat (rm_size e)"
      using large_not_slab [OF assms(1) large] large by (simp add: block_size_def)
    ultimately show ?thesis using region_no_wrap [of e] by simp
  qed
  have "unat (of_nat i :: ptr) = i" using le assms(3) by (simp add: unat_of_nat)
  then show "unat (p + of_nat i) = unat p + i" using le assms(3) by (subst unat_add_lt) simp_all
  then show "p + of_nat i \<in> block cfg st p" using assms(3) by (simp add: block_def)
qed

lemma keeps_contentsI:
  assumes "heap_inv cfg st w0" "L \<subseteq> heap_live cfg st"
    and "\<And>q. q \<in> L \<Longrightarrow> block_size cfg st' q = block_size cfg st q"
    and "\<And>q x. q \<in> L \<Longrightarrow> x \<in> block cfg st q \<Longrightarrow> w_mem w' x = w_mem w x"
  shows "keeps_contents cfg L st w st' w'"
  unfolding keeps_contents_def contents_def
  using assms(2-4) block_offset(2) [OF assms(1)] by (auto simp: subset_iff)

lemma spare_keeps_contents:
  assumes "heap_inv cfg st0 w0" "a < N_ARENA cfg" "k < N_SIZE_CLASSES cfg" "same_outside (spare cfg (the_class st0 a k)) w w'"
    and "L \<subseteq> heap_live cfg st0" "\<And>q. q \<in> L \<Longrightarrow> block_size cfg st q = block_size cfg st0 q" "\<And>q. q \<in> L \<Longrightarrow> block_size cfg st' q = block_size cfg st0 q"
  shows "keeps_contents cfg L st w st' w'"
proof -
  have "w_mem w' x = w_mem w x" if "q \<in> L" "x \<in> block cfg st0 q" for q x
    using spare_not_block [OF assms(1-3) _ that(2)] that(1) assms(4,5) by (auto simp: same_outside_def)
  with assms(7) have "keeps_contents cfg L st0 w st' w'" by (intro keeps_contentsI [OF assms(1,5)]) auto
  then show ?thesis using assms(6) by (simp add: keeps_contents_def contents_def)
qed

lemma allocate_small_contents:
  assumes "allocate_small cfg os st a sz w = Returned (p, st', w')" "heap_inv cfg st w" "a < N_ARENA cfg"
    and "sz \<le> max_slab_size_class cfg" "confined os"
  shows "keeps_contents cfg (heap_live cfg st) st w st' w'"
proof -
  let ?i = "get_size_info sz" and ?n = "if si_size (get_size_info sz) \<noteq> 0 then si_size (get_size_info sz) else 16"
  define k where "k = unat (si_class ?i)"
  let ?c = "the_class st a k"
  note info = get_size_info_class [OF assms(4), folded k_def]
  have ok: "class_ok cfg k ?c" by (rule heap_invD(4) [OF assms(2,3) info(1)])
  then have "class_static cfg k ?c" using class_invD(1) by (auto simp: class_ok_def)
  then have n: "?n = ucast (sc_size ?c)" using info(2) by (simp add: class_static_def word_unat_eq_iff)
  obtain c' where al: "allocate_small_class cfg os ?c sz (ucast (sc_size ?c)) w = Returned (p, c', w')" and st': "st' = upd_class a k c' st"
    using assms(1) unfolding allocate_small_def Let_def k_def [symmetric] n by (auto simp: outcome_simps)
  show ?thesis
    by (rule spare_keeps_contents [OF assms(2,3) info(1) allocate_small_class_spare [OF assms(5) ok al]]) (simp_all add: st')
qed

lemma deallocate_small_contents:
  assumes "deallocate_small cfg os st p e w = Returned (st', w')" "heap_inv cfg st w" "in_slab_region st p" "confined os"
  shows "keeps_contents cfg (heap_live cfg st - {p}) st w st' w'"
proof -
  obtain a k where ak: "a < N_ARENA cfg" "k < N_SIZE_CLASSES cfg" "slab_size_class cfg st p = \<lparr>ssci_arena = a, ssci_class = k\<rparr>"
    by (rule slab_address_class [OF assms(2,3)])
  obtain c' where d: "deallocate_small_class cfg os (the_class st a k) k p e w = Returned (c', w')" and st': "st' = upd_class a k c' st"
    using assms(1) unfolding deallocate_small_def Let_def by (auto simp: outcome_simps ak(3))
  note ok = deallocate_small_ok [OF assms(1-3)]
  have "the_class st' a k = c'" by (simp add: st' upd_class_def)
  with deallocate_small_class_spare [OF assms(4) heap_invD(4) [OF assms(2) ak(1,2)] d]
  have so: "same_outside (spare cfg (the_class st' a k)) w w'" by simp
  show ?thesis
    by (rule spare_keeps_contents [OF ok(1) ak(1,2) so]) (use ok(3) in \<open>simp_all add: st'\<close>)
qed

section \<open>The calls\<close>

text \<open>On an initialised heap, choosing the arena changes nothing that blocks depend on.\<close>

lemma init_contents:
  assumes "init cfg os pl st w = Returned (a, st', w')" "heap_inv cfg st w"
  shows "w' = w" "keeps_contents cfg L st w st' w'" "block_size cfg st' = block_size cfg st" "in_slab_region st' = in_slab_region st"
proof -
  have "w' = w \<and> same_heap st st'"
    using assms(1) heap_inv_is_init [OF assms(2)] by (auto simp: init_def Let_def same_heap_def is_init_def split: if_splits)
  then show "w' = w" "block_size cfg st' = block_size cfg st" "in_slab_region st' = in_slab_region st"
    by (auto simp: fun_eq_iff same_heap_def block_size_def in_slab_region_def slab_usable_size_def slab_size_class_def Let_def)
  then show "keeps_contents cfg L st w st' w'" by (simp add: keeps_contents_def contents_def)
qed

lemma alloc_contents:
  assumes "alloc cfg os pl st sz w = Returned (p, st', w')" "heap_inv cfg st w" "sz \<le> max_slab_size_class cfg" "confined os"
  shows "keeps_contents cfg (heap_live cfg st) st w st' w'"
proof -
  obtain a st0 w0 where i: "init cfg os pl st w = Returned (a, st0, w0)" and al: "allocate_small cfg os st0 a sz w0 = Returned (p, st', w')"
    using assms(1,3) by (auto simp: alloc_def allocate_def outcome_simps)
  note n = init_next [OF i assms(2)]
  have "heap_live cfg st0 = heap_live cfg st" using n(3) by (simp add: continues_def)
  with allocate_small_contents [OF al n(2,1) assms(3,4)] init_contents(2) [OF i assms(2)] show ?thesis
    by (auto intro: keeps_contents_trans)
qed

lemma keeps_contentsD:
  assumes "keeps_contents cfg L st w st' w'" "q \<in> L" "i < block_size cfg st q"
  shows "w_mem w' (q + of_nat i) = w_mem w (q + of_nat i)"
proof -
  have eq: "contents cfg st' w' q = contents cfg st w q" using assms(1,2) by (simp add: keeps_contents_def)
  then have "length (contents cfg st' w' q) = length (contents cfg st w q)" by simp
  then have "i < block_size cfg st' q" using assms(3) by (simp add: contents_def)
  moreover have "contents cfg st' w' q ! i = contents cfg st w q ! i" using eq by simp
  ultimately show ?thesis using assms(3) by (simp add: contents_def)
qed

lemma memcpy_contents:
  assumes "heap_inv cfg st w" "p \<in> heap_live cfg st" "n \<le> block_size cfg st p"
  shows "keeps_contents cfg (heap_live cfg st - {p}) st w st (w\<lparr>w_mem := memcpy p old n (w_mem w)\<rparr>)"
proof (rule keeps_contentsI [OF assms(1)])
  fix q x assume q: "q \<in> heap_live cfg st - {p}" "x \<in> block cfg st q"
  have "x \<in> block cfg st p" if "unat (x - p) < n"
    using block_offset(2) [OF assms(1,2), of "unat (x - p)"] that assms(3) by simp
  then have "\<not> unat (x - p) < n" using blocks_disjoint [OF assms(1,2), of q] q by auto
  then show "w_mem (w\<lparr>w_mem := memcpy p old n (w_mem w)\<rparr>) x = w_mem w x" by (simp add: memcpy_def)
qed auto

text \<open>The path that copies: the bytes of the old block that fit are in the new one, and no other block changes.\<close>

definition moved :: "config \<Rightarrow> state \<Rightarrow> world \<Rightarrow> ptr \<Rightarrow> nat \<Rightarrow> ptr \<Rightarrow> state \<Rightarrow> world \<Rightarrow> bool" where
  "moved cfg st w old n p st' w' \<longleftrightarrow>
     (if p = NULL then keeps_contents cfg (heap_live cfg st) st w st' w'
      else keeps_contents cfg (heap_live cfg st - {old}) st w st' w' \<and>
        (\<forall>i < n. w_mem w' (p + of_nat i) = w_mem w (old + of_nat i)))"

lemma copy_then_free:
  assumes "heap_inv cfg st w" "old \<in> heap_live cfg st" "in_slab_region st old" "confined os"
    and "heap_inv cfg st1 w1" "allocated cfg st p st1" "p \<noteq> NULL" "in_slab_region st1 = in_slab_region st"
    and "keeps_contents cfg (heap_live cfg st) st w st1 w1" "n \<le> block_size cfg st old" "n \<le> block_size cfg st1 p"
    and "deallocate_small cfg os st1 old None (w1\<lparr>w_mem := memcpy p old n (w_mem w1)\<rparr>) = Returned (st', w')"
  shows "moved cfg st w old n p st' w'"
proof -
  let ?w = "w1\<lparr>w_mem := memcpy p old n (w_mem w1)\<rparr>" and ?L = "heap_live cfg st"
  have l: "heap_live cfg st1 = insert p ?L" "p \<notin> ?L" using assms(6,7) by (auto simp: allocated_def)
  then have p: "p \<noteq> old" "p \<in> heap_live cfg st1" using assms(2) by auto
  have inv: "heap_inv cfg st1 ?w" using assms(5) by simp
  have m: "keeps_contents cfg ?L st1 w1 st1 ?w"
    using memcpy_contents [OF assms(5) p(2) assms(11), of old] l by simp
  have d: "keeps_contents cfg (insert p ?L - {old}) st1 ?w st' w'"
    using deallocate_small_contents [OF assms(12) inv _ assms(4)] assms(3,8) l(1) by simp
  have "keeps_contents cfg ?L st w st1 ?w" using assms(9) m by (rule keeps_contents_trans)
  then have "keeps_contents cfg (?L - {old}) st w st1 ?w" by (rule keeps_contents_mono) auto
  moreover have "keeps_contents cfg (?L - {old}) st1 ?w st' w'" by (rule keeps_contents_mono [OF d]) auto
  ultimately have A: "keeps_contents cfg (?L - {old}) st w st' w'" by (rule keeps_contents_trans)
  have B: "w_mem w' (p + of_nat i) = w_mem w (old + of_nat i)" if "i < n" for i
  proof -
    have i: "i < block_size cfg st1 p" "i < block_size cfg st old" using that assms(10,11) by simp_all
    have "unat (of_nat i :: ptr) = i"
      using block_offset(1) [OF assms(5) p(2) i(1)] unat_lt_pow [of 64 "p + of_nat i"] by (simp add: unat_of_nat)
    then have "w_mem ?w (p + of_nat i) = w_mem w1 (old + of_nat i)" using that by (simp add: memcpy_def)
    moreover have "w_mem w' (p + of_nat i) = w_mem ?w (p + of_nat i)" by (rule keeps_contentsD [OF d _ i(1)]) (use p(1) in simp)
    moreover have "w_mem w1 (old + of_nat i) = w_mem w (old + of_nat i)" by (rule keeps_contentsD [OF assms(9,2) i(2)])
    ultimately show ?thesis by simp
  qed
  from A B assms(7) show ?thesis by (simp add: moved_def)
qed

lemma realloc_copy_contents:
  assumes "realloc_copy cfg os pl st old old_size True sz w = Returned (p, st', w')" "heap_inv cfg st w"
    and "in_slab_region st old" "old \<in> heap_live cfg st" "sz \<le> max_slab_size_class cfg" "unat old_size = block_size cfg st old"
    and "confined os" "canary_size cfg \<le> min sz old_size \<or> min sz old_size = 0"
  shows "moved cfg st w old (min (unat sz) (block_size cfg st old) - unat (canary_size cfg)) p st' w'"
proof -
  define n where "n = (let n = min sz old_size in if n > 0 \<and> n \<le> max_slab_size_class cfg then n - canary_size cfg else n)"
  obtain a st0 w0 st1 w1 where i: "init cfg os pl st w = Returned (a, st0, w0)"
    and al: "allocate_small cfg os st0 a sz w0 = Returned (p, st1, w1)"
    and rest: "if p = NULL then st' = st1 \<and> w' = w1
      else deallocate_small cfg os st1 old None (w1\<lparr>w_mem := memcpy p old (unat n) (w_mem w1)\<rparr>) = Returned (st', w')"
    using assms(1,5) unfolding realloc_copy_def Let_def n_def by (auto simp: allocate_def outcome_simps split: if_splits)
  note nx = init_next [OF i assms(2)] and ic = init_contents [OF i assms(2)]
  have l0: "heap_live cfg st0 = heap_live cfg st" using nx(3) by (simp add: continues_def)
  note ok = allocate_small_ok [OF al nx(2,1) assms(5)]
  have k1: "keeps_contents cfg (heap_live cfg st) st w st1 w1"
    using allocate_small_contents [OF al nx(2,1) assms(5,7)] ic(2) l0 by (auto intro: keeps_contents_trans)
  note bl = allocate_small_block [OF al nx(2,1) assms(5), of 4, OF _ size_info_16 [OF assms(5)]]
  show ?thesis
  proof (cases "p = NULL")
    case True
    with rest k1 show ?thesis by (simp add: moved_def)
  next
    case False
    have m: "unat (min sz old_size) = min (unat sz) (block_size cfg st old)"
      by (simp add: min_def word_le_nat_alt assms(6) [symmetric])
    have "min sz old_size \<le> max_slab_size_class cfg" using assms(5) by (simp add: min_def) (metis order_trans linear)
    then have "unat n = unat (min sz old_size) - unat (canary_size cfg)"
      using assms(8) by (cases "min sz old_size = 0") (auto simp: n_def Let_def unat_sub word_neq_0_conv)
    then have n: "unat n = min (unat sz) (block_size cfg st old) - unat (canary_size cfg)" by (simp add: m)
    show ?thesis unfolding n [symmetric]
    proof (rule copy_then_free [OF assms(2,4,3,7) ok(1) _ False _ k1])
      show "allocated cfg st p st1" using ok(2) l0 by (simp add: allocated_def)
      show "in_slab_region st1 = in_slab_region st"
        using bl(2) heap_inv_is_init [OF nx(2)] ic(4) by (simp add: keeps_blocks_def)
      show "unat n \<le> block_size cfg st old" "unat n \<le> block_size cfg st1 p" using n bl(1) False by (auto simp: fits_def)
      show "deallocate_small cfg os st1 old None (w1\<lparr>w_mem := memcpy p old (unat n) (w_mem w1)\<rparr>) = Returned (st', w')"
        using rest False by simp
    qed
  qed
qed

lemma class_size_canary: "k < N_SIZE_CLASSES cfg \<Longrightarrow> class_size cfg k = 0 \<or> 8 \<le> class_size cfg k"
  using class_size_mono [of 1 k cfg] by (cases "k = 0"; cases "k = 1") (auto simp: class_size_def size_classes_def)

lemma adjusted_small:
  assumes "adjust_size_for_canary cfg sz \<le> max_slab_size_class cfg"
  shows "unat (adjust_size_for_canary cfg sz) = (if sz = 0 then 0 else unat sz + unat (canary_size cfg))"
proof (cases "sz = 0")
  case False
  then have "0 < sz" by (simp add: word_neq_0_conv)
  moreover have "sz \<le> max_slab_size_class cfg" using assms False by (auto simp: adjust_size_for_canary_def word_neq_0_conv split: if_splits)
  moreover from this have "unat sz + unat (canary_size cfg) < 2 ^ 64"
    by (auto simp: max_slab_size_class_def canary_size_def word_le_nat_alt split: if_splits)
  ultimately show ?thesis using False by (simp add: adjust_size_for_canary_def unat_add_lt)
qed (simp add: adjust_size_for_canary_def)

lemma unat_min: "unat (min a b) = min (unat a) (unat b)"
  by (simp add: min_def word_le_nat_alt)

lemma h_realloc_small:
  assumes "adjust_size_for_canary cfg sz \<le> max_slab_size_class cfg" "in_slab_region st old" "old \<noteq> NULL"
  shows "h_realloc cfg os pl st old sz w =
    (if si_size (get_size_info (adjust_size_for_canary cfg sz)) = slab_usable_size cfg st old then Returned (old, st, w)
     else realloc_copy cfg os pl st old (slab_usable_size cfg st old) True (adjust_size_for_canary cfg sz) w)"
proof -
  have "\<not> max_slab_size_class cfg < adjust_size_for_canary cfg sz" using assms(1) by simp
  with assms show ?thesis unfolding h_realloc_def Let_def by simp
qed

lemma h_realloc_contents_ok:
  assumes "h_realloc cfg os pl st old sz w = Returned (p, st', w')" "heap_inv cfg st w"
    and "in_slab_region st old" "old \<in> heap_live cfg st" "adjust_size_for_canary cfg sz \<le> max_slab_size_class cfg" "confined os"
  shows "moved cfg st w old (min (unat sz) (block_size cfg st old - unat (canary_size cfg))) p st' w'"
proof -
  let ?sz = "adjust_size_for_canary cfg sz" and ?o = "slab_usable_size cfg st old" and ?c = "canary_size cfg"
  have nn: "old \<noteq> NULL" using heap_live_nonnull [OF assms(2)] assms(4) by blast
  have bs: "unat ?o = block_size cfg st old" using assms(3) by (simp add: block_size_def)
  obtain a k where ak: "k < N_SIZE_CLASSES cfg" "slab_size_class cfg st old = \<lparr>ssci_arena = a, ssci_class = k\<rparr>"
    by (rule slab_address_class [OF assms(2,3)])
  have o: "unat ?o = 0 \<or> 8 \<le> unat ?o" using class_size_canary [OF ak(1)] slab_usable_size_class [OF ak(2)] by metis
  note sz = adjusted_small [OF assms(5)]
  have c: "unat ?c \<le> 8" by (simp add: canary_size_def)
  have "unat ?c \<le> unat (min ?sz ?o) \<or> unat (min ?sz ?o) = 0"
    unfolding unat_min sz using o c by (cases "sz = 0") (simp_all add: min_def, linarith)
  then have min: "?c \<le> min ?sz ?o \<or> min ?sz ?o = 0" by (simp only: word_le_nat_alt unat_eq_zero)
  have n: "min (unat ?sz) (block_size cfg st old) - unat ?c = min (unat sz) (block_size cfg st old - unat ?c)"
    unfolding sz by (cases "sz = 0") (simp_all add: min_def, arith)
  note r = assms(1) [unfolded h_realloc_small [OF assms(5,3) nn]]
  show ?thesis
  proof (cases "si_size (get_size_info ?sz) = ?o")
    case True
    then have "p = old" "st' = st" "w' = w" using r by simp_all
    with nn show ?thesis by (simp add: moved_def keeps_contents_def)
  next
    case False
    then have "realloc_copy cfg os pl st old ?o True ?sz w = Returned (p, st', w')" using r by simp
    from realloc_copy_contents [OF this assms(2-5) bs assms(6) min] show ?thesis unfolding n .
  qed
qed

end
