(* ===== verification/Random_Correct.thy ===== *)
theory Random_Correct
  imports Random_State
begin

text \<open>
  Where the bytes of a generator come from and how many there are of them: every context is that of a seed, which the
  kernel or another generator has delivered, and between two seedings a generator hands out a bounded number of bytes
  from its cache.
\<close>

section \<open>Seeds\<close>

text \<open>The context that 40 bytes of seed give, whatever the context was before.\<close>

definition seed_context :: "u8 list \<Rightarrow> chacha_ctx" where
  "seed_context seed = chacha_ivsetup (chacha_keysetup (replicate 16 0) seed) (drop CHACHA_KEY_SIZE seed)"

lemma seed_context_eq:
  assumes "length ctx = 16"
  shows "chacha_ivsetup (chacha_keysetup ctx seed) (drop CHACHA_KEY_SIZE seed) = seed_context seed"
proof (rule nth_equalityI)
  fix i assume "i < length (chacha_ivsetup (chacha_keysetup ctx seed) (drop CHACHA_KEY_SIZE seed))"
  then have "i < 16" using assms by simp
  then have "i \<in> {0, 1, 2, 3, 4, 5, 6, 7, 8, 9, 10, 11, 12, 13, 14, 15}" by simp presburger
  then show "chacha_ivsetup (chacha_keysetup ctx seed) (drop CHACHA_KEY_SIZE seed) ! i = seed_context seed ! i"
    using assms by (elim insertE) (simp_all add: seed_context_def chacha_ivsetup_def chacha_keysetup_def)
qed (simp add: assms seed_context_def)

lemma seed_context_counter: "set_counter 0 (seed_context seed) = seed_context seed"
  by (simp add: seed_context_def set_counter_def chacha_ivsetup_def list_update_swap)

lemma length_seed_context [simp]: "length (seed_context seed) = 16"
  by (simp add: seed_context_def)

lemma get_random_seed_loop_calls:
  assumes "get_random_seed_loop os buf n w = Some (Returned (buf', w'))"
  shows "w_seeds w \<le> w_seeds w' \<and> (n \<noteq> 0 \<longrightarrow> w_seeds w < w_seeds w')"
proof -
  have "Returned (buf', w') = Returned (b, v) \<longrightarrow> w_seeds w \<le> w_seeds v \<and> (n \<noteq> 0 \<longrightarrow> w_seeds w < w_seeds v)" for b v
    by (rule get_random_seed_loop.raw_induct [where P = "\<lambda>os buf n w r. r = Returned (b, v) \<longrightarrow>
          w_seeds w \<le> w_seeds v \<and> (n \<noteq> 0 \<longrightarrow> w_seeds w < w_seeds v)", OF _ assms])
      (fastforce simp: getrandom_def Let_def split: if_splits prod.splits getrandom_ret.splits)
  then show ?thesis by blast
qed

lemma get_random_seed_calls: "get_random_seed os n w = Returned (seed, w') \<Longrightarrow> n \<noteq> 0 \<Longrightarrow> w_seeds w < w_seeds w'"
  by (auto simp: get_random_seed_def outcome_simps dest: get_random_seed_loop_calls)

text \<open>
  A generator that has just been seeded, by the calls of \<^verbatim>\<open>getrandom\<close> with the numbers from \<open>lo\<close> up to, and not including, \<open>hi\<close>.
\<close>

definition seeded_by :: "kernel \<Rightarrow> nat \<Rightarrow> nat \<Rightarrow> random_state \<Rightarrow> bool" where
  "seeded_by os lo hi state \<longleftrightarrow> lo < hi \<and>
     (\<exists>w w' seed. get_random_seed os (CHACHA_KEY_SIZE + CHACHA_IV_SIZE) w = Returned (seed, w') \<and>
        w_seeds w = lo \<and> w_seeds w' = hi \<and> rs_ctx state = seed_context seed) \<and>
     rs_index state = RANDOM_CACHE_SIZE \<and> rs_reseed state = 0"

lemma random_state_init_seeded:
  assumes "random_state_init os state w = Returned (state', w')" "length (rs_ctx state) = 16"
  shows "seeded_by os (w_seeds w) (w_seeds w') state'"
proof -
  obtain seed where s: "get_random_seed os (CHACHA_KEY_SIZE + CHACHA_IV_SIZE) w = Returned (seed, w')"
    "state' = state\<lparr>rs_ctx := seed_context seed, rs_index := RANDOM_CACHE_SIZE, rs_reseed := 0\<rparr>"
    using assms by (auto simp: random_state_init_def outcome_simps seed_context_eq)
  with get_random_seed_calls [OF s(1)] show ?thesis unfolding seeded_by_def by auto
qed

section \<open>Operations\<close>

text \<open>
  An operation of \<^verbatim>\<open>random.h\<close> on a generator, with the number of bytes that it hands out of the cache. Requests of more
  than half the cache bypass it. Of a bounded number the bytes of one draw are counted; there may be more.
\<close>

inductive rng_op :: "kernel \<Rightarrow> random_state \<times> world \<Rightarrow> nat \<Rightarrow> random_state \<times> world \<Rightarrow> bool" for os where
  bytes: "get_random_bytes os s n w = Returned (buf, s', w') \<Longrightarrow>
    rng_op os (s, w) (if n \<le> RANDOM_CACHE_SIZE div 2 then n else 0) (s', w')"
| derive: "random_state_init_from_random_state os new s w = Returned (new', s', w') \<Longrightarrow>
    rng_op os (s, w) (CHACHA_KEY_SIZE + CHACHA_IV_SIZE) (s', w')"
| u16: "get_random_u16 os s w = Returned (x, s', w') \<Longrightarrow> rng_op os (s, w) 2 (s', w')"
| u32: "get_random_u32 os s w = Returned (y, s', w') \<Longrightarrow> rng_op os (s, w) 4 (s', w')"
| u64: "get_random_u64 os s w = Returned (z, s', w') \<Longrightarrow> rng_op os (s, w) 8 (s', w')"
| u16_uniform: "get_random_u16_uniform os s b w = Returned (x, s', w') \<Longrightarrow> rng_op os (s, w) 2 (s', w')"
| u32_uniform: "get_random_u32_uniform os s c w = Returned (y, s', w') \<Longrightarrow> rng_op os (s, w) 4 (s', w')"
| u64_uniform: "get_random_u64_uniform os s d w = Returned (z, s', w') \<Longrightarrow> rng_op os (s, w) 8 (s', w')"

text \<open>The states of one generator, which is seeded by the kernel or from another one and then used.\<close>

inductive generator :: "kernel \<Rightarrow> random_state \<Rightarrow> world \<Rightarrow> bool" for os where
  seeded: "random_state_init os state w = Returned (state', w') \<Longrightarrow>
    length (rs_ctx state) = 16 \<Longrightarrow> length (rs_cache state) = 256 \<Longrightarrow> generator os state' w'"
| derived: "generator os source w \<Longrightarrow>
    random_state_init_from_random_state os state source w = Returned (state', source', w') \<Longrightarrow>
    length (rs_ctx state) = 16 \<Longrightarrow> length (rs_cache state) = 256 \<Longrightarrow> generator os state' w'"
| operated: "generator os state w \<Longrightarrow> rng_op os (state, w) n (state', w') \<Longrightarrow> generator os state' w'"

text \<open>A sequence of operations, with the sum of the bytes.\<close>

inductive draws :: "kernel \<Rightarrow> random_state \<times> world \<Rightarrow> nat \<Rightarrow> random_state \<times> world \<Rightarrow> bool" for os where
  none: "draws os s 0 s"
| more: "draws os s m t \<Longrightarrow> rng_op os t n u \<Longrightarrow> draws os s (m + n) u"

section \<open>What is spent\<close>

text \<open>Where a seed may come from.\<close>

definition seed_source :: "kernel \<Rightarrow> u8 list \<Rightarrow> bool" where
  "seed_source os seed \<longleftrightarrow>
     (\<exists>w w'. get_random_seed os (CHACHA_KEY_SIZE + CHACHA_IV_SIZE) w = Returned (seed, w')) \<or>
     (\<exists>s w s' w'. generator os s w \<and> get_random_bytes os s (CHACHA_KEY_SIZE + CHACHA_IV_SIZE) w = Returned (seed, s', w'))"

text \<open>
  A well-formed generator whose context differs from that of a seed in the block counter only, and which has been seeded
  before its cache was filled.
\<close>

definition primed :: "kernel \<Rightarrow> random_state \<Rightarrow> bool" where
  "primed os s \<longleftrightarrow> random_state_ok s \<and> RANDOM_CACHE_SIZE \<le> rs_reseed s + rs_index s \<and>
     (\<exists>seed. seed_source os seed \<and> set_counter 0 (rs_ctx s) = seed_context seed)"

definition spends :: "kernel \<Rightarrow> nat \<Rightarrow> random_state \<times> world \<Rightarrow> random_state \<times> world \<Rightarrow> bool" where
  "spends os n = (\<lambda>(s, w) (s', w'). primed os s \<longrightarrow> primed os s' \<and> w_seeds w \<le> w_seeds w' \<and>
     (w_seeds w' = w_seeds w \<longrightarrow> rs_reseed s + rs_index s + n \<le> rs_reseed s' + rs_index s'))"

lemma spends_refl [simp]: "spends os 0 s s"
  by (cases s) (simp add: spends_def)

lemma spends_trans: "spends os m s t \<Longrightarrow> spends os n t u \<Longrightarrow> spends os (m + n) s u"
  by (cases s; cases t; cases u) (auto simp: spends_def)

lemma spends_less: "spends os n s t \<Longrightarrow> m \<le> n \<Longrightarrow> spends os m s t"
  by (cases s; cases t) (auto simp: spends_def)

lemma keystream_ctx: "length x = 16 \<Longrightarrow> chacha_keystream_bytes x n = (x', buf) \<Longrightarrow> x' = set_counter (block_counter x + blocks_of n) x"
  using keystream_by_block [of x n] by simp

lemma random_state_init_primed:
  assumes "random_state_init os s w = Returned (s', w')" "length (rs_ctx s) = 16" "length (rs_cache s) = 256"
  shows "primed os s'" "w_seeds w < w_seeds w'"
proof -
  note r = random_state_init_seeded [OF assms(1,2)] random_state_init_ok [OF assms]
  then obtain v v' seed where v: "get_random_seed os (CHACHA_KEY_SIZE + CHACHA_IV_SIZE) v = Returned (seed, v')" "rs_ctx s' = seed_context seed"
    by (auto simp: seeded_by_def)
  then have "seed_source os seed" unfolding seed_source_def by blast
  with r v(2) seed_context_counter [of seed] show "primed os s'" by (auto simp: primed_def seeded_by_def)
  show "w_seeds w < w_seeds w'" using r(1) by (simp add: seeded_by_def)
qed

lemma refill_spends:
  assumes "refill os s w = Returned (s', w')"
  shows "spends os 0 (s, w) (s', w')"
  unfolding spends_def prod.case
proof (intro impI)
  assume p: "primed os s"
  then have ok: "length (rs_ctx s) = 16" "length (rs_cache s) = 256" "rs_index s \<le> RANDOM_CACHE_SIZE"
    by (auto simp: primed_def random_state_ok_def)
  obtain s1 w1 where s1: "(if RANDOM_RESEED_SIZE \<le> rs_reseed s then random_state_init os s w else Returned (s, w)) = Returned (s1, w1)"
    and s': "s' = s1\<lparr>rs_ctx := fst (chacha_keystream_bytes (rs_ctx s1) RANDOM_CACHE_SIZE),
      rs_cache := snd (chacha_keystream_bytes (rs_ctx s1) RANDOM_CACHE_SIZE), rs_index := 0, rs_reseed := rs_reseed s1 + RANDOM_CACHE_SIZE\<rparr>"
    and w': "w' = w1"
    using assms unfolding refill_def case_prod_beta Let_def by (auto simp: outcome_simps)
  have p1: "primed os s1" "s1 = s \<and> w1 = w \<or> w_seeds w < w_seeds w1"
    using s1 p random_state_init_primed [of os s w s1 w1] ok by (auto split: if_splits)
  have len: "length (rs_ctx s1) = 16" using p1(1) by (simp add: primed_def random_state_ok_def)
  have "random_state_ok s'"
    using refill_ok [OF assms] p by (simp add: primed_def)
  moreover have "set_counter 0 (rs_ctx s') = set_counter 0 (rs_ctx s1)"
    using keystream_by_block [OF len, of RANDOM_CACHE_SIZE] by (simp add: s')
  ultimately have "primed os s'" using p1(1) by (simp add: primed_def s')
  with p1(2) ok(3) show "primed os s' \<and> w_seeds w \<le> w_seeds w' \<and>
     (w_seeds w' = w_seeds w \<longrightarrow> rs_reseed s + rs_index s + 0 \<le> rs_reseed s' + rs_index s')"
    by (auto simp: s' w')
qed

text \<open>Bytes are taken from the cache by moving the index.\<close>

lemma advance_spends:
  assumes "rs_index s + n \<le> RANDOM_CACHE_SIZE"
  shows "spends os n (s, w) (s\<lparr>rs_index := rs_index s + n\<rparr>, w)"
  using assms by (auto simp: spends_def primed_def random_state_ok_def)

lemma get_random_word_spends:
  assumes "get_random_word n os s w = Returned (x, s', w')" "n \<le> RANDOM_CACHE_SIZE" "random_state_ok s"
  shows "spends os n (s, w) (s', w')"
proof -
  obtain s1 w1 where s1: "(if RANDOM_CACHE_SIZE - rs_index s < n then refill os s w else Returned (s, w)) = Returned (s1, w1)"
    and s': "s' = s1\<lparr>rs_index := rs_index s1 + n\<rparr>" "w' = w1"
    using assms(1) by (auto simp: get_random_word_def outcome_simps Let_def)
  have "spends os 0 (s, w) (s1, w1)" "rs_index s1 + n \<le> RANDOM_CACHE_SIZE"
    using s1 refill_spends [of os s w s1 w1] refill_ok [of os s w s1 w1] assms(2,3) by (auto simp: random_state_ok_def split: if_splits)
  from spends_trans [OF this(1) advance_spends [OF this(2)]] show ?thesis by (simp add: s')
qed

lemma get_random_bytes_loop_spends:
  "get_random_bytes_loop os s buf n w = Returned (buf', s', w') \<Longrightarrow> random_state_ok s \<Longrightarrow> spends os n (s, w) (s', w')"
proof (induction n arbitrary: s buf w rule: less_induct)
  case (less n)
  show ?case
  proof (cases "n = 0")
    case True
    then show ?thesis using less.prems(1) by (simp add: get_random_bytes_loop.simps [of os s buf 0 w])
  next
    case False
    obtain s1 w1 where re: "(if rs_index s = RANDOM_CACHE_SIZE then refill os s w else Returned (s, w)) = Returned (s1, w1)"
      using less.prems(1) False by (subst (asm) get_random_bytes_loop.simps) (auto simp: outcome_simps)
    define k where "k = min n (RANDOM_CACHE_SIZE - rs_index s1)"
    define s2 where "s2 = s1\<lparr>rs_index := rs_index s1 + k\<rparr>"
    have s1: "spends os 0 (s, w) (s1, w1)" "random_state_ok s1" "rs_index s1 < RANDOM_CACHE_SIZE"
      using re refill_spends [of os s w s1 w1] refill_ok [of os s w s1 w1] less.prems(2) by (auto simp: random_state_ok_def split: if_splits)
    have k: "0 < k" "k \<le> n" "rs_index s1 + k \<le> RANDOM_CACHE_SIZE" using False s1(3) by (auto simp: k_def)
    have rest: "get_random_bytes_loop os s2 (buf @ take k (drop (rs_index s1) (rs_cache s1))) (n - k) w1 = Returned (buf', s', w')"
      using less.prems(1) False re k(1) [unfolded k_def, THEN less_imp_neq, symmetric]
      by (subst (asm) get_random_bytes_loop.simps) (simp add: k_def s2_def Let_def split: if_splits)
    have "random_state_ok s2" using s1(2) k(3) by (simp add: s2_def random_state_ok_def)
    from less.IH [OF _ rest this] k have "spends os (n - k) (s2, w1) (s', w')" by simp
    moreover have "spends os k (s, w) (s2, w1)" using spends_trans [OF s1(1) advance_spends [OF k(3)]] by (simp add: s2_def)
    ultimately show ?thesis using spends_trans k(2) by fastforce
  qed
qed

lemma get_random_bytes_spends:
  assumes "get_random_bytes os s n w = Returned (buf, s', w')" "random_state_ok s"
  shows "spends os (if n \<le> RANDOM_CACHE_SIZE div 2 then n else 0) (s, w) (s', w')"
proof (cases "RANDOM_CACHE_SIZE div 2 < n")
  case True
  have len: "length (rs_ctx s) = 16" using assms(2) by (simp add: random_state_ok_def)
  obtain ctx where "s' = s\<lparr>rs_ctx := ctx\<rparr>" "w' = w" "ctx = set_counter (block_counter (rs_ctx s) + blocks_of n) (rs_ctx s)"
    using assms(1) True keystream_ctx [OF len, of n] by (auto simp: get_random_bytes_def split: prod.splits)
  then show ?thesis using True by (simp add: spends_def primed_def random_state_ok_def)
next
  case False
  then show ?thesis using assms get_random_bytes_loop_spends [of os s "[]" n w] by (simp add: get_random_bytes_def)
qed

text \<open>A bounded draw spends at least what its first draw does.\<close>

text \<open>What the first draw establishes and every further draw keeps, holds after a bounded draw.\<close>

context sampler
begin

lemma uniform_after_first:
  assumes "uniform T draw bound s = Returned (v, s')" "\<And>x t. draw s = Returned (x, t) \<Longrightarrow> P t"
    and "\<And>t x t'. P t \<Longrightarrow> draw t = Returned (x, t') \<Longrightarrow> P t'"
  shows "P s'"
proof -
  obtain x t where d: "draw s = Returned (x, t)" using assms(1) by (auto simp: uniform_def outcome_simps)
  have r: "(case lemire_draw T bound x of Some v \<Rightarrow> Returned (v, t) | None \<Rightarrow> uniform T draw bound t) = Returned (v, s')"
    using assms(1) by (subst (asm) uniform_unfold) (simp add: d)
  show ?thesis
  proof (cases "lemire_draw T bound x")
    case None
    with r have "uniform T draw bound t = Returned (v, s')" by simp
    from uniform_returns [OF this, of P] assms(2) [OF d] assms(3) show ?thesis by blast
  next
    case (Some v')
    with r assms(2) [OF d] show ?thesis by simp
  qed
qed

end

definition spent_ok :: "kernel \<Rightarrow> nat \<Rightarrow> random_state \<times> world \<Rightarrow> random_state \<times> world \<Rightarrow> bool" where
  "spent_ok os n s t \<longleftrightarrow> spends os n s t \<and> random_state_ok (fst t)"

lemma word_spent:
  assumes "(case t of (s, w) \<Rightarrow> get_random_word n os s w) = Returned (x, t')" "n \<le> RANDOM_CACHE_SIZE" "random_state_ok (fst t)"
  shows "spent_ok os n t t'"
  using get_random_word_spends [of n os "fst t" "snd t" x "fst t'" "snd t'"] get_random_word_ok [of n os "fst t" "snd t" x "fst t'" "snd t'"] assms
  by (cases t; cases t') (simp add: spent_ok_def)

lemma word_spent_more:
  assumes "spent_ok os n s t" "(case t of (s, w) \<Rightarrow> get_random_word m os s w) = Returned (x, t')" "m \<le> RANDOM_CACHE_SIZE"
  shows "spent_ok os n s t'"
proof -
  have t: "random_state_ok (fst t)" "spends os n s t" using assms(1) by (simp_all add: spent_ok_def)
  from word_spent [OF assms(2,3) t(1)] show ?thesis
    using spends_trans [OF t(2)] spends_less by (fastforce simp: spent_ok_def)
qed

lemma uniform_spends:
  assumes "random_state_ok s"
  shows "get_random_u16_uniform os s b w = Returned (x, s', w') \<Longrightarrow> spends os 2 (s, w) (s', w')"
    and "get_random_u32_uniform os s c w = Returned (y, s', w') \<Longrightarrow> spends os 4 (s, w) (s', w')"
    and "get_random_u64_uniform os s d w = Returned (z, s', w') \<Longrightarrow> spends os 8 (s, w) (s', w')"
proof -
  assume "get_random_u16_uniform os s b w = Returned (x, s', w')"
  then have "spent_ok os 2 (s, w) (s', w')"
    unfolding get_random_u16_uniform_def get_random_u16_def [abs_def]
    by (rule u16_sampler.uniform_after_first [unfolded get_random_u16_def])
      (rule word_spent word_spent_more, assumption+, simp_all add: assms)+
  then show "spends os 2 (s, w) (s', w')" by (simp add: spent_ok_def)
next
  assume "get_random_u32_uniform os s c w = Returned (y, s', w')"
  then have "spent_ok os 4 (s, w) (s', w')"
    unfolding get_random_u32_uniform_def get_random_u32_def [abs_def]
    by (rule u32_sampler.uniform_after_first [unfolded get_random_u32_def])
      (rule word_spent word_spent_more, assumption+, simp_all add: assms)+
  then show "spends os 4 (s, w) (s', w')" by (simp add: spent_ok_def)
next
  assume "get_random_u64_uniform os s d w = Returned (z, s', w')"
  then have "spent_ok os 8 (s, w) (s', w')"
    unfolding get_random_u64_uniform_def get_random_u64_def [abs_def]
    by (rule u64_sampler.uniform_after_first [unfolded get_random_u64_def])
      (rule word_spent word_spent_more, assumption+, simp_all add: assms)+
  then show "spends os 8 (s, w) (s', w')" by (simp add: spent_ok_def)
qed

lemma rng_op_spends:
  assumes "rng_op os (s, w) n (s', w')" "random_state_ok s"
  shows "spends os n (s, w) (s', w')"
  using assms(1)
proof cases
  case (bytes m buf)
  with get_random_bytes_spends [OF bytes(2) assms(2)] show ?thesis by simp
next
  case (derive new new')
  then obtain buf where "get_random_bytes os s (CHACHA_KEY_SIZE + CHACHA_IV_SIZE) w = Returned (buf, s', w')"
    by (auto simp: random_state_init_from_random_state_def outcome_simps)
  from get_random_bytes_spends [OF this assms(2)] derive show ?thesis by simp
next
  case (u16 x)
  then show ?thesis using get_random_word_spends [of 2 os s w x s' w'] assms(2) by (simp add: get_random_u16_def)
next
  case (u32 x)
  then show ?thesis using get_random_word_spends [of 4 os s w x s' w'] assms(2) by (simp add: get_random_u32_def)
next
  case (u64 x)
  then show ?thesis using get_random_word_spends [of 8 os s w x s' w'] assms(2) by (simp add: get_random_u64_def)
qed (use uniform_spends [OF assms(2)] in auto)

lemma generator_primed: "generator os s w \<Longrightarrow> primed os s"
proof (induction rule: generator.induct)
  case (seeded state w state' w')
  then show ?case by (rule random_state_init_primed(1))
next
  case (derived source w state state' source' w')
  obtain seed where s: "get_random_bytes os source (CHACHA_KEY_SIZE + CHACHA_IV_SIZE) w = Returned (seed, source', w')"
    "state' = state\<lparr>rs_ctx := seed_context seed, rs_index := RANDOM_CACHE_SIZE, rs_reseed := 0\<rparr>"
    using derived(2,3) by (auto simp: random_state_init_from_random_state_def outcome_simps seed_context_eq)
  then have "seed_source os seed" using derived(1) unfolding seed_source_def by blast
  then show ?case using derived(4) seed_context_counter [of seed] by (auto simp: s(2) primed_def random_state_ok_def)
next
  case (operated state w n state' w')
  have "random_state_ok state" using operated.IH by (simp add: primed_def)
  from rng_op_spends [OF operated.hyps(2) this] operated.IH show ?case by (simp add: spends_def)
qed

lemma draws_spends: "draws os s n t \<Longrightarrow> primed os (fst s) \<Longrightarrow> spends os n s t"
proof (induction rule: draws.induct)
  case (more s m t n u)
  have "primed os (fst t)" using more.IH [OF more.prems] more.prems by (cases s; cases t) (simp add: spends_def)
  then have "random_state_ok (fst t)" by (simp add: primed_def)
  then have "spends os n t u" using more.hyps(2) rng_op_spends [of os "fst t" "snd t" n "fst u" "snd u"] by simp
  with more.IH [OF more.prems] show ?case by (rule spends_trans)
qed simp

section \<open>Properties\<close>

text \<open>
  C28. Generators, seeded by the kernel or by another generator and then used through any sequence of the operations of
  \<^verbatim>\<open>random.h\<close>: the index stays inside the 256-byte cache, so no operation reads past it; the context is that of a seed
  that the kernel, or a generator, has delivered, up to the block counter; and as long as \<^verbatim>\<open>getrandom\<close> is not called
  again, so that no new seed is loaded, operations hand out no more than \<^verbatim>\<open>RANDOM_RESEED_SIZE\<close> bytes of the cache.
\<close>

theorem generator_invariant:
  assumes "generator os state w"
  shows "length (rs_ctx state) = 16 \<and> length (rs_cache state) = 256 \<and> rs_index state \<le> 256 \<and>
    (\<exists>seed. seed_source os seed \<and> set_counter 0 (rs_ctx state) = seed_context seed) \<and>
    (\<forall>n state' w'. draws os (state, w) n (state', w') \<and> w_seeds w' = w_seeds w \<longrightarrow> n \<le> 256 * 1024)"
proof -
  have p: "primed os state" by (rule generator_primed [OF assms])
  have "n \<le> 256 * 1024" if d: "draws os (state, w) n (state', w')" "w_seeds w' = w_seeds w" for n state' w'
    using draws_spends [OF d(1)] p d(2) by (auto simp: spends_def primed_def random_state_ok_def)
  with p show ?thesis by (auto simp: primed_def random_state_ok_def)
qed

theorem generator_invariant_witness:
  "\<exists>state state' x w. random_state_init bump_kernel blank_random_state start_world = Returned (state, w) \<and>
     get_random_u64 bump_kernel state w = Returned (x, state', w) \<and>
     (\<exists>seed. set_counter 0 (rs_ctx state') = seed_context seed) \<and>
     (\<forall>n t. draws bump_kernel (state, w) n (t, w) \<longrightarrow> n \<le> 256 * 1024) \<and> draws bump_kernel (state, w) 8 (state', w)"
proof -
  let ?w = "start_world\<lparr>w_seeds := 1\<rparr>"
  obtain state where st: "random_state_init bump_kernel blank_random_state start_world = Returned (state, ?w)"
    "rs_index state = RANDOM_CACHE_SIZE" "rs_reseed state = 0"
    by (simp add: random_state_init_def get_random_seed_bump)
  have g: "generator bump_kernel state ?w" by (rule generator.seeded [OF st(1)]) (simp_all add: blank_random_state_def)
  obtain x state' where x: "get_random_u64 bump_kernel state ?w = Returned (x, state', ?w)"
    using st(2,3) by (simp add: get_random_u64_def get_random_word_def refill_def Let_def case_prod_beta)
  then have op: "rng_op bump_kernel (state, ?w) 8 (state', ?w)" by (rule rng_op.u64)
  have "draws bump_kernel (state, ?w) 8 (state', ?w)" using draws.more [OF draws.none op] by simp
  moreover have "\<exists>seed. set_counter 0 (rs_ctx state') = seed_context seed"
    using generator_invariant [OF generator.operated [OF g op]] by blast
  moreover have "\<forall>n t. draws bump_kernel (state, ?w) n (t, ?w) \<longrightarrow> n \<le> 256 * 1024"
    using generator_invariant [OF g] by blast
  ultimately show ?thesis using st(1) x by blast
qed

end
