(* ===== verification/Heap_Fork.thy ===== *)
theory Heap_Fork
  imports Heap_Reach Random_Correct
begin

text \<open>
  The generators of the child of a fork: \<^verbatim>\<open>post_fork_child\<close> seeds each of them, and no two from the same calls of
  \<^verbatim>\<open>getrandom\<close>.
\<close>

section \<open>The calls that seed the generators\<close>

text \<open>
  \<open>T\<close> gives the numbers of the first call that a generator was seeded by and of the one after the last. They are numbers
  from \<open>lo\<close> to \<open>hi\<close>, and different generators have different calls.
\<close>

definition own_seeds :: "kernel \<Rightarrow> nat \<Rightarrow> nat \<Rightarrow> ('a \<Rightarrow> random_state) \<Rightarrow> ('a \<Rightarrow> nat \<times> nat) \<Rightarrow> 'a set \<Rightarrow> bool" where
  "own_seeds os lo hi rng T X \<longleftrightarrow>
     (\<forall>x \<in> X. lo \<le> fst (T x) \<and> snd (T x) \<le> hi \<and> seeded_by os (fst (T x)) (snd (T x)) (rng x)) \<and>
     (\<forall>x \<in> X. \<forall>y \<in> X. x \<noteq> y \<longrightarrow> snd (T x) \<le> fst (T y) \<or> snd (T y) \<le> fst (T x))"

lemma own_seeds_empty [simp]: "own_seeds os lo hi rng T {}"
  by (simp add: own_seeds_def)

text \<open>A generator that is seeded first, before those of \<open>X\<close>.\<close>

lemma own_seeds_insert:
  assumes "own_seeds os mid hi rng T X" "seeded_by os lo mid (rng x)" "x \<notin> X" "mid \<le> hi"
  shows "own_seeds os lo hi rng (T(x := (lo, mid))) (insert x X)"
  using assms unfolding own_seeds_def by (auto simp: seeded_by_def)

lemma own_seeds_cong: "(\<And>x. x \<in> X \<Longrightarrow> rng x = rng' x) \<Longrightarrow> own_seeds os lo hi rng T X = own_seeds os lo hi rng' T X"
  by (simp add: own_seeds_def)

abbreviation class_rng :: "state \<Rightarrow> nat \<times> nat \<Rightarrow> random_state" where
  "class_rng st ak \<equiv> sc_rng (st_size_class_metadata st (fst ak) (snd ak))"

lemma class_rng_upd: "class_rng (upd_class a k c st) x = (if x = (a, k) then sc_rng c else class_rng st x)"
  by (cases x) (auto simp: upd_class_def)

lemma reseed_classes_seeds:
  assumes "distinct aks" "\<And>x. x \<in> set aks \<Longrightarrow> length (rs_ctx (class_rng st x)) = 16"
  shows "all_o (\<lambda>(st', w'). st_region_allocator st' = st_region_allocator st \<and> w_seeds w \<le> w_seeds w' \<and>
      (\<forall>x. x \<notin> set aks \<longrightarrow> class_rng st' x = class_rng st x) \<and>
      (\<exists>T. own_seeds os (w_seeds w) (w_seeds w') (class_rng st') T (set aks)))
    (reseed_classes os aks st w)"
  using assms
proof (induction aks arbitrary: st w)
  case (Cons ak aks)
  obtain a k where ak: "ak = (a, k)" by (cases ak)
  let ?c = "the_class st a k"
  show ?case unfolding ak reseed_classes.simps prod.case Let_def
  proof (rule all_o_bind [where P = "\<lambda>(r, w' :: world). seeded_by os (w_seeds w) (w_seeds w') r"])
    have "length (rs_ctx (sc_rng ?c)) = 16" using Cons.prems(2) [of ak] by (simp add: ak)
    then show "all_o (\<lambda>(r, w' :: world). seeded_by os (w_seeds w) (w_seeds w') r) (random_state_init os (sc_rng ?c) w)"
      by (auto intro!: all_oI random_state_init_seeded)
  next
    fix x :: "random_state \<times> world" assume x: "case x of (r, w') \<Rightarrow> seeded_by os (w_seeds w) (w_seeds w') r"
    obtain r and w1 :: world where rw: "x = (r, w1)" by (cases x)
    let ?st = "upd_class a k (?c\<lparr>sc_rng := r\<rparr>) st"
    have s: "seeded_by os (w_seeds w) (w_seeds w1) r" "w_seeds w < w_seeds w1" using x by (simp_all add: rw seeded_by_def)
    have d: "distinct aks" "(a, k) \<notin> set aks" using Cons.prems(1) by (simp_all add: ak)
    have "all_o (\<lambda>(st', w'). st_region_allocator st' = st_region_allocator ?st \<and> w_seeds w1 \<le> w_seeds w' \<and>
        (\<forall>x. x \<notin> set aks \<longrightarrow> class_rng st' x = class_rng ?st x) \<and>
        (\<exists>T. own_seeds os (w_seeds w1) (w_seeds w') (class_rng st') T (set aks))) (reseed_classes os aks ?st w1)"
      by (rule Cons.IH [OF d(1)]) (use Cons.prems(2) d(2) in \<open>auto simp: class_rng_upd\<close>)
    then show "all_o (\<lambda>(st', w'). st_region_allocator st' = st_region_allocator st \<and> w_seeds w \<le> w_seeds w' \<and>
        (\<forall>x. x \<notin> set ((a, k) # aks) \<longrightarrow> class_rng st' x = class_rng st x) \<and>
        (\<exists>T. own_seeds os (w_seeds w) (w_seeds w') (class_rng st') T (set ((a, k) # aks))))
      (case x of (rng, w) \<Rightarrow> reseed_classes os aks (upd_class a k (?c\<lparr>sc_rng := rng\<rparr>) st) w)"
      unfolding rw prod.case
    proof (rule all_o_mono, clarify)
      fix st' w' T
      assume st': "st_region_allocator st' = st_region_allocator ?st" "w_seeds w1 \<le> w_seeds w'"
        "\<forall>x. x \<notin> set aks \<longrightarrow> class_rng st' x = class_rng ?st x"
        and T: "own_seeds os (w_seeds w1) (w_seeds w') (class_rng st') T (set aks)"
      have "class_rng st' (a, k) = r" using st'(3) d(2) by (simp add: class_rng_upd)
      then have "own_seeds os (w_seeds w) (w_seeds w') (class_rng st') (T((a, k) := (w_seeds w, w_seeds w1))) (insert (a, k) (set aks))"
        using own_seeds_insert [OF T _ d(2) st'(2)] s(1) by simp
      moreover have "class_rng st' x = class_rng st x" if "x \<notin> set ((a, k) # aks)" for x
        using st'(3) [rule_format, of x] that by (cases x) (auto simp: upd_class_def)
      ultimately show "st_region_allocator st' = st_region_allocator st \<and> w_seeds w \<le> w_seeds w' \<and>
        (\<forall>x. x \<notin> set ((a, k) # aks) \<longrightarrow> class_rng st' x = class_rng st x) \<and>
        (\<exists>T. own_seeds os (w_seeds w) (w_seeds w') (class_rng st') T (set ((a, k) # aks)))"
        using st'(1,2) s(2) by auto
    qed
  qed
qed (auto simp: own_seeds_def)

text \<open>The generators of the allocator: \<open>None\<close> is that of the region allocator.\<close>

definition generator_of :: "state \<Rightarrow> (nat \<times> nat) option \<Rightarrow> random_state" where
  "generator_of st x = (case x of None \<Rightarrow> ra_rng (st_region_allocator st) | Some ak \<Rightarrow> class_rng st ak)"

definition generators :: "config \<Rightarrow> (nat \<times> nat) option set" where
  "generators cfg = insert None (Some ` ({0..<N_ARENA cfg} \<times> {0..<N_SIZE_CLASSES cfg}))"

lemma post_fork_child_seeds:
  assumes "heap_inv cfg st w" "post_fork_child cfg os st w = Returned (st', w')"
  shows "\<exists>T. own_seeds os (w_seeds w) (w_seeds w') (generator_of st') T (generators cfg)"
proof -
  let ?ra = "st_region_allocator st"
  obtain r w1 where r: "random_state_init os (ra_rng ?ra) w = Returned (r, w1)"
    and rest: "reseed_classes os (all_classes cfg) (st\<lparr>st_region_allocator := ?ra\<lparr>ra_rng := r\<rparr>\<rparr>) w1 = Returned (st', w')"
    using assms(2) by (auto simp: post_fork_child_def outcome_simps)
  have len: "length (rs_ctx (ra_rng ?ra)) = 16"
    using large_invD(2) [OF heap_invD(6) [OF assms(1)]] by (simp add: regions_ok_def random_state_ok_def)
  have lens: "length (rs_ctx (class_rng (st\<lparr>st_region_allocator := ?ra\<lparr>ra_rng := r\<rparr>\<rparr>) x)) = 16" if "x \<in> set (all_classes cfg)" for x
    using heap_invD(4) [OF assms(1), of "fst x" "snd x"] that
    by (cases x) (auto simp: all_classes_set class_ok_def class_inv_def random_state_ok_def)
  obtain T where T: "st_region_allocator st' = ?ra\<lparr>ra_rng := r\<rparr>" "w_seeds w1 \<le> w_seeds w'"
    "own_seeds os (w_seeds w1) (w_seeds w') (class_rng st') T (set (all_classes cfg))"
    using all_oD [OF reseed_classes_seeds [OF all_classes_set(2) lens] rest] by auto
  let ?T = "\<lambda>x. case x of None \<Rightarrow> (w_seeds w, w_seeds w1) | Some ak \<Rightarrow> T ak"
  have "own_seeds os (w_seeds w1) (w_seeds w') (generator_of st') ?T (Some ` set (all_classes cfg))"
    using T(3) by (auto simp: own_seeds_def generator_of_def)
  moreover have "seeded_by os (w_seeds w) (w_seeds w1) (generator_of st' None)"
    using random_state_init_seeded [OF r len] by (simp add: generator_of_def T(1))
  ultimately have "own_seeds os (w_seeds w) (w_seeds w') (generator_of st') (?T(None := (w_seeds w, w_seeds w1)))
      (insert None (Some ` set (all_classes cfg)))"
    by (intro own_seeds_insert) (use T(2) in auto)
  then show ?thesis unfolding generators_def all_classes_set(1) by blast
qed

end
