(* ===== verification/Heap_Properties.thy ===== *)
theory Heap_Properties
  imports Heap_Example Heap_Inspect Heap_Sized Heap_Contents Heap_Fork
begin

text \<open>
  The properties of the whole allocator, for every state that a process can bring it into.
\<close>

section \<open>The contract of an allocator\<close>

text \<open>
  What happens between two calls: another thread may go on, and the program may write to its memory and change
  mappings that are not the allocator's.
\<close>

definition client :: "config \<Rightarrow> state \<times> world \<Rightarrow> state \<times> world \<Rightarrow> bool" where
  "client cfg s s' \<longleftrightarrow>
     (case (s, s') of ((st, w), (st', w')) \<Rightarrow>
        \<exists>t. st' = st\<lparr>st_thread_arena := t\<rparr> \<and> thread_ok cfg st t \<and> (is_init st \<longrightarrow> leaves_alone cfg st w'))"

definition heap_alloc :: "config \<Rightarrow> kernel \<Rightarrow> platform \<Rightarrow> state \<times> world \<Rightarrow> ptr \<Rightarrow> state \<times> world \<Rightarrow> bool" where
  "heap_alloc cfg os pl s p s' \<longleftrightarrow>
     (\<exists>st w. client cfg s (st, w) \<and>
       ((\<exists>sz. h_malloc cfg os pl st sz w = Returned (p, s')) \<or>
        (\<exists>nmemb sz. h_calloc cfg os pl st nmemb sz w = Returned (p, s')) \<or>
        (\<exists>alignment sz. h_aligned_alloc cfg os pl st alignment sz w = Returned (p, s')) \<or>
        (\<exists>sz. h_valloc cfg os pl st sz w = Returned (p, s')) \<or>
        (\<exists>sz. h_pvalloc cfg os pl st sz w = Returned (p, s'))))"

definition heap_free :: "config \<Rightarrow> kernel \<Rightarrow> state \<times> world \<Rightarrow> ptr \<Rightarrow> state \<times> world \<Rightarrow> bool" where
  "heap_free cfg os s p s' \<longleftrightarrow>
     p \<noteq> NULL \<and>
     (\<exists>st w. client cfg s (st, w) \<and>
       (h_free cfg os st p w = Returned s' \<or>
        (\<exists>n. h_free_sized cfg os st p n w = Returned s') \<or>
        (\<exists>alignment n. h_free_aligned_sized cfg os st p alignment n w = Returned s')))"

definition heap_ready :: "config \<Rightarrow> kernel \<Rightarrow> state \<times> world \<Rightarrow> bool" where
  "heap_ready cfg os s \<longleftrightarrow>
     4096 dvd CONFIG_CLASS_REGION_SIZE cfg \<and> sane_kernel os \<and> (case s of (st, w) \<Rightarrow> ready cfg st w)"

abbreviation heap_live' :: "config \<Rightarrow> state \<times> world \<Rightarrow> ptr set" where
  "heap_live' cfg s \<equiv> heap_live cfg (fst s)"

lemma client_ready:
  assumes "client cfg (st, w) (st', w')" "ready cfg st w"
  shows "ready cfg st' w'" "heap_live cfg st' = heap_live cfg st"
proof -
  obtain t where t: "st' = st\<lparr>st_thread_arena := t\<rparr>" "thread_ok cfg st t" "is_init st \<longrightarrow> leaves_alone cfg st w'"
    using assms(1) by (auto simp: client_def)
  show "ready cfg st' w'" unfolding t(1) by (rule ready_client [OF assms(2)]) (use t in auto)
  show "heap_live cfg st' = heap_live cfg st" by (simp add: t(1) heap_live_def slab_live_def)
qed

lemma alloc_result_weaken: "alloc_result cfg st n k r \<Longrightarrow> alloc_result cfg st 0 0 r"
  by (erule alloc_result_mono) simp_all

lemma aligned_simple_result:
  assumes "ready cfg st w" "4096 dvd CONFIG_CLASS_REGION_SIZE cfg" "sane_kernel os"
  shows "all_o (alloc_result cfg st 0 0) (alloc_aligned_simple cfg os pl st alignment sz w)"
  unfolding alloc_aligned_simple_def
  by (rule all_o_bind [OF alloc_aligned_ok [OF assms, of 1 alignment sz]])
    (auto simp: aligned_result_def split: sum.splits, erule alloc_result_weaken)

interpretation heap: allocator "heap_ready cfg os" "heap_live' cfg" "heap_alloc cfg os pl" "heap_free cfg os" for cfg os pl
proof
  fix s s' p
  assume r: "heap_ready cfg os s" and al: "heap_alloc cfg os pl s p s'"
  then have h: "4096 dvd CONFIG_CLASS_REGION_SIZE cfg" "sane_kernel os" "ready cfg (fst s) (snd s)"
    by (simp_all add: heap_ready_def case_prod_unfold)
  obtain st w where c: "client cfg (fst s, snd s) (st, w)" and call:
    "(\<exists>sz. h_malloc cfg os pl st sz w = Returned (p, s')) \<or> (\<exists>nmemb sz. h_calloc cfg os pl st nmemb sz w = Returned (p, s')) \<or>
     (\<exists>alignment sz. h_aligned_alloc cfg os pl st alignment sz w = Returned (p, s')) \<or>
     (\<exists>sz. h_valloc cfg os pl st sz w = Returned (p, s')) \<or> (\<exists>sz. h_pvalloc cfg os pl st sz w = Returned (p, s'))"
    using al unfolding heap_alloc_def prod.collapse by blast
  note st = client_ready [OF c h(3)]
  note ok = h_malloc_ok [OF st(1) h(1,2), THEN all_oD, THEN alloc_result_weaken] h_calloc_result [OF st(1) h(1,2), THEN all_oD, THEN alloc_result_weaken]
    aligned_simple_result [OF st(1) h(1,2), THEN all_oD] h_pvalloc_ok [OF st(1) h(1,2), THEN all_oD, THEN alloc_result_weaken]
  from call have "alloc_result cfg st 0 0 (p, s')"
    unfolding h_aligned_alloc_def h_valloc_def by (elim disjE exE) (erule ok)+
  then show "heap_ready cfg os s' \<and> (p = NULL \<and> heap_live' cfg s' = heap_live' cfg s \<or>
      p \<noteq> NULL \<and> p \<notin> heap_live' cfg s \<and> heap_live' cfg s' = insert p (heap_live' cfg s))"
    using h(1,2) st(2) by (auto simp: alloc_result_def allocated_def heap_ready_def case_prod_unfold)
next
  fix s s' p
  assume r: "heap_ready cfg os s" and f: "heap_free cfg os s p s'"
  then have h: "4096 dvd CONFIG_CLASS_REGION_SIZE cfg" "sane_kernel os" "ready cfg (fst s) (snd s)" and p: "p \<noteq> NULL"
    by (simp_all add: heap_ready_def heap_free_def case_prod_unfold)
  obtain st w where c: "client cfg (fst s, snd s) (st, w)" and call:
    "h_free cfg os st p w = Returned s' \<or> (\<exists>n. h_free_sized cfg os st p n w = Returned s') \<or>
     (\<exists>alignment n. h_free_aligned_sized cfg os st p alignment n w = Returned s')"
    using f unfolding heap_free_def prod.collapse by blast
  note st = client_ready [OF c h(3)]
  note ok = h_free_result [OF st(1) p, THEN all_oD] h_free_sized_result [OF st(1) p, THEN all_oD]
    h_free_aligned_sized_result [OF st(1) p, THEN all_oD]
  from call have "free_result cfg st p s'" by (elim disjE exE) (erule ok)+
  then show "heap_ready cfg os s' \<and> p \<in> heap_live' cfg s \<and> heap_live' cfg s' = heap_live' cfg s - {p}"
    using h(1,2) st(2) by (auto simp: free_result_def ready_def heap_ready_def case_prod_unfold)
qed

section \<open>Properties\<close>

text \<open>
  C1. The allocator as a whole refines the abstract machine of the contract: from the start of a process, through
  any sequence of allocations with \<^verbatim>\<open>malloc\<close>, \<^verbatim>\<open>calloc\<close>, \<^verbatim>\<open>aligned_alloc\<close>, \<^verbatim>\<open>valloc\<close> and \<^verbatim>\<open>pvalloc\<close> and deallocations
  with \<^verbatim>\<open>free\<close> and its sized variants, of any sizes and alignments, by any threads, interleaved with the rest of the
  program, the addresses returned and taken back are those of a run of the machine, which ends with exactly the
  addresses that are live; in particular no address is handed out twice without being freed in between, and none is
  freed twice.
\<close>

theorem heap_refines_spec:
  assumes "config_valid cfg" "4096 dvd CONFIG_CLASS_REGION_SIZE cfg" "sane_kernel os"
    and "heap.runs cfg os pl (initial_state cfg, w) events (st, w')"
  shows "spec_run {} events = Some (heap_live cfg st)"
proof -
  have u: "uninitialised cfg (initial_state cfg)" by (rule uninitialised_initial [OF assms(1)])
  then have "heap_ready cfg os (initial_state cfg, w)" using assms(1-3) by (simp add: heap_ready_def ready_def)
  from heap.runs_refine [OF assms(4) this] show ?thesis
    using zeroed_live [of cfg "initial_state cfg"] u by (simp add: uninitialised_def)
qed

lemma client_refl: "ready cfg st w \<Longrightarrow> (N_ARENA cfg = 1) \<Longrightarrow> client cfg (st, w) (st, w)"
proof -
  assume r: "ready cfg st w" and n: "N_ARENA cfg = 1"
  have t: "st_thread_arena st = 0" using r n by (auto simp: ready_def heap_inv_def uninitialised_def zeroed_def)
  have "leaves_alone cfg st w" if "is_init st"
  proof -
    have "heap_inv cfg st w" using r that by (auto simp: ready_def uninitialised_def zeroed_def is_init_def)
    from owns_mapped [OF large_invD(4) [OF heap_invD(6) [OF this]]] show ?thesis by (auto simp: leaves_alone_def)
  qed
  moreover have "st = st\<lparr>st_thread_arena := 0\<rparr>" using t by simp
  ultimately show ?thesis unfolding client_def prod.case thread_ok_def using n by (intro exI [of _ 0]) simp
qed

theorem heap_refines_spec_witness:
  "\<exists>p q st w. heap.runs example_config bump_kernel example_platform (initial_state example_config, start_world) [Alloc p, Alloc q, Free p] (st, w) \<and>
     spec_run {} [Alloc p, Alloc q, Free p] = Some {q}"
proof -
  obtain p q st1 w1 st2 w2 st3 w3 where run:
    "h_malloc example_config bump_kernel example_platform (initial_state example_config) 8 start_world = Returned (p, st1, w1)"
    "h_malloc example_config bump_kernel example_platform st1 100 w1 = Returned (q, st2, w2)"
    "h_free example_config bump_kernel st2 p w2 = Returned (st3, w3)"
    "p \<noteq> NULL" "heap_inv example_config st2 w2" "heap_live example_config st1 = {p}" "heap_live example_config st3 = {q}" by (rule example_run)
  have r0: "ready example_config (initial_state example_config) start_world" by (simp add: ready_def uninitialised_initial)
  note r1 = alloc_result_ready [OF all_oD [OF h_malloc_ok [OF r0 example_sane(2,1)] run(1)]]
  have r2: "ready example_config st2 w2" using run(5) by (simp add: ready_def)
  have "heap_alloc example_config bump_kernel example_platform (initial_state example_config, start_world) p (st1, w1)"
    unfolding heap_alloc_def using client_refl [OF r0 example_config_simps(8)] run(1) by blast
  moreover have "heap_alloc example_config bump_kernel example_platform (st1, w1) q (st2, w2)"
    unfolding heap_alloc_def using client_refl [OF r1 example_config_simps(8)] run(2) by blast
  moreover have "heap_free example_config bump_kernel (st2, w2) p (st3, w3)"
    unfolding heap_free_def using client_refl [OF r2 example_config_simps(8)] run(3,4) by blast
  ultimately have r: "heap.runs example_config bump_kernel example_platform (initial_state example_config, start_world)
      [Alloc p, Alloc q, Free p] (st3, w3)" by auto
  from heap_refines_spec [OF _ example_sane(2,1) r] run(7)
  have "spec_run {} [Alloc p, Alloc q, Free p] = Some {q}" by simp
  with r show ?thesis by blast
qed

text \<open>
  C2. Memory safety for the client: in every reachable state the blocks behind two different live addresses have no
  byte in common, wherever they come from (slabs of any arena and class, large allocations), and a null pointer is
  never live.
\<close>

theorem live_blocks_disjoint:
  assumes "reach cfg os pl st w" "config_valid cfg" "4096 dvd CONFIG_CLASS_REGION_SIZE cfg" "sane_kernel os"
    and "p \<in> heap_live cfg st" "q \<in> heap_live cfg st" "p \<noteq> q"
  shows "block cfg st p \<inter> block cfg st q = {} \<and> p \<noteq> NULL"
proof -
  have inv: "heap_inv cfg st w" by (rule ready_live [OF reach_ready [OF assms(1-4)] assms(5)])
  show ?thesis using blocks_disjoint [OF inv assms(5-7)] heap_live_nonnull [OF inv] assms(5) by blast
qed

lemma example_reach:
  obtains p q st w where "reach example_config bump_kernel example_platform st w" "heap_live example_config st = {p, q}" "p \<noteq> q"
    "heap_inv example_config st w" "in_slab_region st p"
    "\<exists>st' w'. h_free example_config bump_kernel st p w = Returned (st', w')" "unat (slab_usable_size example_config st p) = 16"
proof -
  obtain p q st1 w1 st2 w2 st3 w3 where run:
    "h_malloc example_config bump_kernel example_platform (initial_state example_config) 8 start_world = Returned (p, st1, w1)"
    "h_malloc example_config bump_kernel example_platform st1 100 w1 = Returned (q, st2, w2)"
    "h_free example_config bump_kernel st2 p w2 = Returned (st3, w3)"
    "p \<noteq> q" "in_slab_region st2 p" "heap_inv example_config st2 w2" "heap_live example_config st2 = {p, q}"
    "unat (slab_usable_size example_config st2 p) = 16" by (rule example_run)
  have "reach example_config bump_kernel example_platform st2 w2"
    by (rule reach.malloc [OF reach.malloc [OF reach.start run(1)] run(2)])
  then show ?thesis using run that by blast
qed

theorem live_blocks_disjoint_witness:
  "\<exists>st p q. p \<noteq> q \<and> heap_live example_config st = {p, q} \<and> block example_config st p \<inter> block example_config st q = {}"
proof -
  obtain p q st w where r: "reach example_config bump_kernel example_platform st w" "heap_live example_config st = {p, q}" "p \<noteq> q"
    by (rule example_reach)
  from live_blocks_disjoint [OF r(1) _ example_sane(2,1) _ _ r(3)] r(2,3) show ?thesis by auto
qed

text \<open>
  C3. \<^verbatim>\<open>malloc\<close>: from every reachable state a call that returns either fails, and then no live address is gained or
  lost, or returns a new address, aligned to 16 bytes, whose usable part has room for the request (the usable part is
  the block without the canary, which belongs to the allocator); every other block is as it was.
\<close>

theorem h_malloc_correct:
  assumes "reach cfg os pl st w" "config_valid cfg" "4096 dvd CONFIG_CLASS_REGION_SIZE cfg" "sane_kernel os"
    and "h_malloc cfg os pl st sz w = Returned (p, st', w')"
  shows "(if p = NULL then heap_live cfg st' = heap_live cfg st
      else p \<notin> heap_live cfg st \<and> heap_live cfg st' = insert p (heap_live cfg st) \<and>
        unat sz \<le> usable_size cfg st' p \<and> 16 dvd unat p) \<and>
    (\<forall>q \<in> heap_live cfg st. block_size cfg st' q = block_size cfg st q)"
proof -
  have r: "alloc_result cfg st (unat (adjust_size_for_canary cfg sz)) 4 (p, st', w')"
    by (rule all_oD [OF h_malloc_ok [OF reach_ready [OF assms(1-4)] assms(3,4)] assms(5)])
  with alloc_result_usable [OF r] show ?thesis
    by (auto simp: alloc_result_def allocated_def keeps_blocks_def fits_def)
qed

theorem h_malloc_correct_witness:
  "\<exists>p st w. h_malloc example_config bump_kernel example_platform (initial_state example_config) 8 start_world = Returned (p, st, w) \<and>
     p \<noteq> NULL \<and> heap_live example_config st = {p} \<and> 8 \<le> usable_size example_config st p \<and> 16 dvd unat p"
proof -
  obtain p st w where m: "h_malloc example_config bump_kernel example_platform (initial_state example_config) 8 start_world = Returned (p, st, w)"
    "p \<noteq> NULL" "heap_live example_config st = {p}" by (rule example_run)
  from h_malloc_correct [OF reach.start _ example_sane(2,1) m(1)] m show ?thesis by auto
qed

text \<open>
  C4. \<^verbatim>\<open>free\<close>, \<^verbatim>\<open>free_sized\<close> and \<^verbatim>\<open>free_aligned_sized\<close> accept live addresses only: from every reachable state, a call of any
  of them with a non-null address (and any size and alignment) that returns was given a live address, which no longer
  is, and keeps every other live address and its block; \<^verbatim>\<open>free\<close> and \<^verbatim>\<open>free_sized\<close> of any other address (never allocated,
  already freed, inside a block, in quarantine, before the first allocation) end the process with one of the
  allocator's messages.
\<close>

theorem h_free_exact:
  assumes "reach cfg os pl st w" "config_valid cfg" "4096 dvd CONFIG_CLASS_REGION_SIZE cfg" "sane_kernel os" "p \<noteq> NULL"
  shows "(\<forall>st' w'. h_free cfg os st p w = Returned (st', w') \<or> (\<exists>n. h_free_sized cfg os st p n w = Returned (st', w')) \<or>
        (\<exists>alignment n. h_free_aligned_sized cfg os st p alignment n w = Returned (st', w')) \<longrightarrow>
      p \<in> heap_live cfg st \<and> heap_live cfg st' = heap_live cfg st - {p} \<and>
      (\<forall>q \<in> heap_live cfg st'. block_size cfg st' q = block_size cfg st q)) \<and>
    (p \<notin> heap_live cfg st \<longrightarrow> (\<exists>msg \<in> free_errors. h_free cfg os st p w = Aborted msg) \<and>
       (\<forall>n. \<exists>msg \<in> free_errors. h_free_sized cfg os st p n w = Aborted msg))"
proof -
  note r = reach_ready [OF assms(1-4)]
  note result = h_free_result [OF r assms(5), THEN all_oD] h_free_sized_result [OF r assms(5), THEN all_oD]
    h_free_aligned_sized_result [OF r assms(5), THEN all_oD]
  have "p \<in> heap_live cfg st \<and> heap_live cfg st' = heap_live cfg st - {p} \<and>
       (\<forall>q \<in> heap_live cfg st'. block_size cfg st' q = block_size cfg st q)"
    if "h_free cfg os st p w = Returned (st', w') \<or> (\<exists>n. h_free_sized cfg os st p n w = Returned (st', w')) \<or>
        (\<exists>alignment n. h_free_aligned_sized cfg os st p alignment n w = Returned (st', w'))" for st' w'
  proof -
    have "free_result cfg st p (st', w')" using that by (elim disjE exE) (erule result)+
    then show ?thesis by (auto simp: free_result_def keeps_blocks_def)
  qed
  then show ?thesis using h_free_rejects [OF r assms(5)] by blast
qed

theorem h_free_exact_witness:
  "\<exists>p st w st' w'. h_free example_config bump_kernel st p w = Returned (st', w') \<and> p \<in> heap_live example_config st \<and>
     p \<notin> heap_live example_config st' \<and> (\<exists>msg. h_free example_config bump_kernel st' p w' = Aborted msg)"
proof -
  obtain p q st w where r: "reach example_config bump_kernel example_platform st w" "heap_live example_config st = {p, q}"
    "heap_inv example_config st w" "\<exists>st' w'. h_free example_config bump_kernel st p w = Returned (st', w')"
    by (rule example_reach)
  then obtain st' w' where f: "h_free example_config bump_kernel st p w = Returned (st', w')" by blast
  have p: "p \<noteq> NULL" using r(2) heap_live_nonnull [OF r(3)] by auto
  have live': "heap_live example_config st' = heap_live example_config st - {p}"
    using h_free_exact [OF r(1) _ example_sane(2,1) p] f by simp
  have "\<exists>msg. h_free example_config bump_kernel st' p w' = Aborted msg"
    using h_free_exact [OF reach.free [OF r(1) f] _ example_sane(2,1) p] live' by auto
  with f live' r(2) show ?thesis by blast
qed

text \<open>
  C5. \<^verbatim>\<open>realloc\<close> of a live address, by every path (in place, by shrinking a mapping, by moving pages, by copying): a
  call that fails leaves the old block as it was; otherwise the old address is exchanged for the one returned, which
  is the old one or was not live, and whose usable part, before the canary, has room for the request; every other block
  is as it was.
\<close>

theorem h_realloc_correct:
  assumes "reach cfg os pl st w" "config_valid cfg" "4096 dvd CONFIG_CLASS_REGION_SIZE cfg" "sane_kernel os"
    and "old \<in> heap_live cfg st" "h_realloc cfg os pl st old sz w = Returned (p, st', w')"
  shows "if p = NULL then heap_live cfg st' = heap_live cfg st \<and> (\<forall>q \<in> heap_live cfg st. block_size cfg st' q = block_size cfg st q)
    else (p = old \<or> p \<notin> heap_live cfg st) \<and> heap_live cfg st' = insert p (heap_live cfg st - {old}) \<and>
      (\<forall>q \<in> heap_live cfg st - {old}. block_size cfg st' q = block_size cfg st q) \<and> unat sz \<le> usable_size cfg st' p"
proof -
  note r = reach_ready [OF assms(1-4)]
  have "old \<noteq> NULL" using assms(5) heap_live_nonnull [OF ready_live [OF r assms(5)]] by blast
  from all_oD [OF h_realloc_ok [OF r assms(3,4) this] assms(6)]
  have ok: "realloc_ok cfg st old (unat (adjust_size_for_canary cfg sz)) (p, st', w')" .
  with realloc_ok_usable [OF ok] assms(5) show ?thesis by (auto simp: realloc_ok_def realloc_result_def keeps_blocks_def)
qed

theorem h_realloc_correct_witness:
  "\<exists>p q st w st' w'. h_realloc example_config bump_kernel example_platform st p 5 w = Returned (p, st', w') \<and>
     heap_live example_config st = {p, q} \<and> heap_live example_config st' = {p, q} \<and> 5 \<le> usable_size example_config st' p"
proof -
  obtain p q st w where r: "reach example_config bump_kernel example_platform st w" "heap_live example_config st = {p, q}"
    "heap_inv example_config st w" "in_slab_region st p" "unat (slab_usable_size example_config st p) = 16" by (rule example_reach)
  have p: "p \<noteq> NULL" using r(2) heap_live_nonnull [OF r(3)] by auto
  have "slab_usable_size example_config st p = 16" using r(5) by (simp add: word_unat_eq_iff)
  then have re: "h_realloc example_config bump_kernel example_platform st p 5 w = Returned (p, st, w)"
    using p r(4) by (simp add: h_realloc_def adjust_size_for_canary_def canary_size_def max_slab_size_class_def get_size_info_def align_def)
  have "heap_live example_config st = insert p (heap_live example_config st - {p}) \<and> 5 \<le> usable_size example_config st p"
    using h_realloc_correct [OF r(1) _ example_sane(2,1) _ re] r(2) p by auto
  with r(2) re show ?thesis by blast
qed

text \<open>
  C8. Aligned allocation: \<^verbatim>\<open>posix_memalign\<close> reports \<^verbatim>\<open>EINVAL\<close> exactly when the alignment is no power of two or is
  smaller than a pointer, and otherwise either \<^verbatim>\<open>ENOMEM\<close>, with no live address gained or lost, or a new address that
  is a multiple of the alignment and whose usable part, before the canary, has room for the request.
\<close>

theorem h_posix_memalign_correct:
  assumes "reach cfg os pl st w" "config_valid cfg" "4096 dvd CONFIG_CLASS_REGION_SIZE cfg" "sane_kernel os"
    and "h_posix_memalign cfg os pl st alignment sz w = Returned (r, st', w')"
  shows "case r of
      Inl e \<Rightarrow> e = (if \<exists>k. alignment = 2 ^ k \<and> 3 \<le> k \<and> k < 64 then ENOMEM else EINVAL) \<and> heap_live cfg st' = heap_live cfg st
    | Inr p \<Rightarrow> (\<exists>k. alignment = 2 ^ k \<and> 3 \<le> k \<and> k < 64 \<and> 2 ^ k dvd unat p) \<and> p \<noteq> NULL \<and> p \<notin> heap_live cfg st \<and>
        heap_live cfg st' = insert p (heap_live cfg st) \<and> unat sz \<le> usable_size cfg st' p"
proof -
  have va: "valid_alignment alignment 8 k \<longleftrightarrow> alignment = 2 ^ k \<and> 3 \<le> k \<and> k < 64" for k
  proof -
    have "(8 :: size_t) \<le> 2 ^ k \<longleftrightarrow> 3 \<le> k" if "k < 64"
    proof -
      have "(8 :: size_t) \<le> 2 ^ k \<longleftrightarrow> (2::nat) ^ 3 \<le> 2 ^ k" using that by (simp add: word_le_nat_alt unat_2p)
      also have "\<dots> \<longleftrightarrow> 3 \<le> k" by (rule power_increasing_iff) simp
      finally show ?thesis .
    qed
    then show ?thesis by (auto simp: valid_alignment_def)
  qed
  from all_oD [OF alloc_aligned_ok [OF reach_ready [OF assms(1-4)] assms(3,4)] assms(5) [unfolded h_posix_memalign_def]]
  have res: "aligned_result cfg st alignment 8 (unat (adjust_size_for_canary cfg sz)) (r, st', w')" by simp
  have vx: "Ex (valid_alignment alignment 8) \<longleftrightarrow> (\<exists>k. alignment = 2 ^ k \<and> 3 \<le> k \<and> k < 64)" by (rule arg_cong [of _ _ Ex]) (rule ext, rule va)
  show ?thesis
  proof (cases r)
    case (Inl e)
    with res show ?thesis unfolding vx [symmetric] by (simp add: aligned_result_def alloc_result_def allocated_def split: if_splits)
  next
    case (Inr p)
    with res obtain k where k: "alignment = 2 ^ k \<and> 3 \<le> k \<and> k < 64" "p \<noteq> NULL"
      "alloc_result cfg st (unat (adjust_size_for_canary cfg sz)) k (p, st', w')" by (auto simp: aligned_result_def va)
    with alloc_result_usable [OF k(3,2)] Inr show ?thesis by (auto simp: alloc_result_def allocated_def fits_def)
  qed
qed

theorem h_posix_memalign_correct_witness:
  "\<exists>st st' w w'. h_posix_memalign example_config bump_kernel example_platform st 24 100 w = Returned (Inl EINVAL, st', w') \<and>
     heap_live example_config st' = heap_live example_config st \<and> (\<nexists>k. (24 :: size_t) = 2 ^ k \<and> 3 \<le> k \<and> k < 64)"
proof -
  obtain p q st w where r: "reach example_config bump_kernel example_platform st w" "heap_inv example_config st w" by (rule example_reach)
  have m: "h_posix_memalign example_config bump_kernel example_platform st 24 100 w = Returned (Inl EINVAL, st, w)"
    using heap_inv_is_init [OF r(2)] heap_invD(8) [OF r(2)]
    by (simp add: h_posix_memalign_def alloc_aligned_def init_def allocate_aligned_def)
  from h_posix_memalign_correct [OF r(1) _ example_sane(2,1) m] m show ?thesis by (auto split: if_splits)
qed

text \<open>
  C9. The products of \<^verbatim>\<open>calloc\<close> and \<^verbatim>\<open>reallocarray\<close> are checked: when the true product does not fit, the call sets
  \<^verbatim>\<open>ENOMEM\<close>, returns a null pointer and touches nothing; otherwise a non-null result of \<^verbatim>\<open>calloc\<close> has room for the
  true product before its canary, never for a wrapped one.
\<close>

theorem array_size_checked:
  assumes "reach cfg os pl st w" "config_valid cfg" "4096 dvd CONFIG_CLASS_REGION_SIZE cfg" "sane_kernel os"
  shows "(2 ^ 64 \<le> unat nmemb * unat sz \<longrightarrow>
      h_calloc cfg os pl st nmemb sz w = Returned (NULL, st, w\<lparr>w_errno := ENOMEM\<rparr>) \<and>
      h_reallocarray cfg os pl st old nmemb sz w = Returned (NULL, st, w\<lparr>w_errno := ENOMEM\<rparr>)) \<and>
    (\<forall>p st' w'. h_calloc cfg os pl st nmemb sz w = Returned (p, st', w') \<longrightarrow> p \<noteq> NULL \<longrightarrow>
      p \<notin> heap_live cfg st \<and> heap_live cfg st' = insert p (heap_live cfg st) \<and>
      unat nmemb * unat sz \<le> usable_size cfg st' p)"
proof -
  have "p \<notin> heap_live cfg st \<and> heap_live cfg st' = insert p (heap_live cfg st) \<and> unat nmemb * unat sz \<le> usable_size cfg st' p"
    if "h_calloc cfg os pl st nmemb sz w = Returned (p, st', w')" "p \<noteq> NULL" for p st' w'
  proof -
    have r: "alloc_result cfg st (unat (adjust_size_for_canary cfg (nmemb * sz))) 4 (p, st', w')"
      "unat (nmemb * sz) = unat nmemb * unat sz"
      using all_oD [OF h_calloc_ok [OF reach_ready [OF assms] assms(3,4)] that(1)] that(2) by simp_all
    with alloc_result_usable [OF r(1) that(2)] that(2) show ?thesis by (auto simp: alloc_result_def allocated_def)
  qed
  moreover have "2 ^ 64 \<le> unat nmemb * unat sz \<longrightarrow>
      h_calloc cfg os pl st nmemb sz w = Returned (NULL, st, w\<lparr>w_errno := ENOMEM\<rparr>) \<and>
      h_reallocarray cfg os pl st old nmemb sz w = Returned (NULL, st, w\<lparr>w_errno := ENOMEM\<rparr>)"
    by (simp add: h_calloc_def h_reallocarray_def builtin_mul_overflow_def set_errno_def)
  ultimately show ?thesis by blast
qed

theorem array_size_checked_witness:
  "h_calloc example_config bump_kernel example_platform (initial_state example_config) (2 ^ 33) (2 ^ 33) start_world =
     Returned (NULL, initial_state example_config, start_world\<lparr>w_errno := ENOMEM\<rparr>)"
proof -
  have "2 ^ 64 \<le> unat (2 ^ 33 :: size_t) * unat (2 ^ 33 :: size_t)" by (simp add: unat_2p)
  with array_size_checked [OF reach.start _ example_sane(2,1), of "2 ^ 33" "2 ^ 33"] show ?thesis by simp
qed

text \<open>
  C13. \<^verbatim>\<open>malloc_trim\<close> gives memory back without touching anything in use: from every reachable state a call that returns
  keeps the live addresses and their sizes and, with a kernel that changes nothing outside the pages it is called on,
  every byte of every live block, slabs and quarantined slots of all classes and large allocations considered; and the
  call does return, when the kernel only fails for lack of memory and free slabs are not quarantined at random.
\<close>

theorem h_malloc_trim_correct:
  assumes "reach cfg os pl st w" "config_valid cfg" "4096 dvd CONFIG_CLASS_REGION_SIZE cfg" "sane_kernel os" "confined os"
  shows "(\<forall>t st' w'. h_malloc_trim cfg os st w = Returned (t, st', w') \<longrightarrow>
      heap_live cfg st' = heap_live cfg st \<and>
      (\<forall>p \<in> heap_live cfg st. block cfg st' p = block cfg st p \<and> (\<forall>x \<in> block cfg st p. w_mem w' x = w_mem w x))) \<and>
    (only_ENOMEM os \<and> FREE_SLABS_QUARANTINE_RANDOM_LENGTH cfg = 0 \<longrightarrow>
      (\<exists>t st' w'. h_malloc_trim cfg os st w = Returned (t, st', w')))"
proof -
  note r = reach_ready [OF assms(1-4)]
  have "heap_live cfg st' = heap_live cfg st \<and>
      (\<forall>p \<in> heap_live cfg st. block cfg st' p = block cfg st p \<and> (\<forall>x \<in> block cfg st p. w_mem w' x = w_mem w x))"
    if "h_malloc_trim cfg os st w = Returned (t, st', w')" for t st' w'
    using all_oD [OF h_malloc_trim_ok [OF r] that] assms(5) by (auto simp: same_blocks_def block_def)
  moreover have "\<exists>t st' w'. h_malloc_trim cfg os st w = Returned (t, st', w')"
    if "only_ENOMEM os" "FREE_SLABS_QUARANTINE_RANDOM_LENGTH cfg = 0"
    using h_malloc_trim_returns [OF r that] by (auto simp: returns_def)
  ultimately show ?thesis by blast
qed

lemma bump_confined: "confined bump_kernel"
  by (simp add: confined_def bump_kernel_def)

theorem h_malloc_trim_correct_witness:
  "\<exists>p q st w t st' w'. h_malloc_trim example_config bump_kernel st w = Returned (t, st', w') \<and>
     heap_live example_config st = {p, q} \<and> heap_live example_config st' = {p, q} \<and>
     (\<forall>x \<in> block example_config st p. w_mem w' x = w_mem w x)"
proof -
  obtain p q st w where r: "reach example_config bump_kernel example_platform st w" "heap_live example_config st = {p, q}"
    by (rule example_reach)
  note t = h_malloc_trim_correct [OF r(1) _ example_sane(2,1) bump_confined]
  obtain t st' w' where "h_malloc_trim example_config bump_kernel st w = Returned (t, st', w')"
    using t bump_only_ENOMEM by auto
  with t r(2) show ?thesis by fastforce
qed

text \<open>
  C11. \<^verbatim>\<open>malloc_usable_size\<close> is exact: from every reachable state, for a non-null address it returns only if the address
  is live, and then the size of its block less the canary of a slab allocation; for a live address it can fail only on
  a corrupted canary, and for any other address it ends the process.
\<close>

theorem h_malloc_usable_size_correct:
  assumes "reach cfg os pl st w" "config_valid cfg" "4096 dvd CONFIG_CLASS_REGION_SIZE cfg" "sane_kernel os" "p \<noteq> NULL"
  shows "case h_malloc_usable_size cfg st p w of
      Returned n \<Rightarrow> p \<in> heap_live cfg st \<and>
        unat n = block_size cfg st p - (if in_slab_region st p then unat (canary_size cfg) else 0)
    | Aborted msg \<Rightarrow> p \<in> heap_live cfg st \<longrightarrow> in_slab_region st p \<and> msg = ''canary corrupted''
    | Diverged \<Rightarrow> False"
proof (cases "p \<in> heap_live cfg st")
  case True
  from h_malloc_usable_size_live [OF ready_live [OF reach_ready [OF assms(1-4)] True] True, of w]
  show ?thesis using True by (auto simp: usable_size_def)
next
  case False
  from h_malloc_usable_size_rejects [OF reach_ready [OF assms(1-4)] False assms(5), of w]
  show ?thesis using False by auto
qed

theorem h_malloc_usable_size_correct_witness:
  "\<exists>p st w n. p \<in> heap_live example_config st \<and> h_malloc_usable_size example_config st p w = Returned n \<and> unat n = 16"
proof -
  obtain p q st w where r: "reach example_config bump_kernel example_platform st w" "heap_live example_config st = {p, q}"
    "heap_inv example_config st w" "in_slab_region st p" "unat (slab_usable_size example_config st p) = 16" by (rule example_reach)
  have p: "p \<in> heap_live example_config st" "p \<noteq> NULL" using r(2) heap_live_nonnull [OF r(3)] by auto
  have "h_malloc_usable_size example_config st p w \<noteq> Aborted ''canary corrupted''"
    using no_canary_check [of example_config st p w] r(4) p(2)
    by (cases "memory_corruption_check_small example_config st p w") (simp_all add: h_malloc_usable_size_def)
  with h_malloc_usable_size_correct [OF r(1) _ example_sane(2,1) p(2)] p(1) r(4,5)
  have "\<exists>n. h_malloc_usable_size example_config st p w = Returned n \<and> unat n = 16"
    by (cases "h_malloc_usable_size example_config st p w") (auto simp: block_size_def canary_size_def)
  with p(1) show ?thesis by blast
qed

text \<open>
  C12. \<^verbatim>\<open>malloc_object_size\<close> at any address inside a live slab allocation gives the bytes from there to the end of
  the usable part of the allocation, which are none for the address right after that part, where the canary begins, and
  ends the process for every later address of the block.
\<close>

theorem h_malloc_object_size_correct:
  assumes "reach cfg os pl st w" "config_valid cfg" "4096 dvd CONFIG_CLASS_REGION_SIZE cfg" "sane_kernel os"
    and "p \<in> heap_live cfg st" "in_slab_region st p" "x \<in> block cfg st p"
  shows "h_malloc_object_size cfg st x =
    (if unat p + (block_size cfg st p - unat (canary_size cfg)) < unat x then Aborted ''invalid malloc_object_size (canary)''
     else Returned (of_nat (unat p + (block_size cfg st p - unat (canary_size cfg)) - unat x)))"
proof -
  have le: "unat p \<le> unat x" using assms(7) by (simp add: block_def)
  then have "n < unat x - unat p \<longleftrightarrow> unat p + n < unat x" "n - (unat x - unat p) = unat p + n - unat x" for n by auto
  with h_malloc_object_size_interior [OF ready_live [OF reach_ready [OF assms(1-4)] assms(5)] assms(5-7)] assms(6)
  show ?thesis unfolding usable_size_def by simp
qed

theorem h_malloc_object_size_correct_witness:
  "\<exists>p st w. p \<in> heap_live example_config st \<and> h_malloc_object_size example_config st p = Returned 16"
proof -
  obtain p q st w where r: "reach example_config bump_kernel example_platform st w" "heap_live example_config st = {p, q}"
    "in_slab_region st p" "unat (slab_usable_size example_config st p) = 16" by (rule example_reach)
  have b: "block_size example_config st p = 16" using r(3,4) by (simp add: block_size_def)
  then have "p \<in> block example_config st p" by (simp add: block_def)
  from h_malloc_object_size_correct [OF r(1) _ example_sane(2,1) _ r(3) this] r(2) b show ?thesis
    by (auto simp: canary_size_def)
qed

text \<open>
  C14. The metadata index computed from an address is always a valid one: for every address of the slab region the
  arena and the class that \<^verbatim>\<open>slab_size_class\<close> computes are inside the bounds of \<^verbatim>\<open>size_class_metadata\<close> and of
  \<^verbatim>\<open>size_classes\<close>, and for a live address they are those of the class that handed it out.
\<close>

theorem slab_size_class_valid:
  assumes "reach cfg os pl st w" "config_valid cfg" "4096 dvd CONFIG_CLASS_REGION_SIZE cfg" "sane_kernel os" "in_slab_region st p"
  shows "ssci_arena (slab_size_class cfg st p) < N_ARENA cfg \<and> ssci_class (slab_size_class cfg st p) < length (size_classes cfg) \<and>
    (p \<in> heap_live cfg st \<longleftrightarrow>
      p \<in> live (st_size_class_metadata st (ssci_arena (slab_size_class cfg st p)) (ssci_class (slab_size_class cfg st p))))"
proof -
  have inv: "heap_inv cfg st w"
    using reach_ready [OF assms(1-4)] assms(5) by (auto simp: ready_def uninitialised_def zeroed_def in_slab_region_def)
  obtain a k where ak: "a < N_ARENA cfg" "k < N_SIZE_CLASSES cfg" "slab_size_class cfg st p = \<lparr>ssci_arena = a, ssci_class = k\<rparr>"
    by (rule slab_address_class [OF inv assms(5)])
  show ?thesis using ak assms(5) slab_live_iff [OF inv ak] by (simp add: heap_live_iff [OF inv] N_SIZE_CLASSES_def)
qed

theorem slab_size_class_valid_witness:
  "\<exists>p st. in_slab_region st p \<and> ssci_arena (slab_size_class example_config st p) < N_ARENA example_config \<and>
     p \<in> live (st_size_class_metadata st (ssci_arena (slab_size_class example_config st p))
       (ssci_class (slab_size_class example_config st p)))"
proof -
  obtain p q st w where r: "reach example_config bump_kernel example_platform st w" "heap_live example_config st = {p, q}"
    "in_slab_region st p" by (rule example_reach)
  from slab_size_class_valid [OF r(1) _ example_sane(2,1) r(3)] r(2,3) show ?thesis by auto
qed

text \<open>
  C16. After a fork the child goes on with the heap of its parent and with random numbers of its own: the live
  addresses and their blocks are those of the parent, and each generator (of the region allocator and of every class of
  every arena) has the key stream of 40 bytes of seed that \<^verbatim>\<open>getrandom\<close> delivered during the call, different generators
  by different calls of \<^verbatim>\<open>getrandom\<close>, and has no output of the parent left in its cache.
\<close>

theorem post_fork_child_correct:
  assumes "reach cfg os pl st w" "config_valid cfg" "4096 dvd CONFIG_CLASS_REGION_SIZE cfg" "sane_kernel os" "is_init st"
    and "post_fork_child cfg os st w = Returned (st', w')"
  shows "heap_live cfg st' = heap_live cfg st \<and> (\<forall>p \<in> heap_live cfg st. block cfg st' p = block cfg st p) \<and>
    (\<exists>first next. \<forall>x \<in> generators cfg.
      w_seeds w \<le> first x \<and> first x < next x \<and> next x \<le> w_seeds w' \<and>
      (\<forall>y \<in> generators cfg. x \<noteq> y \<longrightarrow> next x \<le> first y \<or> next y \<le> first x) \<and>
      (\<exists>w1 w2 seed. w_seeds w1 = first x \<and> get_random_seed os 40 w1 = Returned (seed, w2) \<and> w_seeds w2 = next x \<and>
        rs_ctx (generator_of st' x) = seed_context seed) \<and>
      rs_index (generator_of st' x) = RANDOM_CACHE_SIZE \<and> rs_reseed (generator_of st' x) = 0)"
proof -
  have inv: "heap_inv cfg st w"
    using reach_ready [OF assms(1-4)] assms(5) by (auto simp: ready_def uninitialised_def zeroed_def is_init_def)
  obtain T where T: "own_seeds os (w_seeds w) (w_seeds w') (generator_of st') T (generators cfg)"
    using post_fork_child_seeds [OF inv assms(6)] by blast
  have seeds: "\<forall>x \<in> generators cfg.
      w_seeds w \<le> fst (T x) \<and> fst (T x) < snd (T x) \<and> snd (T x) \<le> w_seeds w' \<and>
      (\<forall>y \<in> generators cfg. x \<noteq> y \<longrightarrow> snd (T x) \<le> fst (T y) \<or> snd (T y) \<le> fst (T x)) \<and>
      (\<exists>w1 w2 seed. w_seeds w1 = fst (T x) \<and> get_random_seed os 40 w1 = Returned (seed, w2) \<and> w_seeds w2 = snd (T x) \<and>
        rs_ctx (generator_of st' x) = seed_context seed) \<and>
      rs_index (generator_of st' x) = RANDOM_CACHE_SIZE \<and> rs_reseed (generator_of st' x) = 0"
    using T unfolding own_seeds_def seeded_by_def by fastforce
  show ?thesis
  proof (intro conjI exI)
    show "heap_live cfg st' = heap_live cfg st" "\<forall>p \<in> heap_live cfg st. block cfg st' p = block cfg st p"
      using all_oD [OF post_fork_child_ok [OF inv] assms(6)] by (auto simp: continues_def keeps_blocks_def block_def)
  qed (rule seeds)
qed

lemma post_fork_child_returns: "entropy os \<Longrightarrow> returns (post_fork_child cfg os st w)"
proof -
  assume e: "entropy os"
  have "returns (reseed_classes os aks st w)" for aks st w
  proof (induction aks arbitrary: st w)
    case (Cons ak aks)
    then show ?case by (cases ak) (auto simp: Let_def intro!: returns_bind random_state_init_returns [OF e])
  qed simp
  then show ?thesis unfolding post_fork_child_def by (auto intro!: returns_bind random_state_init_returns [OF e])
qed

theorem post_fork_child_correct_witness:
  "\<exists>p q st w st' w'. post_fork_child example_config bump_kernel st w = Returned (st', w') \<and>
     heap_live example_config st = {p, q} \<and> heap_live example_config st' = {p, q} \<and>
     (\<exists>w1 w2 seed. w_seeds w \<le> w_seeds w1 \<and> get_random_seed bump_kernel 40 w1 = Returned (seed, w2) \<and>
       rs_ctx (ra_rng (st_region_allocator st')) = seed_context seed)"
proof -
  obtain p q st w where r: "reach example_config bump_kernel example_platform st w" "heap_live example_config st = {p, q}"
    "heap_inv example_config st w" by (rule example_reach)
  obtain st' w' where f: "post_fork_child example_config bump_kernel st w = Returned (st', w')"
    using post_fork_child_returns [OF entropy_bump, of example_config st w] by (auto simp: returns_def)
  note c = post_fork_child_correct [OF r(1) _ example_sane(2,1) heap_inv_is_init [OF r(3)] f]
  have g: "None \<in> generators example_config" "generator_of st' None = ra_rng (st_region_allocator st')"
    by (simp_all add: generators_def generator_of_def)
  from c g have "\<exists>w1 w2 seed. w_seeds w \<le> w_seeds w1 \<and> get_random_seed bump_kernel 40 w1 = Returned (seed, w2) \<and>
      rs_ctx (ra_rng (st_region_allocator st')) = seed_context seed" by simp metis
  moreover have "heap_live example_config st' = {p, q}" using c r(2) by simp
  ultimately show ?thesis using r(2) f by blast
qed





text \<open>
  C10. Sized deallocation: after a successful \<^verbatim>\<open>malloc\<close>, freeing the address with \<^verbatim>\<open>free_sized\<close> and the size that was
  asked for is the same as \<^verbatim>\<open>free\<close>, and with a size that is served by blocks of another size it ends the process.
\<close>

theorem h_free_sized_roundtrip:
  assumes "reach cfg os pl st w" "config_valid cfg" "4096 dvd CONFIG_CLASS_REGION_SIZE cfg" "sane_kernel os"
    and "h_malloc cfg os pl st sz w = Returned (p, st', w')" "p \<noteq> NULL"
  shows "h_free_sized cfg os st' p sz w' = h_free cfg os st' p w' \<and>
    (rounded cfg (adjust_size_for_canary cfg n) \<noteq> rounded cfg (adjust_size_for_canary cfg sz) \<longrightarrow>
      (\<exists>msg. h_free_sized cfg os st' p n w' = Aborted msg))"
proof -
  have s: "heap_inv cfg st' w'" "sized cfg st' p (adjust_size_for_canary cfg sz)"
    using all_oD [OF h_malloc_sized [OF reach_ready [OF assms(1-4)] assms(3,4)] assms(5)] assms(6) by simp_all
  show ?thesis using h_free_sized_right_size [OF s] h_free_sized_wrong_size [OF s] by blast
qed

theorem h_free_sized_roundtrip_witness:
  "\<exists>p st w. h_malloc example_config bump_kernel example_platform (initial_state example_config) 8 start_world = Returned (p, st, w) \<and>
     h_free_sized example_config bump_kernel st p 8 w = h_free example_config bump_kernel st p w \<and>
     (\<exists>msg. h_free_sized example_config bump_kernel st p 64 w = Aborted msg)"
proof -
  obtain p st w where m: "h_malloc example_config bump_kernel example_platform (initial_state example_config) 8 start_world = Returned (p, st, w)"
    "p \<noteq> NULL" by (rule example_run)
  have "rounded example_config (adjust_size_for_canary example_config 64) \<noteq> rounded example_config (adjust_size_for_canary example_config 8)"
    by (simp add: rounded_def adjust_size_for_canary_def canary_size_def max_slab_size_class_def get_size_info_def align_def)
  with h_free_sized_roundtrip [OF reach.start example_config_simps(9) example_sane(2,1) m(1,2), where n = 64] m(1) show ?thesis by blast
qed

section \<open>The contents of blocks\<close>

text \<open>
  C6. The allocator keeps its hands off the memory of its clients: from every reachable state, with a kernel whose calls
  change no byte outside the pages they are called on, a \<^verbatim>\<open>malloc\<close> that is served from a slab leaves every byte of every
  live block as it was (it writes a canary into the slot that it hands out only), and a \<^verbatim>\<open>free\<close> of a slab address every
  byte of every other live block, although it clears the slot, may put another address out of the quarantine, and may
  give a whole slab back to the system.
\<close>

theorem slab_contents_kept:
  assumes "reach cfg os pl st w" "config_valid cfg" "4096 dvd CONFIG_CLASS_REGION_SIZE cfg" "sane_kernel os" "confined os"
  shows "(\<forall>sz p st' w'. h_malloc cfg os pl st sz w = Returned (p, st', w') \<and> adjust_size_for_canary cfg sz \<le> max_slab_size_class cfg \<longrightarrow>
      (\<forall>q \<in> heap_live cfg st. contents cfg st' w' q = contents cfg st w q)) \<and>
    (\<forall>p st' w'. h_free cfg os st p w = Returned (st', w') \<and> in_slab_region st p \<longrightarrow>
      (\<forall>q \<in> heap_live cfg st - {p}. contents cfg st' w' q = contents cfg st w q))"
proof (cases "heap_live cfg st = {}")
  case False
  then have inv: "heap_inv cfg st w" using ready_live [OF reach_ready [OF assms(1-4)]] by blast
  have "keeps_contents cfg (heap_live cfg st - {p}) st w st' w'"
    if "h_free cfg os st p w = Returned (st', w')" "in_slab_region st p" for p st' w'
    using that deallocate_small_contents [OF _ inv that(2) assms(5)] by (auto simp: h_free_def keeps_contents_def split: if_splits)
  moreover have "keeps_contents cfg (heap_live cfg st) st w st' w'"
    if "h_malloc cfg os pl st sz w = Returned (p, st', w')" "adjust_size_for_canary cfg sz \<le> max_slab_size_class cfg" for sz p st' w'
    using alloc_contents [OF _ inv that(2) assms(5)] that(1) by (simp add: h_malloc_def)
  ultimately show ?thesis unfolding keeps_contents_def by blast
qed simp

theorem slab_contents_kept_witness:
  "\<exists>p q st w q' st' w' st'' w''.
     h_malloc example_config bump_kernel example_platform st 100 w = Returned (q', st', w') \<and> heap_live example_config st = {p} \<and>
     contents example_config st' w' p = contents example_config st w p \<and>
     h_free example_config bump_kernel st' p w' = Returned (st'', w'') \<and> q \<in> heap_live example_config st' - {p} \<and>
     contents example_config st'' w'' q = contents example_config st' w' q"
proof -
  let ?cfg = example_config
  obtain p q st1 w1 st2 w2 st3 w3 where run:
    "h_malloc ?cfg bump_kernel example_platform (initial_state ?cfg) 8 start_world = Returned (p, st1, w1)"
    "h_malloc ?cfg bump_kernel example_platform st1 100 w1 = Returned (q, st2, w2)"
    "h_free ?cfg bump_kernel st2 p w2 = Returned (st3, w3)" "p \<noteq> q" "in_slab_region st2 p"
    "heap_live ?cfg st1 = {p}" "heap_live ?cfg st2 = {p, q}" by (rule example_run)
  note r1 = reach.malloc [OF reach.start run(1)]
  note r2 = reach.malloc [OF r1 run(2)]
  note k = slab_contents_kept [OF r1 _ example_sane(2,1) bump_confined] slab_contents_kept [OF r2 _ example_sane(2,1) bump_confined]
  have "adjust_size_for_canary ?cfg 100 \<le> max_slab_size_class ?cfg"
    by (simp add: adjust_size_for_canary_def canary_size_def max_slab_size_class_def)
  then have "contents ?cfg st2 w2 p = contents ?cfg st1 w1 p" using k(1) run(2,6) by simp
  moreover have "contents ?cfg st3 w3 q = contents ?cfg st2 w2 q" using k(2) run(3-5,7) by auto
  ultimately show ?thesis using run by blast
qed

text \<open>
  C7. \<^verbatim>\<open>realloc\<close> keeps the data: from every reachable state and for a live slab address, with a request that a slab
  serves, a call that fails changes no byte of a live block; otherwise the first bytes of the block returned are those
  of the old one, as many as the request asks for and the old block could hold before its canary, and no byte of any
  other live block has changed.
\<close>

theorem h_realloc_contents:
  assumes "reach cfg os pl st w" "config_valid cfg" "4096 dvd CONFIG_CLASS_REGION_SIZE cfg" "sane_kernel os" "confined os"
    and "old \<in> heap_live cfg st" "in_slab_region st old" "adjust_size_for_canary cfg sz \<le> max_slab_size_class cfg"
    and "h_realloc cfg os pl st old sz w = Returned (p, st', w')"
  shows "if p = NULL then \<forall>q \<in> heap_live cfg st. contents cfg st' w' q = contents cfg st w q
    else (\<forall>i < min (unat sz) (block_size cfg st old - unat (canary_size cfg)). w_mem w' (p + of_nat i) = w_mem w (old + of_nat i)) \<and>
      (\<forall>q \<in> heap_live cfg st - {old}. contents cfg st' w' q = contents cfg st w q)"
proof -
  have inv: "heap_inv cfg st w" by (rule ready_live [OF reach_ready [OF assms(1-4)] assms(6)])
  from h_realloc_contents_ok [OF assms(9) inv assms(7,6,8,5)] show ?thesis
    by (cases "p = NULL") (simp_all add: moved_def keeps_contents_def)
qed

lemma example_realloc:
  obtains p q n st w st' w' where "reach example_config bump_kernel example_platform st w" "heap_live example_config st = {p, q}"
    "p \<noteq> q" "in_slab_region st p" "block_size example_config st p = 16"
    "h_realloc example_config bump_kernel example_platform st p 120 w = Returned (n, st', w')" "n \<noteq> NULL" "n \<noteq> p"
proof -
  let ?cfg = example_config
  obtain p q st1 w1 st2 w2 st3 w3 where run:
    "h_malloc ?cfg bump_kernel example_platform (initial_state ?cfg) 8 start_world = Returned (p, st1, w1)"
    "h_malloc ?cfg bump_kernel example_platform st1 100 w1 = Returned (q, st2, w2)" "p \<noteq> NULL" "p \<noteq> q" "in_slab_region st2 p"
    "heap_inv ?cfg st2 w2" "heap_live ?cfg st2 = {p, q}" "unat (slab_usable_size ?cfg st2 p) = 16"
    "fresh_class ?cfg (st_slab_region_start st2) 0 8 (the_class st2 0 8)" by (rule example_run)
  note inv = run(6)
  obtain n c w' where a: "allocate ?cfg bump_kernel st2 0 120 w2 = Returned (n, upd_class 0 8 c st2, w')" "n \<noteq> NULL"
    by (rule example_malloc [OF inv _ example_info(3) [symmetric] run(9)]) simp_all
  let ?st = "upd_class 0 8 c st2"
  define w3 where "w3 = w'\<lparr>w_mem := memcpy n p 16 (w_mem w')\<rparr>"
  have res: "alloc_result ?cfg st2 (unat (120 :: size_t)) 4 (n, ?st, w')"
    by (rule all_oD [OF allocate_16 [OF inv _ example_sane(1)] a(1)]) simp
  then have r: "heap_live ?cfg ?st = {n, p, q}" "n \<noteq> p" "heap_inv ?cfg ?st w'"
    using run(7) a(2) ready_live [of ?cfg ?st w' n] by (auto simp: alloc_result_def allocated_def)
  have "returns (h_free ?cfg bump_kernel ?st p w3)"
    by (rule h_free_small_returns) (use r run(5) bump_only_ENOMEM in \<open>simp_all add: w3_def\<close>)
  then obtain st4 w4 where f: "deallocate_small ?cfg bump_kernel ?st p None w3 = Returned (st4, w4)"
    using run(3,5) by (auto simp: returns_def h_free_def)
  have u: "slab_usable_size ?cfg st2 p = 16" using run(8) by (simp add: word_unat_eq_iff)
  have adj: "adjust_size_for_canary ?cfg 120 = 120" by (simp add: adjust_size_for_canary_def canary_size_def)
  have i: "init ?cfg bump_kernel example_platform st2 w2 = Returned (0, st2, w2)"
    using heap_inv_is_init [OF inv] heap_invD(8) [OF inv] by (simp add: init_def)
  have copy: "realloc_copy ?cfg bump_kernel example_platform st2 p 16 True 120 w2 = Returned (n, st4, w4)"
    using i a f by (simp add: realloc_copy_def Let_def w3_def max_slab_size_class_def canary_size_def)
  have "si_size (get_size_info 120) \<noteq> 16" by (simp add: get_size_info_def align_def)
  then have "h_realloc ?cfg bump_kernel example_platform st2 p 120 w2 = Returned (n, st4, w4)"
    using copy run(3,5) u by (subst h_realloc_small) (simp_all add: adj max_slab_size_class_def)
  moreover have "reach ?cfg bump_kernel example_platform st2 w2"
    by (rule reach.malloc [OF reach.malloc [OF reach.start run(1)] run(2)])
  moreover have "block_size ?cfg st2 p = 16" using run(5,8) by (simp add: block_size_def)
  ultimately show ?thesis using that run(4,5,7) a(2) r(2) by blast
qed

theorem h_realloc_contents_witness:
  "\<exists>p q n st w st' w'. h_realloc example_config bump_kernel example_platform st p 120 w = Returned (n, st', w') \<and>
     heap_live example_config st = {p, q} \<and> n \<noteq> p \<and> (\<forall>i < 16. w_mem w' (n + of_nat i) = w_mem w (p + of_nat i)) \<and>
     contents example_config st' w' q = contents example_config st w q"
proof -
  obtain p q n st w st' w' where r: "reach example_config bump_kernel example_platform st w" "heap_live example_config st = {p, q}"
    "p \<noteq> q" "in_slab_region st p" "block_size example_config st p = 16"
    "h_realloc example_config bump_kernel example_platform st p 120 w = Returned (n, st', w')" "n \<noteq> NULL" "n \<noteq> p"
    by (rule example_realloc)
  have "adjust_size_for_canary example_config 120 \<le> max_slab_size_class example_config"
    by (simp add: adjust_size_for_canary_def canary_size_def max_slab_size_class_def)
  from h_realloc_contents [OF r(1) _ example_sane(2,1) bump_confined _ r(4) this r(6)] r(2,3,5,7)
  have "(\<forall>i < 16. w_mem w' (n + of_nat i) = w_mem w (p + of_nat i)) \<and> contents example_config st' w' q = contents example_config st w q"
    by (simp add: canary_size_def)
  with r(2,6,8) show ?thesis by blast
qed

end
