(* ===== verification/New.thy ===== *)
theory New
  imports Api
begin

text \<open>
  The C++ operators of \<^verbatim>\<open>src/new.cc\<close>, on top of the allocation functions. The handler that
  \<^verbatim>\<open>std::get_new_handler\<close> returns belongs to the program, so it is a parameter, which may depend on everything that
  happened before: it may return, throw \<^verbatim>\<open>std::bad_alloc\<close> or throw something else, and may call the allocator.
\<close>

section \<open>Exceptions\<close>

datatype 'a cxx = Value 'a | Bad_alloc | Other_exception

datatype handler_end = Handler_returned | Handler_threw_bad_alloc | Handler_threw_other

type_synonym new_handler = "state \<Rightarrow> world \<Rightarrow> (handler_end \<times> state \<times> world) outcome"
type_synonym handlers = "state \<Rightarrow> world \<Rightarrow> new_handler option"
type_synonym try_alloc = "state \<Rightarrow> world \<Rightarrow> (ptr \<times> state \<times> world) outcome"

text \<open>An exception that leaves a function declared \<^verbatim>\<open>noexcept\<close> ends the process.\<close>

fun noexcept :: "('a cxx \<times> state \<times> world) outcome \<Rightarrow> ('a \<times> state \<times> world) outcome" where
  "noexcept (Returned (Value x, st, w)) = Returned (x, st, w)"
| "noexcept (Returned (Bad_alloc, st, w)) = Aborted ''std::terminate''"
| "noexcept (Returned (Other_exception, st, w)) = Aborted ''std::terminate''"
| "noexcept (Aborted msg) = Aborted msg"
| "noexcept Diverged = Diverged"

section \<open>Out of memory\<close>

text \<open>
  The loop of both versions of \<^verbatim>\<open>handle_out_of_memory\<close>, which differ in the function that tries again. Without a handler
  the loop is left with a null pointer. Nothing bounds the loop: it goes on as long as the handler returns and the
  allocation fails.
\<close>

partial_function (option) out_of_memory_loop ::
    "handlers \<Rightarrow> try_alloc \<Rightarrow> bool \<Rightarrow> state \<Rightarrow> world \<Rightarrow> ((ptr cxx \<times> state \<times> world) outcome) option" where
  "out_of_memory_loop get_new_handler attempt nothrow st w =
     (case get_new_handler st w of
        None \<Rightarrow> Some (Returned (Value NULL, st, w))
      | Some handler \<Rightarrow>
          (case handler st w of
             Returned (e, st1, w1) \<Rightarrow>
               (case e of
                  Handler_returned \<Rightarrow>
                    (case attempt st1 w1 of
                       Returned (p, st2, w2) \<Rightarrow>
                         if p = NULL then out_of_memory_loop get_new_handler attempt nothrow st2 w2
                         else Some (Returned (Value p, st2, w2))
                     | Aborted msg \<Rightarrow> Some (Aborted msg)
                     | Diverged \<Rightarrow> None)
                | Handler_threw_bad_alloc \<Rightarrow> Some (Returned (if nothrow then Value NULL else Bad_alloc, st1, w1))
                | Handler_threw_other \<Rightarrow> Some (Returned (Other_exception, st1, w1)))
           | Aborted msg \<Rightarrow> Some (Aborted msg)
           | Diverged \<Rightarrow> None))"

definition handle_out_of_memory_with ::
    "handlers \<Rightarrow> try_alloc \<Rightarrow> bool \<Rightarrow> state \<Rightarrow> world \<Rightarrow> (ptr cxx \<times> state \<times> world) outcome" where
  "handle_out_of_memory_with get_new_handler attempt nothrow st w =
     bind_o (join_o (out_of_memory_loop get_new_handler attempt nothrow st w)) (\<lambda>(r, st, w).
       Returned (if r = Value NULL \<and> \<not> nothrow then Bad_alloc else r, st, w))"

text \<open>The two overloads of \<^verbatim>\<open>handle_out_of_memory\<close>.\<close>

definition handle_out_of_memory ::
    "config \<Rightarrow> kernel \<Rightarrow> platform \<Rightarrow> handlers \<Rightarrow> size_t \<Rightarrow> bool \<Rightarrow> state \<Rightarrow> world \<Rightarrow> (ptr cxx \<times> state \<times> world) outcome" where
  "handle_out_of_memory cfg os pl get_new_handler sz nothrow st w =
     handle_out_of_memory_with get_new_handler (\<lambda>st w. h_malloc cfg os pl st sz w) nothrow st w"

definition handle_out_of_memory_aligned ::
    "config \<Rightarrow> kernel \<Rightarrow> platform \<Rightarrow> handlers \<Rightarrow> size_t \<Rightarrow> size_t \<Rightarrow> bool \<Rightarrow> state \<Rightarrow> world \<Rightarrow>
     (ptr cxx \<times> state \<times> world) outcome" where
  "handle_out_of_memory_aligned cfg os pl get_new_handler sz alignment nothrow st w =
     handle_out_of_memory_with get_new_handler (\<lambda>st w. h_aligned_alloc cfg os pl st alignment sz w) nothrow st w"

text \<open>The two overloads of \<^verbatim>\<open>new_impl\<close>.\<close>

definition new_impl ::
    "config \<Rightarrow> kernel \<Rightarrow> platform \<Rightarrow> handlers \<Rightarrow> size_t \<Rightarrow> bool \<Rightarrow> state \<Rightarrow> world \<Rightarrow> (ptr cxx \<times> state \<times> world) outcome" where
  "new_impl cfg os pl get_new_handler sz nothrow st w =
     bind_o (h_malloc cfg os pl st sz w) (\<lambda>(p, st, w).
       if p \<noteq> NULL then Returned (Value p, st, w)
       else handle_out_of_memory cfg os pl get_new_handler sz nothrow st w)"

definition new_impl_aligned ::
    "config \<Rightarrow> kernel \<Rightarrow> platform \<Rightarrow> handlers \<Rightarrow> size_t \<Rightarrow> size_t \<Rightarrow> bool \<Rightarrow> state \<Rightarrow> world \<Rightarrow>
     (ptr cxx \<times> state \<times> world) outcome" where
  "new_impl_aligned cfg os pl get_new_handler sz alignment nothrow st w =
     bind_o (h_aligned_alloc cfg os pl st alignment sz w) (\<lambda>(p, st, w).
       if p \<noteq> NULL then Returned (Value p, st, w)
       else handle_out_of_memory_aligned cfg os pl get_new_handler sz alignment nothrow st w)"

section \<open>Operators\<close>

definition operator_new ::
    "config \<Rightarrow> kernel \<Rightarrow> platform \<Rightarrow> handlers \<Rightarrow> size_t \<Rightarrow> state \<Rightarrow> world \<Rightarrow> (ptr cxx \<times> state \<times> world) outcome" where
  "operator_new cfg os pl h sz st w = new_impl cfg os pl h sz False st w"

definition operator_new_array ::
    "config \<Rightarrow> kernel \<Rightarrow> platform \<Rightarrow> handlers \<Rightarrow> size_t \<Rightarrow> state \<Rightarrow> world \<Rightarrow> (ptr cxx \<times> state \<times> world) outcome" where
  "operator_new_array cfg os pl h sz st w = new_impl cfg os pl h sz False st w"

definition operator_new_nothrow ::
    "config \<Rightarrow> kernel \<Rightarrow> platform \<Rightarrow> handlers \<Rightarrow> size_t \<Rightarrow> state \<Rightarrow> world \<Rightarrow> (ptr \<times> state \<times> world) outcome" where
  "operator_new_nothrow cfg os pl h sz st w = noexcept (new_impl cfg os pl h sz True st w)"

definition operator_new_array_nothrow ::
    "config \<Rightarrow> kernel \<Rightarrow> platform \<Rightarrow> handlers \<Rightarrow> size_t \<Rightarrow> state \<Rightarrow> world \<Rightarrow> (ptr \<times> state \<times> world) outcome" where
  "operator_new_array_nothrow cfg os pl h sz st w = noexcept (new_impl cfg os pl h sz True st w)"

definition operator_new_aligned ::
    "config \<Rightarrow> kernel \<Rightarrow> platform \<Rightarrow> handlers \<Rightarrow> size_t \<Rightarrow> size_t \<Rightarrow> state \<Rightarrow> world \<Rightarrow> (ptr cxx \<times> state \<times> world) outcome" where
  "operator_new_aligned cfg os pl h sz alignment st w = new_impl_aligned cfg os pl h sz alignment False st w"

definition operator_new_array_aligned ::
    "config \<Rightarrow> kernel \<Rightarrow> platform \<Rightarrow> handlers \<Rightarrow> size_t \<Rightarrow> size_t \<Rightarrow> state \<Rightarrow> world \<Rightarrow> (ptr cxx \<times> state \<times> world) outcome" where
  "operator_new_array_aligned cfg os pl h sz alignment st w = new_impl_aligned cfg os pl h sz alignment False st w"

definition operator_new_aligned_nothrow ::
    "config \<Rightarrow> kernel \<Rightarrow> platform \<Rightarrow> handlers \<Rightarrow> size_t \<Rightarrow> size_t \<Rightarrow> state \<Rightarrow> world \<Rightarrow> (ptr \<times> state \<times> world) outcome" where
  "operator_new_aligned_nothrow cfg os pl h sz alignment st w = noexcept (new_impl_aligned cfg os pl h sz alignment True st w)"

definition operator_new_array_aligned_nothrow ::
    "config \<Rightarrow> kernel \<Rightarrow> platform \<Rightarrow> handlers \<Rightarrow> size_t \<Rightarrow> size_t \<Rightarrow> state \<Rightarrow> world \<Rightarrow> (ptr \<times> state \<times> world) outcome" where
  "operator_new_array_aligned_nothrow cfg os pl h sz alignment st w = noexcept (new_impl_aligned cfg os pl h sz alignment True st w)"

text \<open>
  The deallocating operators: plain (with the \<^verbatim>\<open>nothrow\<close> and the alignment overloads, which ignore their extra
  argument), sized, and sized with an alignment. None of the functions they call throws.
\<close>

definition operator_delete :: "config \<Rightarrow> kernel \<Rightarrow> ptr \<Rightarrow> state \<Rightarrow> world \<Rightarrow> (state \<times> world) outcome" where
  "operator_delete cfg os p st w = h_free cfg os st p w"

definition operator_delete_sized ::
    "config \<Rightarrow> kernel \<Rightarrow> ptr \<Rightarrow> size_t \<Rightarrow> state \<Rightarrow> world \<Rightarrow> (state \<times> world) outcome" where
  "operator_delete_sized cfg os p sz st w = h_free_sized cfg os st p sz w"

definition operator_delete_aligned :: "config \<Rightarrow> kernel \<Rightarrow> ptr \<Rightarrow> size_t \<Rightarrow> state \<Rightarrow> world \<Rightarrow> (state \<times> world) outcome" where
  "operator_delete_aligned cfg os p alignment st w = h_free cfg os st p w"

definition operator_delete_sized_aligned ::
    "config \<Rightarrow> kernel \<Rightarrow> ptr \<Rightarrow> size_t \<Rightarrow> size_t \<Rightarrow> state \<Rightarrow> world \<Rightarrow> (state \<times> world) outcome" where
  "operator_delete_sized_aligned cfg os p sz alignment st w = h_free_aligned_sized cfg os st p alignment sz w"

end
