(* ===== verification/New_Correct.thy ===== *)
theory New_Correct
  imports New Heap_Example
begin

text \<open>
  What the C++ operators promise: the throwing ones never return a null pointer, the others never throw, and what they
  return is a live address with room for the request before its canary.
\<close>

section \<open>The loop\<close>

text \<open>A handler is part of the program: whatever it does to the heap, it does through calls of the allocator.\<close>

definition handlers_ok :: "config \<Rightarrow> kernel \<Rightarrow> platform \<Rightarrow> handlers \<Rightarrow> bool" where
  "handlers_ok cfg os pl h \<longleftrightarrow>
     (\<forall>st w handler e st' w'. reach cfg os pl st w \<longrightarrow> h st w = Some handler \<longrightarrow> handler st w = Returned (e, st', w') \<longrightarrow>
        reach cfg os pl st' w')"

text \<open>What an attempt promises: a reachable state, and a null pointer or an address that satisfies \<open>Q\<close>.\<close>

definition attempt_ok :: "config \<Rightarrow> kernel \<Rightarrow> platform \<Rightarrow> (state \<Rightarrow> ptr \<Rightarrow> bool) \<Rightarrow> try_alloc \<Rightarrow> bool" where
  "attempt_ok cfg os pl Q attempt \<longleftrightarrow>
     (\<forall>st w p st' w'. reach cfg os pl st w \<longrightarrow> attempt st w = Returned (p, st', w') \<longrightarrow>
        reach cfg os pl st' w' \<and> (p \<noteq> NULL \<longrightarrow> Q st' p))"

definition new_result :: "config \<Rightarrow> kernel \<Rightarrow> platform \<Rightarrow> (state \<Rightarrow> ptr \<Rightarrow> bool) \<Rightarrow> bool \<Rightarrow> (ptr cxx \<times> state \<times> world) outcome \<Rightarrow> bool" where
  "new_result cfg os pl Q nothrow r \<longleftrightarrow>
     all_o (\<lambda>(x, st', w'). reach cfg os pl st' w' \<and>
       (case x of Value p \<Rightarrow> p \<noteq> NULL \<longrightarrow> Q st' p | Bad_alloc \<Rightarrow> \<not> nothrow | Other_exception \<Rightarrow> True)) r"

lemma new_result_simps [simp]:
  "new_result cfg os pl Q nothrow (Returned (Value p, st, w)) \<longleftrightarrow> reach cfg os pl st w \<and> (p \<noteq> NULL \<longrightarrow> Q st p)"
  "new_result cfg os pl Q nothrow (Returned (Bad_alloc, st, w)) \<longleftrightarrow> reach cfg os pl st w \<and> \<not> nothrow"
  "new_result cfg os pl Q nothrow (Returned (Other_exception, st, w)) \<longleftrightarrow> reach cfg os pl st w"
  "new_result cfg os pl Q nothrow (Aborted msg)" "new_result cfg os pl Q nothrow Diverged"
  by (simp_all add: new_result_def)

lemma out_of_memory_loop_ok:
  assumes "out_of_memory_loop h attempt nothrow st w = Some r"
  shows "handlers_ok cfg os pl h \<longrightarrow> attempt_ok cfg os pl Q attempt \<longrightarrow> reach cfg os pl st w \<longrightarrow> new_result cfg os pl Q nothrow r"
proof (rule out_of_memory_loop.raw_induct [OF _ assms, where P = "\<lambda>h attempt nothrow st w r.
    handlers_ok cfg os pl h \<longrightarrow> attempt_ok cfg os pl Q attempt \<longrightarrow> reach cfg os pl st w \<longrightarrow> new_result cfg os pl Q nothrow r"], intro impI)
  fix loop h attempt nothrow st w r
  assume IH: "\<And>h attempt nothrow st w r. loop h attempt nothrow st w = Some r \<Longrightarrow>
      handlers_ok cfg os pl h \<longrightarrow> attempt_ok cfg os pl Q attempt \<longrightarrow> reach cfg os pl st w \<longrightarrow> new_result cfg os pl Q nothrow r"
    and h: "handlers_ok cfg os pl h" and attempt: "attempt_ok cfg os pl Q attempt" and re: "reach cfg os pl st w"
    and step: "(case h st w of
        None \<Rightarrow> Some (Returned (Value NULL, st, w))
      | Some handler \<Rightarrow>
          (case handler st w of
             Returned (e, st1, w1) \<Rightarrow>
               (case e of
                  Handler_returned \<Rightarrow>
                    (case attempt st1 w1 of
                       Returned (p, st2, w2) \<Rightarrow>
                         if p = NULL then loop h attempt nothrow st2 w2 else Some (Returned (Value p, st2, w2))
                     | Aborted msg \<Rightarrow> Some (Aborted msg)
                     | Diverged \<Rightarrow> None)
                | Handler_threw_bad_alloc \<Rightarrow> Some (Returned (if nothrow then Value NULL else Bad_alloc, st1, w1))
                | Handler_threw_other \<Rightarrow> Some (Returned (Other_exception, st1, w1)))
           | Aborted msg \<Rightarrow> Some (Aborted msg)
           | Diverged \<Rightarrow> None)) = Some r"
  have r1: "reach cfg os pl st1 w1" if "h st w = Some handler" "handler st w = Returned (e, st1, w1)" for handler e st1 w1
    using h re that unfolding handlers_ok_def by blast
  have r2: "reach cfg os pl st2 w2 \<and> (p \<noteq> NULL \<longrightarrow> Q st2 p)" if "reach cfg os pl st1 w1" "attempt st1 w1 = Returned (p, st2, w2)" for st1 w1 p st2 w2
    using attempt that unfolding attempt_ok_def by blast
  show "new_result cfg os pl Q nothrow r"
  proof (cases "h st w")
    case (Some handler)
    show ?thesis
    proof (cases "handler st w")
      case (Returned x)
      obtain e st1 w1 where x: "x = (e, st1, w1)" by (cases x)
      note re1 = r1 [OF Some Returned [unfolded x]]
      show ?thesis
      proof (cases e)
        case Handler_returned
        show ?thesis
        proof (cases "attempt st1 w1")
          case y: (Returned y)
          obtain p st2 w2 where y2: "y = (p, st2, w2)" by (cases y)
          note re2 = r2 [OF re1 y [unfolded y2]]
          have "loop h attempt nothrow st2 w2 = Some r" if "p = NULL"
            using step that by (simp add: Some Returned x Handler_returned y y2)
          moreover have "r = Returned (Value p, st2, w2)" if "p \<noteq> NULL"
            using step that by (simp add: Some Returned x Handler_returned y y2)
          ultimately show ?thesis using IH [of h attempt nothrow st2 w2 r] re2 h attempt by (cases "p = NULL") simp_all
        qed (use step in \<open>auto simp: Some Returned x Handler_returned\<close>)
      qed (use step re1 in \<open>auto simp: Some Returned x\<close>)
    qed (use step in \<open>auto simp: Some\<close>)
  qed (use step re in auto)
qed

text \<open>Both overloads of \<^verbatim>\<open>new_impl\<close> are one function of the allocation they try.\<close>

definition new_impl_with ::
    "handlers \<Rightarrow> try_alloc \<Rightarrow> bool \<Rightarrow> state \<Rightarrow> world \<Rightarrow> (ptr cxx \<times> state \<times> world) outcome" where
  "new_impl_with get_new_handler attempt nothrow st w =
     bind_o (attempt st w) (\<lambda>(p, st, w).
       if p \<noteq> NULL then Returned (Value p, st, w)
       else handle_out_of_memory_with get_new_handler attempt nothrow st w)"

lemma new_impl_eq:
  "new_impl cfg os pl h sz nothrow st w = new_impl_with h (\<lambda>st w. h_malloc cfg os pl st sz w) nothrow st w"
  "new_impl_aligned cfg os pl h sz alignment nothrow st w =
     new_impl_with h (\<lambda>st w. h_aligned_alloc cfg os pl st alignment sz w) nothrow st w"
  unfolding new_impl_def new_impl_aligned_def new_impl_with_def handle_out_of_memory_def handle_out_of_memory_aligned_def
  by (rule refl)+

lemma new_impl_with_ok:
  assumes "handlers_ok cfg os pl h" "attempt_ok cfg os pl Q attempt" "reach cfg os pl st w"
  shows "all_o (\<lambda>(x, st', w'). reach cfg os pl st' w' \<and>
      (case x of Value p \<Rightarrow> if p = NULL then nothrow else Q st' p | Bad_alloc \<Rightarrow> \<not> nothrow | Other_exception \<Rightarrow> True))
    (new_impl_with h attempt nothrow st w)"
proof (rule all_oI)
  fix y assume y: "new_impl_with h attempt nothrow st w = Returned y"
  obtain p st1 w1 where t: "attempt st w = Returned (p, st1, w1)"
    using y by (auto simp: new_impl_with_def outcome_simps)
  have r1: "reach cfg os pl st1 w1" "p \<noteq> NULL \<longrightarrow> Q st1 p" using assms(2,3) t unfolding attempt_ok_def by blast+
  show "case y of (x, st', w') \<Rightarrow> reach cfg os pl st' w' \<and>
      (case x of Value p \<Rightarrow> if p = NULL then nothrow else Q st' p | Bad_alloc \<Rightarrow> \<not> nothrow | Other_exception \<Rightarrow> True)"
  proof (cases "p = NULL")
    case True
    then obtain x st2 w2 where l: "out_of_memory_loop h attempt nothrow st1 w1 = Some (Returned (x, st2, w2))"
      and ye: "y = (if x = Value NULL \<and> \<not> nothrow then Bad_alloc else x, st2, w2)"
      using y t by (auto simp: new_impl_with_def handle_out_of_memory_with_def outcome_simps)
    show ?thesis using out_of_memory_loop_ok [OF l, of cfg os pl Q] assms(1,2) r1(1) by (cases x) (auto simp: ye)
  next
    case False
    then show ?thesis using y t r1 by (auto simp: new_impl_with_def)
  qed
qed

section \<open>The attempts\<close>

definition new_block :: "config \<Rightarrow> size_t \<Rightarrow> nat \<Rightarrow> state \<Rightarrow> ptr \<Rightarrow> bool" where
  "new_block cfg sz k st p \<longleftrightarrow> p \<in> heap_live cfg st \<and> unat sz \<le> usable_size cfg st p \<and> 2 ^ k dvd unat p"

lemma alloc_result_block:
  "alloc_result cfg st (unat (adjust_size_for_canary cfg sz)) k (p, st', w') \<Longrightarrow> p \<noteq> NULL \<Longrightarrow> new_block cfg sz k st' p"
  using alloc_result_usable [of cfg st sz k p st' w'] by (auto simp: alloc_result_def allocated_def fits_def new_block_def)

lemma malloc_attempt:
  assumes "config_valid cfg" "4096 dvd CONFIG_CLASS_REGION_SIZE cfg" "sane_kernel os"
  shows "attempt_ok cfg os pl (new_block cfg sz 4) (\<lambda>st w. h_malloc cfg os pl st sz w)"
  unfolding attempt_ok_def
proof (intro allI impI)
  fix st w p st' w'
  assume r: "reach cfg os pl st w" and m: "h_malloc cfg os pl st sz w = Returned (p, st', w')"
  from all_oD [OF h_malloc_ok [OF reach_ready [OF r assms] assms(2,3)] m]
  show "reach cfg os pl st' w' \<and> (p \<noteq> NULL \<longrightarrow> new_block cfg sz 4 st' p)"
    using alloc_result_block reach.malloc [OF r m] by blast
qed

lemma aligned_attempt:
  assumes "config_valid cfg" "4096 dvd CONFIG_CLASS_REGION_SIZE cfg" "sane_kernel os"
  shows "attempt_ok cfg os pl (\<lambda>st p. \<exists>k. alignment = 2 ^ k \<and> new_block cfg sz k st p)
    (\<lambda>st w. h_aligned_alloc cfg os pl st alignment sz w)"
  unfolding attempt_ok_def
proof (intro allI impI)
  fix st w p st' w'
  assume r: "reach cfg os pl st w" and m: "h_aligned_alloc cfg os pl st alignment sz w = Returned (p, st', w')"
  have "\<exists>k. alignment = 2 ^ k \<and> new_block cfg sz k st' p" if p: "p \<noteq> NULL"
  proof -
    obtain x st1 w1 where a: "alloc_aligned cfg os pl st alignment sz 1 w = Returned (x, st1, w1)"
      using m by (auto simp: h_aligned_alloc_def alloc_aligned_simple_def outcome_simps)
    then have x: "x = Inr p" "st1 = st'" "w1 = w'"
      using m p by (auto simp: h_aligned_alloc_def alloc_aligned_simple_def split: sum.splits)
    from all_oD [OF alloc_aligned_ok [OF reach_ready [OF r assms] assms(2,3), of 1] a] x
    obtain k where "valid_alignment alignment 1 k" "alloc_result cfg st (unat (adjust_size_for_canary cfg sz)) k (p, st', w')"
      by (auto simp: aligned_result_def)
    then show ?thesis using alloc_result_block p by (auto simp: valid_alignment_def)
  qed
  then show "reach cfg os pl st' w' \<and> (p \<noteq> NULL \<longrightarrow> (\<exists>k. alignment = 2 ^ k \<and> new_block cfg sz k st' p))"
    using reach.aligned_alloc [OF r m] by blast
qed

lemma noexcept_Value: "noexcept r = Returned (p, st, w) \<Longrightarrow> r = Returned (Value p, st, w)"
  by (cases r rule: noexcept.cases) simp_all

lemma new_block_simps: "new_block cfg sz 4 st p \<longleftrightarrow> p \<in> heap_live cfg st \<and> unat sz \<le> usable_size cfg st p \<and> 16 dvd unat p"
  "(\<exists>k. alignment = 2 ^ k \<and> new_block cfg sz k st p) \<longleftrightarrow>
     p \<in> heap_live cfg st \<and> unat sz \<le> usable_size cfg st p \<and> (\<exists>k. alignment = 2 ^ k \<and> 2 ^ k dvd unat p)"
  by (auto simp: new_block_def)

section \<open>Properties\<close>

text \<open>
  C37. Operator \<^verbatim>\<open>new\<close>, from every reachable state and with any out-of-memory handler that uses the allocator through its
  functions, in all eight forms: a throwing form, for an object or an array, plain or with an alignment, never returns a
  null pointer; a \<^verbatim>\<open>nothrow\<close> form never meets \<^verbatim>\<open>bad_alloc\<close>, and may return a null pointer; every other pointer that
  a form returns is a live address whose usable part, before the canary, has room for the request, and is a multiple of
  16 or, in the forms with an alignment, of that alignment, which then is a power of two.
\<close>

theorem operator_new_correct:
  assumes "reach cfg os pl st w" "config_valid cfg" "4096 dvd CONFIG_CLASS_REGION_SIZE cfg" "sane_kernel os" "handlers_ok cfg os pl h"
  shows "(\<forall>form \<in> {operator_new, operator_new_array}. \<forall>p st' w'. form cfg os pl h sz st w = Returned (Value p, st', w') \<longrightarrow>
        p \<noteq> NULL \<and> p \<in> heap_live cfg st' \<and> unat sz \<le> usable_size cfg st' p \<and> 16 dvd unat p) \<and>
    (\<forall>form \<in> {operator_new_aligned, operator_new_array_aligned}. \<forall>p st' w'.
        form cfg os pl h sz alignment st w = Returned (Value p, st', w') \<longrightarrow>
        p \<noteq> NULL \<and> p \<in> heap_live cfg st' \<and> unat sz \<le> usable_size cfg st' p \<and> (\<exists>k. alignment = 2 ^ k \<and> 2 ^ k dvd unat p)) \<and>
    (\<forall>form \<in> {operator_new_nothrow, operator_new_array_nothrow}. \<forall>p st' w'. form cfg os pl h sz st w = Returned (p, st', w') \<longrightarrow>
        p = NULL \<or> p \<in> heap_live cfg st' \<and> unat sz \<le> usable_size cfg st' p \<and> 16 dvd unat p) \<and>
    (\<forall>form \<in> {operator_new_aligned_nothrow, operator_new_array_aligned_nothrow}. \<forall>p st' w'.
        form cfg os pl h sz alignment st w = Returned (p, st', w') \<longrightarrow>
        p = NULL \<or> p \<in> heap_live cfg st' \<and> unat sz \<le> usable_size cfg st' p \<and> (\<exists>k. alignment = 2 ^ k \<and> 2 ^ k dvd unat p)) \<and>
    (\<forall>st' w'. new_impl cfg os pl h sz True st w \<noteq> Returned (Bad_alloc, st', w') \<and>
        new_impl_aligned cfg os pl h sz alignment True st w \<noteq> Returned (Bad_alloc, st', w'))"
proof -
  note m = new_impl_with_ok [OF assms(5) malloc_attempt [OF assms(2-4)] assms(1), THEN all_oD]
  note a = new_impl_with_ok [OF assms(5) aligned_attempt [OF assms(2-4)] assms(1), THEN all_oD]
  have plain: "if p = NULL then nothrow else p \<in> heap_live cfg st' \<and> unat sz \<le> usable_size cfg st' p \<and> 16 dvd unat p"
    if "new_impl cfg os pl h sz nothrow st w = Returned (Value p, st', w')" for nothrow p st' w'
    using m [OF that [unfolded new_impl_eq]] by (auto simp: new_block_simps split: if_splits)
  have aligned: "if p = NULL then nothrow else p \<in> heap_live cfg st' \<and> unat sz \<le> usable_size cfg st' p \<and>
      (\<exists>k. alignment = 2 ^ k \<and> 2 ^ k dvd unat p)"
    if "new_impl_aligned cfg os pl h sz alignment nothrow st w = Returned (Value p, st', w')" for nothrow p st' w'
    using a [OF that [unfolded new_impl_eq]] by (auto simp: new_block_simps split: if_splits)
  have none: "new_impl cfg os pl h sz True st w \<noteq> Returned (Bad_alloc, st', w')"
    "new_impl_aligned cfg os pl h sz alignment True st w \<noteq> Returned (Bad_alloc, st', w')" for st' w'
    using m [of sz True] a [of alignment sz True] unfolding new_impl_eq by fastforce+
  show ?thesis
    unfolding ball_simps operator_new_def operator_new_array_def operator_new_aligned_def operator_new_array_aligned_def
      operator_new_nothrow_def operator_new_array_nothrow_def operator_new_aligned_nothrow_def operator_new_array_aligned_nothrow_def
    by (intro conjI ballI allI impI; (elim insertE emptyE)?) (auto dest!: noexcept_Value dest: plain aligned simp: none split: if_splits)
qed

theorem operator_new_correct_witness:
  "\<exists>p st w. operator_new example_config bump_kernel example_platform (\<lambda>_ _. None) 8 (initial_state example_config) start_world =
     Returned (Value p, st, w) \<and> p \<noteq> NULL \<and> p \<in> heap_live example_config st \<and> 8 \<le> usable_size example_config st p \<and> 16 dvd unat p"
proof -
  obtain p st w where m: "h_malloc example_config bump_kernel example_platform (initial_state example_config) 8 start_world = Returned (p, st, w)"
    "p \<noteq> NULL" by (rule example_run)
  have "operator_new example_config bump_kernel example_platform (\<lambda>_ _. None) 8 (initial_state example_config) start_world =
      Returned (Value p, st, w)"
    using m by (simp add: operator_new_def new_impl_eq new_impl_with_def)
  moreover have "handlers_ok example_config bump_kernel example_platform (\<lambda>_ _. None)" by (simp add: handlers_ok_def)
  ultimately show ?thesis
    using operator_new_correct [OF reach.start _ example_sane(2,1), of example_platform "\<lambda>_ _. None" 8 start_world] by fastforce
qed

end
