(* ===== verification/Stats.thy ===== *)
theory Stats
  imports Init
begin

text \<open>
  The functions of \<^verbatim>\<open>src/h_malloc.c\<close> that report statistics: \<^verbatim>\<open>h_mallinfo2\<close>, the Android functions per arena and per
  bin, and \<^verbatim>\<open>h_malloc_info\<close>, whose output is the string that it appends to the stream. Without \<^verbatim>\<open>CONFIG_STATS\<close> the
  structures are zero and the report is empty.
\<close>

section \<open>Structures\<close>

record mallinfo2 =
  mi_arena :: size_t
  mi_ordblks :: size_t
  mi_smblks :: size_t
  mi_hblks :: size_t
  mi_hblkhd :: size_t
  mi_usmblks :: size_t
  mi_fsmblks :: size_t
  mi_uordblks :: size_t
  mi_fordblks :: size_t
  mi_keepcost :: size_t

definition zero_mallinfo2 :: mallinfo2 where
  "zero_mallinfo2 = \<lparr>mi_arena = 0, mi_ordblks = 0, mi_smblks = 0, mi_hblks = 0, mi_hblkhd = 0, mi_usmblks = 0,
     mi_fsmblks = 0, mi_uordblks = 0, mi_fordblks = 0, mi_keepcost = 0\<rparr>"

section \<open>The whole heap\<close>

text \<open>The body of the loop over arenas and classes.\<close>

definition add_class :: "state \<Rightarrow> nat \<times> nat \<Rightarrow> mallinfo2 \<Rightarrow> mallinfo2" where
  "add_class st ak info =
     (let c = st_size_class_metadata st (fst ak) (snd ak) in
      info\<lparr>mi_hblkhd := mi_hblkhd info + sc_slab_allocated c, mi_uordblks := mi_uordblks info + sc_allocated c\<rparr>)"

definition h_mallinfo2 :: "config \<Rightarrow> state \<Rightarrow> mallinfo2" where
  "h_mallinfo2 cfg st =
     (let info = zero_mallinfo2 in
      if CONFIG_STATS cfg then
        if \<not> is_init st then info
        else
          let ra = st_region_allocator st;
              info = info\<lparr>mi_hblkhd := mi_hblkhd info + ra_allocated ra, mi_uordblks := mi_uordblks info + ra_allocated ra\<rparr>;
              info = fold (add_class st) (all_classes cfg) info;
              info = info\<lparr>mi_fordblks := mi_hblkhd info - mi_uordblks info\<rparr>
          in info\<lparr>mi_usmblks := mi_hblkhd info\<rparr>
      else info)"

section \<open>Per arena and per bin\<close>

definition h_mallinfo_narenas :: "config \<Rightarrow> nat" where
  "h_mallinfo_narenas cfg = N_ARENA cfg + 1"

definition h_mallinfo_nbins :: "config \<Rightarrow> nat" where
  "h_mallinfo_nbins cfg = N_SIZE_CLASSES cfg"

definition add_arena_class :: "state \<Rightarrow> nat \<Rightarrow> nat \<Rightarrow> mallinfo2 \<Rightarrow> mallinfo2" where
  "add_arena_class st a k info =
     (let c = st_size_class_metadata st a k in
      info\<lparr>mi_hblkhd := mi_hblkhd info + sc_slab_allocated c, mi_fsmblks := mi_fsmblks info + sc_allocated c\<rparr>)"

definition h_mallinfo_arena_info :: "config \<Rightarrow> state \<Rightarrow> size_t \<Rightarrow> mallinfo2" where
  "h_mallinfo_arena_info cfg st arena =
     (let info = zero_mallinfo2 in
      if CONFIG_STATS cfg then
        if \<not> is_init st then info
        else if unat arena < N_ARENA cfg then fold (add_arena_class st (unat arena)) [0..<N_SIZE_CLASSES cfg] info
        else if unat arena = N_ARENA cfg then
          let ra = st_region_allocator st in info\<lparr>mi_hblkhd := ra_allocated ra, mi_uordblks := ra_allocated ra\<rparr>
        else info
      else info)"

definition h_mallinfo_bin_info :: "config \<Rightarrow> state \<Rightarrow> size_t \<Rightarrow> size_t \<Rightarrow> mallinfo2" where
  "h_mallinfo_bin_info cfg st arena bin =
     (let info = zero_mallinfo2 in
      if CONFIG_STATS cfg then
        if \<not> is_init st then info
        else if unat arena < N_ARENA cfg \<and> unat bin < N_SIZE_CLASSES cfg then
          let c = st_size_class_metadata st (unat arena) (unat bin) in
          info\<lparr>mi_ordblks := sc_allocated c, mi_uordblks := sc_nmalloc c, mi_fordblks := sc_ndalloc c\<rparr>
        else info
      else info)"

section \<open>The report\<close>

text \<open>The conversions \<^verbatim>\<open>%u\<close>, \<^verbatim>\<open>%zu\<close> and \<^verbatim>\<open>PRIu64\<close> of \<^verbatim>\<open>fprintf\<close>: decimal digits without leading zeros.\<close>

fun decimal :: "nat \<Rightarrow> string" where
  "decimal n = (if n < 10 then [char_of (48 + n)] else decimal (n div 10) @ [char_of (48 + n mod 10)])"

declare decimal.simps [simp del]

definition bin_reported :: "size_class \<Rightarrow> bool" where
  "bin_reported c \<longleftrightarrow> sc_nmalloc c \<noteq> 0 \<or> sc_ndalloc c \<noteq> 0 \<or> sc_slab_allocated c \<noteq> 0 \<or> sc_allocated c \<noteq> 0"

definition bin_report :: "config \<Rightarrow> nat \<Rightarrow> size_class \<Rightarrow> string" where
  "bin_report cfg k c =
     (if bin_reported c then
        ''<bin nr=\"'' @ decimal k @ ''\" size=\"'' @ decimal (unat (size_classes cfg ! k)) @ ''\">'' @
        ''<nmalloc>'' @ decimal (unat (sc_nmalloc c)) @ ''</nmalloc>'' @
        ''<ndalloc>'' @ decimal (unat (sc_ndalloc c)) @ ''</ndalloc>'' @
        ''<slab_allocated>'' @ decimal (unat (sc_slab_allocated c)) @ ''</slab_allocated>'' @
        ''<allocated>'' @ decimal (unat (sc_allocated c)) @ ''</allocated>'' @
        ''</bin>''
      else [])"

definition arena_report :: "config \<Rightarrow> state \<Rightarrow> nat \<Rightarrow> string" where
  "arena_report cfg st a =
     ''<heap nr=\"'' @ decimal a @ ''\">'' @
     concat (map (\<lambda>k. bin_report cfg k (st_size_class_metadata st a k)) [0..<N_SIZE_CLASSES cfg]) @
     ''</heap>''"

text \<open>The result, the text written to the stream, and the world with \<^verbatim>\<open>errno\<close>.\<close>

definition h_malloc_info :: "config \<Rightarrow> state \<Rightarrow> int \<Rightarrow> world \<Rightarrow> int \<times> string \<times> world" where
  "h_malloc_info cfg st options w =
     (if options \<noteq> 0 then (- 1, [], set_errno EINVAL w)
      else
        (0,
         ''<malloc version=\"hardened_malloc-1\">'' @
         (if CONFIG_STATS cfg \<and> is_init st then
            concat (map (arena_report cfg st) [0..<N_ARENA cfg]) @
            ''<heap nr=\"'' @ decimal (N_ARENA cfg) @ ''\">'' @
            ''<allocated_large>'' @ decimal (unat (ra_allocated (st_region_allocator st))) @ ''</allocated_large>'' @
            ''</heap>''
          else []) @
         ''</malloc>'', w))"

section \<open>Functions without an effect\<close>

definition h_mallopt :: "int \<Rightarrow> int \<Rightarrow> int" where
  "h_mallopt param v = 0"

definition h_malloc_get_state :: "world \<Rightarrow> ptr \<times> world" where
  "h_malloc_get_state w = (NULL, set_errno ENOSYS w)"

definition h_malloc_set_state :: "ptr \<Rightarrow> int" where
  "h_malloc_set_state s = - 2"

end
