(* ===== verification/Stats_Read.thy ===== *)
theory Stats_Read
  imports Stats "HOL-Library.Monad_Syntax"
begin

text \<open>
  A reader of the report of \<^verbatim>\<open>malloc_info\<close>, and that it reads back what \<^verbatim>\<open>h_malloc_info\<close> writes.
\<close>

section \<open>Text and numbers\<close>

text \<open>A reader takes what it reads from the front of the text and fails on any other text.\<close>

fun lit :: "string \<Rightarrow> string \<Rightarrow> string option" where
  "lit [] s = Some s"
| "lit (c # t) [] = None"
| "lit (c # t) (d # s) = (if c = d then lit t s else None)"

definition digit :: "char \<Rightarrow> bool" where
  "digit c \<longleftrightarrow> 48 \<le> (of_char c :: nat) \<and> (of_char c :: nat) \<le> 57"

definition number_of :: "string \<Rightarrow> nat" where
  "number_of s = foldl (\<lambda>n c. 10 * n + (of_char c - 48)) 0 s"

definition num :: "string \<Rightarrow> (nat \<times> string) option" where
  "num s = (if takeWhile digit s = [] then None else Some (number_of (takeWhile digit s), dropWhile digit s))"

fun many :: "(string \<Rightarrow> ('a \<times> string) option) \<Rightarrow> nat \<Rightarrow> string \<Rightarrow> 'a list \<times> string" where
  "many p 0 s = ([], s)"
| "many p (Suc n) s =
     (case p s of
        None \<Rightarrow> ([], s)
      | Some (x, s') \<Rightarrow> let (xs, rest) = many p n s' in (x # xs, rest))"

lemma lit_append [simp]: "lit t (t @ s) = Some s"
  by (induction t) simp_all

lemma decimal_digits: "decimal n \<noteq> [] \<and> (\<forall>c \<in> set (decimal n). digit c) \<and> number_of (decimal n) = n"
proof (induction n rule: decimal.induct)
  case (1 n)
  have c: "(of_char (char_of (48 + m :: nat)) :: nat) = 48 + m" if "m < 10" for m
    using that by (simp add: of_char_of)
  show ?case
  proof (cases "n < 10")
    case True
    then show ?thesis using c [of n] by (subst (1 2 3) decimal.simps) (simp add: digit_def number_of_def)
  next
    case False
    note IH = 1 [OF False]
    have "number_of (decimal n) = 10 * number_of (decimal (n div 10)) + n mod 10"
      using False c [of "n mod 10"] by (subst decimal.simps) (simp add: number_of_def)
    moreover have "\<forall>c \<in> set (decimal n). digit c" "decimal n \<noteq> []"
      using False IH c [of "n mod 10"] by (subst decimal.simps; auto simp: digit_def)+
    ultimately show ?thesis using IH by simp
  qed
qed

lemma num_decimal:
  assumes "s = [] \<or> \<not> digit (hd s)"
  shows "num (decimal n @ s) = Some (n, s)"
proof -
  have "takeWhile digit (decimal n @ s) = decimal n @ takeWhile digit s" "dropWhile digit (decimal n @ s) = dropWhile digit s"
    using decimal_digits [of n] by (simp_all add: takeWhile_append2 dropWhile_append2)
  moreover have "takeWhile digit s = []" "dropWhile digit s = s" using assms by (cases s; simp)+
  ultimately show ?thesis using decimal_digits [of n] by (simp add: num_def)
qed

lemma num_decimal_lit [simp]: "\<not> digit c \<Longrightarrow> num (decimal n @ c # s) = Some (n, c # s)"
  by (rule num_decimal) simp

lemma not_digit [simp]: "\<not> digit CHR ''<''" "\<not> digit CHR 0x22"
  by (simp_all add: digit_def)

text \<open>Reading a sequence of items, up to a text that is none.\<close>

lemma many_concat:
  assumes "\<And>x r. x \<in> set xs \<Longrightarrow> p (pr x @ r) = Some (f x, r)" "p rest = None" "length xs \<le> n"
  shows "many p n (concat (map pr xs) @ rest) = (map f xs, rest)"
  using assms
proof (induction xs arbitrary: n)
  case Nil
  then show ?case by (cases n) simp_all
next
  case (Cons x xs)
  then obtain m where "n = Suc m" "length xs \<le> m" by (cases n) simp_all
  with Cons show ?case by simp
qed

lemma many_none: "p s = None \<Longrightarrow> many p n s = ([], s)"
  by (cases n) simp_all

lemma length_concat_items: "(\<And>x. x \<in> set xs \<Longrightarrow> pr x \<noteq> []) \<Longrightarrow> length xs \<le> length (concat (map pr xs) @ rest)"
proof (induction xs)
  case (Cons x xs)
  then have "length xs \<le> length (concat (map pr xs) @ rest)" "pr x \<noteq> []" by auto
  then show ?case by (cases "pr x") simp_all
qed simp

lemma concat_items_filter: "(\<And>x. \<not> P x \<Longrightarrow> pr x = []) \<Longrightarrow> concat (map pr xs) = concat (map pr (filter P xs))"
  by (induction xs) simp_all

section \<open>The report\<close>

record bin_entry =
  be_nr :: nat
  be_size :: nat
  be_nmalloc :: nat
  be_ndalloc :: nat
  be_slab_allocated :: nat
  be_allocated :: nat

definition read_bin :: "string \<Rightarrow> (bin_entry \<times> string) option" where
  "read_bin s = do {
     s \<leftarrow> lit ''<bin nr=\"'' s; (nr, s) \<leftarrow> num s;
     s \<leftarrow> lit ''\" size=\"'' s; (size, s) \<leftarrow> num s;
     s \<leftarrow> lit ''\"><nmalloc>'' s; (nmalloc, s) \<leftarrow> num s;
     s \<leftarrow> lit ''</nmalloc><ndalloc>'' s; (ndalloc, s) \<leftarrow> num s;
     s \<leftarrow> lit ''</ndalloc><slab_allocated>'' s; (slab_allocated, s) \<leftarrow> num s;
     s \<leftarrow> lit ''</slab_allocated><allocated>'' s; (allocated, s) \<leftarrow> num s;
     s \<leftarrow> lit ''</allocated></bin>'' s;
     Some (\<lparr>be_nr = nr, be_size = size, be_nmalloc = nmalloc, be_ndalloc = ndalloc,
       be_slab_allocated = slab_allocated, be_allocated = allocated\<rparr>, s)
   }"

definition read_heap :: "string \<Rightarrow> ((nat \<times> bin_entry list) \<times> string) option" where
  "read_heap s = do {
     s \<leftarrow> lit ''<heap nr=\"'' s; (nr, s) \<leftarrow> num s; s \<leftarrow> lit ''\">'' s;
     let (bins, s) = many read_bin (length s) s;
     s \<leftarrow> lit ''</heap>'' s;
     Some ((nr, bins), s)
   }"

text \<open>The heaps of the arenas, and the number and the size of the heap of the large allocations, up to the end of the text.\<close>

definition read_info :: "string \<Rightarrow> ((nat \<times> bin_entry list) list \<times> nat \<times> nat) option" where
  "read_info s = do {
     s \<leftarrow> lit ''<malloc version=\"hardened_malloc-1\">'' s;
     let (heaps, s) = many read_heap (length s) s;
     s \<leftarrow> lit ''<heap nr=\"'' s; (nr, s) \<leftarrow> num s;
     s \<leftarrow> lit ''\"><allocated_large>'' s; (large, s) \<leftarrow> num s;
     s \<leftarrow> lit ''</allocated_large></heap></malloc>'' s;
     if s = [] then Some (heaps, nr, large) else None
   }"

section \<open>Reading back\<close>

definition bin_of :: "config \<Rightarrow> nat \<Rightarrow> size_class \<Rightarrow> bin_entry" where
  "bin_of cfg k c = \<lparr>be_nr = k, be_size = unat (size_classes cfg ! k), be_nmalloc = unat (sc_nmalloc c),
     be_ndalloc = unat (sc_ndalloc c), be_slab_allocated = unat (sc_slab_allocated c), be_allocated = unat (sc_allocated c)\<rparr>"

lemma read_bin_report: "bin_reported c \<Longrightarrow> read_bin (bin_report cfg k c @ r) = Some (bin_of cfg k c, r)"
  by (simp add: bin_report_def read_bin_def bin_of_def)

lemma read_bin_heap_end [simp]: "read_bin (''</heap>'' @ r) = None"
  by (simp add: read_bin_def)

definition bins_of :: "config \<Rightarrow> state \<Rightarrow> nat \<Rightarrow> bin_entry list" where
  "bins_of cfg st a =
     map (\<lambda>k. bin_of cfg k (st_size_class_metadata st a k))
       (filter (\<lambda>k. bin_reported (st_size_class_metadata st a k)) [0..<N_SIZE_CLASSES cfg])"

lemma many_bins:
  "many read_bin (length (concat (map (\<lambda>k. bin_report cfg k (st_size_class_metadata st a k)) [0..<N_SIZE_CLASSES cfg]) @ ''</heap>'' @ r))
     (concat (map (\<lambda>k. bin_report cfg k (st_size_class_metadata st a k)) [0..<N_SIZE_CLASSES cfg]) @ ''</heap>'' @ r) =
   (bins_of cfg st a, ''</heap>'' @ r)"
proof -
  let ?P = "\<lambda>k. bin_reported (st_size_class_metadata st a k)" and ?pr = "\<lambda>k. bin_report cfg k (st_size_class_metadata st a k)"
  let ?ks = "filter ?P [0..<N_SIZE_CLASSES cfg]"
  have c: "concat (map ?pr [0..<N_SIZE_CLASSES cfg]) = concat (map ?pr ?ks)"
    by (rule concat_items_filter) (simp add: bin_report_def)
  have "length ?ks \<le> length (concat (map ?pr ?ks) @ ''</heap>'' @ r)"
    by (rule length_concat_items) (simp add: bin_report_def)
  then show ?thesis unfolding c bins_of_def
    by (intro many_concat) (simp_all only: read_bin_report read_bin_heap_end set_filter mem_Collect_eq)
qed

lemma read_arena_report: "read_heap (arena_report cfg st a @ r) = Some ((a, bins_of cfg st a), r)"
proof -
  let ?bins = "concat (map (\<lambda>k. bin_report cfg k (st_size_class_metadata st a k)) [0..<N_SIZE_CLASSES cfg])"
  have e: "arena_report cfg st a @ r = ''<heap nr=\"'' @ decimal a @ ''\">'' @ ?bins @ ''</heap>'' @ r"
    by (simp only: arena_report_def append_assoc)
  have n: "num (decimal a @ ''\">'' @ s) = Some (a, ''\">'' @ s)" for s by simp
  show ?thesis unfolding e read_heap_def lit_append n many_bins Let_def prod.case bind.bind_lunit by simp
qed

lemma read_info_report:
  assumes "CONFIG_STATS cfg" "is_init st"
  shows "fst (h_malloc_info cfg st 0 w) = 0" "snd (snd (h_malloc_info cfg st 0 w)) = w"
    "read_info (fst (snd (h_malloc_info cfg st 0 w))) =
       Some (map (\<lambda>a. (a, bins_of cfg st a)) [0..<N_ARENA cfg], N_ARENA cfg, unat (ra_allocated (st_region_allocator st)))"
proof -
  let ?last = "''<heap nr=\"'' @ decimal (N_ARENA cfg) @ ''\"><allocated_large>'' @ decimal (unat (ra_allocated (st_region_allocator st))) @
    ''</allocated_large></heap></malloc>''"
  let ?heaps = "concat (map (arena_report cfg st) [0..<N_ARENA cfg])"
  have e: "fst (snd (h_malloc_info cfg st 0 w)) = ''<malloc version=\"hardened_malloc-1\">'' @ ?heaps @ ?last"
    using assms by (simp add: h_malloc_info_def)
  have none: "read_heap ?last = None" by (simp add: read_heap_def read_bin_def many_none)
  have "length [0..<N_ARENA cfg] \<le> length (?heaps @ ?last)"
    by (rule length_concat_items) (simp add: arena_report_def)
  then have m: "many read_heap (length (?heaps @ ?last)) (?heaps @ ?last) = (map (\<lambda>a. (a, bins_of cfg st a)) [0..<N_ARENA cfg], ?last)"
    using none by (intro many_concat read_arena_report) simp_all
  show "read_info (fst (snd (h_malloc_info cfg st 0 w))) =
       Some (map (\<lambda>a. (a, bins_of cfg st a)) [0..<N_ARENA cfg], N_ARENA cfg, unat (ra_allocated (st_region_allocator st)))"
    unfolding e read_info_def lit_append bind.bind_lunit m Let_def prod.case by simp
qed (use assms in \<open>simp_all add: h_malloc_info_def\<close>)

end
