(* ===== verification/Stats_Correct.thy ===== *)
theory Stats_Correct
  imports Stats_Read Heap_Example
begin

text \<open>
  The statistics are right: in every reachable state the counters that the allocator keeps, and hence what it reports,
  agree with the addresses that are live.
\<close>

section \<open>Sums over the heap\<close>

text \<open>What an address counts for: the size of its slot, or the size of its large allocation.\<close>

definition charged :: "config \<Rightarrow> state \<Rightarrow> ptr \<Rightarrow> size_t" where
  "charged cfg st p =
     (if in_slab_region st p then
        let i = slab_size_class cfg st p in ucast (sc_size (st_size_class_metadata st (ssci_arena i) (ssci_class i)))
      else rm_size (the (region_map (st_region_allocator st) p)))"

lemma fold_add_class:
  "mi_uordblks (fold (add_class st) aks info) = mi_uordblks info + (\<Sum>(a, k) \<leftarrow> aks. sc_allocated (the_class st a k))"
  by (induction aks arbitrary: info) (auto simp: add_class_def Let_def)

lemma class_total:
  assumes "heap_inv cfg st w" "CONFIG_STATS cfg" "a < N_ARENA cfg" "k < N_SIZE_CLASSES cfg"
  shows "sc_allocated (the_class st a k) = (\<Sum>p \<in> live (the_class st a k). charged cfg st p)"
proof -
  let ?c = "the_class st a k"
  have "charged cfg st p = ucast (sc_size ?c)" if "p \<in> live ?c" for p
    using slab_live_address [OF assms(1,3,4) that] by (simp add: charged_def)
  then have "(\<Sum>p \<in> live ?c. charged cfg st p) = of_nat (card (live ?c)) * ucast (sc_size ?c)" by simp
  then show ?thesis using heap_invD(9) [OF assms(1,3,4)] assms(2) by (simp add: counted_def counters_def)
qed

lemma heap_total:
  assumes "heap_inv cfg st w" "CONFIG_STATS cfg"
  shows "ra_allocated (st_region_allocator st) + (\<Sum>(a, k) \<leftarrow> all_classes cfg. sc_allocated (the_class st a k))
    = (\<Sum>p \<in> heap_live cfg st. charged cfg st p)"
proof -
  let ?A = "{0..<N_ARENA cfg} \<times> {0..<N_SIZE_CLASSES cfg}" and ?L = "\<lambda>(a, k). live (the_class st a k)"
  let ?m = "region_map (st_region_allocator st)"
  have "(\<Sum>(a, k) \<leftarrow> all_classes cfg. sc_allocated (the_class st a k)) = (\<Sum>(a, k) \<in> ?A. sc_allocated (the_class st a k))"
    using sum_list_distinct_conv_sum_set [OF all_classes_set(2)] all_classes_set(1) by metis
  also have "\<dots> = (\<Sum>x \<in> ?A. \<Sum>p \<in> ?L x. charged cfg st p)"
    using class_total [OF assms] by (intro sum.cong) auto
  also have "\<dots> = (\<Sum>p \<in> (\<Union>x \<in> ?A. ?L x). charged cfg st p)"
  proof (rule sum.UNION_disjoint [symmetric])
    show "\<forall>x \<in> ?A. finite (?L x)" using finite_live heap_invD(4) [OF assms(1)] by fastforce
    show "\<forall>x \<in> ?A. \<forall>y \<in> ?A. x \<noteq> y \<longrightarrow> ?L x \<inter> ?L y = {}"
    proof clarsimp
      fix a k a' k'
      assume "a < N_ARENA cfg" "k < N_SIZE_CLASSES cfg" "a' < N_ARENA cfg" "k' < N_SIZE_CLASSES cfg" "a = a' \<longrightarrow> k \<noteq> k'"
      then show "live (the_class st a k) \<inter> live (the_class st a' k') = {}"
        using slab_live_address(2) [OF assms(1), of a k] slab_live_address(2) [OF assms(1), of a' k'] by fastforce
    qed
  qed simp
  also have "(\<Union>x \<in> ?A. ?L x) = slab_live cfg st" unfolding slab_live_def by fastforce
  finally have slab: "(\<Sum>(a, k) \<leftarrow> all_classes cfg. sc_allocated (the_class st a k)) = (\<Sum>p \<in> slab_live cfg st. charged cfg st p)" .
  note li = large_invD [OF heap_invD(6) [OF assms(1)]]
  have "charged cfg st p = rm_size (the (?m p))" if "p \<in> dom ?m" for p
    using that large_not_slab [OF assms(1)] by (auto simp: charged_def)
  then have "ra_allocated (st_region_allocator st) = (\<Sum>p \<in> dom ?m. charged cfg st p)"
    using li(5) assms(2) by (simp add: regions_counted_def region_total_def cong: sum.cong)
  moreover have "slab_live cfg st \<inter> dom ?m = {}" using slab_live_region [OF assms(1)] large_not_slab [OF assms(1)] by auto
  moreover have "finite (slab_live cfg st)" using finite_live heap_invD(4) [OF assms(1)] by (fastforce simp: slab_live_def)
  ultimately show ?thesis
    using slab finite_dom_region_map [OF li(2)] by (simp add: heap_live_def sum.union_disjoint)
qed

lemma live_card_bound:
  assumes "heap_inv cfg st w" "a < N_ARENA cfg" "k < N_SIZE_CLASSES cfg"
  shows "card (live (the_class st a k)) < 2 ^ 64"
proof -
  have "NULL \<notin> live (the_class st a k)" using heap_live_nonnull [OF assms(1)] assms(2,3) by (auto simp: heap_live_def slab_live_def)
  then have "live (the_class st a k) \<subset> UNIV" by blast
  then have "card (live (the_class st a k)) < card (UNIV :: u64 set)" by (intro psubset_card_mono) simp_all
  then show ?thesis by (simp add: card_word)
qed

lemma class_counts:
  assumes "heap_inv cfg st w" "CONFIG_STATS cfg" "a < N_ARENA cfg" "k < N_SIZE_CLASSES cfg"
  shows "unat (sc_nmalloc (the_class st a k) - sc_ndalloc (the_class st a k)) = card (live (the_class st a k))"
    and "\<not> bin_reported (the_class st a k) \<Longrightarrow> live (the_class st a k) = {}"
proof -
  let ?c = "the_class st a k"
  have "sc_nmalloc ?c = sc_ndalloc ?c + of_nat (card (live ?c))"
    using heap_invD(9) [OF assms(1,3,4)] assms(2) by (simp add: counted_def counters_def)
  then show u: "unat (sc_nmalloc ?c - sc_ndalloc ?c) = card (live ?c)"
    using live_card_bound [OF assms(1,3,4)] by (simp add: unat_of_nat)
  have "finite (live ?c)" using finite_live heap_invD(4) [OF assms(1,3,4)] by simp
  then show "\<not> bin_reported ?c \<Longrightarrow> live ?c = {}" using u by (simp add: bin_reported_def)
qed

lemma large_total:
  assumes "heap_inv cfg st w" "CONFIG_STATS cfg"
  shows "ra_allocated (st_region_allocator st) = (\<Sum>p \<in> {p \<in> heap_live cfg st. \<not> in_slab_region st p}. charged cfg st p)"
proof -
  let ?m = "region_map (st_region_allocator st)"
  have d: "{p \<in> heap_live cfg st. \<not> in_slab_region st p} = dom ?m"
    using slab_live_region [OF assms(1)] large_not_slab [OF assms(1)] by (auto simp: heap_live_def)
  have "charged cfg st p = rm_size (the (?m p))" if "p \<in> dom ?m" for p
    using that large_not_slab [OF assms(1)] by (auto simp: charged_def)
  then show ?thesis
    using large_invD(5) [OF heap_invD(6) [OF assms(1)]] assms(2) unfolding d
    by (simp add: regions_counted_def region_total_def cong: sum.cong)
qed

text \<open>The entries of an arena in the report.\<close>

lemma bins_of_right:
  assumes "heap_inv cfg st w" "CONFIG_STATS cfg" "a < N_ARENA cfg"
  shows "distinct (map be_nr (bins_of cfg st a))"
    and "\<forall>k < N_SIZE_CLASSES cfg. k \<notin> be_nr ` set (bins_of cfg st a) \<longrightarrow> live (the_class st a k) = {}"
    and "\<forall>b \<in> set (bins_of cfg st a). be_nr b < N_SIZE_CLASSES cfg \<and> be_size b = unat (size_classes cfg ! be_nr b) \<and>
      unat (of_nat (be_nmalloc b) - of_nat (be_ndalloc b) :: u64) = card (live (the_class st a (be_nr b))) \<and>
      of_nat (be_allocated b) = (\<Sum>p \<in> live (the_class st a (be_nr b)). charged cfg st p)"
proof -
  have "be_nr \<circ> (\<lambda>k. bin_of cfg k (the_class st a k)) = (\<lambda>k. k)" by (rule ext) (simp add: bin_of_def)
  then show "distinct (map be_nr (bins_of cfg st a))" by (simp add: bins_of_def)
  show "\<forall>k < N_SIZE_CLASSES cfg. k \<notin> be_nr ` set (bins_of cfg st a) \<longrightarrow> live (the_class st a k) = {}"
  proof (intro allI impI)
    fix k assume k: "k < N_SIZE_CLASSES cfg" "k \<notin> be_nr ` set (bins_of cfg st a)"
    then have "\<not> bin_reported (the_class st a k)" by (force simp: bins_of_def bin_of_def)
    then show "live (the_class st a k) = {}" by (rule class_counts(2) [OF assms k(1)])
  qed
  show "\<forall>b \<in> set (bins_of cfg st a). be_nr b < N_SIZE_CLASSES cfg \<and> be_size b = unat (size_classes cfg ! be_nr b) \<and>
      unat (of_nat (be_nmalloc b) - of_nat (be_ndalloc b) :: u64) = card (live (the_class st a (be_nr b))) \<and>
      of_nat (be_allocated b) = (\<Sum>p \<in> live (the_class st a (be_nr b)). charged cfg st p)"
    using class_counts(1) [OF assms] class_total [OF assms] by (auto simp: bins_of_def bin_of_def)
qed

section \<open>Properties\<close>

text \<open>
  C17. The accounting of the whole heap: with \<^verbatim>\<open>CONFIG_STATS\<close>, in every reachable state, \<^verbatim>\<open>mallinfo2\<close> reports as
  \<^verbatim>\<open>uordblks\<close> the sum of the sizes of all live blocks (of their slots, for blocks in slabs, whether the address was
  requested from any arena, resized or trimmed in between), as the difference of mapped and used memory \<^verbatim>\<open>fordblks\<close>, and
  before the first allocation nothing.
\<close>

theorem h_mallinfo2_correct:
  assumes "reach cfg os pl st w" "config_valid cfg" "4096 dvd CONFIG_CLASS_REGION_SIZE cfg" "sane_kernel os" "CONFIG_STATS cfg"
  shows "mi_uordblks (h_mallinfo2 cfg st) = (\<Sum>p \<in> heap_live cfg st. charged cfg st p) \<and>
    mi_hblkhd (h_mallinfo2 cfg st) = mi_uordblks (h_mallinfo2 cfg st) + mi_fordblks (h_mallinfo2 cfg st) \<and>
    (\<not> is_init st \<longrightarrow> h_mallinfo2 cfg st = zero_mallinfo2)"
proof (cases "is_init st")
  case True
  then have "heap_inv cfg st w"
    using reach_ready [OF assms(1-4)] by (auto simp: ready_def uninitialised_def zeroed_def is_init_def)
  from heap_total [OF this assms(5)] True assms(5) show ?thesis
    by (simp add: h_mallinfo2_def Let_def fold_add_class zero_mallinfo2_def)
next
  case False
  then have "zeroed cfg st"
    using reach_ready [OF assms(1-4)] heap_inv_is_init by (auto simp: ready_def uninitialised_def)
  then have "heap_live cfg st = {}" by (rule zeroed_live)
  with False show ?thesis by (simp add: h_mallinfo2_def Let_def) (simp add: zero_mallinfo2_def)
qed

theorem h_mallinfo2_correct_witness:
  "\<exists>p q st. p \<noteq> q \<and> mi_uordblks (h_mallinfo2 example_config st) = charged example_config st p + charged example_config st q"
proof -
  obtain p q st1 w1 st2 w2 where run:
    "h_malloc example_config bump_kernel example_platform (initial_state example_config) 8 start_world = Returned (p, st1, w1)"
    "h_malloc example_config bump_kernel example_platform st1 100 w1 = Returned (q, st2, w2)"
    "p \<noteq> q" "heap_live example_config st2 = {p, q}" by (rule example_run)
  have "reach example_config bump_kernel example_platform st2 w2"
    by (rule reach.malloc [OF reach.malloc [OF reach.start run(1)] run(2)])
  from h_mallinfo2_correct [OF this _ example_sane(2,1)] run(3,4) show ?thesis by auto
qed

text \<open>
  C18. What \<^verbatim>\<open>malloc_info\<close> writes can be read back and is right: with \<^verbatim>\<open>CONFIG_STATS\<close>, in every reachable state
  after initialisation, the text consists of one heap for each arena, in order, and the heap of the large allocations;
  the amount printed for the latter is the size of the large allocations in use. In the heap of an arena no class
  appears twice, and one that does not appear has no live address; in the entry of a class the number in the field
  \<^verbatim>\<open>nmalloc\<close> less that in \<^verbatim>\<open>ndalloc\<close>, as 64-bit counters, is the number of the live addresses of the class, and that in
  \<^verbatim>\<open>allocated\<close> is their size.
\<close>

theorem malloc_info_correct:
  assumes "reach cfg os pl st w" "config_valid cfg" "4096 dvd CONFIG_CLASS_REGION_SIZE cfg" "sane_kernel os" "CONFIG_STATS cfg" "is_init st"
  shows "\<exists>report heaps large. h_malloc_info cfg st 0 w = (0, report, w) \<and> read_info report = Some (heaps, N_ARENA cfg, large) \<and>
    of_nat large = (\<Sum>p \<in> {p \<in> heap_live cfg st. \<not> in_slab_region st p}. charged cfg st p) \<and>
    map fst heaps = [0..<N_ARENA cfg] \<and>
    (\<forall>a < N_ARENA cfg. distinct (map be_nr (snd (heaps ! a))) \<and>
      (\<forall>k < N_SIZE_CLASSES cfg. k \<notin> be_nr ` set (snd (heaps ! a)) \<longrightarrow> live (st_size_class_metadata st a k) = {}) \<and>
      (\<forall>b \<in> set (snd (heaps ! a)). be_nr b < N_SIZE_CLASSES cfg \<and> be_size b = unat (size_classes cfg ! be_nr b) \<and>
        unat (of_nat (be_nmalloc b) - of_nat (be_ndalloc b) :: u64) = card (live (st_size_class_metadata st a (be_nr b))) \<and>
        of_nat (be_allocated b) = (\<Sum>p \<in> live (st_size_class_metadata st a (be_nr b)). charged cfg st p)))"
proof -
  let ?heaps = "map (\<lambda>a. (a, bins_of cfg st a)) [0..<N_ARENA cfg]" and ?large = "unat (ra_allocated (st_region_allocator st))"
  have inv: "heap_inv cfg st w"
    using reach_ready [OF assms(1-4)] assms(6) by (auto simp: ready_def uninitialised_def zeroed_def is_init_def)
  obtain report where written: "h_malloc_info cfg st 0 w = (0, report, w)" "read_info report = Some (?heaps, N_ARENA cfg, ?large)"
    using read_info_report [OF assms(5,6), of w] by (cases "h_malloc_info cfg st 0 w") auto
  have right: "distinct (map be_nr (snd (?heaps ! a))) \<and>
      (\<forall>k < N_SIZE_CLASSES cfg. k \<notin> be_nr ` set (snd (?heaps ! a)) \<longrightarrow> live (the_class st a k) = {}) \<and>
      (\<forall>b \<in> set (snd (?heaps ! a)). be_nr b < N_SIZE_CLASSES cfg \<and> be_size b = unat (size_classes cfg ! be_nr b) \<and>
        unat (of_nat (be_nmalloc b) - of_nat (be_ndalloc b) :: u64) = card (live (the_class st a (be_nr b))) \<and>
        of_nat (be_allocated b) = (\<Sum>p \<in> live (the_class st a (be_nr b)). charged cfg st p))" if a: "a < N_ARENA cfg" for a
  proof -
    have "snd (?heaps ! a) = bins_of cfg st a" using a by simp
    with bins_of_right [OF inv assms(5) a] show ?thesis by (intro conjI) (simp_all only:)
  qed
  show ?thesis
  proof (rule exI [of _ report], rule exI [of _ ?heaps], rule exI [of _ ?large], intro conjI written allI impI)
    show "of_nat ?large = (\<Sum>p \<in> {p \<in> heap_live cfg st. \<not> in_slab_region st p}. charged cfg st p)"
      unfolding large_total [OF inv assms(5), symmetric] by simp
    show "map fst ?heaps = [0..<N_ARENA cfg]" by (simp add: comp_def)
  qed (use right in blast)+
qed

theorem malloc_info_correct_witness:
  "\<exists>st w report heaps large a b. h_malloc_info example_config st 0 w = (0, report, w) \<and> read_info report = Some (heaps, 1, large) \<and>
     a < length heaps \<and> b \<in> set (snd (heaps ! a)) \<and> live (st_size_class_metadata st a (be_nr b)) \<noteq> {} \<and>
     unat (of_nat (be_nmalloc b) - of_nat (be_ndalloc b) :: u64) = card (live (st_size_class_metadata st a (be_nr b)))"
proof -
  obtain p q st1 w1 st2 w2 where run:
    "h_malloc example_config bump_kernel example_platform (initial_state example_config) 8 start_world = Returned (p, st1, w1)"
    "h_malloc example_config bump_kernel example_platform st1 100 w1 = Returned (q, st2, w2)"
    "in_slab_region st2 p" "heap_inv example_config st2 w2" "heap_live example_config st2 = {p, q}" by (rule example_run)
  have r: "reach example_config bump_kernel example_platform st2 w2"
    by (rule reach.malloc [OF reach.malloc [OF reach.start run(1)] run(2)])
  obtain a k where ak: "a < N_ARENA example_config" "k < N_SIZE_CLASSES example_config"
    "slab_size_class example_config st2 p = \<lparr>ssci_arena = a, ssci_class = k\<rparr>" by (rule slab_address_class [OF run(4,3)])
  have p: "p \<in> live (st_size_class_metadata st2 a k)"
    using slab_live_iff [OF run(4) ak] heap_live_iff [OF run(4), of p] run(3,5) by simp
  obtain report heaps large where t: "h_malloc_info example_config st2 0 w2 = (0, report, w2)"
    "read_info report = Some (heaps, N_ARENA example_config, large)" "map fst heaps = [0..<N_ARENA example_config]"
    and all: "\<forall>a < N_ARENA example_config.
      (\<forall>k < N_SIZE_CLASSES example_config. k \<notin> be_nr ` set (snd (heaps ! a)) \<longrightarrow> live (st_size_class_metadata st2 a k) = {}) \<and>
      (\<forall>b \<in> set (snd (heaps ! a)).
        unat (of_nat (be_nmalloc b) - of_nat (be_ndalloc b) :: u64) = card (live (st_size_class_metadata st2 a (be_nr b))))"
    using malloc_info_correct [OF r _ example_sane(2,1) example_config_simps(3) heap_inv_is_init [OF run(4)]]
      example_config_simps(9) by blast
  obtain b where b: "b \<in> set (snd (heaps ! a))" "k = be_nr b" using all ak(1,2) p by blast
  have "length heaps = N_ARENA example_config" using arg_cong [OF t(3), of length] by simp
  then have "a < length heaps" using ak(1) by simp
  moreover have "read_info report = Some (heaps, 1, large)" using t(2) by simp
  moreover have "live (st_size_class_metadata st2 a (be_nr b)) \<noteq> {}" using p b(2) by blast
  ultimately show ?thesis using t(1) b(1) all ak(1) by blast
qed

end
