(* ===== verification/Slab_Bitmap.thy ===== *)
theory Slab_Bitmap
  imports Slab_Metadata
begin

text \<open>
  The other way in which \<^verbatim>\<open>src/h_malloc.c\<close> can tell whether a slab is full or unused: from the bitmap, in builds without
  \<^verbatim>\<open>SLAB_METADATA_COUNT\<close>. It agrees with the count.
\<close>

unbundle bit_operations_syntax

definition has_free_slots_bitmap :: "nat \<Rightarrow> slab_metadata \<Rightarrow> bool" where
  "has_free_slots_bitmap slots md =
     (let bitmap = md_bitmap md in
      if slots \<le> U64_WIDTH then
        let masked = bitmap ! 0 OR get_mask slots in masked \<noteq> NOT 0
      else if slots \<le> U64_WIDTH * 2 then
        let masked = bitmap ! 1 OR get_mask (slots - U64_WIDTH) in bitmap ! 0 \<noteq> NOT 0 \<or> masked \<noteq> NOT 0
      else if slots \<le> U64_WIDTH * 3 then
        let masked = bitmap ! 2 OR get_mask (slots - U64_WIDTH * 2) in
        bitmap ! 0 \<noteq> NOT 0 \<or> bitmap ! 1 \<noteq> NOT 0 \<or> masked \<noteq> NOT 0
      else
        let masked = bitmap ! 3 OR get_mask (slots - U64_WIDTH * 3) in
        bitmap ! 0 \<noteq> NOT 0 \<or> bitmap ! 1 \<noteq> NOT 0 \<or> bitmap ! 2 \<noteq> NOT 0 \<or> masked \<noteq> NOT 0)"

definition is_free_slab_bitmap :: "slab_metadata \<Rightarrow> bool" where
  "is_free_slab_bitmap md \<longleftrightarrow>
     md_bitmap md ! 0 = 0 \<and> md_bitmap md ! 1 = 0 \<and> md_bitmap md ! 2 = 0 \<and> md_bitmap md ! 3 = 0"

text \<open>One word of the bitmap, masked when it is the last.\<close>

lemma masked_word_free:
  assumes "0 < slots" "i \<le> (slots - 1) div 64" "lst = (slots - 1) div 64"
  shows "(if i = lst then bm ! i OR get_mask (slots - i * 64) else bm ! i) \<noteq> NOT 0 \<longleftrightarrow> free_in_word slots bm i (64 * i)"
  using shows_free_full [OF shows_free_masked [OF assms(2,1) disjI2 [OF assms(3)]], of bm] by simp

lemma free_in_some_word:
  assumes "0 < slots"
  shows "(\<exists>k. free_in slots bm k) \<longleftrightarrow> (\<exists>i \<le> (slots - 1) div 64. free_in_word slots bm i (64 * i))"
proof
  assume "\<exists>k. free_in slots bm k"
  then obtain k where k: "free_in slots bm k" by blast
  then have "k div 64 \<le> (slots - 1) div 64" by (intro div_le_mono) (auto simp: free_in_def)
  moreover have "free_in_word slots bm (k div 64) (64 * (k div 64))"
    unfolding free_in_word_def using k by (intro exI [of _ "k mod 64"]) simp
  ultimately show "\<exists>i \<le> (slots - 1) div 64. free_in_word slots bm i (64 * i)" by blast
qed (auto simp: free_in_word_def)

lemma has_free_slots_bitmap_iff:
  assumes "0 < slots" "slots \<le> 256"
  shows "has_free_slots_bitmap slots md \<longleftrightarrow> (\<exists>k. slot_free slots md k)"
proof -
  let ?l = "(slots - 1) div 64" and ?bm = "md_bitmap md"
  note m = masked_word_free [OF assms(1) _ refl, of _ ?bm]
  have ex: "(\<exists>k. slot_free slots md k) \<longleftrightarrow> (\<exists>i \<le> ?l. free_in_word slots ?bm i (64 * i))"
    using free_in_some_word [OF assms(1), of ?bm] by (simp add: free_in_slot_free)
  have le: "(\<exists>i \<le> n. P i) \<longleftrightarrow> P 0 \<or> (1 \<le> n \<and> P 1) \<or> (2 \<le> n \<and> P 2) \<or> (3 \<le> n \<and> P 3)" if "n \<le> 3" for n and P :: "nat \<Rightarrow> bool"
  proof -
    have "i = 0 \<or> i = 1 \<or> i = 2 \<or> i = 3" if "i \<le> n" for i using that \<open>n \<le> 3\<close> by linarith
    then show ?thesis by blast
  qed
  have "?l \<le> 3" using assms(2) by linarith
  note ex = ex [unfolded le [OF this]]
  consider "slots \<le> 64" "?l = 0" | "64 < slots" "slots \<le> 128" "?l = 1" | "128 < slots" "slots \<le> 192" "?l = 2"
    | "192 < slots" "?l = 3" using assms by linarith
  then show ?thesis
    using m [of 0] m [of 1] m [of 2] m [of 3] unfolding ex
    by cases (simp add: has_free_slots_bitmap_def Let_def; blast)+
qed

lemma word_zero_bits: "(x :: u64) = 0 \<longleftrightarrow> (\<forall>j < 64. \<not> bit x j)"
  by (auto simp: bit_eq_iff)

lemma all_four: "(\<forall>n < 4. P n) \<longleftrightarrow> P 0 \<and> P 1 \<and> P 2 \<and> P (3 :: nat)"
proof (intro iffI conjI allI impI)
  fix n :: nat assume p: "P 0 \<and> P 1 \<and> P 2 \<and> P 3" and "n < 4"
  then consider "n = 0" | "n = 1" | "n = 2" | "n = 3" by linarith
  then show "P n" using p by cases simp_all
qed simp_all

lemma is_free_slab_bitmap_iff: "is_free_slab_bitmap md \<longleftrightarrow> (\<forall>i < 256. \<not> bit (md_bitmap md ! (i div 64)) (i mod 64))"
proof -
  have "is_free_slab_bitmap md \<longleftrightarrow> (\<forall>n < 4. \<forall>j < 64. \<not> bit (md_bitmap md ! n) j)"
    by (simp only: is_free_slab_bitmap_def word_zero_bits all_four)
  also have "\<dots> \<longleftrightarrow> (\<forall>i < 256. \<not> bit (md_bitmap md ! (i div 64)) (i mod 64))"
  proof (intro iffI allI impI)
    fix n j :: nat assume a: "\<forall>i < 256. \<not> bit (md_bitmap md ! (i div 64)) (i mod 64)" and "n < 4" "j < 64"
    then show "\<not> bit (md_bitmap md ! n) j" using a [rule_format, of "64 * n + j"] by simp
  qed simp
  finally show ?thesis .
qed

text \<open>
  The two ways to look at a slab agree: with consistent metadata (the count is the number of bits that are set, and
  no bit beyond the last slot is), the test on the bitmap for a free slot, and the one for a slab that is not in use,
  give the same answers as those on the count, for every number of slots that the bitmap has room for.
\<close>

lemma bitmap_agrees_with_count:
  assumes "metadata_ok slots md" "0 < slots" "slots \<le> 256"
  shows "has_free_slots_bitmap slots md = has_free_slots slots md \<and> is_free_slab_bitmap md = is_free_slab md"
proof
  show "has_free_slots_bitmap slots md = has_free_slots slots md"
    using has_free_slots_bitmap_iff [OF assms(2,3)] has_free_slots_iff [OF assms(1,3)] by simp
  have "used_slots md = {i. i < 256 \<and> bit (md_bitmap md ! (i div 64)) (i mod 64)}"
    by (auto simp: used.members_def is_used_slot_def bitmap_test_bit)
  then show "is_free_slab_bitmap md = is_free_slab md"
    using is_free_slab_iff [OF assms(1)] by (auto simp: is_free_slab_bitmap_iff)
qed

end
