(* ===== verification/Locks.thy ===== *)
theory Locks
  imports Init
begin

text \<open>
  The locks of \<^verbatim>\<open>src/mutex.h\<close> and the order in which \<^verbatim>\<open>src/h_malloc.c\<close> takes them: one for initialisation, one for the
  region allocator and one for each class of each arena. Threads are modelled by the lock operations that their calls
  have still to do. Every operation of the other theories on a class or on the region allocator is the work that is
  done between taking a lock and giving it back.
\<close>

section \<open>Mutexes\<close>

datatype lock = Init_lock | Region_lock | Class_lock nat nat

datatype lock_op = Lock lock | Unlock lock

type_synonym thread = nat
type_synonym owners = "lock \<rightharpoonup> thread"

text \<open>\<open>None\<close>: the thread has to wait, or (for a mutex that it does not hold) must not unlock.\<close>

definition mutex_lock :: "thread \<Rightarrow> lock \<Rightarrow> owners \<Rightarrow> owners option" where
  "mutex_lock t l ow = (if ow l = None then Some (ow(l \<mapsto> t)) else None)"

definition mutex_unlock :: "thread \<Rightarrow> lock \<Rightarrow> owners \<Rightarrow> owners option" where
  "mutex_unlock t l ow = (if ow l = Some t then Some (ow(l := None)) else None)"

fun mutex_op :: "thread \<Rightarrow> lock_op \<Rightarrow> owners \<Rightarrow> owners option" where
  "mutex_op t (Lock l) ow = mutex_lock t l ow"
| "mutex_op t (Unlock l) ow = mutex_unlock t l ow"

section \<open>What the functions lock\<close>

definition critical :: "lock \<Rightarrow> lock_op list" where
  "critical l = [Lock l, Unlock l]"

definition class_locks :: "config \<Rightarrow> lock list" where
  "class_locks cfg = map (\<lambda>(a, k). Class_lock a k) (all_classes cfg)"

definition full_lock :: "config \<Rightarrow> lock_op list" where
  "full_lock cfg = Lock Region_lock # map Lock (class_locks cfg)"

definition full_unlock :: "config \<Rightarrow> lock_op list" where
  "full_unlock cfg = Unlock Region_lock # map Unlock (class_locks cfg)"

text \<open>
  The calls: work on one class (allocation, deallocation, checks), on the region allocator (in one or more sections), the
  slow path of initialisation, the loops over all classes of \<^verbatim>\<open>h_malloc_trim\<close>, \<^verbatim>\<open>h_mallinfo2\<close> and \<^verbatim>\<open>h_malloc_info\<close>,
  \<^verbatim>\<open>h_realloc\<close> and other combinations as sequences of these, a fork in its parent (and
  \<^verbatim>\<open>h_malloc_disable\<close> followed by \<^verbatim>\<open>h_malloc_enable\<close>), and \<^verbatim>\<open>h_malloc_disable_memory_tagging\<close> before and after
  initialisation.
\<close>

datatype lock_call = On_class nat nat | On_regions | Init_slow_path | Over_classes "lock list" | Fork | Disable_memory_tagging bool

fun call_locks :: "config \<Rightarrow> lock_call \<Rightarrow> lock_op list" where
  "call_locks cfg (On_class a k) = critical (Class_lock a k)"
| "call_locks cfg On_regions = critical Region_lock"
| "call_locks cfg Init_slow_path = critical Init_lock"
| "call_locks cfg (Over_classes ls) = concat (map critical ls)"
| "call_locks cfg Fork = full_lock cfg @ full_unlock cfg"
| "call_locks cfg (Disable_memory_tagging need_init_lock) =
     (if need_init_lock then Lock Init_lock # full_lock cfg @ full_unlock cfg @ [Unlock Init_lock]
      else full_lock cfg @ full_unlock cfg)"

section \<open>Threads\<close>

record threads =
  todo :: "thread \<Rightarrow> lock_op list"
  owner :: owners

text \<open>One lock operation of a thread.\<close>

definition lock_step :: "thread \<Rightarrow> threads \<Rightarrow> threads option" where
  "lock_step t s =
     (case todo s t of
        [] \<Rightarrow> None
      | x # xs \<Rightarrow> map_option (\<lambda>ow. \<lparr>todo = (todo s)(t := xs), owner = ow\<rparr>) (mutex_op t x (owner s)))"

text \<open>The states of \<open>n\<close> threads that make any calls, in any order, interleaved at the lock operations.\<close>

inductive lock_reach :: "config \<Rightarrow> nat \<Rightarrow> threads \<Rightarrow> bool" for cfg n where
  start: "lock_reach cfg n \<lparr>todo = \<lambda>_. [], owner = Map.empty\<rparr>"
| call: "lock_reach cfg n s \<Longrightarrow> t < n \<Longrightarrow> todo s t = [] \<Longrightarrow>
    lock_reach cfg n (s\<lparr>todo := (todo s)(t := call_locks cfg c)\<rparr>)"
| step: "lock_reach cfg n s \<Longrightarrow> lock_step t s = Some s' \<Longrightarrow> lock_reach cfg n s'"

inductive_cases lock_reach_cases: "lock_reach cfg n s"

section \<open>The order of the locks\<close>

fun rank :: "config \<Rightarrow> lock \<Rightarrow> nat" where
  "rank cfg Init_lock = 0"
| "rank cfg Region_lock = 1"
| "rank cfg (Class_lock a k) = 2 + a * N_SIZE_CLASSES cfg + k"

text \<open>Operations that take locks in the order of their rank, give back only what they hold, and in the end everything.\<close>

fun disciplined :: "config \<Rightarrow> lock set \<Rightarrow> lock_op list \<Rightarrow> bool" where
  "disciplined cfg H [] \<longleftrightarrow> H = {}"
| "disciplined cfg H (Lock l # xs) \<longleftrightarrow> (\<forall>h \<in> H. rank cfg h < rank cfg l) \<and> disciplined cfg (insert l H) xs"
| "disciplined cfg H (Unlock l # xs) \<longleftrightarrow> l \<in> H \<and> disciplined cfg (H - {l}) xs"

lemma disciplined_locks:
  assumes "sorted_wrt (\<lambda>x y. rank cfg x < rank cfg y) ls" "\<forall>h \<in> H. \<forall>l \<in> set ls. rank cfg h < rank cfg l"
    and "disciplined cfg (H \<union> set ls) xs"
  shows "disciplined cfg H (map Lock ls @ xs)"
  using assms by (induction ls arbitrary: H) auto

lemma disciplined_unlocks:
  assumes "distinct ls" "set ls \<subseteq> H" "disciplined cfg (H - set ls) xs"
  shows "disciplined cfg H (map Unlock ls @ xs)"
  using assms
proof (induction ls arbitrary: H)
  case (Cons l ls)
  have "H - set (l # ls) = (H - {l}) - set ls" by auto
  then have "disciplined cfg (H - {l}) (map Unlock ls @ xs)" using Cons.prems by (intro Cons.IH) auto
  then show ?case using Cons.prems(2) by simp
qed simp

lemma disciplined_holds: "disciplined cfg H (map Unlock ls @ xs) \<Longrightarrow> set ls \<subseteq> H"
  by (induction ls arbitrary: H) auto

lemma class_rank_less:
  assumes "k < N_SIZE_CLASSES cfg" "a < a' \<or> a = a' \<and> k < k'"
  shows "rank cfg (Class_lock a k) < rank cfg (Class_lock a' k')"
proof (cases "a = a'")
  case False
  then have "(a + 1) * N_SIZE_CLASSES cfg \<le> a' * N_SIZE_CLASSES cfg" using assms(2) by (intro mult_le_mono1) simp
  then show ?thesis using assms(1) by simp
qed (use assms in simp)

lemma class_locks_sorted: "sorted_wrt (\<lambda>x y. rank cfg x < rank cfg y) (class_locks cfg)"
proof -
  have 1: "sorted_wrt (\<lambda>x y. rank cfg x < rank cfg y) (map (Class_lock a) ks)"
    if "sorted_wrt (<) ks" for a ks
    using that by (simp add: sorted_wrt_map)
  have "sorted_wrt (\<lambda>x y. rank cfg x < rank cfg y) (map (\<lambda>(a, k). Class_lock a k) (List.product as [0..<N_SIZE_CLASSES cfg]))"
    if "sorted_wrt (<) as" for as
    using that
  proof (induction as)
    case (Cons a as)
    have "(\<lambda>(a, k). Class_lock a k) \<circ> Pair a = Class_lock a" by auto
    then show ?case
      using Cons 1 [of "[0..<N_SIZE_CLASSES cfg]" a] by (auto simp: sorted_wrt_append simp del: rank.simps intro!: class_rank_less)
  qed simp
  then show ?thesis by (simp add: class_locks_def all_classes_def)
qed

lemma sorted_rank_distinct: "sorted_wrt (\<lambda>x y. rank cfg x < rank cfg y) ls \<Longrightarrow> distinct ls"
  by (induction ls) auto

lemma all_locks_sorted: "sorted_wrt (\<lambda>x y. rank cfg x < rank cfg y) (Region_lock # class_locks cfg)"
  using class_locks_sorted [of cfg] by (auto simp: class_locks_def)

lemma full_locks_eq: "full_lock cfg = map Lock (Region_lock # class_locks cfg)" "full_unlock cfg = map Unlock (Region_lock # class_locks cfg)"
  by (simp_all add: full_lock_def full_unlock_def)

lemma disciplined_full:
  assumes "\<forall>h \<in> H. rank cfg h = 0" "disciplined cfg H xs"
  shows "disciplined cfg H (full_lock cfg @ full_unlock cfg @ xs)"
proof -
  let ?ls = "Region_lock # class_locks cfg"
  have pos: "\<forall>l \<in> set ?ls. 0 < rank cfg l" by (auto simp: class_locks_def)
  then have "H \<inter> set ?ls = {}" using assms(1) by fastforce
  then have "H \<union> set ?ls - set ?ls = H" by auto
  then show ?thesis
    unfolding full_locks_eq using pos assms all_locks_sorted sorted_rank_distinct [OF all_locks_sorted]
    by (intro disciplined_locks disciplined_unlocks) auto
qed

lemma disciplined_critical: "disciplined cfg {} xs \<Longrightarrow> disciplined cfg {} (critical l @ xs)"
  by (simp add: critical_def)

lemma disciplined_call: "disciplined cfg {} (call_locks cfg c)"
proof (cases c)
  case (Over_classes ls)
  have "disciplined cfg {} (concat (map critical ls))" by (induction ls) (simp_all add: disciplined_critical)
  then show ?thesis using Over_classes by simp
next
  case Fork
  then show ?thesis using disciplined_full [of "{}" cfg "[]"] by simp
next
  case (Disable_memory_tagging b)
  then show ?thesis
    using disciplined_full [of "{}" cfg "[]"] disciplined_full [of "{Init_lock}" cfg "[Unlock Init_lock]"] by simp
qed (simp_all add: critical_def)

section \<open>The invariant\<close>

definition held :: "owners \<Rightarrow> thread \<Rightarrow> lock set" where
  "held ow t = {l. ow l = Some t}"

lemma lock_step_disciplined:
  assumes "lock_step t s = Some s'" "\<forall>u. disciplined cfg (held (owner s) u) (todo s u)"
  shows "disciplined cfg (held (owner s') u) (todo s' u)"
proof -
  obtain x xs where x: "todo s t = x # xs" using assms(1) by (auto simp: lock_step_def split: list.splits)
  obtain ow where ow: "mutex_op t x (owner s) = Some ow" and s': "s' = \<lparr>todo = (todo s)(t := xs), owner = ow\<rparr>"
    using assms(1) x by (auto simp: lock_step_def)
  note t = assms(2) [rule_format, of t, unfolded x]
  show ?thesis
  proof (cases x)
    case (Lock l)
    then have "owner s l = None" "ow = (owner s)(l \<mapsto> t)" using ow by (auto simp: mutex_lock_def split: if_splits)
    then have "held ow u = (if u = t then insert l (held (owner s) t) else held (owner s) u)" by (auto simp: held_def)
    then show ?thesis using assms(2) t by (simp add: s' Lock)
  next
    case (Unlock l)
    then have "owner s l = Some t" "ow = (owner s)(l := None)" using ow by (auto simp: mutex_unlock_def split: if_splits)
    then have "held ow u = (if u = t then held (owner s) t - {l} else held (owner s) u)" by (auto simp: held_def)
    then show ?thesis using assms(2) t by (simp add: s' Unlock)
  qed
qed

lemma lock_reach_disciplined:
  assumes "lock_reach cfg n s"
  shows "\<forall>u. disciplined cfg (held (owner s) u) (todo s u)"
  using assms
proof induction
  case (call s t c)
  have "held (owner s) t = {}" using call(3,4) by (metis disciplined.simps(1))
  then show ?case using call(4) disciplined_call [of cfg c] by simp
next
  case (step s t s')
  then show ?case using lock_step_disciplined by blast
qed (simp add: held_def)

lemma lock_reach_threads:
  assumes "lock_reach cfg n s" "todo s t \<noteq> []"
  shows "t < n"
  using assms by induction (auto simp: lock_step_def split: list.splits if_splits)

section \<open>Properties\<close>

text \<open>
  C19. The locks cannot deadlock: however many threads call the functions of the allocator, fork, and stop the allocator
  and start it again, in any interleaving, as long as one of them has not finished its call some thread can do its next
  lock operation.
\<close>

theorem locks_no_deadlock:
  assumes "lock_reach cfg n s" "todo s t \<noteq> []"
  shows "\<exists>u s'. lock_step u s = Some s'"
proof (rule ccontr)
  assume no: "\<not> ?thesis"
  note inv = lock_reach_disciplined [OF assms(1)]
  have wait: "\<exists>l v. hd (todo s u) = Lock l \<and> owner s l = Some v" if u: "todo s u \<noteq> []" for u
  proof -
    obtain x xs where x: "todo s u = x # xs" using u by (cases "todo s u") auto
    have "mutex_op u x (owner s) = None" 
    proof (rule ccontr)
      assume "mutex_op u x (owner s) \<noteq> None"
      then have "\<exists>s'. lock_step u s = Some s'" using x by (auto simp: lock_step_def)
      with no show False by blast
    qed
    moreover have "x = Unlock l \<Longrightarrow> owner s l = Some u" for l using inv [rule_format, of u] x by (simp add: held_def)
    ultimately show ?thesis using x by (cases x) (auto simp: mutex_lock_def mutex_unlock_def split: if_splits)
  qed
  define want where "want u = (case hd (todo s u) of Lock l \<Rightarrow> rank cfg l | Unlock l \<Rightarrow> 0)" for u
  let ?W = "{u. todo s u \<noteq> []}"
  have "?W \<subseteq> {..<n}" using lock_reach_threads [OF assms(1)] by auto
  then have "finite ?W" by (rule finite_subset) simp
  then have fin: "finite (want ` ?W)" by (rule finite_imageI)
  have "Max (want ` ?W) \<in> want ` ?W" using fin assms(2) by (intro Max_in) auto
  then obtain u where u: "todo s u \<noteq> []" and max: "want u = Max (want ` ?W)" by auto
  have le: "want v \<le> want u" if "todo s v \<noteq> []" for v unfolding max using fin that by (intro Max_ge) auto
  from wait [OF u] obtain l v where l: "hd (todo s u) = Lock l" "owner s l = Some v" by blast
  have lv: "l \<in> held (owner s) v" using l(2) by (simp add: held_def)
  then have v: "todo s v \<noteq> []" using inv [rule_format, of v] by (cases "todo s v") auto
  from wait [OF v] obtain l' where l': "hd (todo s v) = Lock l'" by blast
  then obtain xs where "todo s v = Lock l' # xs" using v by (cases "todo s v") auto
  then have "rank cfg l < rank cfg l'" using inv [rule_format, of v] lv by simp
  with le [OF v] l l' show False by (simp add: want_def)
qed

text \<open>A thread that forks while another allocates.\<close>

theorem locks_no_deadlock_witness:
  "\<exists>s u s'. lock_reach default_config 2 s \<and> todo s 0 \<noteq> [] \<and> todo s 1 \<noteq> [] \<and> lock_step u s = Some s'"
proof -
  let ?s = "\<lparr>todo = (\<lambda>_. [])(0 := call_locks default_config Fork, 1 := call_locks default_config On_regions), owner = Map.empty\<rparr> :: threads"
  have "lock_reach default_config 2 ?s"
    using lock_reach.call [OF lock_reach.call [OF lock_reach.start, of 0 2 default_config Fork], of 1 On_regions] by simp
  moreover have "todo ?s 0 \<noteq> []" "todo ?s 1 \<noteq> []" by (simp_all add: full_lock_def critical_def)
  ultimately show ?thesis using locks_no_deadlock [of default_config 2 ?s 0] by blast
qed

text \<open>
  C20. \<^verbatim>\<open>full_lock\<close> stops the allocator: when a thread has done it, and has still to do \<^verbatim>\<open>full_unlock\<close>, no other thread is
  inside a section on the region allocator or on any class, so a fork at this moment copies a state between operations.
\<close>

theorem full_lock_excludes:
  assumes "lock_reach cfg n s" "todo s t = full_unlock cfg @ ops"
  shows "owner s Region_lock = Some t \<and>
    (\<forall>a < N_ARENA cfg. \<forall>k < N_SIZE_CLASSES cfg. owner s (Class_lock a k) = Some t) \<and>
    (\<forall>u l ops'. todo s u = Unlock l # ops' \<and> u \<noteq> t \<longrightarrow> l \<notin> set (Region_lock # class_locks cfg))"
proof -
  note inv = lock_reach_disciplined [OF assms(1)]
  have h: "set (Region_lock # class_locks cfg) \<subseteq> held (owner s) t"
    using disciplined_holds [of cfg _ "Region_lock # class_locks cfg" ops] inv [rule_format, of t] assms(2) by (simp add: full_locks_eq)
  then have "owner s Region_lock = Some t" "\<And>a k. a < N_ARENA cfg \<Longrightarrow> k < N_SIZE_CLASSES cfg \<Longrightarrow> owner s (Class_lock a k) = Some t"
    by (force simp: held_def class_locks_def all_classes_def)+
  moreover have "l \<notin> set (Region_lock # class_locks cfg)" if "todo s u = Unlock l # ops'" "u \<noteq> t" for u l ops'
  proof -
    have "owner s l = Some u" using inv [rule_format, of u] that(1) by (simp add: held_def)
    then show ?thesis using h that(2) by (auto simp: held_def)
  qed
  ultimately show ?thesis by blast
qed

lemma full_lock_runs:
  "lock_reach cfg n s \<Longrightarrow> todo s t = map Lock ls @ xs \<Longrightarrow> (\<forall>l \<in> set ls. owner s l = None) \<Longrightarrow> distinct ls \<Longrightarrow>
   \<exists>s'. lock_reach cfg n s' \<and> todo s' t = xs"
proof (induction ls arbitrary: s)
  case (Cons l ls)
  let ?s = "\<lparr>todo = (todo s)(t := map Lock ls @ xs), owner = (owner s)(l \<mapsto> t)\<rparr>"
  have "lock_step t s = Some ?s" using Cons.prems by (simp add: lock_step_def mutex_lock_def)
  note s = lock_reach.step [OF Cons.prems(1) this]
  have "\<forall>l \<in> set ls. owner ?s l = None" using Cons.prems(3,4) by auto
  from Cons.IH [OF s _ this] Cons.prems(4) show ?case by simp
qed auto

theorem full_lock_excludes_witness:
  "\<exists>s. lock_reach default_config 1 s \<and> todo s 0 = full_unlock default_config \<and> owner s Region_lock = Some 0"
proof -
  let ?s = "\<lparr>todo = (\<lambda>_. [])(0 := call_locks default_config Fork), owner = Map.empty\<rparr> :: threads"
  have "lock_reach default_config 1 ?s"
    using lock_reach.call [OF lock_reach.start, of 0 1 default_config Fork] by simp
  then obtain s where s: "lock_reach default_config 1 s" "todo s 0 = full_unlock default_config"
    using full_lock_runs [of default_config 1 ?s 0 "Region_lock # class_locks default_config" "full_unlock default_config"]
      sorted_rank_distinct [OF all_locks_sorted] by (auto simp: full_locks_eq)
  with full_lock_excludes [OF s(1), of 0 "[]"] show ?thesis by auto
qed

end
