(* ===== verification/Memtag.thy ===== *)
theory Memtag
  imports Util Kernel
begin

text \<open>
  Memory tagging, for builds with \<^verbatim>\<open>HAS_ARM_MTE\<close>: the pointer arithmetic of \<^verbatim>\<open>src/memtag.h\<close>, the assembly routine of
  \<^verbatim>\<open>src/arm_mte.h\<close> that tags and clears a range, and \<^verbatim>\<open>tag_and_clear_slab_slot\<close> of \<^verbatim>\<open>src/h_malloc.c\<close>. The rest of
  the development models the build without memory tagging, in which these are the identity.
\<close>

unbundle bit_operations_syntax

section \<open>Tagged pointers\<close>

definition untag_pointer :: "ptr \<Rightarrow> ptr" where
  "untag_pointer p = p AND drop_bit 8 (0xFFFFFFFFFFFFFFFF)"

definition set_pointer_tag :: "ptr \<Rightarrow> u8 \<Rightarrow> ptr" where
  "set_pointer_tag p tag = push_bit 56 (ucast tag) OR untag_pointer p"

definition get_pointer_tag :: "ptr \<Rightarrow> u8" where
  "get_pointer_tag p = ucast (drop_bit 56 p AND 0xf)"

section \<open>Tagged memory\<close>

text \<open>
  The contents of memory and the tag of the 16-byte granule that an address is in. The store instructions ignore the
  top byte of the address they are given and take the tag from it.
\<close>

record mte =
  mte_mem :: memory
  mte_tag :: "ptr \<Rightarrow> u8"

text \<open>Tagging and clearing the aligned block of \<open>n\<close> bytes around an address: one granule, or one cache line.\<close>

definition tag_block :: "u64 \<Rightarrow> u64 \<Rightarrow> mte \<Rightarrow> mte" where
  "tag_block n cur m =
     \<lparr>mte_mem = (\<lambda>x. if x div n = untag_pointer cur div n then 0 else mte_mem m x),
      mte_tag = (\<lambda>x. if x div n = untag_pointer cur div n then get_pointer_tag cur else mte_tag m x)\<rparr>"

text \<open>\<^verbatim>\<open>stzg\<close> and \<^verbatim>\<open>dc gzva\<close>\<close>

definition stzg :: "u64 \<Rightarrow> mte \<Rightarrow> mte" where
  "stzg cur m = tag_block 16 cur m"

definition dc_gzva :: "u64 \<Rightarrow> u64 \<Rightarrow> mte \<Rightarrow> mte" where
  "dc_gzva LineSize cur m = tag_block LineSize cur m"

section \<open>The assembly routine\<close>

text \<open>The loops at the labels 1, 2 and 3; \<^verbatim>\<open>b.lt\<close> and \<^verbatim>\<open>b.ge\<close> compare signed.\<close>

partial_function (option) label1 :: "u64 \<Rightarrow> u64 \<Rightarrow> mte \<Rightarrow> (u64 \<times> mte) option" where
  "label1 Next Cur m =
     (let m = stzg Cur m; Cur = Cur + 16 in
      if Cur <s Next then label1 Next Cur m else Some (Cur, m))"

partial_function (option) label2 :: "u64 \<Rightarrow> u64 \<Rightarrow> u64 \<Rightarrow> mte \<Rightarrow> (u64 \<times> mte) option" where
  "label2 LineSize Next Cur m =
     (let m = dc_gzva LineSize Cur m; Cur = Cur + LineSize in
      if Cur <s Next then label2 LineSize Next Cur m else Some (Cur, m))"

partial_function (option) label3 :: "u64 \<Rightarrow> u64 \<Rightarrow> mte \<Rightarrow> mte option" where
  "label3 End Cur m =
     (if End \<le>s Cur then Some m else label3 End (Cur + 16) (stzg Cur m))"

text \<open>\<open>dczid\<close> is the value of the register \<^verbatim>\<open>dczid_el0\<close>; \<open>None\<close> is a run that does not end.\<close>

definition arm_mte_tag_and_clear_mem :: "u64 \<Rightarrow> ptr \<Rightarrow> size_t \<Rightarrow> mte \<Rightarrow> mte option" where
  "arm_mte_tag_and_clear_mem dczid tagged_ptr len m =
     (let Begin = tagged_ptr; End = Begin + len in
      if bit dczid 4 then label3 End Begin m
      else
        let LineSize = push_bit (unat (dczid AND 15)) 4 in
        if End - Begin <s push_bit 1 LineSize then label3 End Begin m
        else
          let LineMask = LineSize - 1 in
          case label1 (Begin OR LineMask) Begin m of
            None \<Rightarrow> None
          | Some (Cur, m) \<Rightarrow>
              (case label2 LineSize (End AND NOT LineMask) Cur m of
                 None \<Rightarrow> None
               | Some (Cur, m) \<Rightarrow> label3 End Cur m))"

section \<open>Tagging a slot\<close>

definition RESERVED_TAG :: nat where
  "RESERVED_TAG = 0"

text \<open>
  \<open>create_random_tag\<close> is the instruction \<^verbatim>\<open>IRG\<close> behind \<^verbatim>\<open>arm_mte_create_random_tag\<close>; \<open>slot_tags\<close> is
  \<^verbatim>\<open>metadata->arm_mte_tags\<close>.
\<close>

definition tag_and_clear_slab_slot ::
    "(ptr \<Rightarrow> u64 \<Rightarrow> ptr) \<Rightarrow> u64 \<Rightarrow> u8 list \<Rightarrow> ptr \<Rightarrow> nat \<Rightarrow> size_t \<Rightarrow> mte \<Rightarrow> (ptr \<times> u8 list \<times> mte) option" where
  "tag_and_clear_slab_slot create_random_tag dczid slot_tags slot_ptr slot_idx slot_size m =
     (let tem = push_bit RESERVED_TAG 1;
          tem = tem OR push_bit (unat (u4_arr_get slot_tags slot_idx)) 1;
          tem = tem OR push_bit (unat (u4_arr_get slot_tags (slot_idx + 1))) 1;
          tem = tem OR push_bit (unat (u4_arr_get slot_tags (slot_idx + 2))) 1;
          tagged_ptr = create_random_tag slot_ptr tem in
      case arm_mte_tag_and_clear_mem dczid tagged_ptr slot_size m of
        None \<Rightarrow> None
      | Some m \<Rightarrow> Some (tagged_ptr, u4_arr_set slot_tags (slot_idx + 1) (get_pointer_tag tagged_ptr), m))"

section \<open>Facts\<close>

lemma unat_untag_pointer [unat_simps]: "unat (untag_pointer p) = unat p mod 2 ^ 56"
proof -
  have "(drop_bit 8 0xFFFFFFFFFFFFFFFF :: u64) = mask 56" by (simp add: mask_eq_decr_exp)
  then show ?thesis by (simp only: untag_pointer_def unat_and_mask)
qed

lemma unat_get_pointer_tag [unat_simps]: "unat (get_pointer_tag p) = unat p div 2 ^ 56 mod 16"
proof -
  have m: "(0xf :: u64) = mask 4" by (simp add: mask_eq_decr_exp)
  have "unat (drop_bit 56 p AND 0xf) = unat p div 2 ^ 56 mod 2 ^ 4" by (simp only: m unat_and_mask unat_drop_bit)
  then have "unat (drop_bit 56 p AND 0xf) mod 2 ^ 8 = unat p div 2 ^ 56 mod 16" by simp
  then show ?thesis unfolding get_pointer_tag_def by (simp only: unat_ucast) simp
qed

lemma unat_or_mask: "n < LENGTH('a) \<Longrightarrow> unat (w OR mask n :: 'a::len word) = unat w div 2 ^ n * 2 ^ n + (2 ^ n - 1)"
proof -
  assume n: "n < LENGTH('a)"
  have "w OR mask n = push_bit n (drop_bit n w) OR mask n"
    by (rule bit_word_eqI) (auto simp: bit_simps)
  also have "\<dots> = push_bit n (drop_bit n w) + mask n"
    by (rule disjunctive_add [symmetric]) (auto simp: bit_simps)
  finally have eq: "w OR mask n = (w AND NOT (mask n)) + mask n" by (simp only: word_and_not_mask)
  have "(1 :: 'a word) \<le> 2 ^ n" using n by (simp add: word_le_nat_alt unat_2p)
  then have um: "unat (mask n :: 'a word) = 2 ^ n - 1"
    using n by (simp add: word_2p_minus_1 [symmetric] unat_sub unat_2p)
  have "unat w div 2 ^ n * 2 ^ n + (2 ^ n - 1) < 2 ^ LENGTH('a)"
  proof -
    obtain d where d: "LENGTH('a) = n + d" using n by (metis less_imp_add_positive)
    have "unat w < 2 ^ d * 2 ^ n" using unsigned_less [of w] by (simp add: d power_add mult.commute)
    then have "unat w div 2 ^ n < 2 ^ d" by (rule less_mult_imp_div_less)
    then have "(unat w div 2 ^ n + 1) * 2 ^ n \<le> 2 ^ d * 2 ^ n" by (intro mult_le_mono1) simp
    then have "unat w div 2 ^ n * 2 ^ n + 2 ^ n \<le> 2 ^ n * 2 ^ d" by (simp add: algebra_simps)
    moreover have "x + (k - 1) < z" if "x + k \<le> z" "0 < k" for x k z :: nat using that by linarith
    ultimately show ?thesis unfolding d power_add by simp
  qed
  then show ?thesis unfolding eq by (subst unat_add_lt) (simp_all only: um unat_and_not_mask)
qed

lemma signed_less_nat:
  fixes x y :: u64
  assumes "unat x < 2 ^ 63" "unat y < 2 ^ 63"
  shows "x <s y \<longleftrightarrow> unat x < unat y" "x \<le>s y \<longleftrightarrow> unat x \<le> unat y"
proof -
  have "sint z = uint z" if "unat z < 2 ^ 63" for z :: u64
  proof -
    have "uint z < 2 ^ 63" using that by (metis of_nat_less_iff of_nat_numeral of_nat_power uint_nat)
    moreover have "- (2 ^ 63) \<le> uint z" by (rule order_trans [of _ 0]) simp_all
    ultimately show ?thesis using signed_take_bit_int_eq_self [of 63 "uint z"] by (simp add: sint_uint)
  qed
  then have "sint x = uint x" "sint y = uint y" using assms by blast+
  then show "x <s y \<longleftrightarrow> unat x < unat y" "x \<le>s y \<longleftrightarrow> unat x \<le> unat y"
    by (simp_all only: word_sless_alt word_sle_eq word_less_def [symmetric] word_le_def [symmetric] word_less_nat_alt word_le_nat_alt)
qed

section \<open>The routine tags and clears its range\<close>

definition clear_range :: "nat \<Rightarrow> nat \<Rightarrow> nat \<Rightarrow> mte \<Rightarrow> mte" where
  "clear_range t a b m =
     \<lparr>mte_mem = (\<lambda>x. if a \<le> unat x \<and> unat x < b then 0 else mte_mem m x),
      mte_tag = (\<lambda>x. if a \<le> unat x \<and> unat x < b then of_nat t else mte_tag m x)\<rparr>"

lemma clear_range_append: "a \<le> b \<Longrightarrow> b \<le> c \<Longrightarrow> clear_range t b c (clear_range t a b m) = clear_range t a c m"
  by (auto simp: clear_range_def fun_eq_iff)

lemma clear_range_empty [simp]: "clear_range t a a m = m"
  by (cases m) (auto simp: clear_range_def fun_eq_iff)

text \<open>\<open>tagged t a p\<close>: the pointer \<open>p\<close> has the tag \<open>t\<close> and the address \<open>a\<close>, which may be the end of the address space.\<close>

definition tagged :: "nat \<Rightarrow> nat \<Rightarrow> u64 \<Rightarrow> bool" where
  "tagged t a p \<longleftrightarrow> t < 16 \<and> a \<le> 2 ^ 56 \<and> unat p = t * 2 ^ 56 + a"

lemma tagged_add:
  assumes "tagged t a p" "a + unat n \<le> 2 ^ 56"
  shows "tagged t (a + unat n) (p + n)"
proof -
  have "t * 2 ^ 56 \<le> 15 * 2 ^ 56" using assms(1) by (intro mult_le_mono1) (simp add: tagged_def)
  then have "unat p + unat n < 2 ^ 64" using assms by (simp add: tagged_def)
  then show ?thesis using assms by (simp add: tagged_def unat_add_lt)
qed

lemma tagged_less:
  assumes "tagged t a p" "tagged t b q"
  shows "p <s q \<longleftrightarrow> a < b" "p \<le>s q \<longleftrightarrow> a \<le> b"
proof -
  have "t * 2 ^ 56 \<le> 15 * 2 ^ 56" using assms(1) by (intro mult_le_mono1) (simp add: tagged_def)
  then have "unat p < 2 ^ 63" "unat q < 2 ^ 63" using assms by (simp_all add: tagged_def)
  from signed_less_nat [OF this] show "p <s q \<longleftrightarrow> a < b" "p \<le>s q \<longleftrightarrow> a \<le> b" using assms by (simp_all add: tagged_def)
qed

lemma tag_block_eq:
  assumes "tagged t a p" "a + unat n \<le> 2 ^ 56" "unat n dvd a" "0 < unat n"
  shows "tag_block n p m = clear_range t a (a + unat n) m"
proof -
  have lt: "a < 2 ^ 56" using assms(2,4) by simp
  then have u: "unat (untag_pointer p) = a" "unat p div 2 ^ 56 = t"
    using assms(1) by (simp_all only: unat_simps tagged_def) simp_all
  have "unat (get_pointer_tag p) = t" using u(2) assms(1) by (simp only: unat_get_pointer_tag tagged_def) simp
  then have g: "get_pointer_tag p = of_nat t" by (metis of_nat_unat ucast_id)
  obtain k where k: "a = k * unat n" using assms(3) by (metis dvd_def mult.commute)
  have "x div n = untag_pointer p div n \<longleftrightarrow> a \<le> unat x \<and> unat x < a + unat n" for x
  proof -
    have "x div n = untag_pointer p div n \<longleftrightarrow> unat x div unat n = k"
      using assms(4) by (simp add: word_unat_eq_iff unat_div u(1) k)
    also have "\<dots> \<longleftrightarrow> k * unat n \<le> unat x \<and> unat x < Suc k * unat n"
      using assms(4) dividend_less_div_times [of "unat n" "unat x"] by (auto intro: div_nat_eqI simp: mult.commute)
    finally show ?thesis by (simp add: k add.commute)
  qed
  then show ?thesis unfolding tag_block_def clear_range_def g by (simp only:)
qed

lemma stzg_eq:
  assumes "tagged t a p" "16 dvd a" "a + 16 \<le> 2 ^ 56"
  shows "stzg p m = clear_range t a (a + 16) m" "tagged t (a + 16) (p + 16)"
  using tag_block_eq [OF assms(1), of 16] tagged_add [OF assms(1), of 16] assms(2,3) by (simp_all add: stzg_def)

lemma label3_ok:
  assumes "tagged t a Cur" "tagged t e End" "a \<le> e" "16 dvd a" "16 dvd e"
  shows "label3 End Cur m = Some (clear_range t a e m)"
  using assms
proof (induction "e - a" arbitrary: a Cur m rule: less_induct)
  case less
  note c = tagged_less(2) [OF less.prems(2,1)]
  show ?case
  proof (cases "a = e")
    case True
    then show ?thesis using c by (simp add: label3.simps)
  next
    case False
    have le: "a + 16 \<le> e" using less.prems(3-5) False by (auto elim!: dvdE)
    have "a + 16 \<le> 2 ^ 56" using le less.prems(2) by (simp add: tagged_def)
    note s = stzg_eq [OF less.prems(1,4) this]
    have "label3 End (Cur + 16) (clear_range t a (a + 16) m) = Some (clear_range t (a + 16) e (clear_range t a (a + 16) m))"
      by (rule less.hyps [OF _ s(2) less.prems(2)]) (use le less.prems in auto)
    then show ?thesis using c le False by (simp add: label3.simps [of End Cur] s(1) clear_range_append)
  qed
qed

lemma label1_ok:
  assumes "tagged t a Cur" "tagged t (b - 1) Next" "a < b" "16 dvd a" "16 dvd b" "b \<le> 2 ^ 56"
  shows "\<exists>Cur'. label1 Next Cur m = Some (Cur', clear_range t a b m) \<and> tagged t b Cur'"
  using assms
proof (induction "b - a" arbitrary: a Cur m rule: less_induct)
  case less
  have le: "a + 16 \<le> b" using less.prems(3-5) by (auto elim!: dvdE)
  then have "a + 16 \<le> 2 ^ 56" using less.prems(6) by simp
  note s = stzg_eq [OF less.prems(1,4) this]
  note c = tagged_less(1) [OF s(2) less.prems(2)]
  show ?case
  proof (cases "a + 16 = b")
    case True
    moreover from this have "\<not> Cur + 16 <s Next" using c by simp
    ultimately show ?thesis using s by (simp add: label1.simps [of Next Cur] Let_def)
  next
    case False
    then have "a + 32 \<le> b" using less.prems(3-5) by (elim dvdE) presburger
    then have lt: "a + 16 < b" "Cur + 16 <s Next" using c by simp_all
    have "\<exists>Cur'. label1 Next (Cur + 16) (clear_range t a (a + 16) m) =
        Some (Cur', clear_range t (a + 16) b (clear_range t a (a + 16) m)) \<and> tagged t b Cur'"
      by (rule less.hyps [OF _ s(2) less.prems(2)]) (use lt less.prems in auto)
    then show ?thesis using lt by (simp add: label1.simps [of Next Cur] Let_def s(1) clear_range_append)
  qed
qed

lemma label2_ok:
  assumes "tagged t a Cur" "tagged t b Next" "a < b" "unat n dvd a" "unat n dvd b" "b \<le> 2 ^ 56" "0 < unat n"
  shows "\<exists>Cur'. label2 n Next Cur m = Some (Cur', clear_range t a b m) \<and> tagged t b Cur'"
  using assms
proof (induction "b - a" arbitrary: a Cur m rule: less_induct)
  case less
  have le: "a + unat n \<le> b"
  proof -
    have "unat n dvd b - a" using less.prems(4,5) by (rule dvd_diff_nat [rotated])
    then have "unat n \<le> b - a" using less.prems(3) by (intro dvd_imp_le) simp_all
    then show ?thesis using less.prems(3) by simp
  qed
  then have room: "a + unat n \<le> 2 ^ 56" using less.prems(6) by simp
  note s = tag_block_eq [OF less.prems(1) room less.prems(4,7), folded dc_gzva_def] tagged_add [OF less.prems(1) room]
  note c = tagged_less(1) [OF s(2) less.prems(2)]
  show ?case
  proof (cases "a + unat n = b")
    case True
    then show ?thesis using c s by (simp add: label2.simps [of n Next Cur] Let_def)
  next
    case False
    then have lt: "a + unat n < b" using le by simp
    have "\<exists>Cur'. label2 n Next (Cur + n) (clear_range t a (a + unat n) m) =
        Some (Cur', clear_range t (a + unat n) b (clear_range t a (a + unat n) m)) \<and> tagged t b Cur'"
      by (rule less.hyps [OF _ s(2) less.prems(2)]) (use lt less.prems in auto)
    then show ?thesis using c lt by (simp add: label2.simps [of n Next Cur] Let_def s(1) clear_range_append)
  qed
qed

text \<open>The three loops together: first to the next cache line, then whole lines, then the rest.\<close>

lemma lines_ok:
  assumes "tagged t a Begin" "tagged t e End" "16 dvd a" "16 dvd e" "n = 2 ^ j" "4 \<le> j" "j \<le> 17" "a + 2 * 2 ^ j \<le> e"
  shows "\<exists>Cur Cur' m'. label1 (Begin OR (n - 1)) Begin m = Some (Cur, m') \<and>
    (\<exists>m''. label2 n (End AND NOT (n - 1)) Cur m' = Some (Cur', m'') \<and> label3 End Cur' m'' = Some (clear_range t a e m))"
proof -
  let ?L = "2 ^ j :: nat"
  define K where "K = t * (2::nat) ^ 56"
  have K: "tagged t x p \<longleftrightarrow> t < 16 \<and> x \<le> 2 ^ 56 \<and> unat p = K + x" for x p by (simp only: tagged_def K_def)
  have n: "unat n = ?L" "n - 1 = mask j" using assms(5,7) by (simp_all add: unat_2p word_2p_minus_1)
  have L16: "16 dvd ?L" using le_imp_power_dvd [OF assms(6), of "2::nat"] by simp
  have LK: "?L dvd K" using le_imp_power_dvd [of j 56 "2::nat"] assms(7) by (simp add: K_def)
  have e: "e \<le> 2 ^ 56" and t: "t < 16" using assms(2) by (simp_all add: tagged_def)
  have split: "(K + x) div ?L * ?L = K + x div ?L * ?L" for x
  proof -
    obtain q where q: "K = ?L * q" using LK by (rule dvdE)
    show ?thesis unfolding q by (simp add: algebra_simps)
  qed
  define b c where "b = (a div ?L + 1) * ?L" and "c = e div ?L * ?L"
  have d: "?L dvd b" "?L dvd c" "16 dvd b" "16 dvd c" using L16 dvd_trans by (auto simp: b_def c_def)
  have ab: "a < b" "b \<le> a + ?L" unfolding b_def using dividend_less_div_times [of ?L a] div_times_less_eq_dividend [of a ?L] by (simp_all add: algebra_simps)
  have ce: "c \<le> e" "e < c + ?L" unfolding c_def using dividend_less_div_times [of ?L e] by simp_all
  have bc: "b < c" using ab(2) ce(2) assms(8) by simp
  have "unat (Begin OR (n - 1)) = K + (a div ?L * ?L + (?L - 1))"
    using assms(1,7) unat_or_mask [of j Begin] split [of a] by (simp only: n(2) K) (simp add: add.assoc)
  moreover have "b - 1 = a div ?L * ?L + (?L - 1)" by (simp add: b_def algebra_simps)
  ultimately have tn: "tagged t (b - 1) (Begin OR (n - 1))" using bc ce(1) e t by (simp add: K)
  have "unat (End AND NOT (n - 1)) = K + c"
    using assms(2) unat_and_not_mask [of End j] split [of e] by (simp only: n(2) K c_def)
  then have tc: "tagged t c (End AND NOT (n - 1))" using ce(1) e t by (simp add: K)
  obtain Cur where 1: "label1 (Begin OR (n - 1)) Begin m = Some (Cur, clear_range t a b m)" "tagged t b Cur"
    using label1_ok [OF assms(1) tn ab(1) assms(3) d(3)] bc ce(1) e by auto
  obtain Cur' where 2: "label2 n (End AND NOT (n - 1)) Cur (clear_range t a b m) = Some (Cur', clear_range t a c m)" "tagged t c Cur'"
    using label2_ok [OF 1(2) tc bc, of n "clear_range t a b m"] d(1,2) n(1) ce(1) e ab(1) bc by (auto simp: clear_range_append)
  have "label3 End Cur' (clear_range t a c m) = Some (clear_range t a e m)"
    using label3_ok [OF 2(2) assms(2) ce(1) d(4) assms(4)] ab(1) bc ce(1) by (simp add: clear_range_append)
  with 1(1) 2(1) show ?thesis by blast
qed

lemma arm_mte_tag_and_clear_mem_ok:
  assumes "tagged t a p" "16 dvd a" "16 dvd unat len" "a + unat len \<le> 2 ^ 56" "bit dczid 4 \<or> 2 \<le> unat (dczid AND 15)"
  shows "arm_mte_tag_and_clear_mem dczid p len m = Some (clear_range t a (a + unat len) m)"
proof -
  let ?j = "unat (dczid AND 15) + 2"
  note e = tagged_add [OF assms(1,4)]
  have d: "16 dvd a + unat len" using assms(2,3) by simp
  note slow = label3_ok [OF assms(1) e le_add1 assms(2) d]
  have m4: "(15 :: u64) = mask 4" by (simp add: mask_eq_decr_exp)
  have j: "?j \<le> 17" using unat_and_mask [of dczid 4] unfolding m4 [symmetric] by (simp add: less_Suc_eq_le)
  have n: "push_bit (unat (dczid AND 15)) 4 = (2 ^ ?j :: u64)" by (simp add: push_bit_eq_mult power_add)
  have n2: "unat (push_bit 1 (2 ^ ?j :: u64)) = 2 * 2 ^ ?j"
    using unat_2p [of "Suc ?j", where 'a = 64] j by (simp add: push_bit_eq_mult)
  have "2 ^ Suc ?j \<le> (2 ^ 18 :: nat)" using j by (intro power_increasing) simp_all
  then have lt: "unat (push_bit 1 (2 ^ ?j :: u64)) < 2 ^ 63" "unat len < 2 ^ 63" using assms(4) n2 by simp_all
  have sl: "len <s push_bit 1 (2 ^ ?j) \<longleftrightarrow> unat len < 2 * 2 ^ ?j" using signed_less_nat(1) [OF lt(2,1)] n2 by simp
  show ?thesis
  proof (cases "bit dczid 4 \<or> unat len < 2 * 2 ^ ?j")
    case True
    then show ?thesis using slow sl unfolding arm_mte_tag_and_clear_mem_def Let_def n by auto
  next
    case False
    then have "4 \<le> ?j" "a + 2 * 2 ^ ?j \<le> a + unat len" using assms(5) by simp_all
    from lines_ok [OF assms(1) e assms(2) d refl this(1) j this(2), of m] False sl
    show ?thesis unfolding arm_mte_tag_and_clear_mem_def Let_def n by auto
  qed
qed

section \<open>Choosing a tag\<close>

lemma set_pointer_tag_tagged:
  assumes "t < 16" "unat p < 2 ^ 56"
  shows "tagged t (unat p) (set_pointer_tag p (of_nat t))" "untag_pointer (set_pointer_tag p (of_nat t)) = p"
    "get_pointer_tag (set_pointer_tag p (of_nat t)) = of_nat t"
proof -
  have m: "untag_pointer p = p" using assms(2) by (simp add: word_unat_eq_iff unat_untag_pointer)
  have small: "\<not> bit p i" if "56 \<le> i" for i
  proof -
    have "unat p < 2 ^ i" using assms(2) that by (rule less_le_trans [OF _ power_increasing]) simp_all
    then show ?thesis by (metis bit_iff_odd_drop_bit div_less drop_bit_eq_div even_zero unat_drop_bit unat_eq_0 unsigned_0 bit_unsigned_iff)
  qed
  have "set_pointer_tag p (of_nat t) = push_bit 56 (ucast (of_nat t :: u8)) + p"
    unfolding set_pointer_tag_def m using small by (intro disjunctive_add [symmetric]) (metis bit_push_bit_iff)
  moreover have "unat (push_bit 56 (ucast (of_nat t :: u8)) :: u64) = t * 2 ^ 56"
    using assms(1) by (simp add: unat_push_bit unat_of_nat)
  moreover have "t * 2 ^ 56 \<le> 15 * 2 ^ 56" using assms(1) by (intro mult_le_mono1) simp
  ultimately have u: "unat (set_pointer_tag p (of_nat t)) = t * 2 ^ 56 + unat p"
    using assms(2) by (simp add: unat_add_lt)
  then show "tagged t (unat p) (set_pointer_tag p (of_nat t))" using assms by (simp add: tagged_def)
  show "untag_pointer (set_pointer_tag p (of_nat t)) = p" using u assms(2) by (simp add: word_unat_eq_iff unat_untag_pointer)
  show "get_pointer_tag (set_pointer_tag p (of_nat t)) = of_nat t"
    using u assms by (simp add: word_unat_eq_iff unat_get_pointer_tag unat_of_nat)
qed

text \<open>
  What the architecture documents of \<^verbatim>\<open>IRG\<close>: as long as the mask leaves a tag, the result is the address with some tag
  that the mask does not exclude.
\<close>

definition random_tag :: "(ptr \<Rightarrow> u64 \<Rightarrow> ptr) \<Rightarrow> bool" where
  "random_tag create_random_tag \<longleftrightarrow>
     (\<forall>p tem. unat p < 2 ^ 56 \<longrightarrow> (\<exists>t < 16. \<not> bit tem t) \<longrightarrow>
        (\<exists>t < 16. \<not> bit tem t \<and> create_random_tag p tem = set_pointer_tag p (of_nat t)))"

lemma u4_arr_get_less: "unat (u4_arr_get arr i) < 16"
proof -
  have m: "(0xf :: u8) = mask 4" by (simp add: mask_eq_decr_exp)
  show ?thesis unfolding u4_arr_get_def Let_def m unat_and_mask by simp
qed

lemma bit_tem:
  fixes a b c i :: nat
  assumes "a < 16" "b < 16" "c < 16" "i < 16"
  shows "bit (((push_bit RESERVED_TAG 1 OR push_bit a 1) OR push_bit b 1) OR push_bit c (1 :: u64)) i \<longleftrightarrow> i = 0 \<or> i = a \<or> i = b \<or> i = c"
  using assms by (auto simp: bit_simps RESERVED_TAG_def)

lemma tag_left: "\<exists>t < 16. t \<noteq> 0 \<and> t \<noteq> a \<and> t \<noteq> b \<and> t \<noteq> (c :: nat)"
proof -
  have "card {0, a, b, c} \<le> 4" using card_length [of "[0, a, b, c]"] by simp
  then have "\<not> {..<16} \<subseteq> {0, a, b, c}" using card_mono [of "{0, a, b, c}" "{..<16::nat}"] by auto
  then show ?thesis by blast
qed

section \<open>Properties\<close>

text \<open>
  C38. The assembly that tags and clears memory does so for exactly its range, and ends: for a tagged pointer with an
  aligned address and an aligned length, whatever the cache line size and whether the \<^verbatim>\<open>DC\<close> instructions are available
  or not, the bytes of the range are zero afterwards and carry the pointer's tag, and no other byte or tag changes.
\<close>

theorem arm_mte_tag_and_clear_mem_correct:
  assumes "unat p < 2 ^ 60" "16 dvd unat (untag_pointer p)" "16 dvd unat len" "unat (untag_pointer p) + unat len \<le> 2 ^ 56"
    and "bit dczid 4 \<or> 2 \<le> unat (dczid AND 15)"
  shows "\<exists>m'. arm_mte_tag_and_clear_mem dczid p len m = Some m' \<and>
    (\<forall>x. if unat (untag_pointer p) \<le> unat x \<and> unat x < unat (untag_pointer p) + unat len
         then mte_mem m' x = 0 \<and> mte_tag m' x = get_pointer_tag p
         else mte_mem m' x = mte_mem m x \<and> mte_tag m' x = mte_tag m x)"
proof -
  define t where "t = unat p div 2 ^ 56"
  have t: "t < 16" using assms(1) by (simp add: t_def)
  have tg: "tagged t (unat (untag_pointer p)) p"
    using t by (simp only: tagged_def unat_untag_pointer t_def div_mult_mod_eq) simp
  have g: "get_pointer_tag p = of_nat t" using t by (simp add: word_unat_eq_iff unat_get_pointer_tag unat_of_nat t_def)
  show ?thesis using arm_mte_tag_and_clear_mem_ok [OF tg assms(2-5), of m] by (simp add: clear_range_def g)
qed

theorem arm_mte_tag_and_clear_mem_correct_witness:
  "\<exists>m'. arm_mte_tag_and_clear_mem 4 0x0300000000001010 320 \<lparr>mte_mem = (\<lambda>_. 7), mte_tag = (\<lambda>_. 0)\<rparr> = Some m' \<and>
     mte_mem m' 0x1010 = 0 \<and> mte_tag m' 0x114F = 3 \<and> mte_mem m' 0x1150 = 7 \<and> mte_tag m' 0x100F = 0"
proof -
  have u: "unat (untag_pointer 0x0300000000001010) = 4112" by (simp add: unat_untag_pointer)
  have "unat (4 AND 15 :: u64) = 4" by simp
  then show ?thesis
    using arm_mte_tag_and_clear_mem_correct
      [of "0x0300000000001010" 320 4 "\<lparr>mte_mem = (\<lambda>_. 7), mte_tag = (\<lambda>_. 0)\<rparr>"] u
    by (auto simp: get_pointer_tag_def)
qed

text \<open>
  C39. Tagging a slot keeps neighbours and generations apart: with a random tag instruction that respects its mask, the
  pointer returned has the address of the slot and a tag that is not the reserved one, not the slot's previous one and
  not that of either neighbour; the tag is recorded for this slot and no other, and exactly the slot's memory is
  cleared and tagged with it. The edge slots need no special case: slot 0 and the last slot read the unused ends of the
  array.
\<close>

theorem tag_and_clear_slab_slot_correct:
  assumes "random_tag create_random_tag" "length slot_tags = 129" "slot_idx < 256"
    and "16 dvd unat slot_ptr" "16 dvd unat slot_size" "unat slot_ptr + unat slot_size \<le> 2 ^ 56" "slot_size \<noteq> 0"
    and "bit dczid 4 \<or> 2 \<le> unat (dczid AND 15)"
  shows "\<exists>q tags' m'. tag_and_clear_slab_slot create_random_tag dczid slot_tags slot_ptr slot_idx slot_size m = Some (q, tags', m') \<and>
    untag_pointer q = slot_ptr \<and> get_pointer_tag q \<noteq> 0 \<and>
    (\<forall>i \<in> {slot_idx, slot_idx + 1, slot_idx + 2}. get_pointer_tag q \<noteq> u4_arr_get slot_tags i) \<and>
    (\<forall>i. u4_arr_get tags' i = (if i = slot_idx + 1 then get_pointer_tag q else u4_arr_get slot_tags i)) \<and>
    (\<forall>x. if unat slot_ptr \<le> unat x \<and> unat x < unat slot_ptr + unat slot_size
         then mte_mem m' x = 0 \<and> mte_tag m' x = get_pointer_tag q
         else mte_mem m' x = mte_mem m x \<and> mte_tag m' x = mte_tag m x)"
proof -
  let ?g = "\<lambda>i. unat (u4_arr_get slot_tags i)"
  let ?tem = "((push_bit RESERVED_TAG 1 OR push_bit (?g slot_idx) 1) OR push_bit (?g (slot_idx + 1)) 1) OR push_bit (?g (slot_idx + 2)) (1 :: u64)"
  note tem = bit_tem [OF u4_arr_get_less u4_arr_get_less u4_arr_get_less, of _ slot_tags slot_idx slot_tags "slot_idx + 1" slot_tags "slot_idx + 2"]
  have sp: "unat slot_ptr < 2 ^ 56" using assms(6,7) by (simp add: unat_gt_0 [symmetric] del: unat_gt_0)
  have "\<exists>t < 16. \<not> bit ?tem t" using tag_left tem by blast
  then obtain t where t: "t < 16" "\<not> bit ?tem t" "create_random_tag slot_ptr ?tem = set_pointer_tag slot_ptr (of_nat t)"
    using assms(1) sp unfolding random_tag_def by blast
  have ne: "t \<noteq> 0" "t \<noteq> ?g slot_idx" "t \<noteq> ?g (slot_idx + 1)" "t \<noteq> ?g (slot_idx + 2)" using t(2) tem [OF t(1)] by simp_all
  have ut: "unat (of_nat t :: u8) = t" using t(1) by (simp add: unat_of_nat)
  note q = set_pointer_tag_tagged [OF t(1) sp]
  note clear = arm_mte_tag_and_clear_mem_ok [OF q(1) assms(4-6,8), of m]
  have "(slot_idx + 1) div 2 < length slot_tags" using assms(2,3) by simp
  note set = u4_arr_get_set [OF this, of "of_nat t"]
  have run: "tag_and_clear_slab_slot create_random_tag dczid slot_tags slot_ptr slot_idx slot_size m =
      Some (set_pointer_tag slot_ptr (of_nat t), u4_arr_set slot_tags (slot_idx + 1) (of_nat t), clear_range t (unat slot_ptr) (unat slot_ptr + unat slot_size) m)"
    unfolding tag_and_clear_slab_slot_def Let_def t(3) clear option.case q(3) ..
  have "(of_nat t :: u8) \<noteq> 0" "of_nat t \<noteq> u4_arr_get slot_tags slot_idx" "of_nat t \<noteq> u4_arr_get slot_tags (slot_idx + 1)"
    "of_nat t \<noteq> u4_arr_get slot_tags (slot_idx + 2)" using ne ut by auto
  then show ?thesis
    unfolding run using q(2,3) set ut t(1) by (intro exI conjI) (auto simp: clear_range_def)
qed

text \<open>An instruction that always takes the least tag it may.\<close>

definition least_tag :: "ptr \<Rightarrow> u64 \<Rightarrow> ptr" where
  "least_tag p tem =
     (case List.find (\<lambda>t. \<not> bit tem t) [0..<16] of None \<Rightarrow> p | Some t \<Rightarrow> set_pointer_tag p (of_nat t))"

lemma least_tag_random: "random_tag least_tag"
  unfolding random_tag_def
proof (intro allI impI)
  fix p tem :: u64
  assume ex: "\<exists>t < 16. \<not> bit tem t"
  show "\<exists>t < 16. \<not> bit tem t \<and> least_tag p tem = set_pointer_tag p (of_nat t)"
  proof (cases "List.find (\<lambda>t. \<not> bit tem t) [0..<16]")
    case None
    then show ?thesis using ex by (simp add: find_None_iff)
  next
    case (Some t)
    moreover from this have "t < 16" "\<not> bit tem t" by (simp_all add: find_upt_Some)
    ultimately show ?thesis by (auto simp: least_tag_def)
  qed
qed

theorem tag_and_clear_slab_slot_correct_witness:
  "\<exists>q tags' m'. tag_and_clear_slab_slot least_tag 4 (replicate 129 0x11) 0x1000 5 64 \<lparr>mte_mem = (\<lambda>_. 7), mte_tag = (\<lambda>_. 0)\<rparr> =
      Some (q, tags', m') \<and> get_pointer_tag q \<noteq> 0 \<and> get_pointer_tag q \<noteq> 1 \<and> untag_pointer q = 0x1000 \<and> mte_mem m' 0x1000 = 0"
proof -
  have g: "u4_arr_get (replicate 129 0x11) 5 = 1" by (simp add: u4_arr_get_def)
  have "unat (4 AND 15 :: u64) = 4" by simp
  then show ?thesis
    using tag_and_clear_slab_slot_correct [OF least_tag_random, of "replicate 129 0x11" 5 "0x1000" 64 4
        "\<lparr>mte_mem = (\<lambda>_. 7), mte_tag = (\<lambda>_. 0)\<rparr>"] g
    by fastforce
qed

end
