(* ===== verification/Fatal.thy ===== *)
theory Fatal
  imports Kernel
begin

text \<open>
  \<^verbatim>\<open>src/util.c\<close>: the message that a failed check leaves on standard error before the process is aborted. The system call
  \<^verbatim>\<open>write\<close> is a parameter, which may write less than it is asked to, be interrupted by signals or fail; it is given the
  number of the call, so that it may behave differently each time. A count beyond the length of the buffer, which \<^verbatim>\<open>write\<close>
  never returns, stands for the whole buffer.
\<close>

section \<open>Writing a string\<close>

datatype write_result = Wrote nat | Write_error errno

type_synonym writer = "nat \<Rightarrow> string \<Rightarrow> write_result"

text \<open>
  \<^verbatim>\<open>write_full\<close>, with the number of system calls made so far and the text on standard error; the first component of the
  result is \<open>True\<close> for \<^verbatim>\<open>-1\<close>. The \<^verbatim>\<open>continue\<close> of the loop goes to its condition. \<open>None\<close> is a run that does not end.
\<close>

partial_function (option) write_full :: "writer \<Rightarrow> string \<Rightarrow> nat \<Rightarrow> string \<Rightarrow> (bool \<times> nat \<times> string) option" where
  "write_full os_write buf n out =
     (case os_write n buf of
        Write_error e \<Rightarrow>
          if e = EINTR then
            if buf \<noteq> [] then write_full os_write buf (n + 1) out else Some (False, n + 1, out)
          else Some (True, n + 1, out)
      | Wrote k \<Rightarrow>
          if drop k buf \<noteq> [] then write_full os_write (drop k buf) (n + 1) (out @ take k buf)
          else Some (False, n + 1, out @ take k buf))"

text \<open>The text that \<^verbatim>\<open>fatal_error\<close> leaves before it calls \<^verbatim>\<open>abort\<close>.\<close>

definition fatal_error :: "writer \<Rightarrow> string \<Rightarrow> string option" where
  "fatal_error os_write s =
     (case write_full os_write ''fatal allocator error: '' 0 [] of
        None \<Rightarrow> None
      | Some (failed, n, out) \<Rightarrow>
          if failed then Some out
          else
            (case write_full os_write s n out of
               None \<Rightarrow> None
             | Some (failed, n, out) \<Rightarrow>
                 if failed then Some out
                 else map_option (\<lambda>(_, _, out). out) (write_full os_write [CHR 0x0A] n out)))"

section \<open>Facts\<close>

lemma write_full_prefix:
  assumes "write_full os_write buf n out = Some r"
  shows "\<exists>rest. out @ buf = snd (snd r) @ rest \<and> (\<not> fst r \<longrightarrow> rest = [])"
proof (rule write_full.raw_induct [OF _ assms, where P = "\<lambda>os_write buf n out r.
    \<exists>rest. out @ buf = snd (snd r) @ rest \<and> (\<not> fst r \<longrightarrow> rest = [])"])
  fix loop :: "writer \<Rightarrow> string \<Rightarrow> nat \<Rightarrow> string \<Rightarrow> (bool \<times> nat \<times> string) option" and os_write buf n out r
  assume IH: "\<And>os_write buf n out r. loop os_write buf n out = Some r \<Longrightarrow>
      \<exists>rest. out @ buf = snd (snd r) @ rest \<and> (\<not> fst r \<longrightarrow> rest = [])"
    and step: "(case os_write n buf of
        Write_error e \<Rightarrow>
          if e = EINTR then if buf \<noteq> [] then loop os_write buf (n + 1) out else Some (False, n + 1, out)
          else Some (True, n + 1, out)
      | Wrote k \<Rightarrow>
          if drop k buf \<noteq> [] then loop os_write (drop k buf) (n + 1) (out @ take k buf)
          else Some (False, n + 1, out @ take k buf)) = Some r"
  show "\<exists>rest. out @ buf = snd (snd r) @ rest \<and> (\<not> fst r \<longrightarrow> rest = [])"
  proof (cases "os_write n buf")
    case (Wrote k)
    then show ?thesis using step IH [of os_write "drop k buf" "n + 1" "out @ take k buf" r] by (cases "drop k buf = []") auto
  next
    case (Write_error e)
    then show ?thesis using step IH [of os_write buf "n + 1" out r] by (auto split: if_splits)
  qed
qed

text \<open>
  The kernel lets a write through now and then (at least one byte of what is left), and signals are the only reason for
  which it fails.
\<close>

definition only_interrupted :: "writer \<Rightarrow> bool" where
  "only_interrupted os_write \<longleftrightarrow> (\<forall>n buf e. os_write n buf = Write_error e \<longrightarrow> e = EINTR)"

definition progresses :: "writer \<Rightarrow> bool" where
  "progresses os_write \<longleftrightarrow> (\<forall>n. \<exists>m \<ge> n. \<forall>buf. buf \<noteq> [] \<longrightarrow> (\<exists>k > 0. os_write m buf = Wrote k))"

lemma write_full_returns:
  assumes "only_interrupted os_write" "progresses os_write"
  shows "\<exists>n'. write_full os_write buf n out = Some (False, n', out @ buf)"
proof (induction "length buf" arbitrary: buf n out rule: less_induct)
  case less
  obtain m where m: "m \<ge> n" "\<And>b. b \<noteq> [] \<Longrightarrow> \<exists>k > 0. os_write m b = Wrote k"
    using assms(2) unfolding progresses_def by blast
  have "\<exists>n'. write_full os_write buf i out = Some (False, n', out @ buf)" if "i \<le> m" for i
    using that
  proof (induction rule: inc_induct)
    case base
    show ?case
    proof (cases "buf = []")
      case True
      then show ?thesis using assms(1) write_full.simps [of os_write buf m out]
        by (cases "os_write m buf") (auto simp: only_interrupted_def)
    next
      case False
      then obtain k where k: "0 < k" "os_write m buf = Wrote k" using m(2) by blast
      have "length (drop k buf) < length buf" using k(1) False by (cases buf) auto
      from less [OF this, of "m + 1" "out @ take k buf"] show ?thesis
        using k(2) write_full.simps [of os_write buf m out] by auto
    qed
  next
    case (step i)
    show ?case
    proof (cases "os_write i buf")
      case (Write_error e)
      then have "e = EINTR" using assms(1) by (simp add: only_interrupted_def)
      then show ?thesis using Write_error step.IH write_full.simps [of os_write buf i out] by auto
    next
      case (Wrote k)
      show ?thesis
      proof (cases "k = 0")
        case True
        then show ?thesis using Wrote step.IH write_full.simps [of os_write buf i out] by auto
      next
        case False
        show ?thesis
        proof (cases "drop k buf = []")
          case True
          then show ?thesis using Wrote write_full.simps [of os_write buf i out] by auto
        next
          case nonempty: False
          then have "length (drop k buf) < length buf" using False by (cases buf) auto
          from less [OF this, of "i + 1" "out @ take k buf"] show ?thesis
            using Wrote nonempty write_full.simps [of os_write buf i out] by auto
        qed
      qed
    qed
  qed
  from this [OF m(1)] show ?case .
qed

section \<open>Properties\<close>

text \<open>
  C40. The message of a fatal error: whatever the system call does, the text on standard error is a beginning of the prefix,
  the message and a line feed; and when it fails only because of signals and keeps making progress, the function comes to
  its \<^verbatim>\<open>abort\<close> with the whole text written, however it was cut into pieces.
\<close>

theorem fatal_error_message:
  shows "(\<forall>out. fatal_error os_write s = Some out \<longrightarrow>
      (\<exists>rest. ''fatal allocator error: '' @ s @ [CHR 0x0A] = out @ rest)) \<and>
    (only_interrupted os_write \<and> progresses os_write \<longrightarrow>
      fatal_error os_write s = Some (''fatal allocator error: '' @ s @ [CHR 0x0A]))"
proof (intro conjI allI impI)
  fix out assume f: "fatal_error os_write s = Some out"
  obtain failed n out1 where 1: "write_full os_write ''fatal allocator error: '' 0 [] = Some (failed, n, out1)"
    using f by (auto simp: fatal_error_def split: option.splits)
  note p1 = write_full_prefix [OF 1]
  show "\<exists>rest. ''fatal allocator error: '' @ s @ [CHR 0x0A] = out @ rest"
  proof (cases failed)
    case True
    then show ?thesis using f 1 p1 by (auto simp: fatal_error_def) (metis append.assoc append_Cons append_Nil)
  next
    case False
    then have o1: "out1 = ''fatal allocator error: ''" using p1 by auto
    obtain failed2 n2 out2 where 2: "write_full os_write s n out1 = Some (failed2, n2, out2)"
      using f 1 False by (auto simp: fatal_error_def split: option.splits)
    note p2 = write_full_prefix [OF 2]
    show ?thesis
    proof (cases failed2)
      case True
      then show ?thesis using f 1 2 False p2 o1 by (auto simp: fatal_error_def) (metis append.assoc append_Cons append_Nil)
    next
      case ok: False
      then have o2: "out2 = out1 @ s" using p2 by auto
      obtain failed3 n3 where 3: "write_full os_write [CHR 0x0A] n2 out2 = Some (failed3, n3, out)"
        using f 1 2 False ok by (auto simp: fatal_error_def)
      from write_full_prefix [OF 3] show ?thesis unfolding o2 o1 by auto
    qed
  qed
next
  assume "only_interrupted os_write \<and> progresses os_write"
  then have w: "\<exists>n'. write_full os_write buf n out = Some (False, n', out @ buf)" for buf n out
    using write_full_returns by blast
  obtain n where 1: "write_full os_write ''fatal allocator error: '' 0 [] = Some (False, n, ''fatal allocator error: '')"
    using w [of "''fatal allocator error: ''" 0 "[]"] by auto
  obtain n2 where 2: "write_full os_write s n ''fatal allocator error: '' = Some (False, n2, ''fatal allocator error: '' @ s)"
    using w by blast
  obtain n3 where "write_full os_write [CHR 0x0A] n2 (''fatal allocator error: '' @ s) = Some (False, n3, (''fatal allocator error: '' @ s) @ [CHR 0x0A])"
    using w by blast
  then show "fatal_error os_write s = Some (''fatal allocator error: '' @ s @ [CHR 0x0A])" by (simp add: fatal_error_def 1 2)
qed

text \<open>A terminal that takes one byte at a time and is interrupted every other call.\<close>

theorem fatal_error_message_witness:
  "fatal_error (\<lambda>n buf. if even n then Write_error EINTR else Wrote 1) ''double free'' =
     Some (''fatal allocator error: double free'' @ [CHR 0x0A])"
proof -
  let ?w = "\<lambda>n buf. if even n then Write_error EINTR else Wrote 1"
  have "\<exists>m \<ge> n. odd m" for n :: nat by (cases "even n") (auto intro: exI [of _ n] exI [of _ "Suc n"])
  then have "only_interrupted ?w" "progresses ?w"
    by (auto simp: only_interrupted_def progresses_def split: if_splits)
  with fatal_error_message [of ?w "''double free''"] show ?thesis by simp
qed

end
