(* ===== verification/Spec2Isabelle.thy ===== *)
theory Spec2Isabelle
  imports Heap_Properties New_Correct Stats_Correct Slab_Bitmap Locks Memtag Fatal
begin

text \<open>
  A verification library of hardened_malloc, a memory allocator in C that puts the detection and containment of heap
  errors first. The theories translate the allocator, from the bit tricks of \<^verbatim>\<open>src/util.h\<close> to the exported functions
  of \<^verbatim>\<open>src/h_malloc.c\<close> and the C++ operators of \<^verbatim>\<open>src/new.cc\<close>, into HOL functions on an explicit state, and prove
  what the allocator owes its clients.

  \<^bold>\<open>The program.\<close> A request goes through \<^verbatim>\<open>h_malloc\<close> and its relatives to \<^verbatim>\<open>allocate\<close>. Up to \<^verbatim>\<open>max_slab_size_class\<close>
  bytes it is served by \<^verbatim>\<open>allocate_small\<close> from a slab of its size class, in the arena of the thread: every class of every
  arena has a region of address space, cut into slabs of equal slots, with the metadata elsewhere, a random number
  generator, lists of partially used, empty and purged slabs, and quarantines that delay the reuse of a freed slot.
  Larger requests get a mapping of their own between guard regions of random size (\<^verbatim>\<open>allocate_large\<close>), and an entry in
  a hash table, the region allocator, which has a quarantine of its own. An address that is given back is looked up by
  arithmetic (it lies in the slab region, and its offset gives arena, class, slab and slot) or in the table; anything
  that does not fit, a second free, an address inside a block, a wrong size, a damaged canary, a write to freed memory,
  ends the process with \<^verbatim>\<open>fatal_error\<close>.

  \<^bold>\<open>How the code is modelled.\<close> A C function that may end the process or run for ever returns an \<open>outcome\<close>
  (\<^theory_text>\<open>Prelude\<close>): \<open>Returned\<close> with its results, \<open>Aborted\<close> with the message of \<^verbatim>\<open>fatal_error\<close>, or \<open>Diverged\<close>.
  State is passed explicitly: records \<open>slab_metadata\<close>, \<open>size_class\<close>, \<open>region_allocator\<close>, \<open>state\<close> mirror the structures
  of the source, and \<open>world\<close> holds the contents of memory, \<^verbatim>\<open>errno\<close> and the system calls made so far. Machine integers
  are words of their width, pointers 64-bit words (only the byte counts of the key stream and of the random bytes are
  natural numbers, far below any bound in all their uses); pointers to slab metadata and table entries are indices. Macros of the
  build are the fields of the record \<open>config\<close>, so that one model covers every build that \<open>config_valid\<close> (the static
  assertions) admits. Loops that the code bounds are structural recursion. Loops that nothing in the code bounds are
  partial functions, whose result \<open>None\<close> (\<open>Diverged\<close> above them) is not returning: the probing of the hash table, the
  search for a free slot, rejection sampling, the retries of \<^verbatim>\<open>getrandom\<close> and \<^verbatim>\<open>write\<close>, the out-of-memory handlers of
  C++, the list walk of \<^verbatim>\<open>malloc_trim\<close>, and the jumps of the tagging assembly. There is no fuel anywhere. That they end is
  proved where it holds; of sampling and retries it is proved under which behaviour of the system they do.

  \<^bold>\<open>Theories and sources.\<close>
  \<^item> \<^theory_text>\<open>Prelude\<close>, \<^theory_text>\<open>Contract\<close>: outcomes and generic facts; the abstract allocator, a set of addresses handed out, as
    a locale \<open>allocator\<close> in which every sequence of calls is shown to be one of the abstract machine. It is interpreted
    for a size class, for the region table (through the locale \<open>region_index\<close>) and for the whole allocator.
  \<^item> \<^theory_text>\<open>Util\<close> (\<^verbatim>\<open>util.h\<close>), \<^theory_text>\<open>Fatal\<close> (\<^verbatim>\<open>util.c\<close>), \<^theory_text>\<open>Kernel\<close> (\<^verbatim>\<open>memory.c\<close>), \<^theory_text>\<open>Pages\<close> (\<^verbatim>\<open>pages.c\<close>): bit scans,
    error messages, wrappers of the system calls, guarded page allocation.
  \<^item> \<^theory_text>\<open>Libdivide\<close> (the parts of \<^verbatim>\<open>third_party/libdivide.h\<close> in use; locale \<open>divider\<close> for both widths), \<^theory_text>\<open>Chacha\<close>
    (\<^verbatim>\<open>chacha.c\<close>), \<^theory_text>\<open>Random_State\<close> (\<^verbatim>\<open>random.c\<close>; locale \<open>sampler\<close> for the three widths). Proofs about seeds: \<^theory_text>\<open>Random_Correct\<close>.
  \<^item> \<^theory_text>\<open>Config\<close>, \<^theory_text>\<open>Size_Classes\<close>: options and derived constants; the tables and \<^verbatim>\<open>get_size_info\<close>,
    \<^verbatim>\<open>get_size_info_align\<close>, \<^verbatim>\<open>get_large_size_class\<close>.
  \<^item> \<^theory_text>\<open>Slab_Metadata\<close> (bitmaps as the locale \<open>slot_set\<close>, canaries, write-after-free check; \<^theory_text>\<open>Slab_Bitmap\<close> for
    the build that counts in the bitmap) and \<^theory_text>\<open>Slab_Allocator\<close>: one size class, \<^verbatim>\<open>alloc_metadata\<close> to
    \<^verbatim>\<open>deallocate_small\<close>. Proofs: \<^theory_text>\<open>Slab_Invariant\<close>, \<^theory_text>\<open>Slab_Correct\<close>, \<^theory_text>\<open>Slab_Quarantine\<close>, \<^theory_text>\<open>Slab_Counters\<close>,
    \<^theory_text>\<open>Slab_Mappings\<close>, \<^theory_text>\<open>Slab_Properties\<close>.
  \<^item> \<^theory_text>\<open>Regions\<close> (hash table and quarantine of large allocations), \<^theory_text>\<open>Large\<close> (\<^verbatim>\<open>allocate_large\<close>, \<^verbatim>\<open>deallocate_large\<close>,
    the two in-place paths of \<^verbatim>\<open>h_realloc\<close>). Proofs: \<^theory_text>\<open>Region_Table\<close>, \<^theory_text>\<open>Address_Space\<close>, \<^theory_text>\<open>Region_Properties\<close>,
    \<^theory_text>\<open>Large_Correct\<close>.
  \<^item> \<^theory_text>\<open>Malloc_State\<close>, \<^theory_text>\<open>Init\<close>, \<^theory_text>\<open>Api\<close>, \<^theory_text>\<open>Trim\<close>, \<^theory_text>\<open>Stats\<close>, \<^theory_text>\<open>Locks\<close> (with \<^verbatim>\<open>mutex.h\<close>): the global state and
    dispatch, initialisation and fork, the exported functions, trimming, statistics, locking. \<^theory_text>\<open>New\<close>: the operators of
    \<^verbatim>\<open>new.cc\<close>. \<^theory_text>\<open>Memtag\<close>: \<^verbatim>\<open>memtag.h\<close>, \<^verbatim>\<open>arm_mte.h\<close> and the tagging of a slot.
  \<^item> Proofs on the whole allocator: \<^theory_text>\<open>Heap_Invariant\<close>, \<^theory_text>\<open>Heap_Correct\<close>, \<^theory_text>\<open>Heap_Blocks\<close>, \<^theory_text>\<open>Heap_Init\<close>,
    \<^theory_text>\<open>Heap_Api\<close>, \<^theory_text>\<open>Heap_Trim\<close>, \<^theory_text>\<open>Heap_Reach\<close>, \<^theory_text>\<open>Heap_Inspect\<close>, \<^theory_text>\<open>Heap_Sized\<close>, \<^theory_text>\<open>Heap_Contents\<close>,
    \<^theory_text>\<open>Heap_Fork\<close>, \<^theory_text>\<open>Stats_Read\<close> (a reader of the report), \<^theory_text>\<open>Stats_Correct\<close>, \<^theory_text>\<open>New_Correct\<close>; a complete run in \<^theory_text>\<open>Heap_Example\<close>; the properties in \<^theory_text>\<open>Heap_Properties\<close>.

  \<^bold>\<open>What is proved.\<close> The inductive predicate \<open>reach\<close> describes the states that a process can bring the allocator into:
  any calls with any arguments, in any order, interleaved with threads, forks, writes of the program anywhere into memory
  and changes of mappings that the allocator does not own. The invariant \<open>heap_inv\<close> (class invariants, placement of the
  regions, ownership of the address space, accounting) holds in all of them, and from it:
  \<^item> the allocator refines the abstract machine: what it returns is not live, what it accepts for release is live;
  \<^item> blocks behind two live addresses are disjoint, have room for what was asked in the part before their canary (its
    size is \<open>usable_size\<close>) and the alignment that was asked for;
  \<^item> calls served from slabs write to no live block, and \<^verbatim>\<open>realloc\<close> carries over the data;
  \<^item> errors: \<^verbatim>\<open>free\<close> and its sized forms end the process for every address that is not live and every wrong size;
    overflowing products are refused; canaries and the check for writes after free detect every change;
  \<^item> \<^verbatim>\<open>malloc_usable_size\<close>, \<^verbatim>\<open>malloc_object_size\<close>, \<^verbatim>\<open>mallinfo2\<close> and \<^verbatim>\<open>malloc_info\<close> report what is there;
    the report of the last is read back from its text; \<^verbatim>\<open>malloc_trim\<close> returns, and releases unused memory only; each
    generator of the child of a fork has a seed of its own, from calls of \<^verbatim>\<open>getrandom\<close> made during the fork;
  \<^item> the components on their own: the hash table is a finite map and each operation on it ends; division by multiplication
    is exact; bounded random numbers are unbiased; a generator is seeded again before it has handed out too many bytes; the key
    stream is that of ChaCha8; a large mapping that leaves the quarantine is unmapped, if the system lets it; the class arithmetic agrees with the
    tables; the locks cannot deadlock; C++ operators throw exactly where they may; tags keep neighbours apart.

  \<^bold>\<open>Hypotheses.\<close> Theorems name what they use of code outside the repository. \<open>sane_kernel\<close>: \<^verbatim>\<open>mmap\<close> returns page
  aligned addresses of unmapped memory that do not wrap around. \<open>confined\<close>: \<^verbatim>\<open>mprotect\<close> changes no byte, and a
  \<^verbatim>\<open>MAP_FIXED\<close> mapping or \<^verbatim>\<open>MADV_DONTNEED\<close> none outside its pages. \<open>only_ENOMEM\<close>: system calls fail for lack of memory only.
  \<open>handlers_ok\<close>: out-of-memory handlers use the allocator through its functions. \<open>random_tag\<close>: the tag instruction respects its
  mask. \<open>only_interrupted\<close>, \<open>progresses\<close>: \<^verbatim>\<open>write\<close> fails by interruption only, and not for ever. Apart from these a
  class region is a whole number of pages (\<open>4096 dvd CONFIG_CLASS_REGION_SIZE\<close>), which the static assertions do not
  demand and all shipped configurations satisfy. Each hypothesis holds of the concrete kernel of \<^theory_text>\<open>Heap_Example\<close> or
  another concrete instance, on which the theorems are evaluated.

  \<^bold>\<open>Not modelled.\<close> Protection keys (\<^verbatim>\<open>USE_PKEY\<close>, off by default) and the labels of mappings (\<^verbatim>\<open>prctl\<close>), which leave no
  trace in the state; the variants of the wrappers in \<^verbatim>\<open>memory.c\<close> for memory tagging, and slabs with tagged pointers:
  \<^theory_text>\<open>Memtag\<close> has the tagging of a slot alone; branches for Android apart from the statistics; \<^verbatim>\<open>malloc_iterate\<close>, which only
  aborts; \<^verbatim>\<open>include/h_malloc.h\<close>, which only declares and renames; the macros and attributes of \<^verbatim>\<open>util.h\<close>. Each call is one
  step of the model. The locks that make it so for a class are in \<^theory_text>\<open>Locks\<close>; that a large allocation takes the lock of
  the region allocator more than once, between which other calls may run, is not followed. Of the contents of memory the
  theorems speak for slabs and for \<^verbatim>\<open>malloc_trim\<close>; where the arrays of the region table lie is not part of the
  invariant. The counter \<^verbatim>\<open>slab_allocated\<close> is modelled, with no theorem about it.
\<close>

end
